(* ===== verification/Prelude.thy ===== *)
theory Prelude
  imports Main "HOL-Library.AList" "HOL-Library.Word"
begin

text \<open>
  Shared vocabulary of the development: the machine integers of the Rust sources, the operations
  of Rust's \<open>str\<close>, \<open>Option\<close>, \<open>Vec\<close> and \<open>HashMap\<close> that the components call, and the generic
  lemmas about them.

  A Rust \<open>String\<close> is its UTF-8 byte sequence, written as an Isabelle \<open>string\<close> (one \<open>char\<close> per
  byte), so \<open>length\<close> is Rust's \<open>len\<close>.  A \<open>HashMap\<close> is an association list whose order is its
  iteration order; the laws every client uses are those of the locale \<open>key_map\<close>, interpreted
  below on the association lists.
\<close>

named_theorems rust_str \<open>unfolding rules for the operations of Rust's str\<close>
named_theorems store_inv \<open>preservation of store invariants\<close>

type_synonym u8 = "8 word"
type_synonym u32 = "32 word"
type_synonym u64 = "64 word"
type_synonym ('k, 'v) hashmap = "('k \<times> 'v) list"

section \<open>Rust's str\<close>

definition is_ascii_char :: "char \<Rightarrow> bool" where
  "is_ascii_char c \<longleftrightarrow> (of_char c :: nat) < 128"

definition is_ascii :: "string \<Rightarrow> bool" where
  "is_ascii s \<longleftrightarrow> list_all is_ascii_char s"

definition in_range :: "char \<Rightarrow> char \<Rightarrow> char \<Rightarrow> bool" where
  "in_range lo hi c \<longleftrightarrow> (of_char lo :: nat) \<le> of_char c \<and> (of_char c :: nat) \<le> of_char hi"

definition is_ascii_lowercase :: "char \<Rightarrow> bool" where
  "is_ascii_lowercase c = in_range CHR ''a'' CHR ''z'' c"

definition to_ascii_lowercase :: "char \<Rightarrow> char" where
  "to_ascii_lowercase c =
     (if in_range CHR ''A'' CHR ''Z'' c then char_of ((of_char c :: nat) + 32) else c)"

definition to_ascii_uppercase :: "char \<Rightarrow> char" where
  "to_ascii_uppercase c =
     (if in_range CHR ''a'' CHR ''z'' c then char_of ((of_char c :: nat) - 32) else c)"

definition eq_ignore_ascii_case :: "string \<Rightarrow> string \<Rightarrow> bool" where
  "eq_ignore_ascii_case s t \<longleftrightarrow> map to_ascii_lowercase s = map to_ascii_lowercase t"

text \<open>\<open>split_once\<close> stops at the first occurrence of the separator.\<close>

fun split_once :: "'a \<Rightarrow> 'a list \<Rightarrow> ('a list \<times> 'a list) option" where
  "split_once c [] = None"
| "split_once c (x # xs) =
     (if x = c then Some ([], xs) else map_option (apfst (Cons x)) (split_once c xs))"

text \<open>\<open>str::split\<close>: always at least one segment.\<close>

fun split_on :: "'a \<Rightarrow> 'a list \<Rightarrow> 'a list list" where
  "split_on c [] = [[]]"
| "split_on c (x # xs) =
     (if x = c then [] # split_on c xs
      else (case split_on c xs of [] \<Rightarrow> [[x]] | s # ss \<Rightarrow> (x # s) # ss))"

definition starts_with :: "'a list \<Rightarrow> 'a list \<Rightarrow> bool" where
  "starts_with s p \<longleftrightarrow> take (length p) s = p"

definition strip_prefix :: "'a list \<Rightarrow> 'a list \<Rightarrow> 'a list option" where
  "strip_prefix p s = (if starts_with s p then Some (drop (length p) s) else None)"

definition trim_end_matches :: "'a \<Rightarrow> 'a list \<Rightarrow> 'a list" where
  "trim_end_matches c s = rev (dropWhile (\<lambda>x. x = c) (rev s))"

definition is_utf8_continuation :: "char \<Rightarrow> bool" where
  "is_utf8_continuation c \<longleftrightarrow> 128 \<le> (of_char c :: nat) \<and> (of_char c :: nat) < 192"

definition is_char_boundary :: "nat \<Rightarrow> string \<Rightarrow> bool" where
  "is_char_boundary n s \<longleftrightarrow>
     n = 0 \<or> n = length s \<or> (n < length s \<and> \<not> is_utf8_continuation (s ! n))"

definition split_at_checked :: "nat \<Rightarrow> string \<Rightarrow> (string \<times> string) option" where
  "split_at_checked n s = (if is_char_boundary n s then Some (take n s, drop n s) else None)"

definition hex_digit :: "char \<Rightarrow> nat option" where
  "hex_digit c =
     (if in_range CHR ''0'' CHR ''9'' c then Some (of_char c - 48)
      else if in_range CHR ''a'' CHR ''f'' c then Some (of_char c - 87)
      else if in_range CHR ''A'' CHR ''F'' c then Some (of_char c - 55)
      else None)"

fun hex_digits_u8 :: "nat \<Rightarrow> string \<Rightarrow> nat option" where
  "hex_digits_u8 acc [] = Some acc"
| "hex_digits_u8 acc (c # cs) =
     (case hex_digit c of
        None \<Rightarrow> None
      | Some d \<Rightarrow> if 16 * acc + d < 256 then hex_digits_u8 (16 * acc + d) cs else None)"

text \<open>
  \<open>u8::from_str_radix(s, 16)\<close>: the empty string is an error, one leading \<open>+\<close> is skipped when
  digits follow it, any other non-digit (so also \<open>-\<close>, as the type is unsigned) is an error.
\<close>

definition u8_from_str_radix_16 :: "string \<Rightarrow> nat option" where
  "u8_from_str_radix_16 s =
     (case s of
        [] \<Rightarrow> None
      | c # cs \<Rightarrow> if c = CHR ''+'' \<and> cs \<noteq> [] then hex_digits_u8 0 cs else hex_digits_u8 0 s)"

text \<open>\<open>u64::to_string\<close>.\<close>

fun decimal :: "nat \<Rightarrow> string" where
  "decimal n = (if n < 10 then [char_of (48 + n)] else decimal (n div 10) @ [char_of (48 + n mod 10)])"

declare decimal.simps [simp del]

section \<open>Vec and Option\<close>

text \<open>\<open>iter().flatten()\<close> on a vector of options.\<close>

definition flatten_opts :: "'a option list \<Rightarrow> 'a list" where
  "flatten_opts xs = List.map_filter id xs"

text \<open>
  \<open>iter_mut().find(p)\<close> followed by an overwrite of the element found, and the same with
  \<open>rfind\<close>; \<open>None\<close> when no element matches.
\<close>

fun replace_first :: "('a \<Rightarrow> bool) \<Rightarrow> 'a \<Rightarrow> 'a list \<Rightarrow> 'a list option" where
  "replace_first p y [] = None"
| "replace_first p y (x # xs) =
     (if p x then Some (y # xs) else map_option (Cons x) (replace_first p y xs))"

definition replace_last :: "('a \<Rightarrow> bool) \<Rightarrow> 'a \<Rightarrow> 'a list \<Rightarrow> 'a list option" where
  "replace_last p y xs = map_option rev (replace_first p y (rev xs))"

text \<open>\<open>slice::chunks(n)\<close>; the sources only call it with a positive size.\<close>

function chunks :: "nat \<Rightarrow> 'a list \<Rightarrow> 'a list list" where
  "chunks n xs = (if xs = [] \<or> n = 0 then [] else take n xs # chunks n (drop n xs))"
  by pat_completeness auto
termination
  by (relation "measure (\<lambda>(n, xs). length xs)") auto

declare chunks.simps [simp del]

section \<open>Fallible code\<close>

text \<open>
  A call that may panic (\<open>expect\<close>, \<open>unwrap\<close>, \<open>assert!\<close>) or return an error has a sum as its
  result, the failure on the left.  \<open>fold_res\<close> is a loop whose body may fail: it stops at the
  first failure, as \<open>?\<close> and a panic do.
\<close>

datatype panic = Panic string

primrec fold_res :: "('a \<Rightarrow> 's \<Rightarrow> 'e + 's) \<Rightarrow> 'a list \<Rightarrow> 's \<Rightarrow> 'e + 's" where
  "fold_res f [] s = Inr s"
| "fold_res f (x # xs) s = (case f x s of Inl e \<Rightarrow> Inl e | Inr s' \<Rightarrow> fold_res f xs s')"

primrec filter_res :: "('a \<Rightarrow> 'e + bool) \<Rightarrow> 'a list \<Rightarrow> 'e + 'a list" where
  "filter_res f [] = Inr []"
| "filter_res f (x # xs) =
     (case f x of
        Inl e \<Rightarrow> Inl e
      | Inr b \<Rightarrow> map_sum id (\<lambda>ys. if b then x # ys else ys) (filter_res f xs))"

definition and_then :: "'e + 'a \<Rightarrow> ('a \<Rightarrow> 'e + 'b) \<Rightarrow> 'e + 'b" where
  "and_then r f = (case r of Inl e \<Rightarrow> Inl e | Inr x \<Rightarrow> f x)"

section \<open>HashMap\<close>

definition hm_get :: "('k, 'v) hashmap \<Rightarrow> 'k \<Rightarrow> 'v option" where
  "hm_get m k = map_of m k"

definition hm_insert :: "'k \<Rightarrow> 'v \<Rightarrow> ('k, 'v) hashmap \<Rightarrow> ('k, 'v) hashmap" where
  "hm_insert k v m = AList.update k v m"

definition hm_remove :: "'k \<Rightarrow> ('k, 'v) hashmap \<Rightarrow> ('k, 'v) hashmap" where
  "hm_remove k m = AList.delete k m"

text \<open>\<open>entry(k).or_insert(d)\<close> followed by a change of the entry in place.\<close>

definition hm_entry :: "'k \<Rightarrow> 'v \<Rightarrow> ('v \<Rightarrow> 'v) \<Rightarrow> ('k, 'v) hashmap \<Rightarrow> ('k, 'v) hashmap" where
  "hm_entry k d f m = hm_insert k (f (case hm_get m k of None \<Rightarrow> d | Some v \<Rightarrow> v)) m"

definition hm_inv :: "('k, 'v) hashmap \<Rightarrow> bool" where
  "hm_inv m \<longleftrightarrow> distinct (map fst m)"


section \<open>The interface of a key-value map\<close>

locale key_map =
  fixes empty :: "'m"
    and get :: "'m \<Rightarrow> 'k \<Rightarrow> 'v option"
    and put :: "'k \<Rightarrow> 'v \<Rightarrow> 'm \<Rightarrow> 'm"
    and del :: "'k \<Rightarrow> 'm \<Rightarrow> 'm"
  assumes get_empty: "get empty k = None"
    and get_put: "get (put k v m) k' = (if k' = k then Some v else get m k')"
    and get_del: "get (del k m) k' = (if k' = k then None else get m k')"
begin

lemma get_put_map: "get (put k v m) = (get m)(k \<mapsto> v)"
  by (rule ext) (simp add: get_put)

lemma get_del_map: "get (del k m) = (get m)(k := None)"
  by (rule ext) (simp add: get_del)

lemma dom_put: "dom (get (put k v m)) = insert k (dom (get m))"
  by (simp add: get_put_map)

lemma dom_del: "dom (get (del k m)) = dom (get m) - {k}"
  by (simp add: get_del_map)

lemma put_put_commute:
  "k \<noteq> k' \<Longrightarrow> get (put k v (put k' v' m)) = get (put k' v' (put k v m))"
  by (auto simp: get_put_map)

end

interpretation hm: key_map "[]" hm_get hm_insert hm_remove
  by unfold_locales (auto simp: hm_get_def hm_insert_def hm_remove_def update_conv' delete_conv')

lemmas hm_simps [simp] = hm.get_empty hm.get_put hm.get_del

lemma hm_inv_empty [simp, store_inv]: "hm_inv []"
  by (simp add: hm_inv_def)

lemma hm_inv_insert [simp, store_inv]: "hm_inv m \<Longrightarrow> hm_inv (hm_insert k v m)"
  by (simp add: hm_inv_def hm_insert_def distinct_update)

lemma hm_inv_remove [simp, store_inv]: "hm_inv m \<Longrightarrow> hm_inv (hm_remove k m)"
  by (simp add: hm_inv_def hm_remove_def distinct_delete)

lemma hm_inv_entry [simp, store_inv]: "hm_inv m \<Longrightarrow> hm_inv (hm_entry k d f m)"
  by (simp add: hm_entry_def)

lemma hm_get_entry [simp]:
  "hm_get (hm_entry k d f m) k' =
     (if k' = k then Some (f (case hm_get m k of None \<Rightarrow> d | Some v \<Rightarrow> v)) else hm_get m k')"
  by (simp add: hm_entry_def)

lemma hm_get_iff_mem: "hm_inv m \<Longrightarrow> hm_get m k = Some v \<longleftrightarrow> (k, v) \<in> set m"
  by (simp add: hm_inv_def hm_get_def)

lemma hm_get_mem: "hm_get m k = Some v \<Longrightarrow> (k, v) \<in> set m"
  by (simp add: hm_get_def map_of_SomeD)

lemma hm_insert_same: "hm_get m k = Some v \<Longrightarrow> hm_insert k v m = m"
  unfolding hm_get_def hm_insert_def by (induction m) (auto split: if_splits)

section \<open>Lemmas on fallible loops\<close>

lemma and_then_simps [simp]: "and_then (Inr x) f = f x" "and_then (Inl e) f = Inl e"
  by (simp_all add: and_then_def)

lemma and_then_Inr: "and_then r f = Inr y \<longleftrightarrow> (\<exists>x. r = Inr x \<and> f x = Inr y)"
  by (cases r) auto

lemma and_then_Inl: "and_then r f = Inl e \<longleftrightarrow> r = Inl e \<or> (\<exists>x. r = Inr x \<and> f x = Inl e)"
  by (cases r) auto

lemma fold_res_append: "fold_res f (xs @ ys) s = and_then (fold_res f xs s) (fold_res f ys)"
  by (induction xs arbitrary: s) (auto split: sum.split)

lemma fold_res_concat: "fold_res f (concat xss) s = fold_res (fold_res f) xss s"
  by (induction xss arbitrary: s) (auto simp: fold_res_append and_then_def split: sum.split)

lemma fold_res_map: "fold_res f (map g xs) = fold_res (f \<circ> g) xs"
proof
  fix s show "fold_res f (map g xs) s = fold_res (f \<circ> g) xs s"
    by (induction xs arbitrary: s) (auto split: sum.split)
qed

lemma filter_res_total:
  assumes "\<And>x. x \<in> set xs \<Longrightarrow> f x = Inr (p x)"
  shows "filter_res f xs = Inr (filter p xs)"
  using assms by (induction xs) auto

section \<open>Lemmas on vectors of options\<close>

lemma flatten_opts_simps [simp]:
  "flatten_opts [] = []"
  "flatten_opts (None # xs) = flatten_opts xs"
  "flatten_opts (Some x # xs) = x # flatten_opts xs"
  "flatten_opts (xs @ ys) = flatten_opts xs @ flatten_opts ys"
  by (simp_all add: flatten_opts_def List.map_filter_def)

lemma set_flatten_opts: "x \<in> set (flatten_opts xs) \<longleftrightarrow> Some x \<in> set xs"
proof (induction xs)
  case (Cons y ys)
  then show ?case by (cases y) auto
qed simp

lemma flatten_opts_rev: "flatten_opts (rev xs) = rev (flatten_opts xs)"
  by (simp add: flatten_opts_def List.map_filter_def rev_filter rev_map)

lemma length_flatten_opts_le: "length (flatten_opts xs) \<le> length xs"
  by (simp add: flatten_opts_def List.map_filter_def)

lemma count_flatten_opts: "count_list (flatten_opts xs) a = count_list xs (Some a)"
proof (induction xs)
  case (Cons x xs)
  then show ?case by (cases x) simp_all
qed simp

lemma replace_first_None: "replace_first p y xs = None \<longleftrightarrow> (\<forall>x \<in> set xs. \<not> p x)"
  by (induction xs) auto

lemma replace_first_Some:
  "replace_first p y xs = Some ys \<Longrightarrow>
     \<exists>us x vs. xs = us @ x # vs \<and> ys = us @ y # vs \<and> p x \<and> (\<forall>u \<in> set us. \<not> p u)"
proof (induction xs arbitrary: ys)
  case (Cons a xs)
  show ?case
  proof (cases "p a")
    case True
    with Cons.prems show ?thesis by (intro exI [of _ "[]"]) auto
  next
    case False
    with Cons.prems obtain zs where zs: "replace_first p y xs = Some zs" "ys = a # zs" by auto
    from Cons.IH [OF zs(1)] obtain us x vs where
      "xs = us @ x # vs" "zs = us @ y # vs" "p x" "\<forall>u \<in> set us. \<not> p u" by blast
    with zs(2) False show ?thesis by (intro exI [of _ "a # us"] exI [of _ x] exI [of _ vs]) auto
  qed
qed simp

lemma replace_last_None: "replace_last p y xs = None \<longleftrightarrow> (\<forall>x \<in> set xs. \<not> p x)"
  by (simp add: replace_last_def replace_first_None)

lemma replace_last_Some:
  assumes "replace_last p y xs = Some ys"
  shows "\<exists>us x vs. xs = us @ x # vs \<and> ys = us @ y # vs \<and> p x \<and> (\<forall>v \<in> set vs. \<not> p v)"
proof -
  from assms obtain zs where zs: "replace_first p y (rev xs) = Some zs" and ys: "ys = rev zs"
    by (auto simp: replace_last_def)
  from replace_first_Some [OF zs] obtain us x vs where
    "rev xs = us @ x # vs" "zs = us @ y # vs" "p x" "\<forall>u \<in> set us. \<not> p u" by blast
  moreover from this(1) have "xs = rev vs @ x # rev us"
    by (metis append.assoc append_Cons append_Nil rev.simps(2) rev_append rev_rev_ident)
  ultimately show ?thesis using ys
    by (intro exI [of _ "rev vs"] exI [of _ x] exI [of _ "rev us"]) auto
qed

lemma length_replace_first: "replace_first p y xs = Some ys \<Longrightarrow> length ys = length xs"
  by (auto dest!: replace_first_Some)

lemma length_replace_last: "replace_last p y xs = Some ys \<Longrightarrow> length ys = length xs"
  by (auto dest!: replace_last_Some)

text \<open>Clearing one occurrence of an element lowers its count by one and keeps the others.\<close>

lemma count_clear_first:
  assumes "replace_first (\<lambda>d. d = Some a) None xs = Some ys"
  shows "count_list ys (Some b) = count_list xs (Some b) - (if b = a then 1 else 0)"
  using replace_first_Some [OF assms] by auto

lemma count_clear_last:
  assumes "replace_last (\<lambda>d. d = Some a) None xs = Some ys"
  shows "count_list ys (Some b) = count_list xs (Some b) - (if b = a then 1 else 0)"
  using replace_last_Some [OF assms] by auto

lemma distinct_count_le: "distinct xs \<Longrightarrow> count_list xs x \<le> Suc 0"
  by (induction xs) (auto simp: count_list_0_iff)

lemma clear_one_search: "x \<in> set xs \<Longrightarrow> p x \<Longrightarrow> replace_first p y xs \<noteq> None"
  by (auto simp: replace_first_None)

lemma clear_first_exists:
  "0 < count_list xs (Some a) \<Longrightarrow> \<exists>ys. replace_first (\<lambda>d. d = Some a) None xs = Some ys"
  using replace_first_None [of "\<lambda>d. d = Some a" None xs]
  by (metis count_list_0_iff less_irrefl not_Some_eq)

lemma clear_last_exists:
  "0 < count_list xs (Some a) \<Longrightarrow> \<exists>ys. replace_last (\<lambda>d. d = Some a) None xs = Some ys"
  using replace_last_None [of "\<lambda>d. d = Some a" None xs]
  by (metis count_list_0_iff less_irrefl not_Some_eq)

lemma chunks_concat: "0 < n \<Longrightarrow> concat (chunks n xs) = xs"
proof (induction n xs rule: chunks.induct)
  case (1 n xs)
  then show ?case by (cases "xs = []") (simp_all add: chunks.simps [of n xs] chunks.simps [of n "[]"])
qed

section \<open>Lemmas on machine integers\<close>

lemma unat_of_nat_u64: "n < 2 ^ 64 \<Longrightarrow> unat (of_nat n :: u64) = n"
  by (simp add: unat_of_nat)

lemma unat_u64_less: "unat (x :: u64) < 2 ^ 64"
  using unsigned_less [of x, where 'a = nat] by simp

lemma unat_u64_succ: "(n :: u64) \<noteq> - 1 \<Longrightarrow> unat (n + 1) = Suc (unat n)"
  using unatSuc [of n] by (metis add.commute add_eq_0_iff)

lemma u64_succ_greater: "(n :: u64) \<noteq> - 1 \<Longrightarrow> n < n + 1"
  by (simp add: word_less_nat_alt unat_u64_succ)

lemma u64_not_max: "unat (n :: u64) + 1 < 2 ^ 64 \<Longrightarrow> n \<noteq> - 1"
  by (auto simp: unsigned_minus_1_eq_mask mask_eq_exp_minus_1)

lemma unat_u64_succ_le: "unat ((n :: u64) + 1) \<le> Suc (unat n)"
  by (cases "n = - 1") (simp_all add: unat_u64_succ)

section \<open>Lemmas on strings\<close>

lemma split_once_None: "split_once c s = None \<longleftrightarrow> c \<notin> set s"
  by (induction s) auto

lemma split_once_Some: "split_once c s = Some (a, b) \<longleftrightarrow> s = a @ c # b \<and> c \<notin> set a"
proof (induction s arbitrary: a)
  case (Cons x xs)
  show ?case
  proof (cases "x = c")
    case True
    then show ?thesis by (cases a) auto
  next
    case False
    then show ?thesis using Cons.IH by (cases a) auto
  qed
qed simp

lemma split_once_first: "c \<notin> set a \<Longrightarrow> split_once c (a @ c # b) = Some (a, b)"
  by (simp add: split_once_Some)

lemma split_on_nonempty [simp]: "split_on c s \<noteq> []"
  by (cases s) (auto split: list.split)

lemma split_on_no_sep: "seg \<in> set (split_on c s) \<Longrightarrow> c \<notin> set seg"
  by (induction s arbitrary: seg) (auto split: list.splits if_splits)

lemma strip_prefix_Some: "strip_prefix p s = Some r \<longleftrightarrow> s = p @ r"
  by (auto simp: strip_prefix_def starts_with_def) (metis append_take_drop_id)

lemma trim_end_matches_last: "trim_end_matches c s = [] \<or> last (trim_end_matches c s) \<noteq> c"
proof (cases "dropWhile (\<lambda>x. x = c) (rev s)")
  case (Cons x xs)
  then have "x \<noteq> c" by (metis (mono_tags, lifting) hd_dropWhile list.distinct(1) list.sel(1))
  with Cons show ?thesis by (simp add: trim_end_matches_def)
qed (simp add: trim_end_matches_def)

end
