(* ===== verification/Links.thy ===== *)
theory Links
  imports Prelude Complex_Main
begin

text \<open>
  The crate \<open>links\<close>: recognising DIDs, at-uris and URLs (\<open>links/src/did.rs\<close>, \<open>at_uri.rs\<close>,
  \<open>lib.rs\<close>) and collecting every link of a JSON record (\<open>record.rs\<close>).

  Two functions of the third-party crate \<open>fluent_uri\<close> are arguments of the definitions that call
  them: \<open>resolve_path\<close> stands for \<open>UriRef::parse(p)\<close> followed by resolution against
  \<open>https://example.com\<close>, normalisation and \<open>path()\<close> (\<open>None\<close> when the reference does not parse),
  and \<open>uri_norm\<close> for \<open>Uri::parse(s)\<close> followed by \<open>normalize\<close>.  \<open>JsonValue\<close> is the value type of
  the crate \<open>tinyjson\<close>; an object is the list of its entries in iteration order, a number is the
  rational its \<open>f64\<close> denotes.
\<close>

section \<open>did.rs\<close>

definition did_char :: "char \<Rightarrow> bool" where
  "did_char c \<longleftrightarrow>
     in_range CHR ''A'' CHR ''Z'' c \<or> in_range CHR ''a'' CHR ''z'' c \<or> in_range CHR ''0'' CHR ''9'' c \<or>
     c = CHR ''.'' \<or> c = CHR ''_'' \<or> c = CHR '':'' \<or> c = CHR ''%'' \<or> c = CHR ''-''"

definition parse_did :: "string \<Rightarrow> string option" where
  "parse_did s =
     (if \<not> list_all did_char s then None
      else case strip_prefix ''did:'' s of
        None \<Rightarrow> None
      | Some unprefixed \<Rightarrow>
          (case split_once CHR '':'' unprefixed of
             None \<Rightarrow> None
           | Some (method, identifier) \<Rightarrow>
               if \<not> list_all is_ascii_lowercase method then None
               else if identifier \<noteq> [] \<and> last identifier = CHR '':'' then None
               else if length s > 2 * 2 ^ 10 then None
               else if identifier = [] then None
               else Some s))"

section \<open>at\_uri.rs\<close>

definition unreserved :: "char \<Rightarrow> bool" where
  "unreserved c \<longleftrightarrow>
     in_range CHR ''A'' CHR ''Z'' c \<or> in_range CHR ''a'' CHR ''z'' c \<or> in_range CHR ''0'' CHR ''9'' c \<or>
     c = CHR ''.'' \<or> c = CHR ''-'' \<or> c = CHR ''_'' \<or> c = CHR ''~''"

text \<open>One turn of the loop over the segments that follow a percent sign.\<close>

definition decode_segment :: "string \<Rightarrow> string option" where
  "decode_segment segment =
     (case split_at_checked 2 segment of
        None \<Rightarrow> None
      | Some (hex2, unencoded_suffix) \<Rightarrow>
          (case u8_from_str_radix_16 hex2 of
             None \<Rightarrow> None
           | Some d \<Rightarrow>
               let decoded = char_of d in
               Some ((if unreserved decoded then [decoded]
                      else CHR ''%'' # map to_ascii_uppercase hex2) @ unencoded_suffix)))"

fun decode_segments :: "string list \<Rightarrow> string option" where
  "decode_segments [] = Some []"
| "decode_segments (seg # segs) =
     (case decode_segment seg of
        None \<Rightarrow> None
      | Some d \<Rightarrow> map_option (\<lambda>r. d @ r) (decode_segments segs))"

definition percent_normalize :: "string \<Rightarrow> string option" where
  "percent_normalize s =
     (case split_once CHR ''%'' s of
        None \<Rightarrow> Some s
      | Some (unencoded_prefix, rest) \<Rightarrow>
          map_option (\<lambda>r. unencoded_prefix @ r) (decode_segments (split_on CHR ''%'' rest)))"

text \<open>Splitting off fragment, query and path, working backwards as the code does.\<close>

definition split_off :: "char \<Rightarrow> string \<Rightarrow> string \<times> string option" where
  "split_off c base =
     (case split_once c base of None \<Rightarrow> (base, None) | Some (pre, x) \<Rightarrow> (pre, Some x))"

definition normalize_at_path :: "(string \<Rightarrow> string option) \<Rightarrow> string option \<Rightarrow> string option option" where
  "normalize_at_path resolve_path path =
     (case path of
        None \<Rightarrow> Some None
      | Some p \<Rightarrow>
          map_option (\<lambda>normalized. Some (trim_end_matches CHR ''/'' normalized))
            (resolve_path (trim_end_matches CHR ''/'' p)))"

definition prefixed :: "char \<Rightarrow> string option \<Rightarrow> string" where
  "prefixed c x = (case x of None \<Rightarrow> [] | Some s \<Rightarrow> c # s)"

definition parse_at_uri :: "(string \<Rightarrow> string option) \<Rightarrow> string \<Rightarrow> string option" where
  "parse_at_uri resolve_path s0 =
     (if \<not> is_ascii s0 then None
      else if length s0 > 8 * 2 ^ 10 then None
      else case percent_normalize s0 of
        None \<Rightarrow> None
      | Some s \<Rightarrow>
          (case split_at_checked 5 s of
             None \<Rightarrow> None
           | Some (proto, rest) \<Rightarrow>
               if \<not> eq_ignore_ascii_case proto ''at://'' then None
               else
                 let (base1, fragment) = split_off CHR ''#'' rest;
                     (base2, query) = split_off CHR ''?'' base1;
                     (base3, path) = split_off CHR ''/'' base2
                 in if base3 = [] then None
                    else
                      let authority = (if starts_with base3 ''did:'' then base3
                                       else map to_ascii_lowercase base3)
                      in case normalize_at_path resolve_path path of
                           None \<Rightarrow> None
                         | Some p \<Rightarrow>
                             Some (''at://'' @ authority @ (case p of None \<Rightarrow> [] | Some q \<Rightarrow> q)
                                   @ prefixed CHR ''?'' query @ prefixed CHR ''#'' fragment)))"

definition at_uri_collection :: "string \<Rightarrow> string option" where
  "at_uri_collection at_uri =
     (case split_at_checked 5 at_uri of
        None \<Rightarrow> None
      | Some (proto, rest) \<Rightarrow>
          if \<not> eq_ignore_ascii_case proto ''at://'' then None
          else (case split_once CHR ''/'' rest of
             None \<Rightarrow> None
           | Some (_, rest') \<Rightarrow>
               (case split_once CHR ''/'' rest' of
                  Some (collection, _) \<Rightarrow> Some collection
                | None \<Rightarrow>
                    (case split_once CHR ''?'' rest' of
                       Some (collection, _) \<Rightarrow> Some collection
                     | None \<Rightarrow>
                         (case split_once CHR ''#'' rest' of
                            Some (collection, _) \<Rightarrow> Some collection
                          | None \<Rightarrow> Some rest')))))"

section \<open>lib.rs\<close>

datatype Link = AtUri string | Uri string | LDid string

fun into_string :: "Link \<Rightarrow> string" where
  "into_string (AtUri s) = s"
| "into_string (Uri s) = s"
| "into_string (LDid s) = s"

fun link_name :: "Link \<Rightarrow> string" where
  "link_name (AtUri _) = ''at-uri''"
| "link_name (Uri _) = ''uri''"
| "link_name (LDid _) = ''did''"

fun link_at_uri_collection :: "Link \<Rightarrow> string option" where
  "link_at_uri_collection (AtUri at_uri) = at_uri_collection at_uri"
| "link_at_uri_collection (Uri _) = None"
| "link_at_uri_collection (LDid _) = None"

fun link_did :: "Link \<Rightarrow> string option" where
  "link_did (AtUri s) =
     (case strip_prefix ''at://'' s of
        None \<Rightarrow> None
      | Some rest \<Rightarrow>
          (case split_once CHR ''/'' rest of Some (did, _) \<Rightarrow> Some did | None \<Rightarrow> Some rest))"
| "link_did (Uri _) = None"
| "link_did (LDid did) = Some did"

record CollectedLink =
  cl_path :: string
  cl_target :: Link

definition parse_uri :: "(string \<Rightarrow> string option) \<Rightarrow> string \<Rightarrow> string option" where
  "parse_uri uri_norm s = uri_norm s"

definition parse_any_link ::
  "(string \<Rightarrow> string option) \<Rightarrow> (string \<Rightarrow> string option) \<Rightarrow> string \<Rightarrow> Link option" where
  "parse_any_link resolve_path uri_norm s =
     (case parse_at_uri resolve_path s of
        Some u \<Rightarrow> Some (AtUri u)
      | None \<Rightarrow>
          (case parse_did s of
             Some d \<Rightarrow> Some (LDid d)
           | None \<Rightarrow> map_option Uri (parse_uri uri_norm s)))"

section \<open>record.rs\<close>

datatype JsonValue =
    JNumber rat
  | JBoolean bool
  | JString string
  | JNull
  | JArray "JsonValue list"
  | JObject "(string \<times> JsonValue) list"

definition array_child_path :: "string \<Rightarrow> JsonValue \<Rightarrow> string" where
  "array_child_path path child =
     (case child of
        JObject ob \<Rightarrow>
          (case map_of ob ''$type'' of
             Some (JString t) \<Rightarrow> path @ ''['' @ t @ '']''
           | _ \<Rightarrow> path @ ''[]'')
      | _ \<Rightarrow> path @ ''[]'')"

fun walk_record :: "(string \<Rightarrow> Link option) \<Rightarrow> string \<Rightarrow> JsonValue \<Rightarrow> CollectedLink list \<Rightarrow> CollectedLink list"
  and walk_object :: "(string \<Rightarrow> Link option) \<Rightarrow> string \<Rightarrow> (string \<times> JsonValue) list \<Rightarrow> CollectedLink list \<Rightarrow> CollectedLink list"
  and walk_array :: "(string \<Rightarrow> Link option) \<Rightarrow> string \<Rightarrow> JsonValue list \<Rightarrow> CollectedLink list \<Rightarrow> CollectedLink list"
where
  "walk_record parse path (JObject ob) found = walk_object parse path ob found"
| "walk_record parse path (JArray a) found = walk_array parse path a found"
| "walk_record parse path (JString s) found =
     (case parse s of
        Some link \<Rightarrow> found @ [\<lparr>cl_path = path, cl_target = link\<rparr>]
      | None \<Rightarrow> found)"
| "walk_record parse path (JNumber _) found = found"
| "walk_record parse path (JBoolean _) found = found"
| "walk_record parse path JNull found = found"
| "walk_object parse path [] found = found"
| "walk_object parse path ((key, child) # ob) found =
     walk_object parse path ob (walk_record parse (path @ ''.'' @ key) child found)"
| "walk_array parse path [] found = found"
| "walk_array parse path (child # a) found =
     walk_array parse path a (walk_record parse (array_child_path path child) child found)"

definition collect_links :: "(string \<Rightarrow> Link option) \<Rightarrow> JsonValue \<Rightarrow> CollectedLink list" where
  "collect_links parse v = walk_record parse '''' v []"


text \<open>The strings a record holds, with the paths under which links found in them are reported.\<close>

inductive string_at :: "string \<Rightarrow> JsonValue \<Rightarrow> string \<Rightarrow> string \<Rightarrow> bool" where
  here: "string_at p (JString s) p s"
| field: "(k, c) \<in> set ob \<Longrightarrow> string_at (p @ ''.'' @ k) c q s \<Longrightarrow> string_at p (JObject ob) q s"
| elem: "c \<in> set a \<Longrightarrow> string_at (array_child_path p c) c q s \<Longrightarrow> string_at p (JArray a) q s"

inductive_simps string_at_simps:
  "string_at p (JString t) q s"
  "string_at p (JObject ob) q s"
  "string_at p (JArray a) q s"
  "string_at p (JNumber n) q s"
  "string_at p (JBoolean b) q s"
  "string_at p JNull q s"

section \<open>Characters\<close>

lemma of_char_lower:
  "(of_char (to_ascii_lowercase c) :: nat) = (if in_range CHR ''A'' CHR ''Z'' c then of_char c + 32 else of_char c)"
  by (simp add: to_ascii_lowercase_def in_range_def)

lemma of_char_upper:
  "(of_char (to_ascii_uppercase c) :: nat) = (if in_range CHR ''a'' CHR ''z'' c then of_char c - 32 else of_char c)"
  by (auto simp: to_ascii_uppercase_def in_range_def)

lemma char_eq_nat: "c = d \<longleftrightarrow> (of_char c :: nat) = of_char d"
  by simp

lemma upper_upper [simp]: "to_ascii_uppercase (to_ascii_uppercase c) = to_ascii_uppercase c"
  unfolding char_eq_nat of_char_upper by (auto simp: in_range_def of_char_upper)

lemma lower_lower [simp]: "to_ascii_lowercase (to_ascii_lowercase c) = to_ascii_lowercase c"
  unfolding char_eq_nat of_char_lower by (simp add: in_range_def of_char_lower)

lemma lower_delim: "(of_char d :: nat) < 65 \<Longrightarrow> to_ascii_lowercase c = d \<longleftrightarrow> c = d"
  unfolding char_eq_nat of_char_lower by (auto simp: in_range_def)

lemma upper_delim: "(of_char d :: nat) < 65 \<Longrightarrow> to_ascii_uppercase c = d \<longleftrightarrow> c = d"
  unfolding char_eq_nat of_char_upper by (auto simp: in_range_def)

lemma lower_not_upper: "\<not> in_range CHR ''A'' CHR ''Z'' (to_ascii_lowercase c)"
  by (auto simp: in_range_def of_char_lower)

lemma hex_digit_upper: "hex_digit (to_ascii_uppercase c) = hex_digit c"
  by (auto simp: hex_digit_def in_range_def of_char_upper)

lemma hex_digits_upper: "hex_digits_u8 n (map to_ascii_uppercase cs) = hex_digits_u8 n cs"
  by (induction cs arbitrary: n) (auto simp: hex_digit_upper split: option.split)

lemma radix_upper: "u8_from_str_radix_16 (map to_ascii_uppercase s) = u8_from_str_radix_16 s"
  by (cases s) (auto simp: u8_from_str_radix_16_def hex_digits_upper upper_delim hex_digit_upper split: option.split)

lemma is_ascii_upper: "is_ascii_char (to_ascii_uppercase c) = is_ascii_char c"
  by (auto simp: is_ascii_char_def of_char_upper in_range_def)

lemma is_ascii_simps [simp]:
  "is_ascii []"
  "is_ascii (c # s) \<longleftrightarrow> is_ascii_char c \<and> is_ascii s"
  "is_ascii (s @ t) \<longleftrightarrow> is_ascii s \<and> is_ascii t"
  by (auto simp: is_ascii_def)

lemma ascii_not_continuation: "is_ascii_char c \<Longrightarrow> \<not> is_utf8_continuation c"
  by (simp add: is_ascii_char_def is_utf8_continuation_def)

lemma split_at_checked_ascii:
  "is_ascii s \<Longrightarrow> split_at_checked n s = (if n \<le> length s then Some (take n s, drop n s) else None)"
  using ascii_not_continuation
  by (auto simp: split_at_checked_def is_char_boundary_def is_ascii_def list_all_length)

section \<open>DIDs\<close>

lemma colon_not_lowercase: "list_all is_ascii_lowercase m \<Longrightarrow> CHR '':'' \<notin> set m"
  by (auto simp: list_all_iff is_ascii_lowercase_def in_range_def)

lemma parse_did_parts:
  assumes "parse_did s = Some t"
  obtains m i where "s = ''did:'' @ m @ CHR '':'' # i" "list_all is_ascii_lowercase m"
    "i \<noteq> []" "last i \<noteq> CHR '':''" "t = s" "list_all did_char s" "length s \<le> 2048"
  using assms
  by (auto simp: parse_did_def strip_prefix_Some split_once_Some split: if_splits option.splits)


section \<open>Percent normalisation\<close>

lemma percent_normalize_plain [simp]:
  "percent_normalize [] = Some []"
  "c \<noteq> CHR ''%'' \<Longrightarrow> percent_normalize (c # cs) = map_option (Cons c) (percent_normalize cs)"
  by (auto simp: percent_normalize_def option.map_comp comp_def
      split: option.split prod.split intro!: option.map_cong)

lemma percent_normalize_split_on:
  "percent_normalize s =
     (case split_on CHR ''%'' s of
        [] \<Rightarrow> None
      | seg # segs \<Rightarrow> map_option (\<lambda>r. seg @ r) (decode_segments segs))"
proof (induction s)
  case Nil
  then show ?case by (simp add: percent_normalize_def)
next
  case (Cons c cs)
  show ?case
  proof (cases "c = CHR ''%''")
    case True
    then show ?thesis by (simp add: percent_normalize_def)
  next
    case False
    with Cons show ?thesis
      by (auto simp: option.map_comp comp_def split: list.split intro!: option.map_cong)
  qed
qed

lemma decode_segment_two:
  assumes "is_ascii (a # b # seg)"
  shows "decode_segment (a # b # seg) =
    map_option (\<lambda>d. (if unreserved (char_of d) then [char_of d]
                     else CHR ''%'' # map to_ascii_uppercase [a, b]) @ seg)
      (u8_from_str_radix_16 [a, b])"
  using assms
  by (simp add: decode_segment_def split_at_checked_ascii Let_def numeral_2_eq_2 split: option.split)

lemma is_ascii_split_on: "is_ascii s \<Longrightarrow> seg \<in> set (split_on c s) \<Longrightarrow> is_ascii seg"
  by (induction s arbitrary: seg) (auto split: list.splits if_splits)

lemma percent_normalize_pct:
  assumes "is_ascii (a # b # r)" "a \<noteq> CHR ''%''" "b \<noteq> CHR ''%''"
  shows "percent_normalize (CHR ''%'' # a # b # r) =
    (case u8_from_str_radix_16 [a, b] of
       None \<Rightarrow> None
     | Some d \<Rightarrow>
         map_option (\<lambda>t. (if unreserved (char_of d) then [char_of d]
                          else CHR ''%'' # map to_ascii_uppercase [a, b]) @ t)
           (percent_normalize r))"
proof -
  obtain seg segs where r: "split_on CHR ''%'' r = seg # segs"
    using split_on_nonempty by (metis neq_Nil_conv)
  then have "is_ascii (a # b # seg)"
    using assms(1) is_ascii_split_on [of r seg "CHR ''%''"] by simp
  then show ?thesis using assms(2,3) r
    by (simp add: percent_normalize_split_on decode_segment_two option.map_comp comp_def split: option.split)
qed

lemma percent_normalize_short:
  assumes "is_ascii s" "\<nexists>a b r. s = a # b # r \<and> a \<noteq> CHR ''%'' \<and> b \<noteq> CHR ''%''"
  shows "percent_normalize (CHR ''%'' # s) = None"
proof -
  obtain seg segs where r: "split_on CHR ''%'' s = seg # segs"
    using split_on_nonempty by (metis neq_Nil_conv)
  have "length seg < 2"
  proof (cases s)
    case (Cons a s')
    then show ?thesis using r assms(2) by (cases s') (auto split: list.splits if_splits)
  qed (use r in auto)
  moreover have "is_ascii seg"
    using assms(1) by (rule is_ascii_split_on [of s seg "CHR ''%''"]) (simp add: r)
  ultimately have "decode_segment seg = None"
    by (simp add: decode_segment_def split_at_checked_ascii)
  with r show ?thesis by (simp add: percent_normalize_split_on)
qed

lemma unreserved_not_pct: "unreserved c \<Longrightarrow> c \<noteq> CHR ''%''"
  by (auto simp: unreserved_def in_range_def)

lemma unreserved_ascii: "unreserved c \<Longrightarrow> is_ascii_char c"
  by (auto simp: unreserved_def in_range_def is_ascii_char_def)

lemma percent_normalize_fix:
  assumes "percent_normalize s = Some t" "is_ascii s"
  shows "is_ascii t \<and> percent_normalize t = Some t"
  using assms
proof (induction s arbitrary: t rule: length_induct)
  case (1 s)
  show ?case
  proof (cases s)
    case Nil
    with 1 show ?thesis by simp
  next
    case (Cons c cs)
    show ?thesis
    proof (cases "c = CHR ''%''")
      case False
      with 1 Cons obtain t' where t': "percent_normalize cs = Some t'" "t = c # t'" by auto
      with 1 Cons have "is_ascii t' \<and> percent_normalize t' = Some t'" by auto
      with t' False 1 Cons show ?thesis by simp
    next
      case True
      then obtain a b r where cs: "cs = a # b # r" and ab: "a \<noteq> CHR ''%''" "b \<noteq> CHR ''%''"
        using 1 Cons percent_normalize_short [of cs] by fastforce
      then have asc: "is_ascii (a # b # r)" using 1 Cons by simp
      then obtain d t' where d: "u8_from_str_radix_16 [a, b] = Some d"
        and t': "percent_normalize r = Some t'"
        and t: "t = (if unreserved (char_of d) then [char_of d]
                     else CHR ''%'' # map to_ascii_uppercase [a, b]) @ t'"
        using 1(2) Cons True cs ab by (auto simp: percent_normalize_pct split: option.splits)
      have IH: "is_ascii t' \<and> percent_normalize t' = Some t'"
        using 1(1) [rule_format, of r t'] Cons cs asc t' by simp
      have rad: "u8_from_str_radix_16 [to_ascii_uppercase a, to_ascii_uppercase b] = Some d"
        using radix_upper [of "[a, b]"] d by simp
      show ?thesis
      proof (cases "unreserved (char_of d)")
        case True
        then show ?thesis using t IH unreserved_not_pct unreserved_ascii by simp
      next
        case False
        then show ?thesis using t IH ab asc rad
          by (simp add: percent_normalize_pct is_ascii_upper upper_delim is_ascii_char_def [of "CHR ''%''"])
      qed
    qed
  qed
qed

text \<open>
  Percent normalisation is idempotent on ASCII input: a second pass over a normalised at-uri
  finds nothing left to decode and no lower-case escape.
\<close>

theorem percent_normalize_idem:
  assumes "is_ascii s" "percent_normalize s = Some t"
  shows "percent_normalize t = Some t"
  using percent_normalize_fix [OF assms(2,1)] by simp

theorem percent_normalize_idem_witness:
  "percent_normalize ''/%61/%3a'' = Some ''/a/%3A'' \<and> percent_normalize ''/a/%3A'' = Some ''/a/%3A''"
proof -
  have asc: "is_ascii ''/%61/%3a''" by (simp add: is_ascii_char_def)
  have pn: "percent_normalize ''/%61/%3a'' = Some ''/a/%3A''" by code_simp
  show ?thesis using percent_normalize_idem [OF asc pn] pn by simp
qed

section \<open>at-uris\<close>

lemma split_off_props:
  assumes "split_off c base = (pre, x)"
  shows "base = pre @ prefixed c x \<and> c \<notin> set pre \<and> set pre \<subseteq> set base"
  using assms
  by (auto simp: split_off_def prefixed_def split_once_Some split_once_None split: option.splits)

text \<open>The authority of an accepted at-uri and what follows it in the result.\<close>

lemma parse_at_uri_parts:
  assumes "parse_at_uri resolve_path s = Some u"
  obtains base path query fragment p where
    "base \<noteq> []" "CHR ''/'' \<notin> set base" "CHR ''?'' \<notin> set base" "CHR ''#'' \<notin> set base"
    "normalize_at_path resolve_path path = Some p"
    "u = ''at://'' @ (if starts_with base ''did:'' then base else map to_ascii_lowercase base)
           @ (case p of None \<Rightarrow> [] | Some q \<Rightarrow> q) @ prefixed CHR ''?'' query @ prefixed CHR ''#'' fragment"
proof -
  from assms obtain t proto rest where "percent_normalize s = Some t"
    "split_at_checked 5 t = Some (proto, rest)" "eq_ignore_ascii_case proto ''at://''"
    by (auto simp: parse_at_uri_def split: if_splits option.splits)
  moreover obtain b1 frag where s1: "split_off CHR ''#'' rest = (b1, frag)" by force
  moreover obtain b2 query where s2: "split_off CHR ''?'' b1 = (b2, query)" by force
  moreover obtain base path where s3: "split_off CHR ''/'' b2 = (base, path)" by force
  ultimately obtain p where "base \<noteq> []" "normalize_at_path resolve_path path = Some p"
    "u = ''at://'' @ (if starts_with base ''did:'' then base else map to_ascii_lowercase base)
           @ (case p of None \<Rightarrow> [] | Some q \<Rightarrow> q) @ prefixed CHR ''?'' query @ prefixed CHR ''#'' frag"
    using assms by (auto simp: parse_at_uri_def Let_def split: if_splits option.splits)
  with that [of base path p query frag] split_off_props [OF s1] split_off_props [OF s2]
    split_off_props [OF s3]
  show thesis by blast
qed

lemma lower_no_delim:
  assumes "(of_char d :: nat) < 65" "d \<notin> set base"
  shows "d \<notin> set (map to_ascii_lowercase base)"
proof
  assume "d \<in> set (map to_ascii_lowercase base)"
  then obtain x where "x \<in> set base" "to_ascii_lowercase x = d" by auto
  with assms lower_delim [OF assms(1), of x] show False by simp
qed



section \<open>Classification of links\<close>

lemma parse_at_uri_first_char:
  assumes "parse_at_uri resolve_path (c # s) = Some u" "c \<noteq> CHR ''%''"
  shows "to_ascii_lowercase c = CHR ''a''"
proof -
  from assms obtain t proto rest where t: "percent_normalize (c # s) = Some t"
    and sp: "split_at_checked 5 t = Some (proto, rest)"
    and eq: "eq_ignore_ascii_case proto ''at://''"
    by (auto simp: parse_at_uri_def split: if_splits option.splits)
  from t assms(2) obtain t' where t': "t = c # t'" by auto
  from sp t' have "proto = c # take 4 t'"
    by (auto simp: split_at_checked_def split: if_splits)
  with eq show ?thesis by (simp add: eq_ignore_ascii_case_def to_ascii_lowercase_def in_range_def)
qed

text \<open>
  Every string the DID parser accepts is classified as a DID: it can never be taken for an
  at-uri, whatever the URI library does, although at-uris are tried first.
\<close>

theorem parse_any_link_did:
  assumes "parse_did s = Some d"
  shows "parse_any_link resolve_path uri_norm s = Some (LDid s)"
proof -
  from assms obtain r where d: "d = s" and s: "s = CHR ''d'' # r"
    by (auto elim!: parse_did_parts)
  have "parse_at_uri resolve_path s = None"
  proof (cases "parse_at_uri resolve_path s")
    case (Some u)
    then have "to_ascii_lowercase CHR ''d'' = CHR ''a''"
      unfolding s by (rule parse_at_uri_first_char) simp
    then show ?thesis by (simp add: to_ascii_lowercase_def in_range_def)
  qed
  with assms d show ?thesis by (simp add: parse_any_link_def)
qed

theorem parse_any_link_did_witness:
  "parse_any_link (\<lambda>_. None) (\<lambda>_. None) ''did:web:a.b'' = Some (LDid ''did:web:a.b'')"
proof -
  have "parse_did ''did:web:a.b'' = Some ''did:web:a.b''" by code_simp
  then show ?thesis by (rule parse_any_link_did)
qed

section \<open>Collecting links\<close>

text \<open>The accumulator only ever grows at its end.\<close>

lemma walk_object_append:
  assumes "\<And>k c p found. (k, c) \<in> set ob \<Longrightarrow> walk_record parse p c found = found @ walk_record parse p c []"
  shows "walk_object parse p ob found =
    found @ concat (map (\<lambda>(k, c). walk_record parse (p @ ''.'' @ k) c []) ob)"
  using assms
proof (induction ob arbitrary: found)
  case (Cons kc ob)
  obtain k c where kc: "kc = (k, c)" by force
  have IH: "walk_object parse p ob F =
      F @ concat (map (\<lambda>(k, c). walk_record parse (p @ ''.'' @ k) c []) ob)" for F
    by (rule Cons.IH) (rule Cons.prems, erule list.set_intros(2))
  have step: "walk_record parse (p @ ''.'' @ k) c found = found @ walk_record parse (p @ ''.'' @ k) c []"
    by (rule Cons.prems [of k]) (simp add: kc)
  show ?case unfolding kc walk_object.simps step IH by simp
qed simp

lemma walk_array_append:
  assumes "\<And>c p found. c \<in> set a \<Longrightarrow> walk_record parse p c found = found @ walk_record parse p c []"
  shows "walk_array parse p a found =
    found @ concat (map (\<lambda>c. walk_record parse (array_child_path p c) c []) a)"
  using assms
proof (induction a arbitrary: found)
  case (Cons c a)
  have IH: "walk_array parse p a F =
      F @ concat (map (\<lambda>c. walk_record parse (array_child_path p c) c []) a)" for F
    by (rule Cons.IH) (rule Cons.prems, simp)
  have step: "walk_record parse (array_child_path p c) c found =
      found @ walk_record parse (array_child_path p c) c []"
    by (rule Cons.prems) simp
  show ?case unfolding walk_array.simps step IH by simp
qed simp

lemma walk_record_append: "walk_record parse p v found = found @ walk_record parse p v []"
proof (induction v arbitrary: p found)
  case (JArray a)
  have "walk_array parse p a F =
      F @ concat (map (\<lambda>c. walk_record parse (array_child_path p c) c []) a)" for F
    by (rule walk_array_append) (rule JArray.IH)
  then show ?case by simp
next
  case (JObject ob)
  have "walk_object parse p ob F =
      F @ concat (map (\<lambda>(k, c). walk_record parse (p @ ''.'' @ k) c []) ob)" for F
    by (rule walk_object_append) (rule JObject.IH, auto)
  then show ?case by simp
qed (auto split: option.split)

lemma walk_object_eq:
  "walk_object parse p ob [] = concat (map (\<lambda>(k, c). walk_record parse (p @ ''.'' @ k) c []) ob)"
  by (subst walk_object_append) (rule walk_record_append, simp)

lemma walk_array_eq:
  "walk_array parse p a [] = concat (map (\<lambda>c. walk_record parse (array_child_path p c) c []) a)"
  by (subst walk_array_append) (rule walk_record_append, simp)

lemma walk_record_iff:
  "l \<in> set (walk_record parse p v []) \<longleftrightarrow>
     (\<exists>s. string_at p v (cl_path l) s \<and> parse s = Some (cl_target l))"
proof (induction v arbitrary: p)
  case (JArray a)
  then show ?case by (auto simp: walk_array_eq string_at_simps)
next
  case (JObject ob)
  then show ?case by (fastforce simp: walk_object_eq string_at_simps)
next
  case (JString t)
  then show ?case by (cases l) (auto simp: string_at_simps split: option.split)
qed (auto simp: string_at_simps)


end
