(* ===== verification/Constellation_Types.thy ===== *)
theory Constellation_Types
  imports Links
begin

text \<open>
  The data of the crate \<open>constellation\<close> (\<open>constellation/src/lib.rs\<close>, \<open>storage/mod.rs\<close>) and its
  event decoder \<open>get_actionable\<close> (\<open>consumer/mod.rs\<close>), which turns one JSON event of the firehose
  into an \<open>ActionableEvent\<close> and its cursor.
\<close>

section \<open>lib.rs and storage/mod.rs\<close>

datatype Did = Did string

fun did_str :: "Did \<Rightarrow> string" where
  "did_str (Did s) = s"

record RecordId =
  rid_did :: Did
  rid_collection :: string
  rid_rkey :: string

datatype ActionableEvent =
    CreateLinks RecordId "CollectedLink list"
  | UpdateLinks RecordId "CollectedLink list"
  | DeleteRecord RecordId
  | ActivateAccount Did
  | DeactivateAccount Did
  | DeleteAccount Did

record CountsByCount =
  cbc_records :: u64
  cbc_distinct_dids :: u64

record 'a PagedAppendingCollection =
  pac_version :: "u64 \<times> u64"
  pac_items :: "'a list"
  pac_next :: "u64 option"
  pac_total :: u64

record StorageStats =
  stat_dids :: u64
  stat_targetables :: u64
  stat_linking_records :: u64

definition empty_page :: "'a PagedAppendingCollection" where
  "empty_page = \<lparr>pac_version = (0, 0), pac_items = [], pac_next = None, pac_total = 0\<rparr>"

section \<open>consumer/mod.rs\<close>

text \<open>\<open>f64 as u64\<close>: truncation towards zero, saturating at the bounds of the type.\<close>

definition f64_as_u64 :: "rat \<Rightarrow> u64" where
  "f64_as_u64 x = of_int (min (2 ^ 64 - 1) (max 0 \<lfloor>x\<rfloor>))"

definition commit_record_id :: "string \<Rightarrow> string \<Rightarrow> string \<Rightarrow> RecordId" where
  "commit_record_id did collection rkey =
     \<lparr>rid_did = Did did, rid_collection = collection, rid_rkey = rkey\<rparr>"

definition get_actionable_commit ::
  "(string \<Rightarrow> Link option) \<Rightarrow> (string \<times> JsonValue) list \<Rightarrow> u64 \<Rightarrow> (ActionableEvent \<times> u64) option" where
  "get_actionable_commit parse ev cursor =
     (case map_of ev ''did'' of
        Some (JString did) \<Rightarrow>
          (case map_of ev ''commit'' of
             Some (JObject commit) \<Rightarrow>
               (case map_of commit ''collection'' of
                  Some (JString collection) \<Rightarrow>
                    (case map_of commit ''rkey'' of
                       Some (JString rkey) \<Rightarrow>
                         (case map_of commit ''operation'' of
                            Some (JString op) \<Rightarrow>
                              if op = ''create'' then
                                (case map_of commit ''record'' of
                                   None \<Rightarrow> None
                                 | Some rec \<Rightarrow>
                                     let links = collect_links parse rec in
                                     if links = [] then None
                                     else Some (CreateLinks (commit_record_id did collection rkey) links, cursor))
                              else if op = ''update'' then
                                (case map_of commit ''record'' of
                                   None \<Rightarrow> None
                                 | Some rec \<Rightarrow>
                                     let links = collect_links parse rec in
                                     Some (UpdateLinks (commit_record_id did collection rkey) links, cursor))
                              else if op = ''delete'' then
                                Some (DeleteRecord (commit_record_id did collection rkey), cursor)
                              else None
                          | _ \<Rightarrow> None)
                     | _ \<Rightarrow> None)
                | _ \<Rightarrow> None)
           | _ \<Rightarrow> None)
      | _ \<Rightarrow> None)"

definition get_actionable_account ::
  "(string \<times> JsonValue) list \<Rightarrow> u64 \<Rightarrow> (ActionableEvent \<times> u64) option" where
  "get_actionable_account ev cursor =
     (case map_of ev ''account'' of
        Some (JObject account) \<Rightarrow>
          (case map_of account ''did'' of
             Some (JString did) \<Rightarrow>
               (case map_of account ''active'' of
                  Some (JBoolean active) \<Rightarrow>
                    (case (active, map_of account ''status'') of
                       (True, None) \<Rightarrow> Some (ActivateAccount (Did did), cursor)
                     | (False, Some (JString status)) \<Rightarrow>
                         if status = ''deactivated'' then Some (DeactivateAccount (Did did), cursor)
                         else if status = ''deleted'' then Some (DeleteAccount (Did did), cursor)
                         else None
                     | _ \<Rightarrow> None)
                | _ \<Rightarrow> None)
           | _ \<Rightarrow> None)
      | _ \<Rightarrow> None)"

definition get_actionable ::
  "(string \<Rightarrow> Link option) \<Rightarrow> JsonValue \<Rightarrow> (ActionableEvent \<times> u64) option" where
  "get_actionable parse event =
     (case event of
        JObject ev \<Rightarrow>
          (case map_of ev ''time_us'' of
             Some (JNumber time_us) \<Rightarrow>
               let cursor = f64_as_u64 time_us in
               if map_of ev ''kind'' = Some (JString ''commit'') then
                 get_actionable_commit parse ev cursor
               else if map_of ev ''kind'' = Some (JString ''account'') then
                 get_actionable_account ev cursor
               else None
           | _ \<Rightarrow> None)
      | _ \<Rightarrow> None)"

section \<open>consumer/jetstream.rs\<close>

definition get_event_time :: "JsonValue \<Rightarrow> u64 option" where
  "get_event_time v =
     (case v of
        JObject ev \<Rightarrow>
          (case map_of ev ''time_us'' of
             Some (JNumber time_us) \<Rightarrow> Some (f64_as_u64 time_us)
           | _ \<Rightarrow> None)
      | _ \<Rightarrow> None)"

section \<open>Which events are acted on\<close>

text \<open>The account and record an event is about.\<close>

fun event_did :: "ActionableEvent \<Rightarrow> Did" where
  "event_did (CreateLinks r _) = rid_did r"
| "event_did (UpdateLinks r _) = rid_did r"
| "event_did (DeleteRecord r) = rid_did r"
| "event_did (ActivateAccount d) = d"
| "event_did (DeactivateAccount d) = d"
| "event_did (DeleteAccount d) = d"

fun event_links :: "ActionableEvent \<Rightarrow> CollectedLink list" where
  "event_links (CreateLinks _ ls) = ls"
| "event_links (UpdateLinks _ ls) = ls"
| "event_links _ = []"

end
