(* ===== verification/Constellation_Consumer.thy ===== *)
theory Constellation_Consumer
  imports Constellation_Types
begin

text \<open>
  The consumer of the crate \<open>constellation\<close>: the jetstream reader (\<open>consumer/jetstream.rs\<close>), the
  fixture reader (\<open>consumer/jsonl_file.rs\<close>) and the loop that feeds the store (\<open>consume\<close> of
  \<open>consumer/mod.rs\<close>).

  What the network does is a list of inputs, one per attempt to connect, each with the list of
  turns of its read loop; a list that ends leaves the reader waiting.  The zstd decoder and the
  JSON parser are parameters.  The channel is the list of values sent on it, kept in the trace of
  the reader together with its requests.  Metrics and messages are left out.
\<close>

section \<open>jetstream.rs: inputs\<close>

datatype SocketRead =
    BinaryMessage "u8 list"
  | TextMessage
  | CloseMessage
  | PingMessage "u8 list"
  | OtherMessage
  | ConnectionClosed
  | AlreadyClosed
  | CapacityError
  | Utf8Error
  | ReadTimedOut
  | OtherReadError bool  \<comment> \<open>whether \<open>socket.close\<close> then says \<open>ConnectionClosed\<close>\<close>

datatype SendOutcome = Queues | Rejects bool  \<comment> \<open>whether the receivers are gone\<close>

record ReadTurn =
  rt_can_read :: bool
  rt_cancelled :: bool
  rt_read :: SocketRead
  rt_send :: SendOutcome

datatype ConnectAttempt =
    BadStreamUrl
  | NoAddress
  | ResolveError
  | TcpError
  | SocketOptionError
  | HandshakeError
  | Connected "ReadTurn list"

text \<open>\<open>zstd\<close>'s decoder for one message, what it reads, and \<open>tinyjson\<close>.\<close>

record 'd Decoding =
  dz_decoder :: "u8 list \<Rightarrow> 'd option"
  dz_read_to_string :: "'d \<Rightarrow> string option"
  dz_json :: "string \<Rightarrow> JsonValue option"

datatype Act =
    Request string "u64 option"
  | Pong "u8 list"
  | Queued JsonValue
  | Dropped JsonValue
  | Slept nat

record Reader =
  cj_retries :: nat
  cj_latest_cursor :: "u64 option"
  cj_trace :: "Act list"

datatype Outcome = Running | Stopped | Failed

section \<open>jetstream.rs: the read loop\<close>

definition log_act :: "Act \<Rightarrow> Reader \<Rightarrow> Reader" where
  "log_act a s = s\<lparr>cj_trace := cj_trace s @ [a]\<rparr>"

definition stream_url :: "string \<Rightarrow> u64 option \<Rightarrow> string" where
  "stream_url stream cursor =
     stream @ ''?compress=true'' @
     (case cursor of None \<Rightarrow> '''' | Some c \<Rightarrow> ''&cursor='' @ decimal (unat c))"

text \<open>From the bytes of a message to its event and time; every failure is a \<open>continue\<close>.\<close>

definition decode_message :: "'d Decoding \<Rightarrow> u8 list \<Rightarrow> (JsonValue \<times> u64) option" where
  "decode_message dz b =
     (case dz_decoder dz b of
        None \<Rightarrow> None
      | Some decoder \<Rightarrow>
          (case dz_read_to_string dz decoder of
             None \<Rightarrow> None
           | Some s \<Rightarrow>
               (case dz_json dz s of
                  None \<Rightarrow> None
                | Some v \<Rightarrow> map_option (Pair v) (get_event_time v))))"

datatype Flow = Continue | Break | BreakOuter | Bail

definition queue_event :: "SendOutcome \<Rightarrow> JsonValue \<Rightarrow> u64 \<Rightarrow> Reader \<Rightarrow> Flow \<times> Reader" where
  "queue_event send v ts s =
     (case send of
        Rejects True \<Rightarrow> (Bail, s)
      | Rejects False \<Rightarrow>
          (Continue, (log_act (Dropped v) s)\<lparr>cj_latest_cursor := Some ts, cj_retries := 0\<rparr>)
      | Queues \<Rightarrow>
          (Continue, (log_act (Queued v) s)\<lparr>cj_latest_cursor := Some ts, cj_retries := 0\<rparr>))"

definition read_turn :: "'d Decoding \<Rightarrow> ReadTurn \<Rightarrow> Reader \<Rightarrow> Flow \<times> Reader" where
  "read_turn dz t s =
     (if \<not> rt_can_read t then (Break, s)
      else if rt_cancelled t then (BreakOuter, s)
      else (case rt_read t of
              BinaryMessage b \<Rightarrow>
                (case decode_message dz b of
                   None \<Rightarrow> (Continue, s)
                 | Some (v, ts) \<Rightarrow> queue_event (rt_send t) v ts s)
            | TextMessage \<Rightarrow> (Continue, s)
            | CloseMessage \<Rightarrow> (Continue, s)
            | PingMessage bytes \<Rightarrow> (Continue, log_act (Pong bytes) s)
            | OtherMessage \<Rightarrow> (Continue, s)
            | ConnectionClosed \<Rightarrow> (Break, s)
            | AlreadyClosed \<Rightarrow> (Break, s)
            | CapacityError \<Rightarrow> (Continue, s)
            | Utf8Error \<Rightarrow> (Continue, s)
            | ReadTimedOut \<Rightarrow> (Break, s)
            | OtherReadError gone \<Rightarrow> (if gone then (Break, s) else (Continue, s))))"

text \<open>\<open>None\<close>: still reading when the inputs end; otherwise how the loop was left.\<close>

fun read_loop :: "'d Decoding \<Rightarrow> ReadTurn list \<Rightarrow> Reader \<Rightarrow> Flow \<times> Reader" where
  "read_loop dz [] s = (Continue, s)"
| "read_loop dz (t # ts) s =
     (case read_turn dz t s of
        (Continue, s') \<Rightarrow> read_loop dz ts s'
      | (flow, s') \<Rightarrow> (flow, s'))"

section \<open>jetstream.rs: connecting\<close>

text \<open>A failed connection: give up at the seventh in a row, else back off a second per failure.\<close>

definition connect_failed :: "Reader \<Rightarrow> Flow \<times> Reader" where
  "connect_failed s =
     (let n = cj_retries s + 1; s' = s\<lparr>cj_retries := n\<rparr> in
      if n \<ge> 7 then (BreakOuter, s') else (Break, log_act (Slept n) s'))"

definition attempt_turn :: "'d Decoding \<Rightarrow> string \<Rightarrow> ConnectAttempt \<Rightarrow> Reader \<Rightarrow> Flow \<times> Reader" where
  "attempt_turn dz stream a s =
     (case a of
        BadStreamUrl \<Rightarrow> (Bail, s)
      | NoAddress \<Rightarrow> (Break, log_act (Slept 15) s)
      | ResolveError \<Rightarrow> (Break, log_act (Slept 3) s)
      | TcpError \<Rightarrow> connect_failed s
      | SocketOptionError \<Rightarrow> (Bail, s)
      | HandshakeError \<Rightarrow>
          connect_failed (log_act (Request (stream_url stream (cj_latest_cursor s)) (cj_latest_cursor s)) s)
      | Connected turns \<Rightarrow>
          read_loop dz turns
            (log_act (Request (stream_url stream (cj_latest_cursor s)) (cj_latest_cursor s)) s))"

fun connect_loop :: "'d Decoding \<Rightarrow> string \<Rightarrow> ConnectAttempt list \<Rightarrow> Reader \<Rightarrow> Outcome \<times> Reader" where
  "connect_loop dz stream [] s = (Running, s)"
| "connect_loop dz stream (a # as) s =
     (case attempt_turn dz stream a s of
        (Continue, s') \<Rightarrow> (Running, s')
      | (Break, s') \<Rightarrow> connect_loop dz stream as s'
      | (BreakOuter, s') \<Rightarrow> (Stopped, s')
      | (Bail, s') \<Rightarrow> (Failed, s'))"

definition reader_start :: "u64 option \<Rightarrow> Reader" where
  "reader_start cursor = \<lparr>cj_retries = 0, cj_latest_cursor = cursor, cj_trace = []\<rparr>"

definition consume_jetstream :: "'d Decoding \<Rightarrow> u64 option \<Rightarrow> string \<Rightarrow> ConnectAttempt list \<Rightarrow> Outcome \<times> Reader" where
  "consume_jetstream dz cursor stream attempts = connect_loop dz stream attempts (reader_start cursor)"

fun queued_event :: "Act \<Rightarrow> JsonValue option" where
  "queued_event (Queued v) = Some v"
| "queued_event _ = None"

definition queued :: "Act list \<Rightarrow> JsonValue list" where
  "queued tr = List.map_filter queued_event tr"

text \<open>How long ago a cursor was, in microseconds, zero for one in the future.\<close>

definition ts_age :: "nat \<Rightarrow> u64 \<Rightarrow> nat" where
  "ts_age now ts = now - unat ts"

section \<open>jsonl\_file.rs\<close>

text \<open>The lines of the file, \<open>None\<close> where reading one fails, each with what the channel says to its event.\<close>

fun jsonl_lines :: "(string \<Rightarrow> JsonValue option) \<Rightarrow> (string option \<times> SendOutcome) list \<Rightarrow> JsonValue list \<Rightarrow>
    Outcome \<times> JsonValue list" where
  "jsonl_lines json [] sent = (Stopped, sent)"
| "jsonl_lines json ((l, send) # ls) sent =
     (case l of
        None \<Rightarrow> (Stopped, sent)
      | Some line \<Rightarrow>
          (case json line of
             None \<Rightarrow> (Failed, sent)
           | Some v \<Rightarrow>
               (case send of
                  Queues \<Rightarrow> jsonl_lines json ls (sent @ [v])
                | Rejects True \<Rightarrow> (Failed, sent)
                | Rejects False \<Rightarrow> jsonl_lines json ls sent)))"

definition consume_jsonl_file ::
  "(string \<Rightarrow> JsonValue option) \<Rightarrow> (string option \<times> SendOutcome) list option \<Rightarrow> Outcome \<times> JsonValue list" where
  "consume_jsonl_file json file =
     (case file of None \<Rightarrow> (Failed, []) | Some ls \<Rightarrow> jsonl_lines json ls [])"

section \<open>mod.rs: consume\<close>

text \<open>One update taken from the channel: \<open>push\<close> is unwrapped, so its failure is a panic.\<close>

definition consume_update ::
  "(string \<Rightarrow> Link option) \<Rightarrow> (ActionableEvent \<Rightarrow> u64 \<Rightarrow> 's \<Rightarrow> panic + 's) \<Rightarrow> JsonValue \<Rightarrow> 's \<Rightarrow> panic + 's" where
  "consume_update parse push update s =
     (case get_actionable parse update of
        Some (action, ts) \<Rightarrow> push action ts s
      | None \<Rightarrow> Inr s)"

definition consume_updates ::
  "(string \<Rightarrow> Link option) \<Rightarrow> (ActionableEvent \<Rightarrow> u64 \<Rightarrow> 's \<Rightarrow> panic + 's) \<Rightarrow> JsonValue list \<Rightarrow> 's \<Rightarrow> panic + 's" where
  "consume_updates parse push updates s = fold_res (consume_update parse push) updates s"

datatype UpdateSource =
    Fixture "(string option \<times> SendOutcome) list option"
  | Stream string "ConnectAttempt list"

text \<open>
  Everything the producer puts on the channel is taken off it in order; when the producer has
  ended, its result is that of \<open>consume\<close>.
\<close>

definition produce :: "'d Decoding \<Rightarrow> u64 option \<Rightarrow> UpdateSource \<Rightarrow> Outcome \<times> JsonValue list" where
  "produce dz cursor source =
     (case source of
        Fixture file \<Rightarrow> consume_jsonl_file (dz_json dz) file
      | Stream stream attempts \<Rightarrow>
          (case consume_jetstream dz cursor stream attempts of (out, r) \<Rightarrow> (out, queued (cj_trace r))))"

definition consume ::
  "'d Decoding \<Rightarrow> (string \<Rightarrow> Link option) \<Rightarrow> ('s \<Rightarrow> u64 option) \<Rightarrow> (ActionableEvent \<Rightarrow> u64 \<Rightarrow> 's \<Rightarrow> panic + 's) \<Rightarrow>
     UpdateSource \<Rightarrow> 's \<Rightarrow> panic + Outcome \<times> 's" where
  "consume dz parse get_cursor push source s =
     (case produce dz (get_cursor s) source of
        (out, updates) \<Rightarrow> map_sum id (Pair out) (consume_updates parse push updates s))"

end
