(* ===== verification/Constellation_Reader.thy ===== *)
theory Constellation_Reader
  imports Constellation_Consumer
begin

text \<open>
  The jetstream reader of \<open>constellation\<close>: what it asks for when it reconnects, how long it waits
  and when it gives up.
\<close>

section \<open>The jetstream reader\<close>

fun act_event :: "Act \<Rightarrow> JsonValue option" where
  "act_event (Queued v) = Some v"
| "act_event (Dropped v) = Some v"
| "act_event _ = None"

text \<open>Where the stream has to be resumed after a trace: at the last event taken from it.\<close>

fun resume_step :: "Act \<Rightarrow> u64 option \<Rightarrow> u64 option" where
  "resume_step (Queued v) c = get_event_time v"
| "resume_step (Dropped v) c = get_event_time v"
| "resume_step _ c = c"

definition resume_point :: "u64 option \<Rightarrow> Act list \<Rightarrow> u64 option" where
  "resume_point cursor tr = fold resume_step tr cursor"

text \<open>Every request of a trace asks for the point where the trace before it left off.\<close>

definition asks_latest :: "string \<Rightarrow> u64 option \<Rightarrow> Act list \<Rightarrow> bool" where
  "asks_latest stream cursor tr \<longleftrightarrow>
     (\<forall>pre url c post. tr = pre @ Request url c # post \<longrightarrow>
        c = resume_point cursor pre \<and> url = stream_url stream c)"

definition reader_ok :: "string \<Rightarrow> u64 option \<Rightarrow> Reader \<Rightarrow> bool" where
  "reader_ok stream cursor s \<longleftrightarrow>
     asks_latest stream cursor (cj_trace s) \<and> cj_latest_cursor s = resume_point cursor (cj_trace s) \<and>
     (\<forall>a \<in> set (cj_trace s). \<forall>v. act_event a = Some v \<longrightarrow> get_event_time v \<noteq> None)"

lemma snoc_eq_mid:
  "tr @ [a] = pre @ x # post \<longleftrightarrow> (pre = tr \<and> x = a \<and> post = []) \<or> (\<exists>post'. tr = pre @ x # post' \<and> post = post' @ [a])"
  by (cases post rule: rev_cases) auto

lemma resumes_snoc:
  "asks_latest stream cursor (tr @ [a]) \<longleftrightarrow> asks_latest stream cursor tr \<and>
     (\<forall>url c. a = Request url c \<longrightarrow> c = resume_point cursor tr \<and> url = stream_url stream c)"
  unfolding asks_latest_def snoc_eq_mid by blast

lemma resume_point_snoc: "resume_point cursor (tr @ [a]) = resume_step a (resume_point cursor tr)"
  by (simp add: resume_point_def)

lemma log_act_sel [simp]:
  "cj_trace (log_act a s) = cj_trace s @ [a]" "cj_latest_cursor (log_act a s) = cj_latest_cursor s"
  "cj_retries (log_act a s) = cj_retries s"
  by (simp_all add: log_act_def)

lemmas reader_ok_simps = reader_ok_def resumes_snoc resume_point_snoc

lemma decode_time: "decode_message dz b = Some (v, ts) \<Longrightarrow> get_event_time v = Some ts"
  by (auto simp: decode_message_def split: option.splits)

lemma read_turn_ok:
  assumes "reader_ok stream cursor s" "read_turn dz t s = (flow, s')"
  shows "reader_ok stream cursor s'"
  using assms
  by (auto simp: read_turn_def queue_event_def reader_ok_simps dest!: decode_time
      split: if_splits SocketRead.splits option.splits SendOutcome.splits bool.splits)

lemma read_loop_ok:
  "reader_ok stream cursor s \<Longrightarrow> read_loop dz ts s = (flow, s') \<Longrightarrow> reader_ok stream cursor s'"
  by (induction dz ts s rule: read_loop.induct) (auto split: prod.splits Flow.splits dest: read_turn_ok)

lemma attempt_ok:
  assumes "reader_ok stream cursor s" "attempt_turn dz stream a s = (flow, s')"
  shows "reader_ok stream cursor s'"
proof -
  let ?r = "log_act (Request (stream_url stream (cj_latest_cursor s)) (cj_latest_cursor s)) s"
  have fail: "reader_ok stream cursor s2" if "connect_failed s1 = (f, s2)" "reader_ok stream cursor s1" for s1 s2 f
    using that by (auto simp: connect_failed_def reader_ok_simps Let_def split: if_splits)
  have "reader_ok stream cursor ?r" using assms(1) by (auto simp: reader_ok_simps)
  then have req: "read_loop dz turns ?r = (flow, s') \<Longrightarrow> reader_ok stream cursor s'"
    "connect_failed ?r = (flow, s') \<Longrightarrow> reader_ok stream cursor s'" for turns
    using read_loop_ok fail by blast+
  have slept: "reader_ok stream cursor (log_act (Slept n) s)" for n
    using assms(1) by (simp add: reader_ok_simps)
  show ?thesis
    using assms req slept fail [of s flow s']
    by (cases a) (simp_all add: attempt_turn_def, auto)
qed

lemma connect_loop_ok:
  "reader_ok stream cursor s \<Longrightarrow> connect_loop dz stream as s = (out, s') \<Longrightarrow> reader_ok stream cursor s'"
  by (induction dz stream as s rule: connect_loop.induct) (auto split: prod.splits Flow.splits dest: attempt_ok)


definition ex_json_event :: "rat \<Rightarrow> JsonValue" where
  "ex_json_event n = JObject [(''time_us'', JNumber n)]"

definition ex_decoding :: "u8 list Decoding" where
  "ex_decoding = \<lparr>dz_decoder = Some, dz_read_to_string = \<lambda>_. Some '''', dz_json = \<lambda>_. Some (ex_json_event 7)\<rparr>"

definition ex_turn :: "SocketRead \<Rightarrow> ReadTurn" where
  "ex_turn r = \<lparr>rt_can_read = True, rt_cancelled = False, rt_read = r, rt_send = Queues\<rparr>"

definition ex_attempts :: "ConnectAttempt list" where
  "ex_attempts = [Connected [ex_turn (BinaryMessage [1]), ex_turn ConnectionClosed], Connected []]"

lemma digit_7: "char_of (55 :: nat) = CHR ''7''"
  by code_simp

lemma ex_attempts_run:
  "consume_jetstream ex_decoding None ''s'' ex_attempts =
     (Running, \<lparr>cj_retries = 0, cj_latest_cursor = Some 7,
        cj_trace = [Request ''s?compress=true'' None, Queued (ex_json_event 7)] @
          Request ''s?compress=true&cursor=7'' (Some 7) # []\<rparr>)"
  by (simp add: consume_jetstream_def ex_attempts_def ex_decoding_def ex_turn_def ex_json_event_def
      reader_start_def attempt_turn_def read_turn_def queue_event_def decode_message_def log_act_def
      get_event_time_def f64_as_u64_def stream_url_def decimal.simps digit_7)


text \<open>How many connections in a row have failed, and how long the reader sleeps.\<close>

definition retries_ok :: "Reader \<Rightarrow> bool" where
  "retries_ok s \<longleftrightarrow> cj_retries s < 7 \<and> (\<forall>n. Slept n \<in> set (cj_trace s) \<longrightarrow> n \<le> 15)"

lemma read_turn_retries: "read_turn dz t s = (flow, s') \<Longrightarrow> retries_ok s \<Longrightarrow> retries_ok s'"
  by (auto simp: read_turn_def queue_event_def retries_ok_def
      split: if_splits SocketRead.splits option.splits SendOutcome.splits bool.splits)

lemma read_loop_retries: "read_loop dz ts s = (flow, s') \<Longrightarrow> retries_ok s \<Longrightarrow> retries_ok s'"
  by (induction dz ts s rule: read_loop.induct) (auto split: prod.splits Flow.splits dest: read_turn_retries)

lemma connect_failed_retries:
  "connect_failed s = (flow, s') \<Longrightarrow> retries_ok s \<Longrightarrow>
     flow \<noteq> Continue \<and> (flow \<noteq> BreakOuter \<longrightarrow> retries_ok s') \<and>
     (\<forall>n. Slept n \<in> set (cj_trace s') \<longrightarrow> n \<le> 15)"
  by (auto simp: connect_failed_def retries_ok_def Let_def split: if_splits)

lemma retries_ok_log: "retries_ok s \<Longrightarrow> (\<And>n. a = Slept n \<Longrightarrow> n \<le> 15) \<Longrightarrow> retries_ok (log_act a s)"
  by (auto simp: retries_ok_def)

lemma attempt_retries:
  assumes "attempt_turn dz stream a s = (flow, s')" "retries_ok s"
  shows "(flow \<noteq> BreakOuter \<longrightarrow> retries_ok s') \<and> (\<forall>n. Slept n \<in> set (cj_trace s') \<longrightarrow> n \<le> 15)"
proof -
  let ?r = "log_act (Request (stream_url stream (cj_latest_cursor s)) (cj_latest_cursor s)) s"
  have r: "retries_ok ?r" using assms(2) by (rule retries_ok_log) simp
  have "(\<exists>s1. retries_ok s1 \<and> connect_failed s1 = (flow, s')) \<or> retries_ok s'"
    using assms r by (cases a) (auto simp: attempt_turn_def intro: retries_ok_log dest: read_loop_retries)
  then show ?thesis
  proof
    assume "\<exists>s1. retries_ok s1 \<and> connect_failed s1 = (flow, s')"
    then show ?thesis using connect_failed_retries by blast
  qed (simp add: retries_ok_def)
qed

lemma connect_loop_retries:
  "connect_loop dz stream as s = (out, s') \<Longrightarrow> retries_ok s \<Longrightarrow>
     (out = Running \<longrightarrow> cj_retries s' < 7) \<and> (\<forall>n. Slept n \<in> set (cj_trace s') \<longrightarrow> n \<le> 15)"
proof (induction dz stream as s rule: connect_loop.induct)
  case (2 dz stream a as s)
  obtain flow s1 where step: "attempt_turn dz stream a s = (flow, s1)" by force
  from attempt_retries [OF step 2(3)] 2 step show ?case
    by (cases flow) (auto simp: retries_ok_def)
qed (auto simp: retries_ok_def)

lemma failures_stop:
  "set fs \<subseteq> {TcpError, HandshakeError} \<Longrightarrow> cj_retries s < 7 \<Longrightarrow> length fs = 7 - cj_retries s \<Longrightarrow>
     fst (connect_loop dz stream (fs @ as) s) = Stopped"
proof (induction fs arbitrary: s)
  case (Cons f fs)
  then show ?case
    by (auto simp: attempt_turn_def connect_failed_def Let_def)
qed auto

text \<open>
  The reader gives up: it waits at most fifteen seconds at a time, has seen fewer than seven
  failed connections in a row as long as it runs, and stops at the seventh.
\<close>

theorem reader_gives_up:
  assumes "consume_jetstream dz cursor stream attempts = (Running, s)"
    and "set fs \<subseteq> {TcpError, HandshakeError}" and "cj_retries s + length fs = 7"
  shows "cj_retries s < 7 \<and> (\<forall>n. Slept n \<in> set (cj_trace s) \<longrightarrow> n \<le> 15) \<and>
    fst (connect_loop dz stream (fs @ rest) s) = Stopped"
proof -
  have "retries_ok (reader_start cursor)" by (simp add: retries_ok_def reader_start_def)
  with assms(1) have "cj_retries s < 7" "\<forall>n. Slept n \<in> set (cj_trace s) \<longrightarrow> n \<le> 15"
    using connect_loop_retries [of dz stream attempts "reader_start cursor" Running s]
    by (simp_all add: consume_jetstream_def)
  moreover from this have "length fs = 7 - cj_retries s" using assms(3) by simp
  ultimately show ?thesis using failures_stop [OF assms(2), of s] by simp
qed

theorem reader_gives_up_witness:
  "fst (connect_loop ex_decoding ''s'' ([TcpError, TcpError, HandshakeError, TcpError, TcpError, TcpError, TcpError] @ [])
     \<lparr>cj_retries = 0, cj_latest_cursor = Some 7,
        cj_trace = [Request ''s?compress=true'' None, Queued (ex_json_event 7)] @
          Request ''s?compress=true&cursor=7'' (Some 7) # []\<rparr>) = Stopped"
  using reader_gives_up [OF ex_attempts_run,
      of "[TcpError, TcpError, HandshakeError, TcpError, TcpError, TcpError, TcpError]" "[]"]
  by simp

text \<open>
  Connections that are made and then lost before any event are not counted and not waited
  for: however often a server accepts and closes at once, the reader asks again immediately.
\<close>

theorem reader_spins:
  "connect_loop dz stream (replicate n (Connected [ex_turn ConnectionClosed])) s =
     (Running, s\<lparr>cj_trace := cj_trace s @
        replicate n (Request (stream_url stream (cj_latest_cursor s)) (cj_latest_cursor s))\<rparr>)"
proof (induction n arbitrary: s)
  case (Suc n)
  then show ?case by (simp add: attempt_turn_def read_turn_def ex_turn_def log_act_def replicate_append_same)
qed simp

end
