(* ===== verification/Mem_Store.thy ===== *)
theory Mem_Store
  imports Constellation_Types
begin

text \<open>
  \<open>MemStorage\<close> (\<open>constellation/src/storage/mem_store.rs\<close>): the in-memory backlink index that the
  repository keeps as the reference for the disk implementation.  The state is the record behind
  the mutex; every operation takes the lock for its whole body, so an operation is a function on
  the record, and a failed \<open>expect\<close> is a \<open>Panic\<close>.
\<close>

type_synonym Target = string
type_synonym Source = "string \<times> string"
type_synonym RepoId = "string \<times> string"
type_synonym Linkers = "(Did \<times> string) option list"

section \<open>State and updates\<close>

record MemStorageData =
  md_dids :: "(Did, bool) hashmap"
  md_targets :: "(Target, (Source, Linkers) hashmap) hashmap"
  md_links :: "(Did, (RepoId, (string \<times> Target) list) hashmap) hashmap"

definition mem_new :: MemStorageData where
  "mem_new = \<lparr>md_dids = [], md_targets = [], md_links = []\<rparr>"

definition repo_id_from_record_id :: "RecordId \<Rightarrow> RepoId" where
  "repo_id_from_record_id r = (rid_collection r, rid_rkey r)"

text \<open>One turn of the loop of \<open>add_links\<close>.\<close>

definition mem_add_link :: "RecordId \<Rightarrow> CollectedLink \<Rightarrow> MemStorageData \<Rightarrow> MemStorageData" where
  "mem_add_link record_id link d =
     (let target = into_string (cl_target link) in
      d\<lparr>md_dids := hm_entry (rid_did record_id) True id (md_dids d),
        md_targets :=
          hm_entry target []
            (hm_entry (rid_collection record_id, cl_path link) []
              (\<lambda>ls. ls @ [Some (rid_did record_id, rid_rkey record_id)])) (md_targets d),
        md_links :=
          hm_entry (rid_did record_id) []
            (hm_entry (repo_id_from_record_id record_id) []
              (\<lambda>ts. ts @ [(cl_path link, target)])) (md_links d)\<rparr>)"

definition mem_add_links :: "RecordId \<Rightarrow> CollectedLink list \<Rightarrow> MemStorageData \<Rightarrow> MemStorageData" where
  "mem_add_links record_id links d = fold (mem_add_link record_id) links d"

text \<open>
  Clearing the slot of one linker.  \<open>find_mut\<close> is \<open>rfind\<close> in \<open>remove_links\<close> and \<open>find\<close> in
  \<open>delete_account\<close>, \<open>missing\<close> the message of the last \<open>expect\<close>.
\<close>

type_synonym slot_search =
  "((Did \<times> string) option \<Rightarrow> bool) \<Rightarrow> (Did \<times> string) option \<Rightarrow> Linkers \<Rightarrow> Linkers option"

definition take_linker ::
  "slot_search \<Rightarrow> string \<Rightarrow> Did \<Rightarrow> RepoId \<times> string \<times> Target \<Rightarrow> MemStorageData \<Rightarrow> panic + MemStorageData"
where
  "take_linker find_mut missing did job d =
     (case job of (repo, path, target) \<Rightarrow>
        (case hm_get (md_targets d) target of
           None \<Rightarrow> Inl (Panic ''must have the target if we have a link saved'')
         | Some sources \<Rightarrow>
             (case hm_get sources (fst repo, path) of
                None \<Rightarrow> Inl (Panic ''must have the target at this path if we have a link to it saved'')
              | Some linkers \<Rightarrow>
                  (case find_mut (\<lambda>x. x = Some (did, snd repo)) None linkers of
                     None \<Rightarrow> Inl (Panic missing)
                   | Some linkers' \<Rightarrow>
                       Inr (d\<lparr>md_targets :=
                         hm_insert target (hm_insert (fst repo, path) linkers' sources) (md_targets d)\<rparr>)))))"

definition mem_remove_links :: "RecordId \<Rightarrow> MemStorageData \<Rightarrow> panic + MemStorageData" where
  "mem_remove_links record_id d =
     (let did = rid_did record_id; repo_id = repo_id_from_record_id record_id in
      and_then
        (case hm_get (md_links d) did of
           None \<Rightarrow> Inr d
         | Some cr \<Rightarrow>
             (case hm_get cr repo_id of
                None \<Rightarrow> Inr d
              | Some link_targets \<Rightarrow>
                  fold_res (\<lambda>(path, target). take_linker replace_last
                      ''must be in dids list if we have a link to it'' did (repo_id, path, target))
                    link_targets d))
        (\<lambda>d'. Inr (case hm_get (md_links d') did of
                 None \<Rightarrow> d'
               | Some cr \<Rightarrow> d'\<lparr>md_links := hm_insert did (hm_remove repo_id cr) (md_links d')\<rparr>)))"

definition mem_update_links :: "RecordId \<Rightarrow> CollectedLink list \<Rightarrow> MemStorageData \<Rightarrow> panic + MemStorageData" where
  "mem_update_links record_id new_links d =
     and_then (mem_remove_links record_id d) (\<lambda>d'. Inr (mem_add_links record_id new_links d'))"

definition mem_set_account :: "Did \<Rightarrow> bool \<Rightarrow> MemStorageData \<Rightarrow> MemStorageData" where
  "mem_set_account did active d =
     (case hm_get (md_dids d) did of
        None \<Rightarrow> d
      | Some _ \<Rightarrow> d\<lparr>md_dids := hm_insert did active (md_dids d)\<rparr>)"

definition mem_delete_account :: "Did \<Rightarrow> MemStorageData \<Rightarrow> panic + MemStorageData" where
  "mem_delete_account did d =
     and_then
       (case hm_get (md_links d) did of
          None \<Rightarrow> Inr d
        | Some links \<Rightarrow>
            fold_res (\<lambda>(repo_id, targets).
                fold_res (\<lambda>(record_path, target).
                    take_linker replace_first ''lkasjdlfkj'' did (repo_id, record_path, target)) targets)
              links d)
       (\<lambda>d'. Inr (d'\<lparr>md_links := hm_remove did (md_links d'), md_dids := hm_remove did (md_dids d')\<rparr>))"

fun mem_push :: "ActionableEvent \<Rightarrow> u64 \<Rightarrow> MemStorageData \<Rightarrow> panic + MemStorageData" where
  "mem_push (CreateLinks record_id links) _ d = Inr (mem_add_links record_id links d)"
| "mem_push (UpdateLinks record_id new_links) _ d = mem_update_links record_id new_links d"
| "mem_push (DeleteRecord record_id) _ d = mem_remove_links record_id d"
| "mem_push (ActivateAccount did) _ d = Inr (mem_set_account did True d)"
| "mem_push (DeactivateAccount did) _ d = Inr (mem_set_account did False d)"
| "mem_push (DeleteAccount did) _ d = mem_delete_account did d"

section \<open>Reads\<close>

definition mem_linkers :: "MemStorageData \<Rightarrow> string \<Rightarrow> string \<Rightarrow> string \<Rightarrow> Linkers option" where
  "mem_linkers d target collection path =
     (case hm_get (md_targets d) target of
        None \<Rightarrow> None
      | Some paths \<Rightarrow> hm_get paths (collection, path))"

definition mem_get_count :: "MemStorageData \<Rightarrow> string \<Rightarrow> string \<Rightarrow> string \<Rightarrow> u64" where
  "mem_get_count d target collection path =
     (case mem_linkers d target collection path of
        None \<Rightarrow> 0
      | Some linkers \<Rightarrow> of_nat (length (flatten_opts linkers)))"

definition mem_get_distinct_did_count :: "MemStorageData \<Rightarrow> string \<Rightarrow> string \<Rightarrow> string \<Rightarrow> u64" where
  "mem_get_distinct_did_count d target collection path =
     (case mem_linkers d target collection path of
        None \<Rightarrow> 0
      | Some linkers \<Rightarrow> of_nat (card (fst ` set (flatten_opts linkers))))"

text \<open>The window \<open>begin..end\<close> of a page and the cursor of the next one.\<close>

definition page_bounds :: "nat \<Rightarrow> u64 \<Rightarrow> u64 option \<Rightarrow> nat \<times> nat" where
  "page_bounds tot limit until =
     (let e = (case until of None \<Rightarrow> tot | Some u \<Rightarrow> min (unat u) tot)
      in (e - unat limit, e))"

definition next_cursor :: "nat \<Rightarrow> u64 option" where
  "next_cursor b = (if b = 0 then None else Some (of_nat b))"

definition slice :: "nat \<Rightarrow> nat \<Rightarrow> 'a list \<Rightarrow> 'a list" where
  "slice b e xs = drop b (take e xs)"

definition mem_is_active :: "MemStorageData \<Rightarrow> Did \<Rightarrow> panic + bool" where
  "mem_is_active d did =
     (case hm_get (md_dids d) did of
        None \<Rightarrow> Inl (Panic ''did must be in dids'')
      | Some active \<Rightarrow> Inr active)"

definition mem_get_links ::
  "MemStorageData \<Rightarrow> string \<Rightarrow> string \<Rightarrow> string \<Rightarrow> u64 \<Rightarrow> u64 option \<Rightarrow> panic + RecordId PagedAppendingCollection"
where
  "mem_get_links d target collection path limit until =
     (case mem_linkers d target collection path of
        None \<Rightarrow> Inr empty_page
      | Some did_rkeys \<Rightarrow>
          let tot = length did_rkeys;
              (b, e) = page_bounds tot limit until;
              alive = length (flatten_opts did_rkeys);
              gone = tot - alive
          in map_sum id
               (\<lambda>items. \<lparr>pac_version = (of_nat tot, of_nat gone),
                         pac_items = map (\<lambda>(did, rkey).
                           \<lparr>rid_did = did, rid_collection = collection, rid_rkey = rkey\<rparr>) items,
                         pac_next = next_cursor b,
                         pac_total = of_nat alive\<rparr>)
               (filter_res (\<lambda>(did, _). mem_is_active d did)
                 (flatten_opts (rev (slice b e did_rkeys)))))"

text \<open>Keeping the first occurrence of every DID, \<open>None\<close> in place of the others.\<close>

fun dedup_dids :: "Did list \<Rightarrow> Linkers \<Rightarrow> Did option list" where
  "dedup_dids seen [] = []"
| "dedup_dids seen (None # ls) = None # dedup_dids seen ls"
| "dedup_dids seen (Some (did, _) # ls) =
     (if did \<in> set seen then None # dedup_dids seen ls
      else Some did # dedup_dids (did # seen) ls)"

definition mem_get_distinct_dids ::
  "MemStorageData \<Rightarrow> string \<Rightarrow> string \<Rightarrow> string \<Rightarrow> u64 \<Rightarrow> u64 option \<Rightarrow> panic + Did PagedAppendingCollection"
where
  "mem_get_distinct_dids d target collection path limit until =
     (case mem_linkers d target collection path of
        None \<Rightarrow> Inr empty_page
      | Some did_rkeys \<Rightarrow>
          let dids = dedup_dids [] did_rkeys;
              tot = length dids;
              (b, e) = page_bounds tot limit until;
              alive = length (flatten_opts dids);
              gone = tot - alive
          in map_sum id
               (\<lambda>items. \<lparr>pac_version = (of_nat tot, of_nat gone),
                         pac_items = items,
                         pac_next = next_cursor b,
                         pac_total = of_nat alive\<rparr>)
               (filter_res (mem_is_active d) (flatten_opts (rev (slice b e dids)))))"

definition mem_get_all_record_counts ::
  "MemStorageData \<Rightarrow> string \<Rightarrow> (string, (string, u64) hashmap) hashmap" where
  "mem_get_all_record_counts d target =
     (case hm_get (md_targets d) target of
        None \<Rightarrow> []
      | Some sources \<Rightarrow>
          fold (\<lambda>((collection, path), linkers) out.
              hm_entry collection [] (hm_insert path (of_nat (length (flatten_opts linkers)))) out)
            sources [])"

definition mem_get_all_counts ::
  "MemStorageData \<Rightarrow> string \<Rightarrow> (string, (string, CountsByCount) hashmap) hashmap" where
  "mem_get_all_counts d target =
     (case hm_get (md_targets d) target of
        None \<Rightarrow> []
      | Some sources \<Rightarrow>
          fold (\<lambda>((collection, path), linkers) out.
              hm_entry collection []
                (hm_insert path
                  \<lparr>cbc_records = of_nat (length (flatten_opts linkers)),
                   cbc_distinct_dids = of_nat (card (fst ` set (flatten_opts linkers)))\<rparr>) out)
            sources [])"

definition mem_get_stats :: "MemStorageData \<Rightarrow> StorageStats" where
  "mem_get_stats d =
     \<lparr>stat_dids = of_nat (length (md_dids d)),
      stat_targetables = of_nat (sum_list (map (\<lambda>(_, sources). length sources) (md_targets d))),
      stat_linking_records = of_nat (sum_list (map (\<lambda>(_, recs). length recs) (md_links d)))\<rparr>"

section \<open>The abstract index\<close>

text \<open>
  What the store promises: the links each record currently holds and the accounts it knows, with
  their activity.  \<open>spec_push\<close> is the effect of an event on that; it never fails.
\<close>

record link_spec =
  ls_links :: "Did \<Rightarrow> RepoId \<Rightarrow> (string \<times> Target) list"
  ls_active :: "Did \<rightharpoonup> bool"

definition link_pair :: "CollectedLink \<Rightarrow> string \<times> Target" where
  "link_pair l = (cl_path l, into_string (cl_target l))"

definition spec_know :: "Did \<Rightarrow> CollectedLink list \<Rightarrow> (Did \<rightharpoonup> bool) \<Rightarrow> (Did \<rightharpoonup> bool)" where
  "spec_know did links active =
     (if links \<noteq> [] \<and> active did = None then active(did \<mapsto> True) else active)"

definition spec_set_links ::
  "RecordId \<Rightarrow> (string \<times> Target) list \<Rightarrow> link_spec \<Rightarrow> link_spec" where
  "spec_set_links r ps s =
     s\<lparr>ls_links := (ls_links s)(rid_did r := (ls_links s (rid_did r))(repo_id_from_record_id r := ps))\<rparr>"

fun spec_push :: "ActionableEvent \<Rightarrow> link_spec \<Rightarrow> link_spec" where
  "spec_push (CreateLinks r links) s =
     (spec_set_links r (ls_links s (rid_did r) (repo_id_from_record_id r) @ map link_pair links) s)
       \<lparr>ls_active := spec_know (rid_did r) links (ls_active s)\<rparr>"
| "spec_push (UpdateLinks r links) s =
     (spec_set_links r (map link_pair links) s)\<lparr>ls_active := spec_know (rid_did r) links (ls_active s)\<rparr>"
| "spec_push (DeleteRecord r) s = spec_set_links r [] s"
| "spec_push (ActivateAccount did) s =
     (if ls_active s did = None then s else s\<lparr>ls_active := (ls_active s)(did \<mapsto> True)\<rparr>)"
| "spec_push (DeactivateAccount did) s =
     (if ls_active s did = None then s else s\<lparr>ls_active := (ls_active s)(did \<mapsto> False)\<rparr>)"
| "spec_push (DeleteAccount did) s =
     \<lparr>ls_links = (ls_links s)(did := (\<lambda>_. [])), ls_active = (ls_active s)(did := None)\<rparr>"

definition linkers_of :: "MemStorageData \<Rightarrow> Target \<Rightarrow> Source \<Rightarrow> Linkers" where
  "linkers_of d t s = (case mem_linkers d t (fst s) (snd s) of None \<Rightarrow> [] | Some ls \<Rightarrow> ls)"

definition links_of :: "MemStorageData \<Rightarrow> Did \<Rightarrow> RepoId \<Rightarrow> (string \<times> Target) list" where
  "links_of d did repo =
     (case hm_get (md_links d) did of
        None \<Rightarrow> []
      | Some m \<Rightarrow> (case hm_get m repo of None \<Rightarrow> [] | Some ts \<Rightarrow> ts))"

definition mem_abs :: "MemStorageData \<Rightarrow> link_spec" where
  "mem_abs d = \<lparr>ls_links = links_of d, ls_active = hm_get (md_dids d)\<rparr>"

text \<open>
  The invariant: the maps have unique keys, the reverse index holds a linker exactly as often as
  the forward index holds its link, and every account with links is known.
\<close>

definition mem_wf :: "MemStorageData \<Rightarrow> bool" where
  "mem_wf d \<longleftrightarrow> hm_inv (md_dids d) \<and> hm_inv (md_targets d) \<and> hm_inv (md_links d) \<and>
     (\<forall>t m. hm_get (md_targets d) t = Some m \<longrightarrow> hm_inv m) \<and>
     (\<forall>did m. hm_get (md_links d) did = Some m \<longrightarrow> hm_inv m)"

type_synonym job = "RepoId \<times> string \<times> Target"

definition cnt :: "MemStorageData \<Rightarrow> Did \<Rightarrow> job \<Rightarrow> nat" where
  "cnt d did j = (case j of (repo, p, t) \<Rightarrow> count_list (linkers_of d t (fst repo, p)) (Some (did, snd repo)))"

definition mem_inv :: "MemStorageData \<Rightarrow> bool" where
  "mem_inv d \<longleftrightarrow> mem_wf d \<and>
     (\<forall>did repo p t. cnt d did (repo, p, t) = count_list (links_of d did repo) (p, t)) \<and>
     (\<forall>did repo. links_of d did repo \<noteq> [] \<longrightarrow> hm_get (md_dids d) did \<noteq> None)"

text \<open>Slots are only appended or emptied, so positions in a linker list never move.\<close>

definition slots_extend :: "'a option list \<Rightarrow> 'a option list \<Rightarrow> bool" where
  "slots_extend ls ls' \<longleftrightarrow>
     length ls \<le> length ls' \<and> (\<forall>i < length ls. ls' ! i = ls ! i \<or> ls' ! i = None)"

primrec mem_run :: "(ActionableEvent \<times> u64) list \<Rightarrow> MemStorageData \<Rightarrow> panic + MemStorageData" where
  "mem_run [] d = Inr d"
| "mem_run (e # es) d = and_then (mem_push (fst e) (snd e) d) (mem_run es)"

section \<open>Adding links\<close>

lemma linkers_of_add:
  "linkers_of (mem_add_link r l d) t s =
     linkers_of d t s @
       (if t = into_string (cl_target l) \<and> s = (rid_collection r, cl_path l)
        then [Some (rid_did r, rid_rkey r)] else [])"
  by (cases s) (auto simp: linkers_of_def mem_linkers_def mem_add_link_def Let_def split: option.split)

lemma links_of_add:
  "links_of (mem_add_link r l d) did repo =
     links_of d did repo @
       (if did = rid_did r \<and> repo = repo_id_from_record_id r then [link_pair l] else [])"
  by (auto simp: links_of_def mem_add_link_def link_pair_def Let_def split: option.split)

lemma dids_add:
  "hm_get (md_dids (mem_add_link r l d)) did =
     (if did = rid_did r \<and> hm_get (md_dids d) did = None then Some True else hm_get (md_dids d) did)"
  by (auto simp: mem_add_link_def Let_def split: option.split)

lemma mem_wf_add: "mem_wf d \<Longrightarrow> mem_wf (mem_add_link r l d)"
  by (auto simp: mem_wf_def mem_add_link_def Let_def split: if_splits option.splits)

lemma mem_inv_add_link:
  assumes "mem_inv d"
  shows "mem_inv (mem_add_link r l d)"
proof -
  have "cnt (mem_add_link r l d) did (repo, p, t) = count_list (links_of (mem_add_link r l d) did repo) (p, t)"
    for did repo p t
    using assms
    by (cases repo) (auto simp: mem_inv_def cnt_def linkers_of_add links_of_add link_pair_def
        repo_id_from_record_id_def)
  moreover have "hm_get (md_dids (mem_add_link r l d)) did \<noteq> None"
    if "links_of (mem_add_link r l d) did repo \<noteq> []" for did repo
  proof (cases "links_of d did repo = []")
    case True
    with that show ?thesis by (auto simp: links_of_add dids_add split: if_splits)
  next
    case False
    with assms have "hm_get (md_dids d) did \<noteq> None" unfolding mem_inv_def by blast
    then show ?thesis by (auto simp: dids_add)
  qed
  ultimately show ?thesis using assms unfolding mem_inv_def by (auto simp: mem_wf_add)
qed

lemma mem_inv_add_links: "mem_inv d \<Longrightarrow> mem_inv (mem_add_links r ls d)"
  unfolding mem_add_links_def by (induction ls arbitrary: d) (auto simp: mem_inv_add_link)

lemma links_of_add_links:
  "links_of (mem_add_links r ls d) did repo =
     links_of d did repo @
       (if did = rid_did r \<and> repo = repo_id_from_record_id r then map link_pair ls else [])"
  unfolding mem_add_links_def by (induction ls arbitrary: d) (auto simp: links_of_add)

lemma dids_add_links:
  "hm_get (md_dids (mem_add_links r ls d)) = spec_know (rid_did r) ls (hm_get (md_dids d))"
  unfolding mem_add_links_def
proof (induction ls arbitrary: d)
  case (Cons l ls)
  show ?case by (rule ext) (simp add: Cons.IH spec_know_def dids_add)
qed (simp add: spec_know_def)

section \<open>Clearing slots\<close>

lemma slots_extend_refl: "slots_extend ls ls"
  by (simp add: slots_extend_def)

lemma slots_extend_trans: "slots_extend a b \<Longrightarrow> slots_extend b c \<Longrightarrow> slots_extend a c"
proof -
  assume ab: "slots_extend a b" and bc: "slots_extend b c"
  have "c ! i = a ! i \<or> c ! i = None" if "i < length a" for i
  proof -
    from that ab have "i < length b" and "b ! i = a ! i \<or> b ! i = None" by (auto simp: slots_extend_def)
    with bc show ?thesis by (auto simp: slots_extend_def)
  qed
  with ab bc show ?thesis by (auto simp: slots_extend_def)
qed

lemma slots_extend_append: "slots_extend ls (ls @ ls')"
  by (simp add: slots_extend_def nth_append)

lemma slots_extend_clear: "slots_extend (us @ x # vs) (us @ None # vs)"
  by (auto simp: slots_extend_def nth_append nth_Cons split: nat.split)

text \<open>
  What \<open>take_linker\<close> needs of the search it is given: when the linker is present, it finds one
  occurrence and empties exactly that slot.
\<close>

locale slot_clear =
  fixes find_mut :: slot_search
  assumes clears: "0 < count_list ls (Some w) \<Longrightarrow>
    \<exists>ls'. find_mut (\<lambda>x. x = Some w) None ls = Some ls' \<and>
      (\<forall>v. count_list ls' (Some v) = count_list ls (Some v) - (if v = w then 1 else 0))"
    and keeps: "find_mut (\<lambda>x. x = Some w) None ls = Some ls' \<Longrightarrow> slots_extend ls ls'"
begin

lemma take_linker_slots:
  assumes "take_linker find_mut msg did j d = Inr d'"
  shows "slots_extend (linkers_of d t s) (linkers_of d' t s)"
proof -
  obtain repo p t0 where j: "j = (repo, p, t0)" by (cases j) auto
  with assms obtain sources ls ls' where "hm_get (md_targets d) t0 = Some sources"
    "hm_get sources (fst repo, p) = Some ls"
    and ls': "find_mut (\<lambda>x. x = Some (did, snd repo)) None ls = Some ls'"
    and "d' = d\<lparr>md_targets := hm_insert t0 (hm_insert (fst repo, p) ls' sources) (md_targets d)\<rparr>"
    by (auto simp: take_linker_def split: option.splits)
  then have "linkers_of d t0 (fst repo, p) = ls"
    and "linkers_of d' t s = (if t = t0 \<and> s = (fst repo, p) then ls' else linkers_of d t s)"
    by (auto simp: linkers_of_def mem_linkers_def)
  with keeps [OF ls'] show ?thesis by (auto simp: slots_extend_refl)
qed

lemma take_linkers_slots:
  "fold_res (take_linker find_mut msg did) js d = Inr d' \<Longrightarrow> slots_extend (linkers_of d t s) (linkers_of d' t s)"
proof (induction js arbitrary: d)
  case (Cons j js)
  then obtain d1 where "take_linker find_mut msg did j d = Inr d1"
    "fold_res (take_linker find_mut msg did) js d1 = Inr d'" by (auto split: sum.splits)
  with Cons.IH take_linker_slots show ?case by (blast intro: slots_extend_trans)
qed (simp add: slots_extend_refl)

lemma take_linker_ok:
  assumes "0 < cnt d did j"
  shows "\<exists>d'. take_linker find_mut msg did j d = Inr d' \<and> md_links d' = md_links d \<and>
    md_dids d' = md_dids d \<and> (mem_wf d \<longrightarrow> mem_wf d') \<and>
    (\<forall>did' j'. cnt d' did' j' = cnt d did' j' - (if did' = did \<and> j' = j then 1 else 0))"
proof -
  obtain repo p t where j: "j = (repo, p, t)" by (cases j) auto
  with assms obtain sources ls where t: "hm_get (md_targets d) t = Some sources"
    and s: "hm_get sources (fst repo, p) = Some ls" and c: "0 < count_list ls (Some (did, snd repo))"
    by (auto simp: cnt_def linkers_of_def mem_linkers_def split: option.splits)
  from clears [OF c] obtain ls' where ls': "find_mut (\<lambda>x. x = Some (did, snd repo)) None ls = Some ls'"
    and cl: "\<And>v. count_list ls' (Some v) = count_list ls (Some v) - (if v = (did, snd repo) then 1 else 0)"
    by blast
  define d' where "d' = d\<lparr>md_targets := hm_insert t (hm_insert (fst repo, p) ls' sources) (md_targets d)\<rparr>"
  have "take_linker find_mut msg did j d = Inr d'"
    using t s ls' by (simp add: take_linker_def j d'_def)
  moreover have "cnt d' did' j' = cnt d did' j' - (if did' = did \<and> j' = j then 1 else 0)" for did' j'
    using t s cl by (cases j'; cases repo) (auto simp: cnt_def linkers_of_def mem_linkers_def d'_def j split: option.splits)
  moreover have "mem_wf d \<longrightarrow> mem_wf d'"
    using t by (auto simp: mem_wf_def d'_def split: if_splits)
  ultimately show ?thesis by (intro exI [of _ d']) (simp add: d'_def)
qed

lemma take_linkers_ok:
  assumes "\<And>j. count_list js j \<le> cnt d did j"
  shows "\<exists>d'. fold_res (take_linker find_mut msg did) js d = Inr d' \<and> md_links d' = md_links d \<and>
    md_dids d' = md_dids d \<and> (mem_wf d \<longrightarrow> mem_wf d') \<and>
    (\<forall>did' j'. cnt d' did' j' = cnt d did' j' - (if did' = did then count_list js j' else 0))"
  using assms
proof (induction js arbitrary: d)
  case (Cons j js)
  from Cons.prems [of j] have "0 < cnt d did j" by simp
  then obtain d1 where d1: "take_linker find_mut msg did j d = Inr d1" "md_links d1 = md_links d"
    "md_dids d1 = md_dids d" "mem_wf d \<longrightarrow> mem_wf d1"
    and c1: "\<And>did' j'. cnt d1 did' j' = cnt d did' j' - (if did' = did \<and> j' = j then 1 else 0)"
    using take_linker_ok by blast
  have "count_list js j' \<le> cnt d1 did j'" for j'
    using Cons.prems [of j'] c1 [of did j'] by (auto split: if_splits)
  then obtain d' where "fold_res (take_linker find_mut msg did) js d1 = Inr d'" "md_links d' = md_links d1"
    "md_dids d' = md_dids d1" "mem_wf d1 \<longrightarrow> mem_wf d'"
    "\<And>did' j'. cnt d' did' j' = cnt d1 did' j' - (if did' = did then count_list js j' else 0)"
    using Cons.IH by blast
  with d1 c1 show ?case by (intro exI [of _ d']) auto
qed simp

end

interpretation rfind: slot_clear replace_last
proof
  fix ls :: Linkers and w
  assume "0 < count_list ls (Some w)"
  from clear_last_exists [OF this] obtain ls' where "replace_last (\<lambda>x. x = Some w) None ls = Some ls'" ..
  with count_clear_last [OF this]
  show "\<exists>ls'. replace_last (\<lambda>x. x = Some w) None ls = Some ls' \<and>
      (\<forall>v. count_list ls' (Some v) = count_list ls (Some v) - (if v = w then 1 else 0))" by blast
qed (auto dest!: replace_last_Some simp: slots_extend_clear)

interpretation lfind: slot_clear replace_first
proof
  fix ls :: Linkers and w
  assume "0 < count_list ls (Some w)"
  from clear_first_exists [OF this] obtain ls' where "replace_first (\<lambda>x. x = Some w) None ls = Some ls'" ..
  with count_clear_first [OF this]
  show "\<exists>ls'. replace_first (\<lambda>x. x = Some w) None ls = Some ls' \<and>
      (\<forall>v. count_list ls' (Some v) = count_list ls (Some v) - (if v = w then 1 else 0))" by blast
qed (auto dest!: replace_first_Some simp: slots_extend_clear)

section \<open>Every event keeps the invariant and implements the abstract index\<close>

lemma count_list_tag:
  "count_list (map (Pair repo) L) (repo', x) = (if repo' = repo then count_list L x else 0)"
  by (induction L) auto

lemma count_list_jobs:
  assumes "distinct (map fst links)"
  shows "count_list (concat (map (\<lambda>(repo, ts). map (Pair repo) ts) links)) (repo, x) =
    (case map_of links repo of None \<Rightarrow> 0 | Some ts \<Rightarrow> count_list ts x)"
  using assms
proof (induction links)
  case (Cons a links)
  obtain r ts where a: "a = (r, ts)" by force
  have "map_of links r = None" using Cons.prems a by (simp add: map_of_eq_None_iff)
  with Cons a show ?case by (auto simp: count_list_tag)
qed simp

lemma links_of_eq_map_of:
  "links_of d did repo = (case hm_get (md_links d) did of None \<Rightarrow> []
     | Some m \<Rightarrow> (case map_of m repo of None \<Rightarrow> [] | Some ts \<Rightarrow> ts))"
  unfolding links_of_def hm_get_def ..

lemma mem_inv_cnt: "mem_inv d \<Longrightarrow> cnt d did (repo, p, t) = count_list (links_of d did repo) (p, t)"
  unfolding mem_inv_def by blast

lemma mem_inv_known: "mem_inv d \<Longrightarrow> links_of d did repo \<noteq> [] \<Longrightarrow> hm_get (md_dids d) did \<noteq> None"
  unfolding mem_inv_def by blast

lemma mem_invI:
  assumes "mem_wf d"
    and "\<And>did repo p t. cnt d did (repo, p, t) = count_list (links_of d did repo) (p, t)"
    and "\<And>did repo. links_of d did repo \<noteq> [] \<Longrightarrow> hm_get (md_dids d) did \<noteq> None"
  shows "mem_inv d"
  using assms unfolding mem_inv_def by blast

lemma mem_remove_links_fold:
  "mem_remove_links r d =
     and_then (fold_res (take_linker replace_last ''must be in dids list if we have a link to it'' (rid_did r))
         (map (Pair (repo_id_from_record_id r)) (links_of d (rid_did r) (repo_id_from_record_id r))) d)
       (\<lambda>d'. Inr (case hm_get (md_links d') (rid_did r) of
                 None \<Rightarrow> d'
               | Some cr \<Rightarrow> d'\<lparr>md_links := hm_insert (rid_did r)
                   (hm_remove (repo_id_from_record_id r) cr) (md_links d')\<rparr>))"
  by (simp add: mem_remove_links_def Let_def links_of_def fold_res_map comp_def case_prod_unfold split: option.split)

lemma mem_remove_links_ok:
  assumes inv: "mem_inv d"
  shows "\<exists>d'. mem_remove_links r d = Inr d' \<and> mem_inv d' \<and> md_dids d' = md_dids d \<and>
    (\<forall>did repo. links_of d' did repo =
       (if did = rid_did r \<and> repo = repo_id_from_record_id r then [] else links_of d did repo))"
proof -
  define did where "did = rid_did r"
  define repo where "repo = repo_id_from_record_id r"
  define js where "js = map (Pair repo) (links_of d did repo)"
  have cj: "count_list js (repo', p, t) = (if repo' = repo then count_list (links_of d did repo) (p, t) else 0)"
    for repo' p t by (simp add: js_def count_list_tag)
  have "count_list js j \<le> cnt d did j" for j
    by (cases j) (simp add: cj mem_inv_cnt [OF inv])
  from rfind.take_linkers_ok [OF this, where msg = "''must be in dids list if we have a link to it''"]
  obtain d1 where d1: "fold_res (take_linker replace_last
      ''must be in dids list if we have a link to it'' did) js d = Inr d1"
    "md_links d1 = md_links d" "md_dids d1 = md_dids d" "mem_wf d \<longrightarrow> mem_wf d1"
    and c1: "\<And>did' j'. cnt d1 did' j' = cnt d did' j' - (if did' = did then count_list js j' else 0)"
    by blast
  define d' where "d' = (case hm_get (md_links d1) did of
      None \<Rightarrow> d1
    | Some cr \<Rightarrow> d1\<lparr>md_links := hm_insert did (hm_remove repo cr) (md_links d1)\<rparr>)"
  have rem: "mem_remove_links r d = Inr d'"
    using d1(1) unfolding mem_remove_links_fold did_def repo_def js_def d'_def by simp
  have lk: "links_of d' did' repo' =
      (if did' = did \<and> repo' = repo then [] else links_of d did' repo')" for did' repo'
    using d1(2) by (auto simp: d'_def links_of_def split: option.split)
  have ct: "cnt d' did' j' = cnt d1 did' j'" for did' j'
    by (auto simp: d'_def cnt_def linkers_of_def mem_linkers_def split: option.split)
  have "mem_wf d'"
    using inv d1(4) by (auto simp: mem_inv_def mem_wf_def d'_def split: option.splits if_splits)
  moreover have "cnt d' did' (repo', p, t) = count_list (links_of d' did' repo') (p, t)" for did' repo' p t
    by (simp add: ct c1 cj lk mem_inv_cnt [OF inv])
  moreover have dids: "md_dids d' = md_dids d" using d1(3) by (auto simp: d'_def split: option.split)
  moreover have "hm_get (md_dids d') did' \<noteq> None" if "links_of d' did' repo' \<noteq> []" for did' repo'
    using that mem_inv_known [OF inv] unfolding dids by (metis lk)
  ultimately have "mem_inv d'" by (intro mem_invI) blast+
  with rem lk dids show ?thesis unfolding did_def repo_def by blast
qed

lemma mem_delete_account_fold:
  "mem_delete_account did d =
     and_then (fold_res (take_linker replace_first ''lkasjdlfkj'' did)
         (concat (map (\<lambda>(repo, ts). map (Pair repo) ts)
            (case hm_get (md_links d) did of None \<Rightarrow> [] | Some links \<Rightarrow> links))) d)
       (\<lambda>d'. Inr (d'\<lparr>md_links := hm_remove did (md_links d'), md_dids := hm_remove did (md_dids d')\<rparr>))"
  by (simp add: mem_delete_account_def fold_res_concat fold_res_map comp_def case_prod_unfold
      split: option.split)

lemma mem_delete_account_ok:
  assumes inv: "mem_inv d"
  shows "\<exists>d'. mem_delete_account did d = Inr d' \<and> mem_inv d' \<and>
    hm_get (md_dids d') = (hm_get (md_dids d))(did := None) \<and>
    (\<forall>did' repo. links_of d' did' repo = (if did' = did then [] else links_of d did' repo))"
proof -
  define links where "links = (case hm_get (md_links d) did of None \<Rightarrow> [] | Some links \<Rightarrow> links)"
  define js where "js = concat (map (\<lambda>(repo, ts). map (Pair repo) ts) links)"
  have dist: "distinct (map fst links)"
    using inv by (auto simp: links_def mem_inv_def mem_wf_def hm_inv_def split: option.split)
  have cj: "count_list js (repo, p, t) = count_list (links_of d did repo) (p, t)" for repo p t
    using dist by (auto simp: js_def count_list_jobs links_def links_of_eq_map_of split: option.split)
  have "count_list js j \<le> cnt d did j" for j
    by (cases j) (simp add: cj mem_inv_cnt [OF inv])
  from lfind.take_linkers_ok [OF this, where msg = "''lkasjdlfkj''"]
  obtain d1 where d1: "fold_res (take_linker replace_first ''lkasjdlfkj'' did) js d = Inr d1"
    "md_links d1 = md_links d" "md_dids d1 = md_dids d" "mem_wf d \<longrightarrow> mem_wf d1"
    and c1: "\<And>did' j'. cnt d1 did' j' = cnt d did' j' - (if did' = did then count_list js j' else 0)"
    by blast
  define d' where "d' = d1\<lparr>md_links := hm_remove did (md_links d1), md_dids := hm_remove did (md_dids d1)\<rparr>"
  have del: "mem_delete_account did d = Inr d'"
    using d1(1) by (simp add: mem_delete_account_fold js_def links_def d'_def)
  have lk: "links_of d' did' repo = (if did' = did then [] else links_of d did' repo)" for did' repo
    using d1(2) by (auto simp: d'_def links_of_def)
  have ct: "cnt d' did' j' = cnt d1 did' j'" for did' j'
    by (simp add: d'_def cnt_def linkers_of_def mem_linkers_def)
  have "mem_wf d'"
    using inv d1(4) by (auto simp: mem_inv_def mem_wf_def d'_def split: if_splits)
  moreover have "cnt d' did' (repo, p, t) = count_list (links_of d' did' repo) (p, t)" for did' repo p t
    by (simp add: ct c1 cj lk mem_inv_cnt [OF inv])
  moreover have dids: "hm_get (md_dids d') = (hm_get (md_dids d))(did := None)"
    by (rule ext) (simp add: d'_def d1(3))
  moreover have "hm_get (md_dids d') did' \<noteq> None" if "links_of d' did' repo \<noteq> []" for did' repo
    using that mem_inv_known [OF inv] unfolding dids by (metis fun_upd_other lk)
  ultimately have "mem_inv d'" by (intro mem_invI) blast+
  with del lk dids show ?thesis by blast
qed

lemma mem_set_account_ok:
  assumes "mem_inv d"
  shows "mem_inv (mem_set_account did a d)"
    and "links_of (mem_set_account did a d) = links_of d"
    and "hm_get (md_dids (mem_set_account did a d)) =
      (if hm_get (md_dids d) did = None then hm_get (md_dids d) else (hm_get (md_dids d))(did \<mapsto> a))"
proof -
  show lk: "links_of (mem_set_account did a d) = links_of d"
    by (intro ext) (simp add: mem_set_account_def links_of_def split: option.split)
  show dids: "hm_get (md_dids (mem_set_account did a d)) =
      (if hm_get (md_dids d) did = None then hm_get (md_dids d) else (hm_get (md_dids d))(did \<mapsto> a))"
    by (rule ext) (auto simp: mem_set_account_def split: option.split)
  have "cnt (mem_set_account did a d) = cnt d"
    by (intro ext) (simp add: mem_set_account_def cnt_def linkers_of_def mem_linkers_def split: option.split)
  moreover have "mem_wf (mem_set_account did a d)"
    using assms by (auto simp: mem_inv_def mem_wf_def mem_set_account_def split: option.split)
  ultimately show "mem_inv (mem_set_account did a d)"
    using mem_inv_cnt [OF assms] mem_inv_known [OF assms] by (intro mem_invI) (auto simp: lk dids)
qed

lemma mem_abs_eqI:
  assumes "links_of d' = ls_links s" "hm_get (md_dids d') = ls_active s"
  shows "mem_abs d' = s"
  using assms by (simp add: mem_abs_def)

lemma mem_push_ok:
  assumes inv: "mem_inv d"
  shows "\<exists>d'. mem_push ev cursor d = Inr d' \<and> mem_inv d' \<and> mem_abs d' = spec_push ev (mem_abs d)"
proof (cases ev)
  case (CreateLinks r ls)
  then show ?thesis using mem_inv_add_links [OF inv]
    by (auto simp: mem_abs_def links_of_add_links dids_add_links spec_set_links_def fun_eq_iff)
next
  case (UpdateLinks r ls)
  from mem_remove_links_ok [OF inv, of r] obtain d1 where "mem_remove_links r d = Inr d1" "mem_inv d1"
    "md_dids d1 = md_dids d" "\<forall>did repo. links_of d1 did repo =
       (if did = rid_did r \<and> repo = repo_id_from_record_id r then [] else links_of d did repo)" by blast
  then show ?thesis using mem_inv_add_links [of d1] UpdateLinks
    by (auto simp: mem_update_links_def mem_abs_def links_of_add_links dids_add_links spec_set_links_def fun_eq_iff)
next
  case (DeleteRecord r)
  from mem_remove_links_ok [OF inv, of r] obtain d1 where "mem_remove_links r d = Inr d1" "mem_inv d1"
    "md_dids d1 = md_dids d" and lk: "\<And>did repo. links_of d1 did repo =
       (if did = rid_did r \<and> repo = repo_id_from_record_id r then [] else links_of d did repo)" by blast
  moreover from lk have "links_of d1 =
      (links_of d)(rid_did r := (links_of d (rid_did r))(repo_id_from_record_id r := []))"
    by (intro ext) auto
  ultimately show ?thesis using DeleteRecord by (auto simp: mem_abs_def spec_set_links_def)
next
  case (ActivateAccount did)
  then show ?thesis using mem_set_account_ok [OF inv, of did True] by (auto simp: mem_abs_def)
next
  case (DeactivateAccount did)
  then show ?thesis using mem_set_account_ok [OF inv, of did False] by (auto simp: mem_abs_def)
next
  case (DeleteAccount did)
  from mem_delete_account_ok [OF inv, of did] show ?thesis using DeleteAccount
    by (auto simp: mem_abs_def fun_eq_iff)
qed

lemma mem_inv_new: "mem_inv mem_new"
  by (simp add: mem_inv_def mem_wf_def mem_new_def cnt_def linkers_of_def mem_linkers_def links_of_def)

lemma mem_run_ok:
  "mem_inv d \<Longrightarrow> \<exists>d'. mem_run es d = Inr d' \<and> mem_inv d' \<and> mem_abs d' = fold (spec_push \<circ> fst) es (mem_abs d)"
proof (induction es arbitrary: d)
  case (Cons e es)
  from mem_push_ok [OF Cons.prems] obtain d1 where
    "mem_push (fst e) (snd e) d = Inr d1" "mem_inv d1" "mem_abs d1 = spec_push (fst e) (mem_abs d)" by blast
  with Cons.IH [of d1] show ?case by auto
qed simp

end
