(* ===== verification/Rocks_Store.thy ===== *)
theory Rocks_Store
  imports Mem_Store "HOL-Library.List_Lexorder"
begin

text \<open>
  \<open>RocksStorage\<close> (\<open>constellation/src/storage/rocks_store.rs\<close>): the backlink index on disk.  The
  database is a record with one map per column family, keys and values decoded; a write batch is
  the list of its operations and takes effect only in \<open>db_write\<close>, so every read of an operation
  sees the database as it was before the batch.  The encoding of keys (the crate bincode) enters
  as \<open>enc\<close>, which fixes the order in which a prefix is iterated and nothing else.

  DIDs and the reverse entries \<open>id.to_be_bytes()\<close> share a column family in the code.  A DID's key
  starts with its length and a reverse key is eight bytes long, so the two meet only for ids of
  \<open>7 * 2 ^ 56\<close> or more; they are two maps here.

  Sequence numbers are \<open>u64\<close> and wrap, as they do in a release build.  Errors of the database
  itself (I/O, corruption) are not modelled; a failed \<open>assert\<close> is a \<open>Panic\<close>.
\<close>

section \<open>Keys, values and the database\<close>

type_synonym DidId = u64
type_synonym DidIdValue = "DidId \<times> bool"
type_synonym TargetId = u64
type_synonym TargetKey = "Target \<times> string \<times> string"
type_synonym TargetLinkers = "(DidId \<times> string) list"
type_synonym RecordLinkKey = "DidId \<times> string \<times> string"
type_synonym RecordLinkTargets = "(string \<times> TargetId) list"

record RocksDB =
  db_did_ids :: "(Did, DidIdValue) hashmap"
  db_dids_by_id :: "(u64, Did) hashmap"
  db_target_ids :: "(TargetKey, TargetId) hashmap"
  db_target_linkers :: "(TargetId, TargetLinkers) hashmap"
  db_link_targets :: "(RecordLinkKey, RecordLinkTargets) hashmap"
  db_did_seq :: "u64 option"
  db_target_seq :: "u64 option"
  db_cursor :: "u64 option"

datatype WriteOp =
    PutDidId Did DidIdValue
  | DeleteDidId Did
  | PutDidById u64 Did
  | PutTargetId TargetKey TargetId
  | MergeTargetLinkers TargetId TargetLinkers
  | PutTargetLinkers TargetId TargetLinkers
  | PutLinkTargets RecordLinkKey RecordLinkTargets
  | DeleteLinkTargets RecordLinkKey
  | PutDidSeq u64
  | PutTargetSeq u64
  | PutCursor u64

type_synonym WriteBatch = "WriteOp list"

definition empty_db :: RocksDB where
  "empty_db = \<lparr>db_did_ids = [], db_dids_by_id = [], db_target_ids = [], db_target_linkers = [],
     db_link_targets = [], db_did_seq = None, db_target_seq = None, db_cursor = None\<rparr>"

definition merge_op_extend_did_ids :: "TargetLinkers option \<Rightarrow> TargetLinkers list \<Rightarrow> TargetLinkers" where
  "merge_op_extend_did_ids existing operands =
     fold (\<lambda>new_linkers linkers. linkers @ new_linkers) operands
       (case existing of Some existing_linkers \<Rightarrow> existing_linkers | None \<Rightarrow> [])"

fun apply_op :: "WriteOp \<Rightarrow> RocksDB \<Rightarrow> RocksDB" where
  "apply_op (PutDidId did v) db = db\<lparr>db_did_ids := hm_insert did v (db_did_ids db)\<rparr>"
| "apply_op (DeleteDidId did) db = db\<lparr>db_did_ids := hm_remove did (db_did_ids db)\<rparr>"
| "apply_op (PutDidById i did) db = db\<lparr>db_dids_by_id := hm_insert i did (db_dids_by_id db)\<rparr>"
| "apply_op (PutTargetId k i) db = db\<lparr>db_target_ids := hm_insert k i (db_target_ids db)\<rparr>"
| "apply_op (MergeTargetLinkers i ls) db =
     db\<lparr>db_target_linkers := hm_insert i
         (merge_op_extend_did_ids (hm_get (db_target_linkers db) i) [ls]) (db_target_linkers db)\<rparr>"
| "apply_op (PutTargetLinkers i ls) db =
     db\<lparr>db_target_linkers := hm_insert i ls (db_target_linkers db)\<rparr>"
| "apply_op (PutLinkTargets k ts) db = db\<lparr>db_link_targets := hm_insert k ts (db_link_targets db)\<rparr>"
| "apply_op (DeleteLinkTargets k) db = db\<lparr>db_link_targets := hm_remove k (db_link_targets db)\<rparr>"
| "apply_op (PutDidSeq n) db = db\<lparr>db_did_seq := Some n\<rparr>"
| "apply_op (PutTargetSeq n) db = db\<lparr>db_target_seq := Some n\<rparr>"
| "apply_op (PutCursor n) db = db\<lparr>db_cursor := Some n\<rparr>"

definition db_write :: "WriteBatch \<Rightarrow> RocksDB \<Rightarrow> RocksDB" where
  "db_write batch db = fold apply_op batch db"

section \<open>Id tables\<close>

record IdTable =
  it_id_seq :: u64
  it_priv_id_seq :: u64

definition id_table_init :: "u64 option \<Rightarrow> IdTable" where
  "id_table_init seq_bytes =
     (let priv_id_seq = (case seq_bytes of Some last_seq \<Rightarrow> last_seq + 1 | None \<Rightarrow> 1)
      in \<lparr>it_id_seq = priv_id_seq, it_priv_id_seq = priv_id_seq\<rparr>)"

text \<open>
  \<open>__get_or_create_id_val\<close>, shared by both tables: \<open>found\<close> is the value \<open>get_id_val\<close> read,
  \<open>new_val\<close> is \<open>IdVal::new\<close>, and the two functions name the keys the table writes to.
\<close>

definition get_or_create_base ::
  "(u64 \<Rightarrow> 'v) \<Rightarrow> (u64 \<Rightarrow> WriteOp) \<Rightarrow> ('v \<Rightarrow> WriteOp) \<Rightarrow> 'v option \<Rightarrow> IdTable \<Rightarrow> WriteBatch \<Rightarrow>
     panic + 'v \<times> IdTable \<times> WriteBatch"
where
  "get_or_create_base new_val put_seq put_val found table batch =
     (case found of
        Some v \<Rightarrow> Inr (v, table, batch)
      | None \<Rightarrow>
          let prev_priv_seq = it_priv_id_seq table;
              priv_id_seq = prev_priv_seq + 1;
              prev_public_seq = it_id_seq table
          in if prev_public_seq \<noteq> prev_priv_seq then Inl (Panic ''public seq may have been modified??'')
             else let id_value = new_val priv_id_seq
                  in Inr (id_value, \<lparr>it_id_seq = priv_id_seq, it_priv_id_seq = priv_id_seq\<rparr>,
                          batch @ [put_seq priv_id_seq, put_val id_value]))"

definition estimate_count :: "IdTable \<Rightarrow> u64" where
  "estimate_count table = it_id_seq table - 1"

section \<open>Storage and its handlers\<close>

record RocksStorage =
  rs_db :: RocksDB
  rs_did_id_table :: IdTable
  rs_target_id_table :: IdTable

definition rocks_open :: "RocksDB \<Rightarrow> RocksStorage" where
  "rocks_open db = \<lparr>rs_db = db, rs_did_id_table = id_table_init (db_did_seq db),
                    rs_target_id_table = id_table_init (db_target_seq db)\<rparr>"

definition did_id_val :: "RocksStorage \<Rightarrow> Did \<Rightarrow> DidIdValue option" where
  "did_id_val s did = hm_get (db_did_ids (rs_db s)) did"

definition target_id_val :: "RocksStorage \<Rightarrow> TargetKey \<Rightarrow> TargetId option" where
  "target_id_val s k = hm_get (db_target_ids (rs_db s)) k"

definition get_val_from_id :: "RocksStorage \<Rightarrow> u64 \<Rightarrow> Did option" where
  "get_val_from_id s i = hm_get (db_dids_by_id (rs_db s)) i"

definition get_or_create_did_id ::
  "RocksStorage \<Rightarrow> WriteBatch \<Rightarrow> Did \<Rightarrow> panic + DidIdValue \<times> RocksStorage \<times> WriteBatch" where
  "get_or_create_did_id s batch did =
     (case get_or_create_base (\<lambda>v. (v, True)) PutDidSeq (PutDidId did) (did_id_val s did)
             (rs_did_id_table s) batch of
        Inl e \<Rightarrow> Inl e
      | Inr (id_val, table, batch') \<Rightarrow>
          Inr (id_val, s\<lparr>rs_did_id_table := table\<rparr>, batch' @ [PutDidById (fst id_val) did]))"

definition get_or_create_target_id ::
  "RocksStorage \<Rightarrow> WriteBatch \<Rightarrow> TargetKey \<Rightarrow> panic + TargetId \<times> RocksStorage \<times> WriteBatch" where
  "get_or_create_target_id s batch k =
     (case get_or_create_base id PutTargetSeq (PutTargetId k) (target_id_val s k)
             (rs_target_id_table s) batch of
        Inl e \<Rightarrow> Inl e
      | Inr (id_val, table, batch') \<Rightarrow> Inr (id_val, s\<lparr>rs_target_id_table := table\<rparr>, batch'))"

definition get_target_linkers :: "RocksStorage \<Rightarrow> TargetId \<Rightarrow> TargetLinkers" where
  "get_target_linkers s i = (case hm_get (db_target_linkers (rs_db s)) i of None \<Rightarrow> [] | Some ls \<Rightarrow> ls)"

text \<open>\<open>TargetLinkers::remove_linker\<close>: the new list, and whether the linker was there.\<close>

definition remove_linker :: "DidId \<Rightarrow> string \<Rightarrow> TargetLinkers \<Rightarrow> TargetLinkers \<times> bool" where
  "remove_linker did rkey ls =
     (case replace_last (\<lambda>d. d = (did, rkey)) (0, '''') ls of
        Some ls' \<Rightarrow> (ls', True)
      | None \<Rightarrow> (ls, False))"

definition update_target_linkers ::
  "RocksStorage \<Rightarrow> TargetId \<Rightarrow> (TargetLinkers \<Rightarrow> TargetLinkers option) \<Rightarrow> WriteBatch \<Rightarrow> WriteBatch" where
  "update_target_linkers s i update batch =
     (case update (get_target_linkers s i) of
        None \<Rightarrow> batch
      | Some new_linkers \<Rightarrow> batch @ [PutTargetLinkers i new_linkers])"

text \<open>One turn of the loop of \<open>add_links\<close>.\<close>

definition rocks_add_link ::
  "RecordId \<Rightarrow> DidId \<Rightarrow> CollectedLink \<Rightarrow> RocksStorage \<times> WriteBatch \<times> RecordLinkTargets \<Rightarrow>
     panic + RocksStorage \<times> WriteBatch \<times> RecordLinkTargets"
where
  "rocks_add_link record_id did_id link st =
     (case st of (s, batch, record_link_targets) \<Rightarrow>
        let target_key = (into_string (cl_target link), rid_collection record_id, cl_path link)
        in case get_or_create_target_id s batch target_key of
             Inl e \<Rightarrow> Inl e
           | Inr (target_id, s', batch') \<Rightarrow>
               Inr (s', batch' @ [MergeTargetLinkers target_id [(did_id, rid_rkey record_id)]],
                    record_link_targets @ [(cl_path link, target_id)]))"

definition rocks_add_links ::
  "RecordId \<Rightarrow> CollectedLink list \<Rightarrow> RocksStorage \<Rightarrow> WriteBatch \<Rightarrow> panic + RocksStorage \<times> WriteBatch" where
  "rocks_add_links record_id links s batch =
     (case get_or_create_did_id s batch (rid_did record_id) of
        Inl e \<Rightarrow> Inl e
      | Inr ((did_id, _), s', batch') \<Rightarrow>
          let record_link_key = (did_id, rid_collection record_id, rid_rkey record_id)
          in case fold_res (rocks_add_link record_id did_id) links (s', batch', []) of
               Inl e \<Rightarrow> Inl e
             | Inr (s'', batch'', record_link_targets) \<Rightarrow>
                 Inr (s'', batch'' @ [PutLinkTargets record_link_key record_link_targets]))"

definition rocks_remove_links :: "RecordId \<Rightarrow> RocksStorage \<Rightarrow> WriteBatch \<Rightarrow> WriteBatch" where
  "rocks_remove_links record_id s batch =
     (case did_id_val s (rid_did record_id) of
        None \<Rightarrow> batch
      | Some (linking_did_id, _) \<Rightarrow>
          let record_link_key = (linking_did_id, rid_collection record_id, rid_rkey record_id)
          in case hm_get (db_link_targets (rs_db s)) record_link_key of
               None \<Rightarrow> batch
             | Some record_link_targets \<Rightarrow>
                 fold (\<lambda>(_, target_id). update_target_linkers s target_id
                         (\<lambda>linkers. Some (fst (remove_linker linking_did_id (rid_rkey record_id) linkers))))
                   record_link_targets batch @ [DeleteLinkTargets record_link_key])"

definition rocks_set_account :: "Did \<Rightarrow> bool \<Rightarrow> RocksStorage \<Rightarrow> WriteBatch \<Rightarrow> WriteBatch" where
  "rocks_set_account did active s batch =
     (case did_id_val s did of
        None \<Rightarrow> batch
      | Some current_value \<Rightarrow> batch @ [PutDidId did (fst current_value, active)])"

text \<open>The prefix iteration over the records of one account, in the order of the encoded keys.\<close>

definition iter_links_for_did_id ::
  "(RecordLinkKey \<Rightarrow> u8 list) \<Rightarrow> RocksStorage \<Rightarrow> DidId \<Rightarrow> (RecordLinkKey \<times> RecordLinkTargets) list" where
  "iter_links_for_did_id enc s did_id =
     sort_key (enc \<circ> fst) (filter (\<lambda>((d, _, _), _). d = did_id) (db_link_targets (rs_db s)))"

text \<open>The batch of one chunk of \<open>delete_account\<close>, and the loop over the chunks.\<close>

definition delete_chunk ::
  "DidId \<Rightarrow> RocksStorage \<Rightarrow> (RecordLinkKey \<times> RecordLinkTargets) list \<Rightarrow> WriteBatch" where
  "delete_chunk did_id s chunk =
     fold (\<lambda>(record_link_key, links) mini_batch.
         fold (\<lambda>(_, target_link_id). update_target_linkers s target_link_id
                (\<lambda>linkers. Some (fst (remove_linker did_id (snd (snd record_link_key)) linkers))))
           links (mini_batch @ [DeleteLinkTargets record_link_key]))
       chunk []"

definition rocks_delete_account ::
  "(RecordLinkKey \<Rightarrow> u8 list) \<Rightarrow> Did \<Rightarrow> RocksStorage \<Rightarrow> WriteBatch \<Rightarrow> nat \<times> RocksStorage \<times> WriteBatch" where
  "rocks_delete_account enc did s batch =
     (case did_id_val s did of
        None \<Rightarrow> (0, s, batch)
      | Some (did_id, _) \<Rightarrow>
          let stuff = iter_links_for_did_id enc s did_id;
              (ops, s') = fold (\<lambda>chunk (total_batched_ops, s).
                  let mini_batch = delete_chunk did_id s chunk
                  in (total_batched_ops + length mini_batch, s\<lparr>rs_db := db_write mini_batch (rs_db s)\<rparr>))
                (chunks 1024 stuff) (0, s)
          in (ops, s', batch @ [DeleteDidId did]))"

definition rocks_commit :: "u64 \<Rightarrow> WriteBatch \<Rightarrow> RocksStorage \<Rightarrow> RocksStorage" where
  "rocks_commit cursor batch s = s\<lparr>rs_db := db_write (batch @ [PutCursor cursor]) (rs_db s)\<rparr>"

fun rocks_push ::
  "(RecordLinkKey \<Rightarrow> u8 list) \<Rightarrow> ActionableEvent \<Rightarrow> u64 \<Rightarrow> RocksStorage \<Rightarrow> panic + RocksStorage" where
  "rocks_push enc (CreateLinks record_id links) cursor s =
     and_then (rocks_add_links record_id links s []) (\<lambda>(s', batch). Inr (rocks_commit cursor batch s'))"
| "rocks_push enc (UpdateLinks record_id new_links) cursor s =
     and_then (rocks_add_links record_id new_links s (rocks_remove_links record_id s []))
       (\<lambda>(s', batch). Inr (rocks_commit cursor batch s'))"
| "rocks_push enc (DeleteRecord record_id) cursor s =
     Inr (rocks_commit cursor (rocks_remove_links record_id s []) s)"
| "rocks_push enc (ActivateAccount did) cursor s =
     Inr (rocks_commit cursor (rocks_set_account did True s []) s)"
| "rocks_push enc (DeactivateAccount did) cursor s =
     Inr (rocks_commit cursor (rocks_set_account did False s []) s)"
| "rocks_push enc (DeleteAccount did) cursor s =
     (case rocks_delete_account enc did s [] of
        (_, s', outer_batch) \<Rightarrow> Inr (s'\<lparr>rs_db := db_write outer_batch (rs_db s')\<rparr>))"

definition rocks_get_cursor :: "RocksStorage \<Rightarrow> u64 option" where
  "rocks_get_cursor s = db_cursor (rs_db s)"

section \<open>Reads\<close>

text \<open>\<open>TargetLinkers::count\<close>: live linkers and deleted ones.\<close>

definition linkers_count :: "TargetLinkers \<Rightarrow> u64 \<times> u64" where
  "linkers_count ls =
     (let tot = of_nat (length ls); alive = of_nat (length (filter (\<lambda>(i, _). i \<noteq> 0) ls))
      in (alive, tot - alive))"

definition count_distinct_dids :: "TargetLinkers \<Rightarrow> u64" where
  "count_distinct_dids ls = of_nat (card (set (map fst (filter (\<lambda>(i, _). i \<noteq> 0) ls))))"

fun zero_duplicates :: "DidId list \<Rightarrow> TargetLinkers \<Rightarrow> TargetLinkers" where
  "zero_duplicates seen [] = []"
| "zero_duplicates seen ((did_id, rkey) # ls) =
     (if did_id \<in> set seen then (0, rkey) # zero_duplicates seen ls
      else (did_id, rkey) # zero_duplicates (did_id # seen) ls)"

definition get_distinct_target_linkers :: "RocksStorage \<Rightarrow> TargetId \<Rightarrow> TargetLinkers" where
  "get_distinct_target_linkers s i = zero_duplicates [] (get_target_linkers s i)"

definition rocks_get_count :: "RocksStorage \<Rightarrow> string \<Rightarrow> string \<Rightarrow> string \<Rightarrow> u64" where
  "rocks_get_count s target collection path =
     (case target_id_val s (target, collection, path) of
        Some target_id \<Rightarrow> fst (linkers_count (get_target_linkers s target_id))
      | None \<Rightarrow> 0)"

definition rocks_get_distinct_did_count :: "RocksStorage \<Rightarrow> string \<Rightarrow> string \<Rightarrow> string \<Rightarrow> u64" where
  "rocks_get_distinct_did_count s target collection path =
     (case target_id_val s (target, collection, path) of
        Some target_id \<Rightarrow> count_distinct_dids (get_target_linkers s target_id)
      | None \<Rightarrow> 0)"

text \<open>The account behind a linker, if the page shows it: known, and active.\<close>

definition resolve_linker :: "RocksStorage \<Rightarrow> DidId \<Rightarrow> Did option" where
  "resolve_linker s did_id =
     (if did_id = 0 then None
      else case get_val_from_id s did_id of
             None \<Rightarrow> None
           | Some did \<Rightarrow>
               (case did_id_val s did of
                  None \<Rightarrow> None
                | Some (_, active) \<Rightarrow> if active then Some did else None))"

definition rocks_page ::
  "TargetLinkers \<Rightarrow> u64 \<Rightarrow> u64 option \<Rightarrow> (DidId \<times> string \<Rightarrow> 'a option) \<Rightarrow> 'a PagedAppendingCollection" where
  "rocks_page linkers limit until item =
     (let (alive, gone) = linkers_count linkers;
          tot = alive + gone;
          e = unat (case until of Some u \<Rightarrow> min u tot | None \<Rightarrow> tot);
          b = e - unat limit
      in \<lparr>pac_version = (tot, gone),
          pac_items = List.map_filter item (rev (slice b e linkers)),
          pac_next = next_cursor b,
          pac_total = alive\<rparr>)"

definition rocks_get_links ::
  "RocksStorage \<Rightarrow> string \<Rightarrow> string \<Rightarrow> string \<Rightarrow> u64 \<Rightarrow> u64 option \<Rightarrow> RecordId PagedAppendingCollection" where
  "rocks_get_links s target collection path limit until =
     (case target_id_val s (target, collection, path) of
        None \<Rightarrow> empty_page
      | Some target_id \<Rightarrow>
          rocks_page (get_target_linkers s target_id) limit until
            (\<lambda>(did_id, rkey). map_option
               (\<lambda>did. \<lparr>rid_did = did, rid_collection = collection, rid_rkey = rkey\<rparr>)
               (resolve_linker s did_id)))"

definition rocks_get_distinct_dids ::
  "RocksStorage \<Rightarrow> string \<Rightarrow> string \<Rightarrow> string \<Rightarrow> u64 \<Rightarrow> u64 option \<Rightarrow> Did PagedAppendingCollection" where
  "rocks_get_distinct_dids s target collection path limit until =
     (case target_id_val s (target, collection, path) of
        None \<Rightarrow> empty_page
      | Some target_id \<Rightarrow>
          rocks_page (get_distinct_target_linkers s target_id) limit until
            (\<lambda>(did_id, _). resolve_linker s did_id))"

definition iter_targets_for_target ::
  "(TargetKey \<Rightarrow> u8 list) \<Rightarrow> RocksStorage \<Rightarrow> Target \<Rightarrow> (TargetKey \<times> TargetId) list" where
  "iter_targets_for_target enc s target =
     sort_key (enc \<circ> fst) (filter (\<lambda>((t, _, _), _). t = target) (db_target_ids (rs_db s)))"

definition rocks_get_all_record_counts ::
  "(TargetKey \<Rightarrow> u8 list) \<Rightarrow> RocksStorage \<Rightarrow> string \<Rightarrow> (string, (string, u64) hashmap) hashmap" where
  "rocks_get_all_record_counts enc s target =
     fold (\<lambda>((_, collection, path), target_id) out.
         hm_entry collection []
           (hm_insert path (fst (linkers_count (get_target_linkers s target_id)))) out)
       (iter_targets_for_target enc s target) []"

definition rocks_get_all_counts ::
  "(TargetKey \<Rightarrow> u8 list) \<Rightarrow> RocksStorage \<Rightarrow> string \<Rightarrow> (string, (string, CountsByCount) hashmap) hashmap" where
  "rocks_get_all_counts enc s target =
     fold (\<lambda>((_, collection, path), target_id) out.
         hm_entry collection []
           (hm_insert path
             \<lparr>cbc_records = fst (linkers_count (get_target_linkers s target_id)),
              cbc_distinct_dids = count_distinct_dids (get_target_linkers s target_id)\<rparr>) out)
       (iter_targets_for_target enc s target) []"

text \<open>\<open>estimate_num_keys\<close> is the property RocksDB reports for the column family of link targets.\<close>

definition rocks_get_stats :: "(RocksDB \<Rightarrow> u64 option) \<Rightarrow> RocksStorage \<Rightarrow> StorageStats" where
  "rocks_get_stats estimate_num_keys s =
     \<lparr>stat_dids = estimate_count (rs_did_id_table s),
      stat_targetables = estimate_count (rs_target_id_table s),
      stat_linking_records = (case estimate_num_keys (rs_db s) of Some n \<Rightarrow> n | None \<Rightarrow> 0)\<rparr>"

primrec rocks_run ::
  "(RecordLinkKey \<Rightarrow> u8 list) \<Rightarrow> (ActionableEvent \<times> u64) list \<Rightarrow> RocksStorage \<Rightarrow> panic + RocksStorage" where
  "rocks_run enc [] s = Inr s"
| "rocks_run enc (e # es) s = and_then (rocks_push enc (fst e) (snd e) s) (rocks_run enc es)"

end
