(* ===== verification/Rocks_Sim.thy ===== *)
theory Rocks_Sim
  imports Rocks_Store
begin

text \<open>
  \<open>RocksStorage\<close> simulates \<open>MemStorage\<close>.  The relation \<open>store_rel\<close> matches every account, linker
  slot and forward link of the two stores; the lemmas follow the code: one step per linker
  removed, per link added, per id created.  Reads of the disk store go past the pending batch, so
  a batch equals its eager counterpart only when no two of its steps touch the same key; that is
  what \<open>admissible\<close> asks of an event.
\<close>

section \<open>The simulation relation\<close>

definition slot_rel :: "RocksStorage \<Rightarrow> DidId \<times> string \<Rightarrow> (Did \<times> string) option \<Rightarrow> bool" where
  "slot_rel s x y \<longleftrightarrow>
     (if fst x = 0 then y = None
      else \<exists>did a. y = Some (did, snd x) \<and> did_id_val s did = Some (fst x, a))"

definition key_linkers :: "RocksStorage \<Rightarrow> TargetKey \<Rightarrow> TargetLinkers" where
  "key_linkers s k = (case target_id_val s k of None \<Rightarrow> [] | Some i \<Rightarrow> get_target_linkers s i)"

definition forward_links :: "RocksStorage \<Rightarrow> RecordLinkKey \<Rightarrow> RecordLinkTargets" where
  "forward_links s k = (case hm_get (db_link_targets (rs_db s)) k of None \<Rightarrow> [] | Some ts \<Rightarrow> ts)"

definition link_rel :: "RocksStorage \<Rightarrow> string \<Rightarrow> string \<times> TargetId \<Rightarrow> string \<times> Target \<Rightarrow> bool" where
  "link_rel s c x y \<longleftrightarrow> fst y = fst x \<and> target_id_val s (snd y, c, fst x) = Some (snd x)"

text \<open>The largest id ever persisted for a table.\<close>

definition persisted :: "u64 option \<Rightarrow> u64" where
  "persisted q = (case q of None \<Rightarrow> 1 | Some n \<Rightarrow> n)"

definition rocks_wf :: "RocksStorage \<Rightarrow> bool" where
  "rocks_wf s \<longleftrightarrow>
     it_id_seq (rs_did_id_table s) = it_priv_id_seq (rs_did_id_table s) \<and>
     it_id_seq (rs_target_id_table s) = it_priv_id_seq (rs_target_id_table s) \<and>
     persisted (db_did_seq (rs_db s)) \<le> it_priv_id_seq (rs_did_id_table s) \<and>
     persisted (db_target_seq (rs_db s)) \<le> it_priv_id_seq (rs_target_id_table s) \<and>
     (\<forall>did i a. did_id_val s did = Some (i, a) \<longrightarrow>
        i \<noteq> 0 \<and> i \<le> persisted (db_did_seq (rs_db s)) \<and> get_val_from_id s i = Some did) \<and>
     (\<forall>k i. target_id_val s k = Some i \<longrightarrow> i \<le> persisted (db_target_seq (rs_db s))) \<and>
     (\<forall>k k' i. target_id_val s k = Some i \<longrightarrow> target_id_val s k' = Some i \<longrightarrow> k = k') \<and>
     (\<forall>i. get_target_linkers s i \<noteq> [] \<longrightarrow> i \<le> persisted (db_target_seq (rs_db s))) \<and>
     (\<forall>i c r. forward_links s (i, c, r) \<noteq> [] \<longrightarrow> i \<le> persisted (db_did_seq (rs_db s))) \<and>
     hm_inv (db_target_ids (rs_db s)) \<and> hm_inv (db_link_targets (rs_db s))"

text \<open>
  The forward links are a parameter \<open>fw\<close>: while \<open>add_links\<close> runs, those of the record it writes
  are still in its buffer.
\<close>

definition store_rel_with :: "(RecordLinkKey \<Rightarrow> RecordLinkTargets) \<Rightarrow> MemStorageData \<Rightarrow> RocksStorage \<Rightarrow> bool" where
  "store_rel_with fw d s \<longleftrightarrow> rocks_wf s \<and>
     (\<forall>did. hm_get (md_dids d) did = map_option snd (did_id_val s did)) \<and>
     (\<forall>t c p. mem_linkers d t c p = None \<longleftrightarrow> target_id_val s (t, c, p) = None) \<and>
     (\<forall>t c p. list_all2 (slot_rel s) (key_linkers s (t, c, p)) (linkers_of d t (c, p))) \<and>
     (\<forall>did i a c r. did_id_val s did = Some (i, a) \<longrightarrow>
        list_all2 (link_rel s c) (fw (i, c, r)) (links_of d did (c, r)))"

abbreviation store_rel :: "MemStorageData \<Rightarrow> RocksStorage \<Rightarrow> bool" where
  "store_rel d s \<equiv> store_rel_with (forward_links s) d s"

lemma store_rel_with_dest:
  assumes "store_rel_with fw d s"
  shows "rocks_wf s"
    and "hm_get (md_dids d) did = map_option snd (did_id_val s did)"
    and "mem_linkers d t c p = None \<longleftrightarrow> target_id_val s (t, c, p) = None"
    and "list_all2 (slot_rel s) (key_linkers s (t, c, p)) (linkers_of d t (c, p))"
    and "did_id_val s did = Some (i, a) \<Longrightarrow> list_all2 (link_rel s c) (fw (i, c, r)) (links_of d did (c, r))"
  using assms unfolding store_rel_with_def by blast+

lemma rocks_wf_dest:
  assumes "rocks_wf s"
  shows "it_id_seq (rs_did_id_table s) = it_priv_id_seq (rs_did_id_table s)"
    and "it_id_seq (rs_target_id_table s) = it_priv_id_seq (rs_target_id_table s)"
    and "did_id_val s did = Some (i, a) \<Longrightarrow> i \<noteq> 0"
    and "did_id_val s did = Some (i, a) \<Longrightarrow> i \<le> persisted (db_did_seq (rs_db s))"
    and "did_id_val s did = Some (i, a) \<Longrightarrow> get_val_from_id s i = Some did"
    and "target_id_val s k = Some ti \<Longrightarrow> ti \<le> persisted (db_target_seq (rs_db s))"
    and "target_id_val s k = Some ti \<Longrightarrow> target_id_val s k' = Some ti \<Longrightarrow> k' = k"
    and "get_target_linkers s ti \<noteq> [] \<Longrightarrow> ti \<le> persisted (db_target_seq (rs_db s))"
    and "forward_links s (i, c, r) \<noteq> [] \<Longrightarrow> i \<le> persisted (db_did_seq (rs_db s))"
  using assms unfolding rocks_wf_def by blast+

lemma did_id_unique:
  assumes "rocks_wf s" "did_id_val s did = Some (i, a)" "did_id_val s did' = Some (i, a')"
  shows "did' = did"
  using rocks_wf_dest(5) [OF assms(1,2)] rocks_wf_dest(5) [OF assms(1,3)] by simp

section \<open>Removing linkers\<close>

lemma replace_first_rel:
  assumes "list_all2 R xs ys" "\<And>x y. R x y \<Longrightarrow> p x = q y" "R u v"
  shows "rel_option (list_all2 R) (replace_first p u xs) (replace_first q v ys)"
  using assms(1)
proof (induction rule: list_all2_induct)
  case (Cons x xs y ys)
  then show ?case using assms(2) [of x y] assms(3)
    by (cases "replace_first p u xs"; cases "replace_first q v ys") auto
qed simp

lemma replace_last_rel:
  assumes "list_all2 R xs ys" "\<And>x y. R x y \<Longrightarrow> p x = q y" "R u v"
  shows "rel_option (list_all2 R) (replace_last p u xs) (replace_last q v ys)"
proof -
  have "rel_option (list_all2 R) (replace_first p u (rev xs)) (replace_first q v (rev ys))"
    by (rule replace_first_rel) (use assms in auto)
  then show ?thesis
    by (cases "replace_first p u (rev xs)"; cases "replace_first q v (rev ys)") (auto simp: replace_last_def)
qed

lemma slot_rel_linker:
  assumes "rocks_wf s" "did_id_val s did = Some (i, a)" "slot_rel s x y"
  shows "x = (i, rk) \<longleftrightarrow> y = Some (did, rk)"
proof -
  have i: "i \<noteq> 0" using rocks_wf_dest(3) [OF assms(1,2)] .
  show ?thesis
  proof (cases "fst x = 0")
    case True
    with assms(3) i show ?thesis by (auto simp: slot_rel_def)
  next
    case False
    with assms(3) obtain did' a' where y: "y = Some (did', snd x)" "did_id_val s did' = Some (fst x, a')"
      by (auto simp: slot_rel_def)
    have "fst x = i \<longleftrightarrow> did' = did"
      using y(2) assms(2) did_id_unique [OF assms(1,2), of did' a'] by auto
    with y(1) show ?thesis by (cases x) auto
  qed
qed

lemma remove_linker_rel:
  assumes "rocks_wf s" "did_id_val s did = Some (i, a)" "list_all2 (slot_rel s) ls ms"
    and "replace_last (\<lambda>x. x = Some (did, rk)) None ms = Some ms'"
  shows "list_all2 (slot_rel s) (fst (remove_linker i rk ls)) ms'"
proof -
  have "rel_option (list_all2 (slot_rel s)) (replace_last (\<lambda>d. d = (i, rk)) (0, '''') ls)
      (replace_last (\<lambda>x. x = Some (did, rk)) None ms)"
    by (rule replace_last_rel [OF assms(3)])
      (use slot_rel_linker [OF assms(1,2)] in \<open>auto simp: slot_rel_def\<close>)
  with assms(4) show ?thesis by (auto simp: remove_linker_def option_rel_Some2)
qed

lemma remove_linker_length: "length (fst (remove_linker i rk ls)) = length ls"
  by (auto simp: remove_linker_def length_replace_last split: option.split)

text \<open>The eager counterpart of \<open>update_target_linkers\<close>: it reads the database it writes.\<close>

definition unlink :: "DidId \<Rightarrow> string \<Rightarrow> TargetId \<Rightarrow> RocksDB \<Rightarrow> RocksDB" where
  "unlink i rk ti db =
     db\<lparr>db_target_linkers := hm_insert ti
         (fst (remove_linker i rk (case hm_get (db_target_linkers db) ti of None \<Rightarrow> [] | Some ls \<Rightarrow> ls)))
         (db_target_linkers db)\<rparr>"

definition with_db :: "(RocksDB \<Rightarrow> RocksDB) \<Rightarrow> RocksStorage \<Rightarrow> RocksStorage" where
  "with_db f s = s\<lparr>rs_db := f (rs_db s)\<rparr>"

lemma unlink_reads [simp]:
  "did_id_val (with_db (unlink i rk ti) s) did = did_id_val s did"
  "target_id_val (with_db (unlink i rk ti) s) k = target_id_val s k"
  "get_val_from_id (with_db (unlink i rk ti) s) j = get_val_from_id s j"
  "forward_links (with_db (unlink i rk ti) s) = forward_links s"
  "get_target_linkers (with_db (unlink i rk ti) s) tj =
     (if tj = ti then fst (remove_linker i rk (get_target_linkers s ti)) else get_target_linkers s tj)"
  by (auto simp: did_id_val_def target_id_val_def get_val_from_id_def get_target_linkers_def
      with_db_def unlink_def forward_links_def fun_eq_iff)

lemma slot_rel_cong: "did_id_val s' = did_id_val s \<Longrightarrow> slot_rel s' = slot_rel s"
  by (simp add: slot_rel_def fun_eq_iff)

lemma link_rel_cong: "target_id_val s' = target_id_val s \<Longrightarrow> link_rel s' = link_rel s"
  by (simp add: link_rel_def fun_eq_iff)

lemma key_linkers_cong:
  "target_id_val s' = target_id_val s \<Longrightarrow> get_target_linkers s' = get_target_linkers s \<Longrightarrow> key_linkers s' = key_linkers s"
  by (rule ext) (simp add: key_linkers_def split: option.split)

text \<open>A step that creates no id keeps the well-formedness of the store.\<close>

lemma rocks_wf_shrink:
  assumes "rocks_wf s"
    and "\<And>did i a. did_id_val (with_db f s) did = Some (i, a) \<Longrightarrow> \<exists>a'. did_id_val s did = Some (i, a')"
    and "\<And>i c r. forward_links (with_db f s) (i, c, r) \<noteq> [] \<Longrightarrow> forward_links s (i, c, r) \<noteq> []"
    and "\<And>ti. get_target_linkers (with_db f s) ti \<noteq> [] \<Longrightarrow> get_target_linkers s ti \<noteq> []"
    and "hm_inv (db_link_targets (f (rs_db s)))"
    and "\<And>db. db_target_ids (f db) = db_target_ids db" "\<And>db. db_dids_by_id (f db) = db_dids_by_id db"
    and "\<And>db. db_did_seq (f db) = db_did_seq db" "\<And>db. db_target_seq (f db) = db_target_seq db"
  shows "rocks_wf (with_db f s)"
proof -
  have "target_id_val (with_db f s) = target_id_val s" "get_val_from_id (with_db f s) = get_val_from_id s"
    using assms(6,7) by (simp_all add: target_id_val_def get_val_from_id_def with_db_def fun_eq_iff)
  moreover have "rs_did_id_table (with_db f s) = rs_did_id_table s"
    "rs_target_id_table (with_db f s) = rs_target_id_table s" "rs_db (with_db f s) = f (rs_db s)"
    by (simp_all add: with_db_def)
  moreover have "i \<noteq> 0 \<and> i \<le> persisted (db_did_seq (rs_db s)) \<and> get_val_from_id s i = Some did"
    if "did_id_val (with_db f s) did = Some (i, a)" for did i a
    using assms(2) [OF that] rocks_wf_dest(3-5) [OF assms(1)] by blast
  moreover have "i \<le> persisted (db_did_seq (rs_db s))" if "forward_links (with_db f s) (i, c, r) \<noteq> []" for i c r
    using assms(3) [OF that] rocks_wf_dest(9) [OF assms(1)] by blast
  moreover have "ti \<le> persisted (db_target_seq (rs_db s))" if "get_target_linkers (with_db f s) ti \<noteq> []" for ti
    using assms(4) [OF that] rocks_wf_dest(8) [OF assms(1)] by blast
  ultimately show ?thesis
    using assms(1,5,6,8,9) unfolding rocks_wf_def by simp
qed

lemma rocks_wf_unlink:
  assumes "rocks_wf s"
  shows "rocks_wf (with_db (unlink i rk ti) s)"
proof -
  have "fst (remove_linker i rk ls) \<noteq> [] \<longleftrightarrow> ls \<noteq> []" for ls
    using remove_linker_length [of i rk ls] by (metis length_0_conv)
  with assms show ?thesis
    by (intro rocks_wf_shrink) (auto simp: unlink_def rocks_wf_def split: if_splits)
qed

lemma unlink_sim:
  assumes rel: "store_rel_with fw d s" and did: "did_id_val s did = Some (i, a)"
    and tid: "target_id_val s (t, c, p) = Some ti"
    and mem: "take_linker replace_last msg did ((c, rk), p, t) d = Inr d'"
  shows "store_rel_with fw d' (with_db (unlink i rk ti) s)"
proof -
  note wf = store_rel_with_dest(1) [OF rel]
  from mem obtain sources ls ls' where ls: "hm_get (md_targets d) t = Some sources"
    "hm_get sources (c, p) = Some ls"
    and ls': "replace_last (\<lambda>x. x = Some (did, rk)) None ls = Some ls'"
    and d': "d' = d\<lparr>md_targets := hm_insert t (hm_insert (c, p) ls' sources) (md_targets d)\<rparr>"
    by (auto simp: take_linker_def split: option.splits)
  have ml: "mem_linkers d' t' c' p' = (if (t', c', p') = (t, c, p) then Some ls' else mem_linkers d t' c' p')"
    for t' c' p' using ls by (auto simp: d' mem_linkers_def)
  have lo: "linkers_of d t (c, p) = ls" using ls by (simp add: linkers_of_def mem_linkers_def)
  have kl: "key_linkers (with_db (unlink i rk ti) s) k =
      (if k = (t, c, p) then fst (remove_linker i rk (key_linkers s (t, c, p))) else key_linkers s k)" for k
  proof (cases "target_id_val s k = Some ti")
    case True
    then have "k = (t, c, p)" using rocks_wf_dest(7) [OF wf tid] by blast
    with tid show ?thesis by (simp add: key_linkers_def)
  next
    case False
    then have "k \<noteq> (t, c, p)" using tid by auto
    with False show ?thesis by (cases "target_id_val s k") (simp_all add: key_linkers_def)
  qed
  have sr: "slot_rel (with_db (unlink i rk ti) s) = slot_rel s" by (rule slot_rel_cong) (simp add: fun_eq_iff)
  have lr: "link_rel (with_db (unlink i rk ti) s) = link_rel s" by (rule link_rel_cong) (simp add: fun_eq_iff)
  have "list_all2 (slot_rel s) (fst (remove_linker i rk (key_linkers s (t, c, p)))) ls'"
    using remove_linker_rel [OF wf did store_rel_with_dest(4) [OF rel]] ls' lo by blast
  then have "list_all2 (slot_rel s) (key_linkers (with_db (unlink i rk ti) s) (t', c', p')) (linkers_of d' t' (c', p'))"
    for t' c' p' using store_rel_with_dest(4) [OF rel, of t' c' p']
    by (auto simp: kl linkers_of_def ml)
  moreover have "links_of d' = links_of d" "md_dids d' = md_dids d"
    by (simp_all add: d' links_of_def fun_eq_iff)
  moreover have "mem_linkers d' t' c' p' = None \<longleftrightarrow> target_id_val s (t', c', p') = None" for t' c' p'
    using store_rel_with_dest(3) [OF rel, of t' c' p'] tid by (auto simp: ml)
  ultimately show ?thesis
    using rel rocks_wf_unlink [OF wf] by (simp add: store_rel_with_def sr lr)
qed

lemma db_write_simps [simp]:
  "db_write [] db = db"
  "db_write (batch @ batch') db = db_write batch' (db_write batch db)"
  "db_write (op # batch) db = db_write batch (apply_op op db)"
  by (simp_all add: db_write_def)

lemma unlinks_other_reads:
  "ti \<notin> snd ` set ts \<Longrightarrow>
     hm_get (db_target_linkers (fold (\<lambda>(_, ti). unlink i rk ti) ts db)) ti = hm_get (db_target_linkers db) ti"
  by (induction ts arbitrary: db) (auto simp: unlink_def)

text \<open>With distinct targets, the batch of removals has the effect of removing them one by one.\<close>

lemma unlink_batch:
  assumes "distinct (map snd ts)"
    and "\<And>ti. ti \<in> snd ` set ts \<Longrightarrow>
      hm_get (db_target_linkers (db_write batch db)) ti = hm_get (db_target_linkers (rs_db s)) ti"
  shows "db_write (fold (\<lambda>(_, ti). update_target_linkers s ti
             (\<lambda>ls. Some (fst (remove_linker i rk ls)))) ts batch) db =
    fold (\<lambda>(_, ti). unlink i rk ti) ts (db_write batch db)"
  using assms
proof (induction ts arbitrary: batch)
  case (Cons x ts)
  obtain p ti where x: "x = (p, ti)" by force
  define batch' where "batch' = batch @ [PutTargetLinkers ti (fst (remove_linker i rk (get_target_linkers s ti)))]"
  have db': "db_write batch' db = unlink i rk ti (db_write batch db)"
    using Cons.prems(2) [of ti] x by (simp add: batch'_def unlink_def get_target_linkers_def)
  have "hm_get (db_target_linkers (db_write batch' db)) tj = hm_get (db_target_linkers (rs_db s)) tj"
    if "tj \<in> snd ` set ts" for tj
  proof -
    have "tj \<noteq> ti" using that Cons.prems(1) x by auto
    then show ?thesis using that Cons.prems(2) [of tj] unfolding db' by (simp add: unlink_def)
  qed
  then show ?case using Cons.IH [of batch'] Cons.prems(1) x
    by (simp add: update_target_linkers_def db' flip: batch'_def)
qed simp

lemma with_db_comp: "with_db (f \<circ> g) s = with_db f (with_db g s)"
  by (simp add: with_db_def)

lemma with_db_id [simp]: "with_db id s = s" "with_db (\<lambda>db. db) s = s"
  by (simp_all add: with_db_def)

lemma unlinks_sim:
  assumes "list_all2 (link_rel s c) ts links" and "store_rel_with fw d s"
    and "did_id_val s did = Some (i, a)"
    and "fold_res (take_linker replace_last msg did) (map (Pair (c, rk)) links) d = Inr d'"
  shows "store_rel_with fw d' (with_db (fold (\<lambda>(_, ti). unlink i rk ti) ts) s)"
  using assms
proof (induction ts arbitrary: links d s)
  case (Cons x ts)
  then obtain y links' where links: "links = y # links'" by (cases links) auto
  obtain p ti where x: "x = (p, ti)" by force
  from Cons.prems(1) links x obtain t where y: "y = (p, t)" and t: "target_id_val s (t, c, p) = Some ti"
    by (cases y) (auto simp: link_rel_def)
  from Cons.prems(4) obtain d1 where d1: "take_linker replace_last msg did ((c, rk), p, t) d = Inr d1"
    and rest: "fold_res (take_linker replace_last msg did) (map (Pair (c, rk)) links') d1 = Inr d'"
    by (auto simp: links y split: sum.splits)
  let ?s1 = "with_db (unlink i rk ti) s"
  have "store_rel_with fw d1 ?s1" by (rule unlink_sim [OF Cons.prems(2,3) t d1])
  moreover have "list_all2 (link_rel ?s1 c) ts links'"
    using Cons.prems(1) link_rel_cong [of ?s1 s, OF ext] by (simp add: links)
  ultimately have "store_rel_with fw d' (with_db (fold (\<lambda>(_, ti). unlink i rk ti) ts) ?s1)"
    using Cons.IH rest Cons.prems(3) by simp
  then show ?case by (simp add: x with_db_def)
qed simp

lemma take_linkers_frame:
  "fold_res (take_linker find_mut msg did) js d = Inr d' \<Longrightarrow> md_links d' = md_links d \<and> md_dids d' = md_dids d"
proof (induction js arbitrary: d)
  case (Cons j js)
  then obtain d1 where d1: "take_linker find_mut msg did j d = Inr d1"
    "fold_res (take_linker find_mut msg did) js d1 = Inr d'" by (auto split: sum.splits)
  then have "md_links d1 = md_links d \<and> md_dids d1 = md_dids d"
    by (auto simp: take_linker_def split: prod.splits option.splits)
  with Cons.IH [OF d1(2)] show ?case by simp
qed simp

definition drop_record :: "RecordLinkKey \<Rightarrow> RocksDB \<Rightarrow> RocksDB" where
  "drop_record k db = db\<lparr>db_link_targets := hm_remove k (db_link_targets db)\<rparr>"

lemma drop_record_reads [simp]:
  "did_id_val (with_db (drop_record k) s) did = did_id_val s did"
  "target_id_val (with_db (drop_record k) s) tk = target_id_val s tk"
  "get_val_from_id (with_db (drop_record k) s) j = get_val_from_id s j"
  "get_target_linkers (with_db (drop_record k) s) ti = get_target_linkers s ti"
  "key_linkers (with_db (drop_record k) s) tk = key_linkers s tk"
  "forward_links (with_db (drop_record k) s) = (forward_links s)(k := [])"
  by (auto simp: did_id_val_def target_id_val_def get_val_from_id_def get_target_linkers_def
      key_linkers_def with_db_def drop_record_def forward_links_def fun_eq_iff split: option.split)

lemma rocks_wf_drop_record:
  assumes "rocks_wf s"
  shows "rocks_wf (with_db (drop_record k) s)"
proof (rule rocks_wf_shrink [OF assms])
  show "hm_inv (db_link_targets (drop_record k (rs_db s)))"
    using assms by (simp add: drop_record_def rocks_wf_def)
qed (auto simp: drop_record_def split: if_splits)

lemma drop_record_sim:
  assumes rel: "store_rel d s" and did: "did_id_val s did = Some (i, a)"
    and same: "md_dids d' = md_dids d" "md_targets d' = md_targets d"
    and links: "\<And>did' repo. links_of d' did' repo =
      (if did' = did \<and> repo = (c, rk) then [] else links_of d did' repo)"
  shows "store_rel d' (with_db (drop_record (i, c, rk)) s)"
proof -
  let ?s = "with_db (drop_record (i, c, rk)) s"
  note wf = store_rel_with_dest(1) [OF rel]
  have sr: "slot_rel ?s = slot_rel s" by (rule slot_rel_cong) (simp add: fun_eq_iff)
  have lr: "link_rel ?s = link_rel s" by (rule link_rel_cong) (simp add: fun_eq_iff)
  have ml: "mem_linkers d' = mem_linkers d" "linkers_of d' = linkers_of d"
    using same by (simp_all add: linkers_of_def mem_linkers_def fun_eq_iff)
  have "list_all2 (link_rel s c') (((forward_links s)((i, c, rk) := [])) (j, c', r)) (links_of d' did' (c', r))"
    if "did_id_val s did' = Some (j, b)" for did' j b c' r
  proof (cases "(j, c', r) = (i, c, rk)")
    case True
    with that did did_id_unique [OF wf did] have "did' = did" by blast
    with True show ?thesis by (simp add: links)
  next
    case False
    then have "\<not> (did' = did \<and> (c', r) = (c, rk))" using that did by auto
    then show ?thesis using store_rel_with_dest(5) [OF rel that, of c' r] False by (auto simp: links)
  qed
  then show ?thesis using rel rocks_wf_drop_record [OF wf] unfolding store_rel_with_def
    by (simp add: sr lr ml same)
qed

lemma link_rel_targets_distinct:
  assumes wf: "rocks_wf s" and "list_all2 (link_rel s c) ts links" "distinct links"
  shows "distinct (map snd ts)"
  using assms(2,3)
proof (induction rule: list_all2_induct)
  case (Cons x xs y ys)
  have "snd x \<notin> snd ` set xs"
  proof
    assume "snd x \<in> snd ` set xs"
    then obtain x' where x': "x' \<in> set xs" "snd x' = snd x" by auto
    then obtain y' where y': "y' \<in> set ys" "link_rel s c x' y'"
      using Cons(2) by (metis in_set_conv_nth list_all2_conv_all_nth)
    have "y' = y"
      using rocks_wf_dest(7) [OF wf, of "(snd y', c, fst x')" "snd x" "(snd y, c, fst x)"] x' y' Cons(1)
      by (auto simp: link_rel_def prod_eq_iff)
    with y' Cons.prems show False by simp
  qed
  with Cons show ?case by simp
qed simp

lemma fold_unlink_apply:
  "with_db (db_write (batch @ [DeleteLinkTargets k])) s = with_db (drop_record k) (with_db (db_write batch) s)"
  by (simp add: with_db_def drop_record_def)

lemma remove_links_sim:
  assumes inv: "mem_inv d" and rel: "store_rel d s"
    and dist: "distinct (links_of d (rid_did r) (repo_id_from_record_id r))"
    and mem: "mem_remove_links r d = Inr d'"
  shows "store_rel d' (with_db (db_write (rocks_remove_links r s [])) s)"
proof -
  define did c rk where "did = rid_did r" and "c = rid_collection r" and "rk = rid_rkey r"
  have repo: "repo_id_from_record_id r = (c, rk)" by (simp add: repo_id_from_record_id_def c_def rk_def)
  have d': "md_dids d' = md_dids d"
    and links: "\<And>did' repo'. links_of d' did' repo' = (if did' = did \<and> repo' = (c, rk) then [] else links_of d did' repo')"
    using mem_remove_links_ok [OF inv, of r] unfolding mem repo did_def by blast+
  from mem obtain d1 where d1: "fold_res (take_linker replace_last
      ''must be in dids list if we have a link to it'' did) (map (Pair (c, rk)) (links_of d did (c, rk))) d = Inr d1"
    and t1: "md_targets d' = md_targets d1"
    by (auto simp: mem_remove_links_fold and_then_Inr did_def repo split: option.splits)
  have skip: "store_rel d' s" if "links_of d did (c, rk) = []"
  proof -
    from that have "links_of d' = links_of d" by (auto simp: links fun_eq_iff)
    moreover from that d1 t1 have "md_targets d' = md_targets d" by simp
    then have "mem_linkers d' = mem_linkers d" "linkers_of d' = linkers_of d"
      by (simp_all add: linkers_of_def mem_linkers_def fun_eq_iff)
    ultimately show ?thesis using rel d' by (simp add: store_rel_with_def)
  qed
  show ?thesis
  proof (cases "did_id_val s did")
    case None
    then have "hm_get (md_dids d) did = None" using store_rel_with_dest(2) [OF rel] by simp
    then have "links_of d did (c, rk) = []" using mem_inv_known [OF inv] by blast
    from skip [OF this] None show ?thesis by (simp add: rocks_remove_links_def did_def with_db_def)
  next
    case (Some v)
    then obtain i a where did: "did_id_val s did = Some (i, a)" by (cases v) auto
    have fw: "list_all2 (link_rel s c) (forward_links s (i, c, rk)) (links_of d did (c, rk))"
      by (rule store_rel_with_dest(5) [OF rel did])
    show ?thesis
    proof (cases "hm_get (db_link_targets (rs_db s)) (i, c, rk)")
      case None
      with fw have "links_of d did (c, rk) = []" by (simp add: forward_links_def)
      from skip [OF this] None did show ?thesis
        by (simp add: rocks_remove_links_def did_def c_def rk_def with_db_def)
    next
      case (Some ts)
      then have ts: "forward_links s (i, c, rk) = ts" by (simp add: forward_links_def)
      let ?s1 = "with_db (fold (\<lambda>(_, ti). unlink i rk ti) ts) s"
      let ?dm = "d1\<lparr>md_links := md_links d'\<rparr>"
      have rel1: "store_rel_with (forward_links s) d1 ?s1"
        using unlinks_sim [OF _ rel did d1] fw ts by simp
      have "distinct (map snd ts)"
        using link_rel_targets_distinct [OF store_rel_with_dest(1) [OF rel]] fw ts dist
        by (simp add: did_def repo)
      then have "with_db (db_write (rocks_remove_links r s [])) s = with_db (drop_record (i, c, rk)) ?s1"
        using Some did unlink_batch [of ts "[]" "rs_db s" s i rk]
        by (simp add: rocks_remove_links_def did_def c_def rk_def with_db_def drop_record_def)
      moreover have "forward_links ?s1 = forward_links s" "did_id_val ?s1 did = Some (i, a)"
        using did by (induction ts arbitrary: s) (simp_all add: with_db_comp case_prod_unfold)
      moreover have "links_of d1 = links_of d" "md_dids d1 = md_dids d"
        using take_linkers_frame [OF d1] by (simp_all add: links_of_def fun_eq_iff)
      ultimately show ?thesis
        using drop_record_sim [where d = d1 and s = "?s1" and did = did and i = i and a = a and d' = d' and c = c and rk = rk]
          rel1 t1 links d' by simp
    qed
  qed
qed

section \<open>Creating ids\<close>

abbreviation pending :: "WriteBatch \<Rightarrow> RocksStorage \<Rightarrow> RocksStorage" where
  "pending batch s \<equiv> with_db (db_write batch) s"


lemma rocks_wf_bounds:
  assumes "rocks_wf s"
  shows "persisted (db_did_seq (rs_db s)) \<le> it_priv_id_seq (rs_did_id_table s)"
    and "persisted (db_target_seq (rs_db s)) \<le> it_priv_id_seq (rs_target_id_table s)"
    and "hm_inv (db_target_ids (rs_db s))" and "hm_inv (db_link_targets (rs_db s))"
  using assms unfolding rocks_wf_def by blast+

lemma create_target_id:
  assumes wf: "rocks_wf (pending batch s)"
    and look: "target_id_val (pending batch s) k = target_id_val s k"
    and room: "it_priv_id_seq (rs_target_id_table s) \<noteq> - 1"
  shows "\<exists>ti s' batch'. get_or_create_target_id s batch k = Inr (ti, s', batch') \<and>
    rs_db s' = rs_db s \<and> rs_did_id_table s' = rs_did_id_table s \<and>
    unat (it_priv_id_seq (rs_target_id_table s')) \<le> Suc (unat (it_priv_id_seq (rs_target_id_table s))) \<and>
    rocks_wf (pending batch' s') \<and>
    did_id_val (pending batch' s') = did_id_val (pending batch s) \<and>
    target_id_val (pending batch' s') = (target_id_val (pending batch s))(k \<mapsto> ti) \<and>
    get_target_linkers (pending batch' s') = get_target_linkers (pending batch s) \<and>
    forward_links (pending batch' s') = forward_links (pending batch s) \<and>
    (target_id_val (pending batch s) k = Some ti \<or>
     target_id_val (pending batch s) k = None \<and> get_target_linkers (pending batch s) ti = [] \<and>
       (\<forall>k'. target_id_val (pending batch s) k' \<noteq> Some ti))"
proof (cases "target_id_val s k")
  case (Some ti)
  then have "get_or_create_target_id s batch k = Inr (ti, s, batch)"
    by (simp add: get_or_create_target_id_def get_or_create_base_def)
  moreover from Some look have "target_id_val (pending batch s) k = Some ti" by simp
  then have "(target_id_val (pending batch s))(k \<mapsto> ti) = target_id_val (pending batch s)"
    by (simp add: fun_upd_idem)
  ultimately show ?thesis using wf Some look by (intro exI [of _ ti] exI [of _ s] exI [of _ batch]) simp
next
  case None
  let ?V = "pending batch s"
  let ?n = "it_priv_id_seq (rs_target_id_table s)"
  let ?batch = "batch @ [PutTargetSeq (?n + 1), PutTargetId k (?n + 1)]"
  let ?s = "s\<lparr>rs_target_id_table := \<lparr>it_id_seq = ?n + 1, it_priv_id_seq = ?n + 1\<rparr>\<rparr>"
  have tabs: "rs_target_id_table ?V = rs_target_id_table s" by (simp add: with_db_def)
  have goc: "get_or_create_target_id s batch k = Inr (?n + 1, ?s, ?batch)"
    using None rocks_wf_dest(2) [OF wf]
    by (simp add: get_or_create_target_id_def get_or_create_base_def tabs Let_def)
  have le: "persisted (db_target_seq (rs_db ?V)) < ?n + 1"
    using rocks_wf_bounds(2) [OF wf] u64_succ_greater [OF room] by (simp add: tabs)
  have fresh: "target_id_val ?V k' \<noteq> Some (?n + 1)" for k'
    using rocks_wf_dest(6) [OF wf, of k' "?n + 1"] le by auto
  have unlinked: "get_target_linkers ?V (?n + 1) = []"
    using rocks_wf_dest(8) [OF wf, of "?n + 1"] le by force
  have reads: "did_id_val (pending ?batch ?s) = did_id_val ?V" "get_val_from_id (pending ?batch ?s) = get_val_from_id ?V"
    "target_id_val (pending ?batch ?s) = (target_id_val ?V)(k \<mapsto> ?n + 1)"
    "get_target_linkers (pending ?batch ?s) = get_target_linkers ?V"
    "forward_links (pending ?batch ?s) = forward_links ?V"
    by (auto simp: did_id_val_def get_val_from_id_def target_id_val_def get_target_linkers_def forward_links_def
        with_db_def fun_eq_iff)
  have seqs: "persisted (db_target_seq (rs_db (pending ?batch ?s))) = ?n + 1"
    "db_did_seq (rs_db (pending ?batch ?s)) = db_did_seq (rs_db ?V)"
    "it_id_seq (rs_target_id_table (pending ?batch ?s)) = ?n + 1"
    "it_priv_id_seq (rs_target_id_table (pending ?batch ?s)) = ?n + 1"
    "rs_did_id_table (pending ?batch ?s) = rs_did_id_table ?V"
    "db_link_targets (rs_db (pending ?batch ?s)) = db_link_targets (rs_db ?V)"
    "db_target_ids (rs_db (pending ?batch ?s)) = hm_insert k (?n + 1) (db_target_ids (rs_db ?V))"
    by (simp_all add: with_db_def persisted_def)
  have ids: "i \<le> ?n + 1" if "target_id_val ?V k' = Some i" for k' i
    using rocks_wf_dest(6) [OF wf that] le by simp
  have linked: "i \<le> ?n + 1" if "get_target_linkers ?V i \<noteq> []" for i
    using rocks_wf_dest(8) [OF wf that] le by simp
  have "rocks_wf (pending ?batch ?s)"
    unfolding rocks_wf_def reads seqs
    using rocks_wf_dest [OF wf] rocks_wf_bounds [OF wf] ids linked fresh by auto
  then show ?thesis
    using goc reads fresh unlinked None look unat_u64_succ_le [of ?n]
    by (intro exI [of _ "?n + 1"] exI [of _ ?s] exI [of _ ?batch]) simp
qed

lemma create_did_id:
  assumes wf: "rocks_wf (pending batch s)"
    and look: "did_id_val (pending batch s) did = did_id_val s did"
    and room: "it_priv_id_seq (rs_did_id_table s) \<noteq> - 1"
  shows "\<exists>i a s' batch'. get_or_create_did_id s batch did = Inr ((i, a), s', batch') \<and>
    rs_db s' = rs_db s \<and> rs_target_id_table s' = rs_target_id_table s \<and>
    unat (it_priv_id_seq (rs_did_id_table s')) \<le> Suc (unat (it_priv_id_seq (rs_did_id_table s))) \<and>
    rocks_wf (pending batch' s') \<and>
    did_id_val (pending batch' s') = (did_id_val (pending batch s))(did \<mapsto> (i, a)) \<and>
    target_id_val (pending batch' s') = target_id_val (pending batch s) \<and>
    get_target_linkers (pending batch' s') = get_target_linkers (pending batch s) \<and>
    forward_links (pending batch' s') = forward_links (pending batch s) \<and>
    (did_id_val (pending batch s) did = Some (i, a) \<or>
     did_id_val (pending batch s) did = None \<and> a \<and> (\<forall>c r. forward_links (pending batch s) (i, c, r) = []))"
proof (cases "did_id_val s did")
  case (Some v)
  obtain i a where v: "v = (i, a)" by force
  let ?V = "pending batch s"
  let ?batch = "batch @ [PutDidById i did]"
  have goc: "get_or_create_did_id s batch did = Inr ((i, a), s, ?batch)"
    using Some v by (simp add: get_or_create_did_id_def get_or_create_base_def)
  have di: "did_id_val ?V did = Some (i, a)" using Some v look by simp
  then have upd: "(did_id_val ?V)(did \<mapsto> (i, a)) = did_id_val ?V" by (simp add: fun_upd_idem)
  have reads: "did_id_val (pending ?batch s) = did_id_val ?V" "target_id_val (pending ?batch s) = target_id_val ?V"
    "get_val_from_id (pending ?batch s) = (get_val_from_id ?V)(i \<mapsto> did)"
    "get_target_linkers (pending ?batch s) = get_target_linkers ?V"
    "forward_links (pending ?batch s) = forward_links ?V"
    by (auto simp: did_id_val_def get_val_from_id_def target_id_val_def get_target_linkers_def forward_links_def
        with_db_def fun_eq_iff)
  have same: "(get_val_from_id ?V)(i \<mapsto> did) = get_val_from_id ?V"
    using rocks_wf_dest(5) [OF wf di] by (simp add: fun_upd_idem)
  have "rocks_wf (pending ?batch s) = rocks_wf ?V"
    unfolding rocks_wf_def reads same by (simp add: with_db_def)
  then show ?thesis using goc wf di reads upd
    by (intro exI [of _ i] exI [of _ a] exI [of _ s] exI [of _ ?batch]) simp
next
  case None
  let ?V = "pending batch s"
  let ?n = "it_priv_id_seq (rs_did_id_table s)"
  let ?batch = "batch @ [PutDidSeq (?n + 1), PutDidId did (?n + 1, True), PutDidById (?n + 1) did]"
  let ?s = "s\<lparr>rs_did_id_table := \<lparr>it_id_seq = ?n + 1, it_priv_id_seq = ?n + 1\<rparr>\<rparr>"
  have tabs: "rs_did_id_table ?V = rs_did_id_table s" by (simp add: with_db_def)
  have goc: "get_or_create_did_id s batch did = Inr ((?n + 1, True), ?s, ?batch)"
    using None rocks_wf_dest(1) [OF wf]
    by (simp add: get_or_create_did_id_def get_or_create_base_def tabs Let_def)
  have le: "persisted (db_did_seq (rs_db ?V)) < ?n + 1"
    using rocks_wf_bounds(1) [OF wf] u64_succ_greater [OF room] by (simp add: tabs)
  have fresh: "did_id_val ?V did' \<noteq> Some (?n + 1, a)" for did' a
    using rocks_wf_dest(4) [OF wf, of did' "?n + 1" a] le by auto
  have unlinked: "forward_links ?V (?n + 1, c, r) = []" for c r
    using rocks_wf_dest(9) [OF wf, of "?n + 1" c r] le by force
  have reads: "did_id_val (pending ?batch ?s) = (did_id_val ?V)(did \<mapsto> (?n + 1, True))"
    "get_val_from_id (pending ?batch ?s) = (get_val_from_id ?V)(?n + 1 \<mapsto> did)"
    "target_id_val (pending ?batch ?s) = target_id_val ?V"
    "get_target_linkers (pending ?batch ?s) = get_target_linkers ?V"
    "forward_links (pending ?batch ?s) = forward_links ?V"
    by (auto simp: did_id_val_def get_val_from_id_def target_id_val_def get_target_linkers_def forward_links_def
        with_db_def fun_eq_iff)
  have seqs: "persisted (db_did_seq (rs_db (pending ?batch ?s))) = ?n + 1"
    "db_target_seq (rs_db (pending ?batch ?s)) = db_target_seq (rs_db ?V)"
    "it_id_seq (rs_did_id_table (pending ?batch ?s)) = ?n + 1"
    "it_priv_id_seq (rs_did_id_table (pending ?batch ?s)) = ?n + 1"
    "rs_target_id_table (pending ?batch ?s) = rs_target_id_table ?V"
    "db_link_targets (rs_db (pending ?batch ?s)) = db_link_targets (rs_db ?V)"
    "db_target_ids (rs_db (pending ?batch ?s)) = db_target_ids (rs_db ?V)"
    by (simp_all add: with_db_def persisted_def)
  have pos: "?n + 1 \<noteq> 0" using le by (metis word_not_simps(1))
  have ids: "i \<noteq> 0 \<and> i \<le> ?n + 1 \<and> ((get_val_from_id ?V)(?n + 1 \<mapsto> did)) i = Some did'"
    if "((did_id_val ?V)(did \<mapsto> (?n + 1, True))) did' = Some (i, a)" for did' i a
  proof (cases "did' = did")
    case False
    with that have v: "did_id_val ?V did' = Some (i, a)" by simp
    then have "i \<noteq> ?n + 1" using fresh by auto
    moreover have "i \<le> ?n + 1" using rocks_wf_dest(4) [OF wf v] le by simp
    ultimately show ?thesis using rocks_wf_dest(3,5) [OF wf v] by simp
  qed (use that pos in simp)
  have linked: "i \<le> ?n + 1" if "forward_links ?V (i, c, r) \<noteq> []" for i c r
    using rocks_wf_dest(9) [OF wf that] le by simp
  have "rocks_wf (pending ?batch ?s)"
    unfolding rocks_wf_def reads seqs
    using rocks_wf_dest(2,6,7,8) [OF wf] rocks_wf_bounds [OF wf] ids linked by blast
  then show ?thesis
    using goc reads fresh unlinked None look unat_u64_succ_le [of ?n]
    by (intro exI [of _ "?n + 1"] exI [of _ True] exI [of _ ?s] exI [of _ ?batch]) simp
qed

section \<open>Adding links\<close>

lemma link_rel_mono:
  assumes "link_rel s c x y" "\<And>k i. target_id_val s k = Some i \<Longrightarrow> target_id_val s' k = Some i"
  shows "link_rel s' c x y"
  using assms by (auto simp: link_rel_def)

lemma slot_rel_mono:
  assumes "slot_rel s x y" "\<And>did v. did_id_val s did = Some v \<Longrightarrow> did_id_val s' did = Some v"
  shows "slot_rel s' x y"
  using assms by (auto simp: slot_rel_def split: if_splits)

lemma mem_linkers_add:
  "mem_linkers (mem_add_link r l d) t c p = None \<longleftrightarrow>
     mem_linkers d t c p = None \<and> (t, c, p) \<noteq> (into_string (cl_target l), rid_collection r, cl_path l)"
  by (auto simp: mem_linkers_def mem_add_link_def Let_def split: option.split)

lemma add_link_sim:
  assumes rel: "store_rel_with fw d s" and did: "did_id_val s (rid_did r) = Some (i, a)"
    and k: "k = (into_string (cl_target l), rid_collection r, cl_path l)"
    and wf': "rocks_wf s'" and dids: "did_id_val s' = did_id_val s"
    and tids: "target_id_val s' = (target_id_val s)(k \<mapsto> ti)"
    and old: "target_id_val s k = Some ti \<or> target_id_val s k = None"
    and lks: "\<And>k'. key_linkers s' k' = key_linkers s k' @ (if k' = k then [(i, rid_rkey r)] else [])"
    and fw': "fw' = fw((i, rid_collection r, rid_rkey r) := fw (i, rid_collection r, rid_rkey r) @ [(cl_path l, ti)])"
  shows "store_rel_with fw' (mem_add_link r l d) s'"
proof -
  note wf = store_rel_with_dest(1) [OF rel]
  let ?d = "mem_add_link r l d"
  have mono: "target_id_val s' k' = Some j" if "target_id_val s k' = Some j" for k' j
    using that tids old by auto
  have sr: "slot_rel s' = slot_rel s" by (rule slot_rel_cong [OF dids])
  have i0: "i \<noteq> 0" using rocks_wf_dest(3) [OF wf did] .
  have "hm_get (md_dids ?d) did' = map_option snd (did_id_val s' did')" for did'
    using store_rel_with_dest(2) [OF rel] did by (auto simp: dids_add dids)
  moreover have "mem_linkers ?d t c p = None \<longleftrightarrow> target_id_val s' (t, c, p) = None" for t c p
    using store_rel_with_dest(3) [OF rel, of t c p] by (auto simp: mem_linkers_add tids k)
  moreover have "list_all2 (slot_rel s') (key_linkers s' (t, c, p)) (linkers_of ?d t (c, p))" for t c p
    using store_rel_with_dest(4) [OF rel, of t c p] did i0
    by (auto simp: sr lks linkers_of_add k slot_rel_def intro!: list_all2_appendI)
  moreover have "list_all2 (link_rel s' c) (fw' (j, c, rk)) (links_of ?d did' (c, rk))"
    if v: "did_id_val s' did' = Some (j, b)" for did' j b c rk
  proof -
    have base: "list_all2 (link_rel s' c) (fw (j, c, rk)) (links_of d did' (c, rk))"
      using store_rel_with_dest(5) [OF rel v [unfolded dids]]
      by (rule list_all2_mono) (use link_rel_mono mono in blast)
    have "did' = rid_did r" if "j = i"
      using did_id_unique [OF wf did, of did' b] v that by (simp add: dids)
    moreover have "j = i" if "did' = rid_did r" using v did that by (simp add: dids)
    ultimately have "j = i \<longleftrightarrow> did' = rid_did r" by blast
    then have same: "(j, c, rk) = (i, rid_collection r, rid_rkey r) \<longleftrightarrow>
        did' = rid_did r \<and> (c, rk) = repo_id_from_record_id r"
      by (auto simp: repo_id_from_record_id_def)
    have "link_rel s' (rid_collection r) (cl_path l, ti) (link_pair l)"
      by (simp add: link_rel_def link_pair_def tids k)
    with base same show ?thesis unfolding fw' links_of_add
      by (auto simp: repo_id_from_record_id_def intro!: list_all2_appendI)
  qed
  ultimately show ?thesis using wf' unfolding store_rel_with_def by blast
qed

lemma merge_reads [simp]:
  "did_id_val (with_db (apply_op (MergeTargetLinkers ti ls)) s) = did_id_val s"
  "target_id_val (with_db (apply_op (MergeTargetLinkers ti ls)) s) = target_id_val s"
  "get_val_from_id (with_db (apply_op (MergeTargetLinkers ti ls)) s) = get_val_from_id s"
  "forward_links (with_db (apply_op (MergeTargetLinkers ti ls)) s) = forward_links s"
  "get_target_linkers (with_db (apply_op (MergeTargetLinkers ti ls)) s) =
     (get_target_linkers s)(ti := get_target_linkers s ti @ ls)"
  by (auto simp: did_id_val_def target_id_val_def get_val_from_id_def get_target_linkers_def
      with_db_def merge_op_extend_did_ids_def forward_links_def fun_eq_iff split: option.split)

lemma rocks_wf_merge:
  assumes wf: "rocks_wf s" and ti: "target_id_val s k = Some ti"
  shows "rocks_wf (with_db (apply_op (MergeTargetLinkers ti ls)) s)"
proof -
  let ?s = "with_db (apply_op (MergeTargetLinkers ti ls)) s"
  have frame: "rs_did_id_table ?s = rs_did_id_table s" "rs_target_id_table ?s = rs_target_id_table s"
    "db_did_seq (rs_db ?s) = db_did_seq (rs_db s)" "db_target_seq (rs_db ?s) = db_target_seq (rs_db s)"
    "db_target_ids (rs_db ?s) = db_target_ids (rs_db s)" "db_link_targets (rs_db ?s) = db_link_targets (rs_db s)"
    by (simp_all add: with_db_def)
  have "tj \<le> persisted (db_target_seq (rs_db s))"
    if "((get_target_linkers s)(ti := get_target_linkers s ti @ ls)) tj \<noteq> []" for tj
    using that rocks_wf_dest(8) [OF wf, of tj] rocks_wf_dest(6) [OF wf ti] by (auto split: if_splits)
  then show ?thesis using wf unfolding rocks_wf_def frame merge_reads by blast
qed

lemma rocks_add_link_sim:
  assumes rel: "store_rel_with fw d (pending batch s)"
    and did: "did_id_val (pending batch s) (rid_did r) = Some (i, a)"
    and buf: "fw (i, rid_collection r, rid_rkey r) = buf"
    and k: "k = (into_string (cl_target l), rid_collection r, cl_path l)"
    and look: "target_id_val (pending batch s) k = target_id_val s k"
    and room: "it_priv_id_seq (rs_target_id_table s) \<noteq> - 1"
  shows "\<exists>s' batch' ti. rocks_add_link r i l (s, batch, buf) = Inr (s', batch', buf @ [(cl_path l, ti)]) \<and>
    rs_db s' = rs_db s \<and> rs_did_id_table s' = rs_did_id_table s \<and>
    unat (it_priv_id_seq (rs_target_id_table s')) \<le> Suc (unat (it_priv_id_seq (rs_target_id_table s))) \<and>
    did_id_val (pending batch' s') = did_id_val (pending batch s) \<and>
    (\<forall>k'. k' \<noteq> k \<longrightarrow> target_id_val (pending batch' s') k' = target_id_val (pending batch s) k') \<and>
    forward_links (pending batch' s') = forward_links (pending batch s) \<and>
    store_rel_with (fw((i, rid_collection r, rid_rkey r) := buf @ [(cl_path l, ti)]))
      (mem_add_link r l d) (pending batch' s')"
proof -
  note wf = store_rel_with_dest(1) [OF rel]
  from create_target_id [OF wf look room] obtain ti s' batch' where
    goc: "get_or_create_target_id s batch k = Inr (ti, s', batch')"
    and s': "rs_db s' = rs_db s" "rs_did_id_table s' = rs_did_id_table s"
      "unat (it_priv_id_seq (rs_target_id_table s')) \<le> Suc (unat (it_priv_id_seq (rs_target_id_table s)))"
    and wf': "rocks_wf (pending batch' s')"
    and V': "did_id_val (pending batch' s') = did_id_val (pending batch s)"
      "target_id_val (pending batch' s') = (target_id_val (pending batch s))(k \<mapsto> ti)"
      "get_target_linkers (pending batch' s') = get_target_linkers (pending batch s)"
      "forward_links (pending batch' s') = forward_links (pending batch s)"
    and new: "target_id_val (pending batch s) k = Some ti \<or>
      target_id_val (pending batch s) k = None \<and> get_target_linkers (pending batch s) ti = [] \<and>
        (\<forall>k'. target_id_val (pending batch s) k' \<noteq> Some ti)" by blast
  let ?merge = "MergeTargetLinkers ti [(i, rid_rkey r)]"
  have step: "pending (batch' @ [?merge]) s' = with_db (apply_op ?merge) (pending batch' s')"
    by (simp add: with_db_def)
  have tk: "target_id_val (pending batch' s') k = Some ti" using V'(2) by simp
  have others: "target_id_val (pending batch s) k' \<noteq> Some ti" if "k' \<noteq> k" for k'
    using that new rocks_wf_dest(7) [OF wf, of k ti k'] by blast
  have lks: "key_linkers (pending (batch' @ [?merge]) s') k' =
      key_linkers (pending batch s) k' @ (if k' = k then [(i, rid_rkey r)] else [])" for k'
  proof (cases "k' = k")
    case True
    then show ?thesis using new by (auto simp: key_linkers_def step V')
  next
    case False
    with others show ?thesis by (auto simp: key_linkers_def step V' split: option.split)
  qed
  have "store_rel_with (fw((i, rid_collection r, rid_rkey r) := buf @ [(cl_path l, ti)]))
      (mem_add_link r l d) (pending (batch' @ [?merge]) s')"
  proof (rule add_link_sim [OF rel did k])
    show "rocks_wf (pending (batch' @ [?merge]) s')" unfolding step by (rule rocks_wf_merge [OF wf' tk])
    show "did_id_val (pending (batch' @ [?merge]) s') = did_id_val (pending batch s)"
      "target_id_val (pending (batch' @ [?merge]) s') = (target_id_val (pending batch s))(k \<mapsto> ti)"
      unfolding step by (simp_all add: V')
  qed (use new buf lks in auto)
  moreover have "rocks_add_link r i l (s, batch, buf) = Inr (s', batch' @ [?merge], buf @ [(cl_path l, ti)])"
    using goc k by (simp add: rocks_add_link_def)
  moreover have "did_id_val (pending (batch' @ [?merge]) s') = did_id_val (pending batch s)"
    "\<forall>k'. k' \<noteq> k \<longrightarrow> target_id_val (pending (batch' @ [?merge]) s') k' = target_id_val (pending batch s) k'"
    "forward_links (pending (batch' @ [?merge]) s') = forward_links (pending batch s)"
    unfolding step by (simp_all add: V')
  ultimately show ?thesis using s' by blast
qed

lemma rocks_add_link_loop:
  assumes "store_rel_with fw d (pending batch s)"
    and "did_id_val (pending batch s) (rid_did r) = Some (i, a)"
    and "fw (i, rid_collection r, rid_rkey r) = buf"
    and "distinct (map link_pair links)"
    and "\<And>p t. (p, t) \<in> link_pair ` set links \<Longrightarrow>
      target_id_val (pending batch s) (t, rid_collection r, p) = target_id_val s (t, rid_collection r, p)"
    and "unat (it_priv_id_seq (rs_target_id_table s)) + length links < 2 ^ 64"
  shows "\<exists>s' batch' buf'. fold_res (rocks_add_link r i) links (s, batch, buf) = Inr (s', batch', buf') \<and>
    rs_db s' = rs_db s \<and> rs_did_id_table s' = rs_did_id_table s \<and>
    unat (it_priv_id_seq (rs_target_id_table s')) \<le> unat (it_priv_id_seq (rs_target_id_table s)) + length links \<and>
    did_id_val (pending batch' s') = did_id_val (pending batch s) \<and>
    forward_links (pending batch' s') = forward_links (pending batch s) \<and>
    store_rel_with (fw((i, rid_collection r, rid_rkey r) := buf')) (mem_add_links r links d) (pending batch' s')"
  using assms
proof (induction links arbitrary: fw d s batch buf)
  case Nil
  then have "fw((i, rid_collection r, rid_rkey r) := buf) = fw" by (simp add: fun_upd_idem)
  with Nil show ?case
    by (intro exI [of _ s] exI [of _ batch] exI [of _ buf]) (simp add: mem_add_links_def del: fun_upd_apply)
next
  case (Cons l links)
  let ?n = "it_priv_id_seq (rs_target_id_table s)"
  let ?key = "(i, rid_collection r, rid_rkey r)"
  let ?k = "(into_string (cl_target l), rid_collection r, cl_path l)"
  have "unat ?n + 1 < 2 ^ 64" using Cons.prems(6) by simp
  then have room: "?n \<noteq> - 1" by (rule u64_not_max)
  have look: "target_id_val (pending batch s) ?k = target_id_val s ?k"
    using Cons.prems(5) [of "cl_path l" "into_string (cl_target l)"] by (simp add: link_pair_def)
  from rocks_add_link_sim [OF Cons.prems(1-3) refl look room] obtain s1 batch1 ti where
    step: "rocks_add_link r i l (s, batch, buf) = Inr (s1, batch1, buf @ [(cl_path l, ti)])"
    and s1: "rs_db s1 = rs_db s" "rs_did_id_table s1 = rs_did_id_table s"
      "unat (it_priv_id_seq (rs_target_id_table s1)) \<le> Suc (unat ?n)"
    and V1: "did_id_val (pending batch1 s1) = did_id_val (pending batch s)"
      "\<forall>k'. k' \<noteq> ?k \<longrightarrow> target_id_val (pending batch1 s1) k' = target_id_val (pending batch s) k'"
      "forward_links (pending batch1 s1) = forward_links (pending batch s)"
    and rel1: "store_rel_with (fw(?key := buf @ [(cl_path l, ti)])) (mem_add_link r l d) (pending batch1 s1)"
    by blast
  have look1: "target_id_val (pending batch1 s1) (t, rid_collection r, p) = target_id_val s1 (t, rid_collection r, p)"
    if "(p, t) \<in> link_pair ` set links" for p t
  proof -
    have "(p, t) \<noteq> link_pair l" using that Cons.prems(4) by auto
    then have "(t, rid_collection r, p) \<noteq> ?k" by (auto simp: link_pair_def)
    then show ?thesis using V1(2) Cons.prems(5) [of p t] that s1(1) by (simp add: target_id_val_def)
  qed
  from Cons.IH [OF rel1 _ _ _ look1, of "buf @ [(cl_path l, ti)]"] V1(1) Cons.prems(2,4,6) s1(3)
  obtain s' batch' buf' where loop: "fold_res (rocks_add_link r i) links (s1, batch1, buf @ [(cl_path l, ti)]) = Inr (s', batch', buf')"
    and s': "rs_db s' = rs_db s1" "rs_did_id_table s' = rs_did_id_table s1"
      "unat (it_priv_id_seq (rs_target_id_table s')) \<le> unat (it_priv_id_seq (rs_target_id_table s1)) + length links"
      "did_id_val (pending batch' s') = did_id_val (pending batch1 s1)"
      "forward_links (pending batch' s') = forward_links (pending batch1 s1)"
      "store_rel_with (fw(?key := buf')) (mem_add_links r links (mem_add_link r l d)) (pending batch' s')"
    by (auto simp del: fun_upd_apply simp add: fun_upd_same fun_upd_upd)
  then show ?case using step s1 V1 by (intro exI [of _ s'] exI [of _ batch'] exI [of _ buf'])
      (simp add: mem_add_links_def del: fun_upd_apply)
qed

text \<open>Before its loop, \<open>add_links\<close> makes the account known; the reference store does so with the first link.\<close>

definition know_did :: "Did \<Rightarrow> MemStorageData \<Rightarrow> MemStorageData" where
  "know_did did d = d\<lparr>md_dids := hm_entry did True id (md_dids d)\<rparr>"

lemma hm_entry_twice: "hm_entry k v id (hm_entry k v id m) = hm_entry k v id m"
  by (cases "hm_get m k") (simp_all add: hm_entry_def hm_insert_same)

lemma know_did_known: "hm_get (md_dids d) did \<noteq> None \<Longrightarrow> know_did did d = d"
  by (auto simp: know_did_def hm_entry_def hm_insert_same)

lemma add_links_know_did:
  assumes "links \<noteq> [] \<or> hm_get (md_dids d) (rid_did r) \<noteq> None"
  shows "mem_add_links r links (know_did (rid_did r) d) = mem_add_links r links d"
proof (cases links)
  case (Cons l ls)
  have "mem_add_link r l (know_did (rid_did r) d) = mem_add_link r l d"
    by (simp add: mem_add_link_def know_did_def Let_def hm_entry_twice)
  then show ?thesis by (simp add: mem_add_links_def Cons)
qed (use assms know_did_known in auto)

lemma know_did_sim:
  assumes rel: "store_rel d s" and inv: "mem_inv d"
    and wf': "rocks_wf s'"
    and dids: "did_id_val s' = (did_id_val s)(did \<mapsto> (i, a))"
    and tids: "target_id_val s' = target_id_val s" and lks: "get_target_linkers s' = get_target_linkers s"
    and fws: "forward_links s' = forward_links s"
    and old: "did_id_val s did = Some (i, a) \<or>
      did_id_val s did = None \<and> a \<and> (\<forall>c r. forward_links s (i, c, r) = [])"
  shows "store_rel (know_did did d) s'"
proof -
  have same: "mem_linkers (know_did did d) = mem_linkers d" "linkers_of (know_did did d) = linkers_of d"
    "links_of (know_did did d) = links_of d"
    by (simp_all add: know_did_def mem_linkers_def linkers_of_def links_of_def fun_eq_iff)
  have kl: "key_linkers s' = key_linkers s" by (rule key_linkers_cong [OF tids lks])
  have lr: "link_rel s' = link_rel s" by (rule link_rel_cong [OF tids])
  have mono: "did_id_val s' did' = Some v" if "did_id_val s did' = Some v" for did' v
    using that old by (auto simp: dids)
  have "hm_get (md_dids (know_did did d)) did' = map_option snd (did_id_val s' did')" for did'
    using store_rel_with_dest(2) [OF rel] old by (auto simp: know_did_def dids)
  moreover have "list_all2 (slot_rel s') (key_linkers s' (t, c, p)) (linkers_of d t (c, p))" for t c p
    unfolding kl using store_rel_with_dest(4) [OF rel]
    by (rule list_all2_mono) (use slot_rel_mono mono in blast)
  moreover have "list_all2 (link_rel s c) (forward_links s (j, c, rk)) (links_of d did' (c, rk))"
    if v: "did_id_val s' did' = Some (j, b)" for did' j b c rk
  proof (cases "did_id_val s did' = Some (j, b)")
    case True
    then show ?thesis by (rule store_rel_with_dest(5) [OF rel])
  next
    case False
    with v have did': "did' = did" and "j = i" by (auto simp: dids split: if_splits)
    moreover have "did_id_val s did = None" using False old did' v by (auto simp: dids)
    then have "hm_get (md_dids d) did = None" using store_rel_with_dest(2) [OF rel] by simp
    then have "links_of d did (c, rk) = []" using mem_inv_known [OF inv] by blast
    moreover have "forward_links s (i, c, rk) = []" using False old did' v by (auto simp: dids)
    ultimately show ?thesis by simp
  qed
  ultimately show ?thesis using wf' store_rel_with_dest(3) [OF rel]
    unfolding store_rel_with_def same lr fws tids by blast
qed

lemma put_links_reads:
  "did_id_val (with_db (apply_op (PutLinkTargets k ts)) s) = did_id_val s"
  "target_id_val (with_db (apply_op (PutLinkTargets k ts)) s) = target_id_val s"
  "get_val_from_id (with_db (apply_op (PutLinkTargets k ts)) s) = get_val_from_id s"
  "get_target_linkers (with_db (apply_op (PutLinkTargets k ts)) s) = get_target_linkers s"
  "forward_links (with_db (apply_op (PutLinkTargets k ts)) s) = (forward_links s)(k := ts)"
  by (auto simp: did_id_val_def target_id_val_def get_val_from_id_def get_target_linkers_def
      with_db_def forward_links_def fun_eq_iff)

lemma put_links_sim:
  assumes rel: "store_rel_with ((forward_links s)((i, c, r) := ts)) d s"
    and did: "did_id_val s did = Some (i, a)"
  shows "store_rel d (with_db (apply_op (PutLinkTargets (i, c, r) ts)) s)"
proof -
  let ?s = "with_db (apply_op (PutLinkTargets (i, c, r) ts)) s"
  note wf = store_rel_with_dest(1) [OF rel]
  have frame: "rs_did_id_table ?s = rs_did_id_table s" "rs_target_id_table ?s = rs_target_id_table s"
    "db_did_seq (rs_db ?s) = db_did_seq (rs_db s)" "db_target_seq (rs_db ?s) = db_target_seq (rs_db s)"
    "db_target_ids (rs_db ?s) = db_target_ids (rs_db s)"
    "db_link_targets (rs_db ?s) = hm_insert (i, c, r) ts (db_link_targets (rs_db s))"
    by (simp_all add: with_db_def)
  have fw: "j \<le> persisted (db_did_seq (rs_db s))"
    if "((forward_links s)((i, c, r) := ts)) (j, c', r') \<noteq> []" for j c' r'
    using that rocks_wf_dest(9) [OF wf, of j c' r'] rocks_wf_dest(4) [OF wf did] by (auto split: if_splits)
  have "hm_inv (hm_insert (i, c, r) ts (db_link_targets (rs_db s)))"
    using rocks_wf_bounds(4) [OF wf] by simp
  with wf fw have "rocks_wf ?s" unfolding rocks_wf_def frame put_links_reads by blast
  moreover have "slot_rel ?s = slot_rel s" "link_rel ?s = link_rel s"
    by (rule slot_rel_cong link_rel_cong; simp only: put_links_reads)+
  moreover have "key_linkers ?s = key_linkers s" by (rule key_linkers_cong; simp only: put_links_reads)
  ultimately show ?thesis using rel unfolding store_rel_with_def put_links_reads by simp
qed

lemma add_links_sim:
  assumes inv: "mem_inv d" and rel: "store_rel d (pending batch s)"
    and reads: "did_id_val (pending batch s) = did_id_val s" "target_id_val (pending batch s) = target_id_val s"
    and empty: "links_of d (rid_did r) (repo_id_from_record_id r) = []"
    and dist: "distinct (map link_pair links)"
    and known: "links \<noteq> [] \<or> hm_get (md_dids d) (rid_did r) \<noteq> None"
    and room: "unat (it_priv_id_seq (rs_did_id_table s)) + 1 < 2 ^ 64"
      "unat (it_priv_id_seq (rs_target_id_table s)) + length links < 2 ^ 64"
  shows "\<exists>s' batch'. rocks_add_links r links s batch = Inr (s', batch') \<and>
    store_rel (mem_add_links r links d) (pending batch' s') \<and>
    unat (it_priv_id_seq (rs_did_id_table s')) \<le> Suc (unat (it_priv_id_seq (rs_did_id_table s))) \<and>
    unat (it_priv_id_seq (rs_target_id_table s')) \<le> unat (it_priv_id_seq (rs_target_id_table s)) + length links"
proof -
  note wf = store_rel_with_dest(1) [OF rel]
  let ?did = "rid_did r"
  have "it_priv_id_seq (rs_did_id_table s) \<noteq> - 1" using room(1) by (rule u64_not_max)
  from create_did_id [OF wf _ this, of ?did] reads(1) obtain i a s1 batch1 where
    goc: "get_or_create_did_id s batch ?did = Inr ((i, a), s1, batch1)"
    and s1: "rs_db s1 = rs_db s" "rs_target_id_table s1 = rs_target_id_table s"
      "unat (it_priv_id_seq (rs_did_id_table s1)) \<le> Suc (unat (it_priv_id_seq (rs_did_id_table s)))"
    and V1: "rocks_wf (pending batch1 s1)"
      "did_id_val (pending batch1 s1) = (did_id_val (pending batch s))(?did \<mapsto> (i, a))"
      "target_id_val (pending batch1 s1) = target_id_val (pending batch s)"
      "get_target_linkers (pending batch1 s1) = get_target_linkers (pending batch s)"
      "forward_links (pending batch1 s1) = forward_links (pending batch s)"
    and old: "did_id_val (pending batch s) ?did = Some (i, a) \<or>
      did_id_val (pending batch s) ?did = None \<and> a \<and> (\<forall>c r. forward_links (pending batch s) (i, c, r) = [])"
    by auto
  have rel1: "store_rel (know_did ?did d) (pending batch1 s1)"
    by (rule know_did_sim [OF rel inv V1 old])
  have di: "did_id_val (pending batch1 s1) ?did = Some (i, a)" by (simp add: V1)
  have "links_of (know_did ?did d) ?did (rid_collection r, rid_rkey r) = []"
    using empty by (simp add: know_did_def links_of_def repo_id_from_record_id_def)
  with store_rel_with_dest(5) [OF rel1 di, of "rid_collection r" "rid_rkey r"]
  have buf: "forward_links (pending batch1 s1) (i, rid_collection r, rid_rkey r) = []" by simp
  have look: "target_id_val (pending batch1 s1) k = target_id_val s1 k" for k
    using s1(1) by (simp add: V1 reads) (simp add: target_id_val_def)
  from rocks_add_link_loop [OF rel1 di buf dist look] room(2) s1(2) obtain s2 batch2 buf2 where
    loop: "fold_res (rocks_add_link r i) links (s1, batch1, []) = Inr (s2, batch2, buf2)"
    and s2: "rs_did_id_table s2 = rs_did_id_table s1"
      "unat (it_priv_id_seq (rs_target_id_table s2)) \<le> unat (it_priv_id_seq (rs_target_id_table s1)) + length links"
    and V2: "did_id_val (pending batch2 s2) = did_id_val (pending batch1 s1)"
      "forward_links (pending batch2 s2) = forward_links (pending batch1 s1)"
    and rel2: "store_rel_with ((forward_links (pending batch1 s1))((i, rid_collection r, rid_rkey r) := buf2))
      (mem_add_links r links (know_did ?did d)) (pending batch2 s2)" by auto
  let ?op = "PutLinkTargets (i, rid_collection r, rid_rkey r) buf2"
  have "rocks_add_links r links s batch = Inr (s2, batch2 @ [?op])"
    by (simp add: rocks_add_links_def goc loop)
  moreover have "store_rel (mem_add_links r links d) (with_db (apply_op ?op) (pending batch2 s2))"
    using put_links_sim [of "pending batch2 s2" i "rid_collection r" "rid_rkey r" buf2 _ ?did a] rel2 V2 di
    by (simp add: add_links_know_did [OF known] del: fun_upd_apply)
  then have "store_rel (mem_add_links r links d) (pending (batch2 @ [?op]) s2)" by (simp add: with_db_def)
  ultimately show ?thesis using s1 s2 by auto
qed

end
