(* ===== verification/Rocks_Delete.thy ===== *)
theory Rocks_Delete
  imports Rocks_Sim
begin

text \<open>
  Account deletion in the two stores.  Both clear every slot of the account and keep all others;
  the disk store does so in batches of 1024 records whose reads do not see each other, so it
  needs every target of the account's links to be linked once.
\<close>

section \<open>MemStorage\<close>

definition clear_did :: "Did \<Rightarrow> (Did \<times> string) option \<Rightarrow> (Did \<times> string) option" where
  "clear_did did x = (case x of None \<Rightarrow> None | Some (did', _) \<Rightarrow> if did' = did then None else x)"

lemma take_linkers_clear:
  assumes "fold_res (take_linker replace_first msg did) js d = Inr d'"
  shows "map (clear_did did) (linkers_of d' t s) = map (clear_did did) (linkers_of d t s) \<and>
    (mem_linkers d' t c p = None \<longleftrightarrow> mem_linkers d t c p = None)"
  using assms
proof (induction js arbitrary: d)
  case (Cons j js)
  obtain repo p0 t0 where j: "j = (repo, p0, t0)" by (cases j) auto
  from Cons.prems obtain d1 where d1: "take_linker replace_first msg did j d = Inr d1"
    "fold_res (take_linker replace_first msg did) js d1 = Inr d'" by (auto split: sum.splits)
  from d1(1) obtain sources ls ls' where s: "hm_get (md_targets d) t0 = Some sources"
    "hm_get sources (fst repo, p0) = Some ls"
    and ls': "replace_first (\<lambda>x. x = Some (did, snd repo)) None ls = Some ls'"
    and "d1 = d\<lparr>md_targets := hm_insert t0 (hm_insert (fst repo, p0) ls' sources) (md_targets d)\<rparr>"
    by (auto simp: j take_linker_def split: option.splits)
  then have "mem_linkers d1 t' c' p' = (if t' = t0 \<and> (c', p') = (fst repo, p0) then Some ls' else mem_linkers d t' c' p')"
    for t' c' p' by (auto simp: mem_linkers_def)
  moreover have "mem_linkers d t0 (fst repo) p0 = Some ls" using s by (simp add: mem_linkers_def)
  moreover have "map (clear_did did) ls' = map (clear_did did) ls"
    using replace_first_Some [OF ls'] by (auto simp: clear_did_def)
  ultimately have "map (clear_did did) (linkers_of d1 t s) = map (clear_did did) (linkers_of d t s) \<and>
      (mem_linkers d1 t c p = None \<longleftrightarrow> mem_linkers d t c p = None)"
    by (auto simp: linkers_of_def)
  with Cons.IH [OF d1(2)] show ?case by simp
qed simp

lemma mem_delete_linkers:
  assumes inv: "mem_inv d" and del: "mem_delete_account did d = Inr d'"
  shows "linkers_of d' t (c, p) = map (clear_did did) (linkers_of d t (c, p))"
    and "mem_linkers d' t c p = None \<longleftrightarrow> mem_linkers d t c p = None"
proof -
  from del obtain js d1 where d1: "fold_res (take_linker replace_first ''lkasjdlfkj'' did) js d = Inr d1"
    and t1: "md_targets d' = md_targets d1" by (auto simp: mem_delete_account_fold and_then_Inr)
  have ml: "mem_linkers d' = mem_linkers d1" "linkers_of d' = linkers_of d1"
    using t1 by (simp_all add: mem_linkers_def linkers_of_def fun_eq_iff)
  show "mem_linkers d' t c p = None \<longleftrightarrow> mem_linkers d t c p = None"
    using take_linkers_clear [OF d1] by (simp add: ml)
  have inv': "mem_inv d'" and gone: "links_of d' did repo = []" for repo
    using mem_delete_account_ok [OF inv, of did] unfolding del by (auto simp del: split_paired_All)
  have "Some (did, rk) \<notin> set (linkers_of d' t (c, p))" for rk
    using mem_inv_cnt [OF inv', of did "(c, rk)" p t] gone [of "(c, rk)"]
    by (simp add: cnt_def count_list_0_iff)
  then have "map (clear_did did) (linkers_of d' t (c, p)) = map id (linkers_of d' t (c, p))"
    by (intro map_cong) (auto simp: clear_did_def split: option.split)
  then show "linkers_of d' t (c, p) = map (clear_did did) (linkers_of d t (c, p))"
    using take_linkers_clear [OF d1, of t "(c, p)" c p] by (simp add: ml)
qed

section \<open>RocksStorage: a chunk is a sequence of removals\<close>

definition delete_entry :: "DidId \<Rightarrow> RecordLinkKey \<times> RecordLinkTargets \<Rightarrow> RocksDB \<Rightarrow> RocksDB" where
  "delete_entry i e db =
     fold (\<lambda>(_, ti). unlink i (snd (snd (fst e))) ti) (snd e) (drop_record (fst e) db)"

definition entry_targets :: "(RecordLinkKey \<times> RecordLinkTargets) list \<Rightarrow> TargetId list" where
  "entry_targets es = concat (map (\<lambda>e. map snd (snd e)) es)"

lemma delete_chunk_batch:
  assumes "distinct (entry_targets es)"
    and "\<And>ti. ti \<in> set (entry_targets es) \<Longrightarrow>
      hm_get (db_target_linkers (db_write batch db)) ti = hm_get (db_target_linkers (rs_db s)) ti"
  shows "db_write (fold (\<lambda>(key, links) mini_batch.
         fold (\<lambda>(_, ti). update_target_linkers s ti (\<lambda>ls. Some (fst (remove_linker i (snd (snd key)) ls))))
           links (mini_batch @ [DeleteLinkTargets key])) es batch) db =
    fold (delete_entry i) es (db_write batch db)"
  using assms
proof (induction es arbitrary: batch)
  case (Cons e es)
  obtain key links where e: "e = (key, links)" by (rule prod.exhaust)
  define batch' where "batch' = fold (\<lambda>(_, ti). update_target_linkers s ti
      (\<lambda>ls. Some (fst (remove_linker i (snd (snd key)) ls)))) links (batch @ [DeleteLinkTargets key])"
  have drop: "db_write (batch @ [DeleteLinkTargets key]) db = drop_record key (db_write batch db)"
    by (simp add: drop_record_def)
  have "db_write batch' db = fold (\<lambda>(_, ti). unlink i (snd (snd key)) ti) links
      (db_write (batch @ [DeleteLinkTargets key]) db)"
    unfolding batch'_def
  proof (rule unlink_batch)
    show "distinct (map snd links)" using Cons.prems(1) e by (simp add: entry_targets_def)
    show "hm_get (db_target_linkers (db_write (batch @ [DeleteLinkTargets key]) db)) ti =
        hm_get (db_target_linkers (rs_db s)) ti" if "ti \<in> snd ` set links" for ti
      using Cons.prems(2) [of ti] that e by (simp add: entry_targets_def)
  qed
  then have step: "db_write batch' db = delete_entry i e (db_write batch db)"
    unfolding drop by (simp add: delete_entry_def e)
  have "hm_get (db_target_linkers (db_write batch' db)) ti = hm_get (db_target_linkers (rs_db s)) ti"
    if ti: "ti \<in> set (entry_targets es)" for ti
  proof -
    have "ti \<notin> snd ` set links" using ti Cons.prems(1) e by (auto simp: entry_targets_def)
    then have "hm_get (db_target_linkers (db_write batch' db)) ti = hm_get (db_target_linkers (db_write batch db)) ti"
      unfolding step by (simp add: delete_entry_def e unlinks_other_reads) (simp add: drop_record_def)
    then show ?thesis using Cons.prems(2) [of ti] ti by (simp add: entry_targets_def)
  qed
  then show ?case using Cons.IH [of batch'] Cons.prems(1)
    by (simp add: e step entry_targets_def flip: batch'_def)
qed simp

lemma delete_chunk_eager:
  "distinct (entry_targets es) \<Longrightarrow> db_write (delete_chunk i s es) (rs_db s) = fold (delete_entry i) es (rs_db s)"
  using delete_chunk_batch [of es "[]" "rs_db s" s i] by (simp add: delete_chunk_def)

lemma delete_chunks_eager:
  assumes "distinct (entry_targets (concat css))"
  shows "snd (fold (\<lambda>chunk (total_batched_ops, s).
      let mini_batch = delete_chunk i s chunk
      in (total_batched_ops + length mini_batch, s\<lparr>rs_db := db_write mini_batch (rs_db s)\<rparr>)) css (n, s)) =
    with_db (fold (delete_entry i) (concat css)) s"
  using assms
proof (induction css arbitrary: n s)
  case (Cons c css)
  then have "distinct (entry_targets c)" "distinct (entry_targets (concat css))"
    by (simp_all add: entry_targets_def)
  with Cons.IH show ?case by (simp add: Let_def delete_chunk_eager with_db_def)
qed simp

section \<open>RocksStorage: what the removals leave\<close>

definition clear_id :: "DidId \<Rightarrow> DidId \<times> string \<Rightarrow> DidId \<times> string" where
  "clear_id i x = (if fst x = i then (0, '''') else x)"

text \<open>The removals as jobs on the map of linkers.\<close>

definition entry_jobs :: "(RecordLinkKey \<times> RecordLinkTargets) list \<Rightarrow> (string \<times> TargetId) list" where
  "entry_jobs es = concat (map (\<lambda>e. map (\<lambda>x. (snd (snd (fst e)), snd x)) (snd e)) es)"

definition lookup_linkers :: "(TargetId, TargetLinkers) hashmap \<Rightarrow> TargetId \<Rightarrow> TargetLinkers" where
  "lookup_linkers m ti = (case hm_get m ti of None \<Rightarrow> [] | Some ls \<Rightarrow> ls)"

definition unlink_job ::
  "DidId \<Rightarrow> string \<times> TargetId \<Rightarrow> (TargetId, TargetLinkers) hashmap \<Rightarrow> (TargetId, TargetLinkers) hashmap" where
  "unlink_job i j m = hm_insert (snd j) (fst (remove_linker i (fst j) (lookup_linkers m (snd j)))) m"

lemma delete_entries_linkers:
  "db_target_linkers (fold (delete_entry i) es db) = fold (unlink_job i) (entry_jobs es) (db_target_linkers db)"
proof (induction es arbitrary: db)
  case (Cons e es)
  have "db_target_linkers (fold (\<lambda>(_, ti). unlink i rk ti) ts db) =
      fold (unlink_job i) (map (\<lambda>x. (rk, snd x)) ts) (db_target_linkers db)" for rk db and ts :: RecordLinkTargets
    by (induction ts arbitrary: db) (auto simp: unlink_job_def unlink_def lookup_linkers_def)
  then have "db_target_linkers (delete_entry i e db) =
      fold (unlink_job i) (entry_jobs [e]) (db_target_linkers db)"
    by (simp add: delete_entry_def entry_jobs_def drop_record_def)
  with Cons.IH show ?case by (simp add: entry_jobs_def)
qed (simp add: entry_jobs_def)

lemma delete_entries_frame:
  "db_did_ids (fold (delete_entry i) es db) = db_did_ids db"
  "db_dids_by_id (fold (delete_entry i) es db) = db_dids_by_id db"
  "db_target_ids (fold (delete_entry i) es db) = db_target_ids db"
  "db_did_seq (fold (delete_entry i) es db) = db_did_seq db"
  "db_target_seq (fold (delete_entry i) es db) = db_target_seq db"
  "db_link_targets (fold (delete_entry i) es db) = fold (\<lambda>e. hm_remove (fst e)) es (db_link_targets db)"
proof -
  have ul: "db_did_ids (fold (\<lambda>(_, ti). unlink i rk ti) ts db) = db_did_ids db \<and>
    db_dids_by_id (fold (\<lambda>(_, ti). unlink i rk ti) ts db) = db_dids_by_id db \<and>
    db_target_ids (fold (\<lambda>(_, ti). unlink i rk ti) ts db) = db_target_ids db \<and>
    db_did_seq (fold (\<lambda>(_, ti). unlink i rk ti) ts db) = db_did_seq db \<and>
    db_target_seq (fold (\<lambda>(_, ti). unlink i rk ti) ts db) = db_target_seq db \<and>
    db_link_targets (fold (\<lambda>(_, ti). unlink i rk ti) ts db) = db_link_targets db" for rk ts db
    by (induction ts arbitrary: db) (auto simp: unlink_def)
  show "db_did_ids (fold (delete_entry i) es db) = db_did_ids db"
    "db_dids_by_id (fold (delete_entry i) es db) = db_dids_by_id db"
    "db_target_ids (fold (delete_entry i) es db) = db_target_ids db"
    "db_did_seq (fold (delete_entry i) es db) = db_did_seq db"
    "db_target_seq (fold (delete_entry i) es db) = db_target_seq db"
    "db_link_targets (fold (delete_entry i) es db) = fold (\<lambda>e. hm_remove (fst e)) es (db_link_targets db)"
    by (induction es arbitrary: db) (simp_all add: delete_entry_def drop_record_def ul)
qed

lemma hm_removes:
  "hm_get (fold (\<lambda>e. hm_remove (fst e)) es m) k = (if k \<in> fst ` set es then None else hm_get m k)"
  "hm_inv m \<Longrightarrow> hm_inv (fold (\<lambda>e. hm_remove (fst e)) es m)"
  by (induction es arbitrary: m) auto

lemma remove_linker_cases:
  "fst (remove_linker i rk ls) = ls \<and> (i, rk) \<notin> set ls \<or>
   (\<exists>us vs. ls = us @ (i, rk) # vs \<and> fst (remove_linker i rk ls) = us @ (0, '''') # vs)"
proof (cases "replace_last (\<lambda>d. d = (i, rk)) (0, '''') ls")
  case None
  then have "(i, rk) \<notin> set ls" unfolding replace_last_None by blast
  with None show ?thesis by (simp add: remove_linker_def)
next
  case (Some ls')
  from replace_last_Some [OF Some] show ?thesis by (auto simp: remove_linker_def Some)
qed

lemma unlink_jobs_clear:
  assumes "i \<noteq> 0"
  shows "map (clear_id i) (lookup_linkers (fold (unlink_job i) js m) ti) = map (clear_id i) (lookup_linkers m ti)"
proof (induction js arbitrary: m)
  case (Cons j js)
  have "map (clear_id i) (fst (remove_linker i rk ls)) = map (clear_id i) ls" for rk ls
    using remove_linker_cases [of i rk ls] assms by (auto simp: clear_id_def)
  then have "map (clear_id i) (lookup_linkers (unlink_job i j m) ti) = map (clear_id i) (lookup_linkers m ti)"
    by (simp add: unlink_job_def lookup_linkers_def)
  with Cons.IH show ?case by simp
qed simp

lemma unlink_jobs_count:
  assumes "i \<noteq> 0"
  shows "count_list (lookup_linkers (fold (unlink_job i) js m) ti) (i, rk) =
    count_list (lookup_linkers m ti) (i, rk) - count_list js (rk, ti)"
proof (induction js arbitrary: m)
  case (Cons j js)
  have "count_list (fst (remove_linker i rk' ls)) (i, rk) = count_list ls (i, rk) - (if rk' = rk then 1 else 0)"
    for rk' ls using remove_linker_cases [of i rk' ls] assms by (auto simp: count_list_0_iff)
  then have "count_list (lookup_linkers (unlink_job i j m) ti) (i, rk) =
      count_list (lookup_linkers m ti) (i, rk) - (if j = (rk, ti) then 1 else 0)"
    by (cases j) (auto simp: unlink_job_def lookup_linkers_def)
  then show ?case by (simp add: Cons.IH)
qed simp

section \<open>The simulation\<close>

lemma distinct_concat_keyed:
  assumes "distinct (map fst es)" "\<And>e. e \<in> set es \<Longrightarrow> distinct (f e)"
    and "\<And>e e'. e \<in> set es \<Longrightarrow> e' \<in> set es \<Longrightarrow> fst e \<noteq> fst e' \<Longrightarrow> set (f e) \<inter> set (f e') = {}"
  shows "distinct (concat (map f es))"
  using assms
proof (induction es)
  case (Cons e es)
  have "set (f e) \<inter> set (f e') = {}" if "e' \<in> set es" for e'
    using Cons.prems(1) that by (intro Cons.prems(3)) auto
  then show ?case using Cons by auto
qed simp

lemma iter_links_mem:
  assumes "hm_inv (db_link_targets (rs_db s))"
  shows "((j, c, r), ts) \<in> set (iter_links_for_did_id enc s i) \<longleftrightarrow>
    j = i \<and> hm_get (db_link_targets (rs_db s)) (j, c, r) = Some ts"
  using hm_get_iff_mem [OF assms] by (auto simp: iter_links_for_did_id_def)

lemma iter_links_distinct:
  assumes "hm_inv (db_link_targets (rs_db s))"
  shows "distinct (map fst (iter_links_for_did_id enc s i))"
proof -
  have "distinct (map fst (filter P (db_link_targets (rs_db s))))" for P
    using assms by (simp add: hm_inv_def distinct_map_filter)
  then have "distinct (map fst (sort_key g (filter P (db_link_targets (rs_db s)))))" for P and g :: "_ \<Rightarrow> u8 list"
    by (simp add: distinct_map)
  then show ?thesis by (simp add: iter_links_for_did_id_def)
qed

text \<open>The links of the account have pairwise different target keys.\<close>

definition single_targets :: "MemStorageData \<Rightarrow> Did \<Rightarrow> bool" where
  "single_targets d did \<longleftrightarrow>
     (\<forall>c r. distinct (links_of d did (c, r))) \<and>
     (\<forall>c r r' x. x \<in> set (links_of d did (c, r)) \<longrightarrow> x \<in> set (links_of d did (c, r')) \<longrightarrow> r' = r)"

lemma forward_link_back:
  assumes "store_rel d s" "did_id_val s did = Some (i, a)" "(p, ti) \<in> set (forward_links s (i, c, r))"
  shows "\<exists>t. (p, t) \<in> set (links_of d did (c, r)) \<and> target_id_val s (t, c, p) = Some ti"
proof -
  from store_rel_with_dest(5) [OF assms(1,2)] assms(3) obtain y where
    "y \<in> set (links_of d did (c, r))" "link_rel s c (p, ti) y"
    by (metis in_set_conv_nth list_all2_conv_all_nth)
  then show ?thesis by (cases y rule: prod.exhaust) (auto simp: link_rel_def)
qed

lemma forward_link_there:
  assumes "store_rel d s" "did_id_val s did = Some (i, a)" "(p, t) \<in> set (links_of d did (c, r))"
  shows "\<exists>ti. (p, ti) \<in> set (forward_links s (i, c, r)) \<and> target_id_val s (t, c, p) = Some ti"
proof -
  from store_rel_with_dest(5) [OF assms(1,2)] assms(3) obtain x where
    "x \<in> set (forward_links s (i, c, r))" "link_rel s c x (p, t)"
    by (metis in_set_conv_nth list_all2_conv_all_nth)
  then show ?thesis by (cases x rule: prod.exhaust) (auto simp: link_rel_def)
qed

lemma entry_targets_distinct:
  assumes rel: "store_rel d s" and did: "did_id_val s did = Some (i, a)" and single: "single_targets d did"
  shows "distinct (entry_targets (iter_links_for_did_id enc s i))"
proof -
  note wf = store_rel_with_dest(1) [OF rel]
  note inv = rocks_wf_bounds(4) [OF wf]
  let ?es = "iter_links_for_did_id enc s i"
  have entry: "\<exists>c r. e = ((i, c, r), forward_links s (i, c, r))" if "e \<in> set ?es" for e
  proof -
    obtain j c r ts where e: "e = ((j, c, r), ts)" by (metis prod.exhaust)
    with that iter_links_mem [OF inv, of j c r ts enc i] show ?thesis by (auto simp: forward_links_def)
  qed
  have "distinct (map snd (snd e))" if "e \<in> set ?es" for e
    using entry [OF that] link_rel_targets_distinct [OF wf store_rel_with_dest(5) [OF rel did]] single
    by (auto simp: single_targets_def)
  moreover have "set (map snd (snd e)) \<inter> set (map snd (snd e')) = {}"
    if e: "e \<in> set ?es" and e': "e' \<in> set ?es" and ne: "fst e \<noteq> fst e'" for e e'
  proof -
    from entry [OF e] obtain c r where ce: "e = ((i, c, r), forward_links s (i, c, r))" by blast
    from entry [OF e'] obtain c' r' where ce': "e' = ((i, c', r'), forward_links s (i, c', r'))" by blast
    have False if "(p, ti) \<in> set (snd e)" "(p', ti) \<in> set (snd e')" for p p' ti
    proof -
      from forward_link_back [OF rel did] that(1) ce obtain t where
        t: "(p, t) \<in> set (links_of d did (c, r))" "target_id_val s (t, c, p) = Some ti" by fastforce
      from forward_link_back [OF rel did] that(2) ce' obtain t' where
        t': "(p', t') \<in> set (links_of d did (c', r'))" "target_id_val s (t', c', p') = Some ti" by fastforce
      from rocks_wf_dest(7) [OF wf t(2) t'(2)] have "t' = t" "c' = c" "p' = p" by auto
      with t(1) t'(1) single have "r' = r" unfolding single_targets_def by blast
      with ne ce ce' \<open>c' = c\<close> show False by simp
    qed
    then show ?thesis by fastforce
  qed
  ultimately show ?thesis unfolding entry_targets_def
    by (intro distinct_concat_keyed) (auto simp: iter_links_distinct [OF inv])
qed

lemma delete_reads:
  assumes "f = apply_op (DeleteDidId did) \<circ> fold (delete_entry i) (iter_links_for_did_id enc s i)"
    and "rocks_wf s"
  shows "did_id_val (with_db f s) = (did_id_val s)(did := None)"
    "target_id_val (with_db f s) = target_id_val s"
    "forward_links (with_db f s) (j, c, r) = (if j = i then [] else forward_links s (j, c, r))"
    "get_target_linkers (with_db f s) ti =
      lookup_linkers (fold (unlink_job i) (entry_jobs (iter_links_for_did_id enc s i)) (db_target_linkers (rs_db s))) ti"
proof -
  let ?es = "iter_links_for_did_id enc s i"
  note inv = rocks_wf_bounds(4) [OF assms(2)]
  show "did_id_val (with_db f s) = (did_id_val s)(did := None)" "target_id_val (with_db f s) = target_id_val s"
    by (auto simp: assms did_id_val_def target_id_val_def with_db_def delete_entries_frame fun_eq_iff)
  show "get_target_linkers (with_db f s) ti =
      lookup_linkers (fold (unlink_job i) (entry_jobs ?es) (db_target_linkers (rs_db s))) ti"
    by (simp add: assms get_target_linkers_def with_db_def delete_entries_linkers lookup_linkers_def)
  have "(j, c, r) \<in> fst ` set ?es \<longleftrightarrow> j = i \<and> hm_get (db_link_targets (rs_db s)) (j, c, r) \<noteq> None"
  proof -
    have "(j, c, r) \<in> fst ` set ?es \<longleftrightarrow> (\<exists>ts. ((j, c, r), ts) \<in> set ?es)" by force
    then show ?thesis using iter_links_mem [OF inv, of j c r _ enc i] by simp
  qed
  then have "hm_get (db_link_targets (f (rs_db s))) (j, c, r) =
      (if j = i then None else hm_get (db_link_targets (rs_db s)) (j, c, r))"
    by (auto simp: assms delete_entries_frame hm_removes)
  then show "forward_links (with_db f s) (j, c, r) = (if j = i then [] else forward_links s (j, c, r))"
    by (simp add: forward_links_def with_db_def)
qed

text \<open>No slot of the account survives.\<close>

lemma delete_linkers:
  assumes inv: "mem_inv d" and rel: "store_rel d s" and did: "did_id_val s did = Some (i, a)"
    and single: "single_targets d did" and k: "target_id_val s (t, c, p) = Some ti"
  shows "lookup_linkers (fold (unlink_job i) (entry_jobs (iter_links_for_did_id enc s i))
      (db_target_linkers (rs_db s))) ti = map (clear_id i) (get_target_linkers s ti)" (is "?ls' = _")
proof -
  note wf = store_rel_with_dest(1) [OF rel]
  have i0: "i \<noteq> 0" by (rule rocks_wf_dest(3) [OF wf did])
  let ?js = "entry_jobs (iter_links_for_did_id enc s i)"
  have ls: "lookup_linkers (db_target_linkers (rs_db s)) ti = get_target_linkers s ti"
    by (simp add: lookup_linkers_def get_target_linkers_def)
  have slots: "list_all2 (slot_rel s) (get_target_linkers s ti) (linkers_of d t (c, p))"
    using store_rel_with_dest(4) [OF rel, of t c p] k by (simp add: key_linkers_def)
  have count: "count_list (get_target_linkers s ti) (i, rk) = count_list (links_of d did (c, rk)) (p, t)" for rk
  proof -
    have "count_list xs (i, rk) = count_list ys (Some (did, rk))" if "list_all2 (slot_rel s) xs ys" for xs ys
      using that by (induction rule: list_all2_induct) (simp_all add: slot_rel_linker [OF wf did])
    then show ?thesis using slots mem_inv_cnt [OF inv, of did "(c, rk)" p t] by (simp add: cnt_def)
  qed
  have "count_list ?ls' (i, rk) = 0" for rk
  proof (cases "(p, t) \<in> set (links_of d did (c, rk))")
    case True
    from forward_link_there [OF rel did True] k have fw: "(p, ti) \<in> set (forward_links s (i, c, rk))" by auto
    then have "hm_get (db_link_targets (rs_db s)) (i, c, rk) = Some (forward_links s (i, c, rk))"
      by (cases "hm_get (db_link_targets (rs_db s)) (i, c, rk)") (simp_all add: forward_links_def)
    then have "((i, c, rk), forward_links s (i, c, rk)) \<in> set (iter_links_for_did_id enc s i)"
      by (simp add: iter_links_mem [OF rocks_wf_bounds(4) [OF wf]])
    with fw have "(rk, ti) \<in> set ?js" by (force simp: entry_jobs_def)
    then have "1 \<le> count_list ?js (rk, ti)" by (metis Suc_leI One_nat_def count_list_0_iff neq0_conv)
    moreover have "count_list (links_of d did (c, rk)) (p, t) \<le> 1"
      using single by (simp add: single_targets_def distinct_count_le)
    ultimately show ?thesis unfolding unlink_jobs_count [OF i0] ls count by simp
  next
    case False
    then show ?thesis unfolding unlink_jobs_count [OF i0] ls count by (simp add: count_list_0_iff)
  qed
  then have none: "(i, rk) \<notin> set ?ls'" for rk by (simp add: count_list_0_iff)
  have "fst x \<noteq> i" if "x \<in> set ?ls'" for x
    using that none [of "snd x"] by (metis prod.collapse)
  then have "map (clear_id i) ?ls' = map id ?ls'" by (intro map_cong) (auto simp: clear_id_def)
  then show ?thesis using unlink_jobs_clear [OF i0] by (simp add: ls)
qed

lemma rocks_delete_eager:
  assumes did: "did_id_val s did = Some (i, a)" and dist: "distinct (entry_targets (iter_links_for_did_id enc s i))"
  shows "rocks_push enc (DeleteAccount did) cursor s =
    Inr (with_db (apply_op (DeleteDidId did) \<circ> fold (delete_entry i) (iter_links_for_did_id enc s i)) s)"
proof -
  let ?es = "iter_links_for_did_id enc s i"
  let ?loop = "fold (\<lambda>chunk (total_batched_ops, s).
      let mini_batch = delete_chunk i s chunk
      in (total_batched_ops + length mini_batch, s\<lparr>rs_db := db_write mini_batch (rs_db s)\<rparr>)) (chunks 1024 ?es) (0, s)"
  have "snd ?loop = with_db (fold (delete_entry i) ?es) s"
    using delete_chunks_eager [of "chunks 1024 ?es" i 0 s] dist by (simp add: chunks_concat)
  moreover obtain n s' where loop: "?loop = (n, s')" by (rule prod.exhaust)
  ultimately have "s' = with_db (fold (delete_entry i) ?es) s" by simp
  moreover have "rocks_push enc (DeleteAccount did) cursor s = Inr (s'\<lparr>rs_db := db_write [DeleteDidId did] (rs_db s')\<rparr>)"
    unfolding rocks_push.simps rocks_delete_account_def did Let_def option.case prod.case loop [unfolded Let_def]
    by simp
  ultimately show ?thesis by (simp add: with_db_def)
qed

lemma delete_account_sim:
  assumes inv: "mem_inv d" and rel: "store_rel d s" and single: "single_targets d did"
    and mem: "mem_delete_account did d = Inr d'"
  shows "\<exists>s'. rocks_push enc (DeleteAccount did) cursor s = Inr s' \<and> store_rel d' s' \<and>
    rs_did_id_table s' = rs_did_id_table s \<and> rs_target_id_table s' = rs_target_id_table s"
proof -
  have d': "hm_get (md_dids d') = (hm_get (md_dids d))(did := None)"
    and links: "links_of d' did' repo = (if did' = did then [] else links_of d did' repo)" for did' repo
    using mem_delete_account_ok [OF inv, of did] unfolding mem by (auto simp del: split_paired_All)
  note lks = mem_delete_linkers [OF inv mem]
  note wf = store_rel_with_dest(1) [OF rel]
  show ?thesis
  proof (cases "did_id_val s did")
    case None
    then have unknown: "hm_get (md_dids d) did = None" using store_rel_with_dest(2) [OF rel] by simp
    then have nolinks: "links_of d did repo = []" for repo using mem_inv_known [OF inv] by blast
    have "Some (did, rk) \<notin> set (linkers_of d t (c, p))" for rk t c p
      using mem_inv_cnt [OF inv, of did "(c, rk)" p t] nolinks by (simp add: cnt_def count_list_0_iff)
    then have "map (clear_did did) (linkers_of d t (c, p)) = map id (linkers_of d t (c, p))" for t c p
      by (intro map_cong) (auto simp: clear_did_def split: option.split)
    then have "linkers_of d' t (c, p) = linkers_of d t (c, p)" for t c p by (simp add: lks)
    moreover have "links_of d' = links_of d" using nolinks by (auto simp: links fun_eq_iff)
    moreover have "hm_get (md_dids d') = hm_get (md_dids d)" using unknown d' by (simp add: fun_upd_idem)
    ultimately have "store_rel d' s" using rel lks unfolding store_rel_with_def by simp
    then show ?thesis using None by (simp add: rocks_delete_account_def with_db_def)
  next
    case (Some v)
    then obtain i a where did: "did_id_val s did = Some (i, a)" by (cases v) auto
    define f where "f = apply_op (DeleteDidId did) \<circ> fold (delete_entry i) (iter_links_for_did_id enc s i)"
    note reads = delete_reads [OF f_def wf]
    have push: "rocks_push enc (DeleteAccount did) cursor s = Inr (with_db f s)"
      unfolding f_def by (rule rocks_delete_eager [OF did entry_targets_distinct [OF rel did single]])
    have i0: "i \<noteq> 0" by (rule rocks_wf_dest(3) [OF wf did])
    have kl: "key_linkers (with_db f s) (t, c, p) = map (clear_id i) (key_linkers s (t, c, p))" for t c p
      using delete_linkers [OF inv rel did single, of t c p]
      by (auto simp: key_linkers_def reads split: option.split)
    have lr: "link_rel (with_db f s) = link_rel s" by (rule link_rel_cong [OF reads(2)])
    have slot: "slot_rel (with_db f s) (clear_id i x) (clear_did did y)" if "slot_rel s x y" for x y
    proof (cases "fst x = 0")
      case True
      with that i0 show ?thesis by (auto simp: slot_rel_def clear_id_def clear_did_def)
    next
      case False
      with that obtain did' b where y: "y = Some (did', snd x)" "did_id_val s did' = Some (fst x, b)"
        by (auto simp: slot_rel_def)
      have "fst x = i \<longleftrightarrow> did' = did" using y(2) did did_id_unique [OF wf did, of did' b] by auto
      with y False show ?thesis by (auto simp: slot_rel_def clear_id_def clear_did_def reads)
    qed
    have "list_all2 (slot_rel (with_db f s)) (key_linkers (with_db f s) (t, c, p)) (linkers_of d' t (c, p))" for t c p
      unfolding kl lks(1) using store_rel_with_dest(4) [OF rel, of t c p]
      by (auto simp: list_all2_map1 list_all2_map2 intro: list_all2_mono slot)
    moreover have "hm_get (md_dids d') did' = map_option snd (did_id_val (with_db f s) did')" for did'
      using store_rel_with_dest(2) [OF rel] by (simp add: d' reads)
    moreover have "list_all2 (link_rel s c) (forward_links (with_db f s) (j, c, r)) (links_of d' did' (c, r))"
      if "did_id_val (with_db f s) did' = Some (j, b)" for did' j b c r
    proof -
      from that have v: "did_id_val s did' = Some (j, b)" and "did' \<noteq> did" by (auto simp: reads split: if_splits)
      moreover have "j \<noteq> i" using did_id_unique [OF wf did, of did' b] v \<open>did' \<noteq> did\<close> by auto
      ultimately show ?thesis using store_rel_with_dest(5) [OF rel v] by (simp add: links reads)
    qed
    moreover have "rocks_wf (with_db f s)"
    proof (rule rocks_wf_shrink [OF wf])
      show "get_target_linkers s ti \<noteq> []" if "get_target_linkers (with_db f s) ti \<noteq> []" for ti
      proof -
        have "length (get_target_linkers (with_db f s) ti) = length (lookup_linkers (db_target_linkers (rs_db s)) ti)"
          unfolding reads using unlink_jobs_clear [OF i0] by (metis length_map)
        with that show ?thesis by (auto simp: lookup_linkers_def get_target_linkers_def)
      qed
      show "hm_inv (db_link_targets (f (rs_db s)))"
        using rocks_wf_bounds(4) [OF wf] by (simp add: f_def delete_entries_frame hm_removes)
    qed (auto simp: reads split: if_splits, auto simp: f_def delete_entries_frame)
    moreover have "mem_linkers d' t c p = None \<longleftrightarrow> target_id_val s (t, c, p) = None" for t c p
      using store_rel_with_dest(3) [OF rel] lks(2) by simp
    ultimately have "store_rel d' (with_db f s)"
      unfolding store_rel_with_def lr reads(2) by blast
    then show ?thesis using push by (simp add: with_db_def)
  qed
qed

end
