(* ===== verification/Mem_Props.thy ===== *)
theory Mem_Props
  imports Mem_Store
begin

text \<open>
  What \<open>MemStorage\<close> guarantees to its readers: it implements the abstract index without ever
  panicking, its counts are the counts of the abstract index, its pages partition the live links
  and its cursors stay valid while the store changes.
\<close>

text \<open>The records of a window of a linker list that a page shows: newest first, active accounts only.\<close>

definition live_items :: "MemStorageData \<Rightarrow> string \<Rightarrow> Linkers \<Rightarrow> RecordId list" where
  "live_items d collection ls =
     map (\<lambda>(did, rkey). \<lparr>rid_did = did, rid_collection = collection, rid_rkey = rkey\<rparr>)
       (filter (\<lambda>(did, _). hm_get (md_dids d) did = Some True) (flatten_opts (rev ls)))"

text \<open>A client that follows the cursors; the fuel is the number of requests it may make.\<close>

fun follow_links ::
  "nat \<Rightarrow> MemStorageData \<Rightarrow> string \<Rightarrow> string \<Rightarrow> string \<Rightarrow> u64 \<Rightarrow> u64 option \<Rightarrow> RecordId list option"
where
  "follow_links 0 d target collection path limit until = None"
| "follow_links (Suc fuel) d target collection path limit until =
     (case mem_get_links d target collection path limit until of
        Inl _ \<Rightarrow> None
      | Inr page \<Rightarrow>
          (case pac_next page of
             None \<Rightarrow> Some (pac_items page)
           | Some c \<Rightarrow> map_option (\<lambda>rest. pac_items page @ rest)
                 (follow_links fuel d target collection path limit (Some c))))"

section \<open>Updates\<close>

text \<open>
  C4. \<open>MemStorage\<close> implements the abstract index: from the empty store, no sequence of events
  makes any \<open>expect\<close> fail, the reverse and forward indexes stay consistent, and the links and
  accounts held at the end are those the abstract index prescribes.
\<close>

theorem mem_refines_index:
  "\<exists>d. mem_run events mem_new = Inr d \<and> mem_inv d \<and>
     mem_abs d = fold (spec_push \<circ> fst) events \<lparr>ls_links = \<lambda>_ _. [], ls_active = Map.empty\<rparr>"
proof -
  have "mem_abs mem_new = \<lparr>ls_links = \<lambda>_ _. [], ls_active = Map.empty\<rparr>"
    by (auto simp: mem_abs_def mem_new_def links_of_def fun_eq_iff)
  with mem_run_ok [OF mem_inv_new, of events] show ?thesis by auto
qed

section \<open>Counts\<close>

lemma linker_iff_link:
  assumes "mem_inv d"
  shows "(did, rkey) \<in> set (flatten_opts (linkers_of d t (c, p))) \<longleftrightarrow> (p, t) \<in> set (links_of d did (c, rkey))"
proof -
  have "count_list (flatten_opts (linkers_of d t (c, p))) (did, rkey) = count_list (links_of d did (c, rkey)) (p, t)"
    using mem_inv_cnt [OF assms, of did "(c, rkey)" p t] by (simp add: cnt_def count_flatten_opts)
  then show ?thesis by (metis count_list_0_iff)
qed

lemma count_linkers:
  "mem_inv d \<Longrightarrow> count_list (flatten_opts (linkers_of d t (c, p))) w =
     count_list (links_of d (fst w) (c, snd w)) (p, t)"
  using mem_inv_cnt [of d "fst w" "(c, snd w)" p t] by (cases w) (simp add: cnt_def count_flatten_opts)

lemma mem_get_count_linkers:
  "mem_get_count d t c p = of_nat (length (flatten_opts (linkers_of d t (c, p))))"
  by (simp add: mem_get_count_def linkers_of_def split: option.split)

text \<open>
  \<open>get_count\<close> is the number of links to the target from records of the collection at the
  path: the sum, over the records that have such a link, of how often they have it.
\<close>

theorem mem_get_count_sum:
  assumes inv: "mem_inv d"
  shows "mem_get_count d t c p =
    of_nat (\<Sum>w \<in> {w. (p, t) \<in> set (links_of d (fst w) (c, snd w))}.
              count_list (links_of d (fst w) (c, snd w)) (p, t))"
proof -
  let ?xs = "flatten_opts (linkers_of d t (c, p))"
  have "set ?xs = {w. (p, t) \<in> set (links_of d (fst w) (c, snd w))}"
    using linker_iff_link [OF inv] by auto
  moreover have "length ?xs = sum (count_list ?xs) (set ?xs)"
    by (simp add: sum_count_set)
  ultimately show ?thesis by (simp add: mem_get_count_linkers count_linkers [OF inv])
qed

lemma ex_mem_store:
  "\<exists>d. mem_run [(CreateLinks \<lparr>rid_did = Did ''did:a'', rid_collection = ''c'', rid_rkey = ''1''\<rparr>
          [\<lparr>cl_path = ''.p'', cl_target = Uri ''e.com''\<rparr>], 7)] mem_new = Inr d \<and> mem_inv d \<and>
     links_of d (Did ''did:a'') (''c'', ''1'') = [(''.p'', ''e.com'')] \<and>
     linkers_of d ''e.com'' (''c'', ''.p'') = [Some (Did ''did:a'', ''1'')]"
proof -
  let ?r = "\<lparr>rid_did = Did ''did:a'', rid_collection = ''c'', rid_rkey = ''1''\<rparr>"
  let ?l = "\<lparr>cl_path = ''.p'', cl_target = Uri ''e.com''\<rparr>"
  have inv: "mem_inv (mem_add_links ?r [?l] mem_new)" by (rule mem_inv_add_links [OF mem_inv_new])
  have "links_of mem_new did repo = []" "linkers_of mem_new t s = []" for did repo t s
    by (simp_all add: links_of_def linkers_of_def mem_linkers_def mem_new_def)
  then have "links_of (mem_add_links ?r [?l] mem_new) (Did ''did:a'') (''c'', ''1'') = [(''.p'', ''e.com'')]"
    "linkers_of (mem_add_links ?r [?l] mem_new) ''e.com'' (''c'', ''.p'') = [Some (Did ''did:a'', ''1'')]"
    by (simp_all add: mem_add_links_def links_of_add linkers_of_add link_pair_def repo_id_from_record_id_def)
  with inv show ?thesis by simp
qed

theorem mem_get_count_sum_witness:
  "\<exists>d. mem_inv d \<and> mem_get_count d ''e.com'' ''c'' ''.p'' = 1 \<and>
     mem_get_count d ''e.com'' ''c'' ''.p'' =
       of_nat (\<Sum>w \<in> {w. (''.p'', ''e.com'') \<in> set (links_of d (fst w) (''c'', snd w))}.
                 count_list (links_of d (fst w) (''c'', snd w)) (''.p'', ''e.com''))"
proof -
  from ex_mem_store obtain d where d: "mem_inv d"
    "linkers_of d ''e.com'' (''c'', ''.p'') = [Some (Did ''did:a'', ''1'')]" by blast
  then have "mem_get_count d ''e.com'' ''c'' ''.p'' = 1" by (simp add: mem_get_count_linkers)
  with d mem_get_count_sum [OF d(1), of "''e.com''" "''c''" "''.p''"] show ?thesis by blast
qed

text \<open>
  \<open>get_distinct_did_count\<close> is the number of accounts that have at least one such link.
\<close>

theorem mem_distinct_did_count_card:
  assumes inv: "mem_inv d"
  shows "mem_get_distinct_did_count d t c p =
    of_nat (card {did. \<exists>rkey. (p, t) \<in> set (links_of d did (c, rkey))})"
proof -
  have "fst ` set (flatten_opts (linkers_of d t (c, p))) = {did. \<exists>rkey. (p, t) \<in> set (links_of d did (c, rkey))}"
    using linker_iff_link [OF inv] by (force simp: image_iff)
  moreover have "mem_get_distinct_did_count d t c p =
      of_nat (card (fst ` set (flatten_opts (linkers_of d t (c, p)))))"
    by (simp add: mem_get_distinct_did_count_def linkers_of_def split: option.split)
  ultimately show ?thesis by simp
qed

theorem mem_distinct_did_count_card_witness:
  "\<exists>d. mem_inv d \<and> mem_get_distinct_did_count d ''e.com'' ''c'' ''.p'' =
     of_nat (card {did. \<exists>rkey. (''.p'', ''e.com'') \<in> set (links_of d did (''c'', rkey))}) \<and>
     (''.p'', ''e.com'') \<in> set (links_of d (Did ''did:a'') (''c'', ''1''))"
proof -
  from ex_mem_store obtain d where d: "mem_inv d"
    "links_of d (Did ''did:a'') (''c'', ''1'') = [(''.p'', ''e.com'')]" by blast
  from mem_distinct_did_count_card [OF d(1)] d show ?thesis by (intro exI [of _ d]) simp
qed

section \<open>Pages\<close>

lemma live_items_append: "live_items d c (xs @ ys) = live_items d c ys @ live_items d c xs"
  by (simp add: live_items_def)

lemma slice_split: "b \<le> e \<Longrightarrow> take e xs = take b xs @ slice b e xs"
  using append_take_drop_id [of b "take e xs"] by (simp add: slice_def min_absorb1)

lemma mem_get_links_eq:
  assumes inv: "mem_inv d" and ls: "ls = linkers_of d t (c, p)" and be: "page_bounds (length ls) limit until = (b, e)"
  shows "mem_get_links d t c p limit until =
    Inr \<lparr>pac_version = (of_nat (length ls), of_nat (length ls - length (flatten_opts ls))),
         pac_items = live_items d c (slice b e ls),
         pac_next = next_cursor b,
         pac_total = of_nat (length (flatten_opts ls))\<rparr>"
proof -
  have known: "hm_get (md_dids d) did \<noteq> None" if "(did, rk) \<in> set (flatten_opts (rev (slice b e ls)))" for did rk
  proof -
    from that have "(did, rk) \<in> set (flatten_opts (linkers_of d t (c, p)))"
      by (auto simp: set_flatten_opts slice_def ls dest!: in_set_dropD in_set_takeD)
    then have "links_of d did (c, rk) \<noteq> []" using linker_iff_link [OF inv] by fastforce
    then show ?thesis by (rule mem_inv_known [OF inv])
  qed
  have "filter_res (\<lambda>(did, _). mem_is_active d did) (flatten_opts (rev (slice b e ls))) =
      Inr (filter (\<lambda>(did, _). hm_get (md_dids d) did = Some True) (flatten_opts (rev (slice b e ls))))"
    by (rule filter_res_total) (auto simp: mem_is_active_def split: option.split dest: known)
  then show ?thesis using be
    by (cases "mem_linkers d t c p")
      (auto simp: mem_get_links_def ls linkers_of_def empty_page_def live_items_def next_cursor_def
        page_bounds_def slice_def Let_def split: option.splits)
qed

lemma set_dedup_dids: "Some did \<in> set (dedup_dids seen ls) \<Longrightarrow> \<exists>rk. Some (did, rk) \<in> set ls"
  by (induction seen ls rule: dedup_dids.induct) (auto split: if_splits)

lemma mem_distinct_page:
  assumes inv: "mem_inv d" and be: "page_bounds (length (dedup_dids [] (linkers_of d t (c, p)))) limit until = (b, e)"
  shows "\<exists>v n. mem_get_distinct_dids d t c p limit until =
    Inr \<lparr>pac_version = v,
         pac_items = filter (\<lambda>did. hm_get (md_dids d) did = Some True)
           (flatten_opts (rev (slice b e (dedup_dids [] (linkers_of d t (c, p)))))),
         pac_next = next_cursor b, pac_total = n\<rparr>"
proof -
  define ds where "ds = dedup_dids [] (linkers_of d t (c, p))"
  have known: "hm_get (md_dids d) did \<noteq> None" if "did \<in> set (flatten_opts (rev (slice b e ds)))" for did
  proof -
    from that have "Some did \<in> set ds"
      by (auto simp: set_flatten_opts slice_def dest!: in_set_dropD in_set_takeD)
    then obtain rk where "Some (did, rk) \<in> set (linkers_of d t (c, p))" using set_dedup_dids unfolding ds_def by blast
    then have "(p, t) \<in> set (links_of d did (c, rk))"
      using linker_iff_link [OF inv] by (simp add: set_flatten_opts)
    then show ?thesis using mem_inv_known [OF inv] by (metis list.set(1) empty_iff)
  qed
  have "filter_res (mem_is_active d) (flatten_opts (rev (slice b e ds))) =
      Inr (filter (\<lambda>did. hm_get (md_dids d) did = Some True) (flatten_opts (rev (slice b e ds))))"
    by (rule filter_res_total) (auto simp: mem_is_active_def split: option.split dest: known)
  then show ?thesis using be
    by (cases "mem_linkers d t c p")
      (auto simp: mem_get_distinct_dids_def ds_def linkers_of_def empty_page_def next_cursor_def
        page_bounds_def slice_def Let_def split: option.splits)
qed

lemma follow_links_from:
  assumes inv: "mem_inv d" and ls: "ls = linkers_of d t (c, p)" and lim: "0 < limit"
    and len: "length ls < 2 ^ 64"
  shows "e \<le> length ls \<Longrightarrow> e < fuel \<Longrightarrow>
    follow_links fuel d t c p limit (Some (of_nat e)) = Some (live_items d c (take e ls))"
proof (induction fuel arbitrary: e)
  case (Suc fuel)
  have "unat (of_nat e :: u64) = e" using Suc.prems len by (simp add: unat_of_nat_u64)
  then have be: "page_bounds (length ls) limit (Some (of_nat e)) = (e - unat limit, e)"
    using Suc.prems by (simp add: page_bounds_def)
  define b where "b = e - unat limit"
  have items: "live_items d c (take e ls) = live_items d c (slice b e ls) @ live_items d c (take b ls)"
    using slice_split [of b e ls] by (simp add: b_def live_items_append)
  show ?case
  proof (cases "b = 0")
    case True
    then show ?thesis using items mem_get_links_eq [OF inv ls be]
      by (simp add: b_def next_cursor_def live_items_def)
  next
    case False
    have "unat limit > 0" using lim by (simp add: unat_gt_0 word_neq_0_conv)
    then have "b < e" using False by (simp add: b_def)
    then have "follow_links fuel d t c p limit (Some (of_nat b)) = Some (live_items d c (take b ls))"
      using Suc by simp
    then show ?thesis using False items mem_get_links_eq [OF inv ls be]
      by (simp add: b_def next_cursor_def)
  qed
qed simp

text \<open>
  Pagination is complete: a client that follows the cursors with any positive limit receives
  every live link of active accounts exactly once, newest first, within one request per link and
  one more.
\<close>

theorem mem_pagination_complete:
  assumes inv: "mem_inv d" and lim: "0 < limit"
    and len: "length (linkers_of d t (c, p)) < 2 ^ 64"
  shows "follow_links (Suc (length (linkers_of d t (c, p)))) d t c p limit None =
    Some (live_items d c (linkers_of d t (c, p)))"
proof -
  define ls where "ls = linkers_of d t (c, p)"
  have "page_bounds (length ls) limit None = page_bounds (length ls) limit (Some (of_nat (length ls)))"
    using len by (simp add: page_bounds_def ls_def unat_of_nat_u64)
  then have "mem_get_links d t c p limit None = mem_get_links d t c p limit (Some (of_nat (length ls)))"
    using mem_get_links_eq [OF inv ls_def] by (metis prod.exhaust)
  then have "follow_links (Suc (length ls)) d t c p limit None =
      follow_links (Suc (length ls)) d t c p limit (Some (of_nat (length ls)))" by simp
  then show ?thesis
    using follow_links_from [OF inv ls_def lim, of "length ls" "Suc (length ls)"] len
    by (simp add: ls_def)
qed

theorem mem_pagination_complete_witness:
  "\<exists>d. mem_inv d \<and> length (linkers_of d ''e.com'' (''c'', ''.p'')) < 2 ^ 64 \<and> (0::u64) < 1 \<and>
     follow_links 2 d ''e.com'' ''c'' ''.p'' 1 None =
       Some (live_items d ''c'' (linkers_of d ''e.com'' (''c'', ''.p'')))"
proof -
  from ex_mem_store obtain d where d: "mem_inv d"
    "linkers_of d ''e.com'' (''c'', ''.p'') = [Some (Did ''did:a'', ''1'')]" by blast
  then have "follow_links (Suc 1) d ''e.com'' ''c'' ''.p'' 1 None =
       Some (live_items d ''c'' (linkers_of d ''e.com'' (''c'', ''.p'')))"
    using mem_pagination_complete [OF d(1), of 1 "''e.com''" "''c''" "''.p''"] by simp
  then have "follow_links 2 d ''e.com'' ''c'' ''.p'' 1 None =
       Some (live_items d ''c'' (linkers_of d ''e.com'' (''c'', ''.p'')))"
    by (simp only: Suc_1)
  with d show ?thesis by (intro exI [of _ d]) simp
qed

section \<open>Cursor stability\<close>

lemma mem_push_slots:
  assumes "mem_push ev cursor d = Inr d'"
  shows "slots_extend (linkers_of d t s) (linkers_of d' t s)"
proof -
  have add: "slots_extend (linkers_of d t s) (linkers_of (mem_add_links r ls d) t s)" for r ls d
    unfolding mem_add_links_def
  proof (induction ls arbitrary: d)
    case (Cons l ls)
    have "slots_extend (linkers_of d t s) (linkers_of (mem_add_link r l d) t s)"
      unfolding linkers_of_add by (rule slots_extend_append)
    with Cons.IH show ?case by (simp, blast intro: slots_extend_trans)
  qed (simp add: slots_extend_refl)
  have rem: "slots_extend (linkers_of d t s) (linkers_of d' t s)" if "mem_remove_links r d = Inr d'" for r d d'
  proof -
    from that obtain d1 where "fold_res (take_linker replace_last
        ''must be in dids list if we have a link to it'' (rid_did r))
        (map (Pair (repo_id_from_record_id r)) (links_of d (rid_did r) (repo_id_from_record_id r))) d = Inr d1"
      and "md_targets d' = md_targets d1"
      by (auto simp: mem_remove_links_fold and_then_Inr split: option.splits)
    then show ?thesis using rfind.take_linkers_slots by (metis linkers_of_def mem_linkers_def)
  qed
  have del: "slots_extend (linkers_of d t s) (linkers_of d' t s)" if "mem_delete_account did d = Inr d'" for did
  proof -
    from that obtain js d1 where "fold_res (take_linker replace_first ''lkasjdlfkj'' did) js d = Inr d1"
      and "md_targets d' = md_targets d1"
      by (auto simp: mem_delete_account_fold and_then_Inr)
    then show ?thesis using lfind.take_linkers_slots by (metis linkers_of_def mem_linkers_def)
  qed
  have acc: "linkers_of (mem_set_account did a d) t s = linkers_of d t s" for did a
    by (simp add: mem_set_account_def linkers_of_def mem_linkers_def split: option.split)
  show ?thesis
  proof (cases ev)
    case (UpdateLinks r ls)
    then obtain d1 where "mem_remove_links r d = Inr d1" "d' = mem_add_links r ls d1"
      using assms by (auto simp: mem_update_links_def and_then_Inr)
    with rem add show ?thesis by (blast intro: slots_extend_trans)
  qed (use assms add rem del acc in \<open>auto simp: slots_extend_refl\<close>)
qed

text \<open>
  C35. Cursors stay stable: whatever events arrive, the slot a cursor points at keeps its
  position; a linker list only grows at its end and a deleted link leaves an empty slot behind,
  so a page already cut off by a cursor can lose links but never shows another one in their place.
\<close>

theorem mem_cursor_stable:
  assumes "mem_run events d = Inr d'"
  shows "slots_extend (linkers_of d t s) (linkers_of d' t s)"
  using assms
proof (induction events arbitrary: d)
  case (Cons e es)
  then obtain d1 where "mem_push (fst e) (snd e) d = Inr d1" "mem_run es d1 = Inr d'"
    by (auto simp: and_then_Inr)
  with Cons.IH mem_push_slots show ?case by (blast intro: slots_extend_trans)
qed (simp add: slots_extend_refl)

theorem mem_cursor_stable_witness:
  "\<exists>d. slots_extend (linkers_of mem_new ''e.com'' (''c'', ''.p'')) (linkers_of d ''e.com'' (''c'', ''.p'')) \<and>
     linkers_of d ''e.com'' (''c'', ''.p'') = [Some (Did ''did:a'', ''1'')]"
  using ex_mem_store mem_cursor_stable by blast

end
