(* ===== verification/Rocks_Props.thy ===== *)
theory Rocks_Props
  imports Rocks_Delete Mem_Props
begin

text \<open>
  What \<open>RocksStorage\<close> guarantees.  The contract both stores are held to is the locale
  \<open>link_storage\<close> (the traits \<open>LinkStorage\<close> and \<open>LinkReader\<close> of \<open>storage/mod.rs\<close>): an accepted
  event changes the abstract index as \<open>spec_push\<close> says and the counts read that index.
  \<open>MemStorage\<close> accepts every event; \<open>RocksStorage\<close> accepts the \<open>admissible\<close> ones, and for
  the others the last section shows how the two stores part.
\<close>

section \<open>Which events the disk store accepts\<close>

text \<open>
  A created record is new and its links are distinct; an update has distinct links and, when it
  has none, a known account; a deleted account has no two records with the same link.  An event
  has room when the sequence numbers cannot wrap.
\<close>

fun admissible :: "ActionableEvent \<Rightarrow> link_spec \<Rightarrow> bool" where
  "admissible (CreateLinks r links) sp \<longleftrightarrow> links \<noteq> [] \<and> distinct (map link_pair links) \<and>
     ls_links sp (rid_did r) (repo_id_from_record_id r) = []"
| "admissible (UpdateLinks r links) sp \<longleftrightarrow> distinct (map link_pair links) \<and>
     (links \<noteq> [] \<or> ls_active sp (rid_did r) \<noteq> None)"
| "admissible (DeleteAccount did) sp \<longleftrightarrow>
     (\<forall>c r r' x. x \<in> set (ls_links sp did (c, r)) \<longrightarrow> x \<in> set (ls_links sp did (c, r')) \<longrightarrow> r' = r)"
| "admissible _ sp \<longleftrightarrow> True"

definition spec_distinct :: "link_spec \<Rightarrow> bool" where
  "spec_distinct sp \<longleftrightarrow> (\<forall>did repo. distinct (ls_links sp did repo))"

definition has_room :: "ActionableEvent \<Rightarrow> RocksStorage \<Rightarrow> bool" where
  "has_room ev s \<longleftrightarrow>
     unat (it_priv_id_seq (rs_did_id_table s)) + 1 < 2 ^ 64 \<and>
     unat (it_priv_id_seq (rs_target_id_table s)) + length (event_links ev) < 2 ^ 64"

primrec admissible_run :: "(ActionableEvent \<times> u64) list \<Rightarrow> link_spec \<Rightarrow> bool" where
  "admissible_run [] sp \<longleftrightarrow> True"
| "admissible_run (e # es) sp \<longleftrightarrow> admissible (fst e) sp \<and> admissible_run es (spec_push (fst e) sp)"

definition run_size :: "(ActionableEvent \<times> u64) list \<Rightarrow> nat" where
  "run_size es = sum_list (map (\<lambda>e. 1 + length (event_links (fst e))) es)"

lemma spec_distinct_push:
  "spec_distinct sp \<Longrightarrow> admissible ev sp \<Longrightarrow> spec_distinct (spec_push ev sp)"
  by (cases ev) (auto simp: spec_distinct_def spec_set_links_def)

section \<open>One event\<close>

lemma cursor_sim:
  assumes "store_rel d s"
  shows "store_rel d (with_db (apply_op (PutCursor n)) s)"
proof -
  let ?s = "with_db (apply_op (PutCursor n)) s"
  have reads: "did_id_val ?s = did_id_val s" "target_id_val ?s = target_id_val s"
    "get_target_linkers ?s = get_target_linkers s" "forward_links ?s = forward_links s"
    by (simp_all add: did_id_val_def target_id_val_def get_target_linkers_def forward_links_def with_db_def fun_eq_iff)
  have "rocks_wf ?s"
    by (rule rocks_wf_shrink [OF store_rel_with_dest(1) [OF assms]])
      (use rocks_wf_bounds(4) [OF store_rel_with_dest(1) [OF assms]] in \<open>auto simp: reads\<close>)
  then show ?thesis
    using assms slot_rel_cong [OF reads(1)] link_rel_cong [OF reads(2)] key_linkers_cong [OF reads(2,3)]
    by (simp add: store_rel_with_def reads)
qed

lemma commit_sim: "store_rel d (pending batch s) \<Longrightarrow> store_rel d (rocks_commit cursor batch s)"
  using cursor_sim [where d = d and s = "pending batch s" and n = cursor] by (simp add: rocks_commit_def with_db_def)

lemma remove_links_reads:
  "did_id_val (pending (rocks_remove_links r s []) s) = did_id_val s"
  "target_id_val (pending (rocks_remove_links r s []) s) = target_id_val s"
proof -
  have "db_did_ids (db_write (fold (\<lambda>(_, ti). update_target_linkers s ti f) ts batch) db) = db_did_ids (db_write batch db) \<and>
    db_target_ids (db_write (fold (\<lambda>(_, ti). update_target_linkers s ti f) ts batch) db) = db_target_ids (db_write batch db)"
    for f batch db and ts :: RecordLinkTargets
    by (induction ts arbitrary: batch) (auto simp: update_target_linkers_def split: option.split)
  then show "did_id_val (pending (rocks_remove_links r s []) s) = did_id_val s"
    "target_id_val (pending (rocks_remove_links r s []) s) = target_id_val s"
    by (auto simp: rocks_remove_links_def did_id_val_def target_id_val_def with_db_def fun_eq_iff Let_def
        split: option.split)
qed

lemma set_account_sim:
  assumes rel: "store_rel d s"
  shows "store_rel (mem_set_account did active d) (pending (rocks_set_account did active s []) s)"
proof (cases "did_id_val s did")
  case None
  then have "hm_get (md_dids d) did = None" using store_rel_with_dest(2) [OF rel] by simp
  with None rel show ?thesis by (simp add: mem_set_account_def rocks_set_account_def with_db_def)
next
  case (Some v)
  then obtain i a where did: "did_id_val s did = Some (i, a)" by (cases v) auto
  note wf = store_rel_with_dest(1) [OF rel]
  let ?s = "with_db (apply_op (PutDidId did (i, active))) s"
  let ?d = "mem_set_account did active d"
  have reads: "did_id_val ?s = (did_id_val s)(did \<mapsto> (i, active))" "target_id_val ?s = target_id_val s"
    "get_target_linkers ?s = get_target_linkers s" "forward_links ?s = forward_links s"
    by (auto simp: did_id_val_def target_id_val_def get_target_linkers_def forward_links_def with_db_def fun_eq_iff)
  have "hm_get (md_dids d) did = Some a" using store_rel_with_dest(2) [OF rel] did by simp
  then have d: "?d = d\<lparr>md_dids := hm_insert did active (md_dids d)\<rparr>" by (simp add: mem_set_account_def)
  have mem: "mem_linkers ?d = mem_linkers d" "linkers_of ?d = linkers_of d" "links_of ?d = links_of d"
    unfolding d by (simp_all add: mem_linkers_def linkers_of_def links_of_def fun_eq_iff)
  have "rocks_wf ?s"
    by (rule rocks_wf_shrink [OF wf])
      (use rocks_wf_bounds(4) [OF wf] did in \<open>auto simp: reads split: if_splits\<close>)
  moreover have "slot_rel ?s = slot_rel s"
    using did by (auto simp: slot_rel_def reads fun_eq_iff split: if_splits)
  moreover have "link_rel ?s = link_rel s" by (rule link_rel_cong [OF reads(2)])
  moreover have "key_linkers ?s = key_linkers s" by (rule key_linkers_cong [OF reads(2,3)])
  moreover have "hm_get (md_dids ?d) did' = map_option snd (did_id_val ?s did')" for did'
    using store_rel_with_dest(2) [OF rel] by (simp add: reads d)
  moreover have "list_all2 (link_rel s c) (forward_links s (j, c, r)) (links_of d did' (c, r))"
    if "did_id_val ?s did' = Some (j, b)" for did' j b c r
    using that did store_rel_with_dest(5) [OF rel] by (auto simp: reads split: if_splits)
  ultimately have "store_rel ?d ?s"
    using store_rel_with_dest(3,4) [OF rel] unfolding store_rel_with_def mem reads(2,4) by simp
  then show ?thesis using did by (simp add: rocks_set_account_def with_db_def)
qed

abbreviation seqs_within :: "RocksStorage \<Rightarrow> RocksStorage \<Rightarrow> ActionableEvent \<Rightarrow> bool" where
  "seqs_within s' s ev \<equiv>
     unat (it_priv_id_seq (rs_did_id_table s')) \<le> Suc (unat (it_priv_id_seq (rs_did_id_table s))) \<and>
     unat (it_priv_id_seq (rs_target_id_table s')) \<le>
       unat (it_priv_id_seq (rs_target_id_table s)) + length (event_links ev)"

lemma commit_tables [simp]:
  "rs_did_id_table (rocks_commit cursor batch s) = rs_did_id_table s"
  "rs_target_id_table (rocks_commit cursor batch s) = rs_target_id_table s"
  by (simp_all add: rocks_commit_def)

lemma spec_distinct_links: "spec_distinct (mem_abs d) \<Longrightarrow> distinct (links_of d did repo)"
  by (simp add: spec_distinct_def mem_abs_def del: split_paired_All)

lemma push_sim:
  assumes inv: "mem_inv d" and rel: "store_rel d s" and dist: "spec_distinct (mem_abs d)"
    and adm: "admissible ev (mem_abs d)" and room: "has_room ev s"
    and mem: "mem_push ev cursor d = Inr d'"
  shows "\<exists>s'. rocks_push enc ev cursor s = Inr s' \<and> store_rel d' s' \<and> seqs_within s' s ev"
proof (cases ev)
  case (CreateLinks r links)
  have here: "with_db (db_write []) s = s" by (simp add: with_db_def)
  have "\<exists>s' batch'. rocks_add_links r links s [] = Inr (s', batch') \<and>
      store_rel (mem_add_links r links d) (pending batch' s') \<and> seqs_within s' s ev"
    using add_links_sim [of d "[]" s r links] inv rel adm room CreateLinks
    by (simp add: here has_room_def mem_abs_def)
  with CreateLinks mem show ?thesis by (auto intro: commit_sim)
next
  case (UpdateLinks r links)
  from UpdateLinks mem obtain d1 where d1: "mem_remove_links r d = Inr d1" and d': "d' = mem_add_links r links d1"
    by (auto simp: mem_update_links_def and_then_Inr)
  let ?batch = "rocks_remove_links r s []"
  have rel1: "store_rel d1 (pending ?batch s)"
    by (rule remove_links_sim [OF inv rel spec_distinct_links [OF dist] d1])
  have inv1: "mem_inv d1" and dids1: "md_dids d1 = md_dids d"
    and none: "links_of d1 (rid_did r) (repo_id_from_record_id r) = []"
    using mem_remove_links_ok [OF inv, of r] unfolding d1 by (auto simp del: split_paired_All)
  have "\<exists>s' batch'. rocks_add_links r links s ?batch = Inr (s', batch') \<and>
      store_rel (mem_add_links r links d1) (pending batch' s') \<and> seqs_within s' s ev"
    using add_links_sim [OF inv1 rel1 remove_links_reads none, of links] adm room dids1 UpdateLinks
    by (simp add: has_room_def mem_abs_def)
  with UpdateLinks d' show ?thesis by (auto intro: commit_sim)
next
  case (DeleteRecord r)
  with mem have "store_rel d' (pending (rocks_remove_links r s []) s)"
    by (intro remove_links_sim [OF inv rel spec_distinct_links [OF dist]]) simp
  with DeleteRecord show ?thesis by (auto intro: commit_sim)
next
  case (DeleteAccount did)
  have "single_targets d did"
    using spec_distinct_links [OF dist] adm DeleteAccount by (simp add: single_targets_def mem_abs_def)
  from delete_account_sim [OF inv rel this, of d' enc cursor] mem DeleteAccount show ?thesis by auto
qed (use mem set_account_sim [OF rel] in \<open>auto intro: commit_sim\<close>)

section \<open>Sequences of events\<close>

lemma store_rel_open: "store_rel mem_new (rocks_open empty_db)"
proof -
  have reads: "did_id_val (rocks_open empty_db) did = None" "target_id_val (rocks_open empty_db) k = None"
    "get_target_linkers (rocks_open empty_db) ti = []" "forward_links (rocks_open empty_db) k' = []" for did k ti k'
    by (simp_all add: did_id_val_def target_id_val_def get_target_linkers_def forward_links_def
        rocks_open_def empty_db_def)
  have "rocks_wf (rocks_open empty_db)"
    unfolding rocks_wf_def reads
    by (simp add: rocks_open_def empty_db_def id_table_init_def persisted_def)
  then show ?thesis
    by (simp add: store_rel_with_def reads key_linkers_def mem_new_def mem_linkers_def linkers_of_def)
qed

lemma run_sim:
  assumes "mem_inv d" "store_rel d s" "spec_distinct (mem_abs d)" "admissible_run es (mem_abs d)"
    and "unat (it_priv_id_seq (rs_did_id_table s)) + run_size es < 2 ^ 64"
    and "unat (it_priv_id_seq (rs_target_id_table s)) + run_size es < 2 ^ 64"
  shows "\<exists>d' s'. mem_run es d = Inr d' \<and> rocks_run enc es s = Inr s' \<and> mem_inv d' \<and> store_rel d' s' \<and>
    mem_abs d' = fold (spec_push \<circ> fst) es (mem_abs d)"
  using assms
proof (induction es arbitrary: d s)
  case (Cons e es)
  have size: "run_size (e # es) = 1 + length (event_links (fst e)) + run_size es" by (simp add: run_size_def)
  from mem_push_ok [OF Cons.prems(1), of "fst e" "snd e"] obtain d1 where
    d1: "mem_push (fst e) (snd e) d = Inr d1" "mem_inv d1" "mem_abs d1 = spec_push (fst e) (mem_abs d)" by blast
  have room: "has_room (fst e) s" using Cons.prems(5,6) by (simp add: has_room_def size)
  have adm: "admissible (fst e) (mem_abs d)" "admissible_run es (mem_abs d1)" using Cons.prems(4) d1(3) by simp_all
  from push_sim [OF Cons.prems(1-3) adm(1) room d1(1), of enc] obtain s1 where
    s1: "rocks_push enc (fst e) (snd e) s = Inr s1" "store_rel d1 s1" "seqs_within s1 s (fst e)" by blast
  have "spec_distinct (mem_abs d1)" using spec_distinct_push [OF Cons.prems(3) adm(1)] d1(3) by simp
  with Cons.IH [OF d1(2) s1(2)] adm(2) s1(3) Cons.prems(5,6) obtain d' s' where
    "mem_run es d1 = Inr d' \<and> rocks_run enc es s1 = Inr s' \<and> mem_inv d' \<and> store_rel d' s' \<and>
      mem_abs d' = fold (spec_push \<circ> fst) es (mem_abs d1)" by (auto simp: size comp_def)
  with d1 s1 show ?case by (auto simp: comp_def)
qed simp

abbreviation empty_index :: link_spec where
  "empty_index \<equiv> \<lparr>ls_links = \<lambda>_ _. [], ls_active = Map.empty\<rparr>"

lemma mem_abs_new: "mem_abs mem_new = empty_index"
  by (auto simp: mem_abs_def mem_new_def links_of_def fun_eq_iff)

lemma run_sim_new:
  assumes "admissible_run es empty_index" "run_size es < 2 ^ 64 - 1"
  shows "\<exists>d s. mem_run es mem_new = Inr d \<and> rocks_run enc es (rocks_open empty_db) = Inr s \<and>
    mem_inv d \<and> store_rel d s \<and> mem_abs d = fold (spec_push \<circ> fst) es empty_index"
proof -
  have "spec_distinct empty_index" by (simp add: spec_distinct_def)
  moreover have "it_priv_id_seq (rs_did_id_table (rocks_open empty_db)) = 1"
    "it_priv_id_seq (rs_target_id_table (rocks_open empty_db)) = 1"
    by (simp_all add: rocks_open_def empty_db_def id_table_init_def)
  ultimately show ?thesis
    using run_sim [OF mem_inv_new store_rel_open, of es enc] assms by (simp add: mem_abs_new)
qed

section \<open>Reads\<close>

lemma slots_alive:
  assumes "list_all2 (slot_rel s) ls ms"
  shows "list_all2 (\<lambda>x y. fst x \<noteq> 0 \<and> snd y = snd x \<and> (\<exists>a. did_id_val s (fst y) = Some (fst x, a)))
    (filter (\<lambda>(i, _). i \<noteq> 0) ls) (flatten_opts ms)"
  using assms by (induction rule: list_all2_induct) (auto simp: slot_rel_def split: if_splits)

lemma slots_alive_length:
  "list_all2 (slot_rel s) ls ms \<Longrightarrow> length (filter (\<lambda>(i, _). i \<noteq> 0) ls) = length (flatten_opts ms)"
  using slots_alive list_all2_lengthD by blast

lemma slots_dids_card:
  assumes wf: "rocks_wf s" and slots: "list_all2 (slot_rel s) ls ms"
  shows "card (set (map fst (filter (\<lambda>(i, _). i \<noteq> 0) ls))) = card (fst ` set (flatten_opts ms))"
proof -
  let ?g = "\<lambda>did. fst (the (did_id_val s did))"
  have "map fst xs = map (?g \<circ> fst) ys \<and> (\<forall>y \<in> set ys. did_id_val s (fst y) \<noteq> None)"
    if "list_all2 (\<lambda>x y. fst x \<noteq> 0 \<and> snd y = snd x \<and> (\<exists>a. did_id_val s (fst y) = Some (fst x, a))) xs ys" for xs ys
    using that by (induction rule: list_all2_induct) auto
  from this [OF slots_alive [OF slots]]
  have "set (map fst (filter (\<lambda>(i, _). i \<noteq> 0) ls)) = ?g ` fst ` set (flatten_opts ms)"
    and known: "\<forall>y \<in> set (flatten_opts ms). did_id_val s (fst y) \<noteq> None"
    by (auto simp: image_comp dest!: arg_cong [where f = set])
  moreover have "inj_on ?g (fst ` set (flatten_opts ms))"
  proof (rule inj_onI)
    fix x y assume "x \<in> fst ` set (flatten_opts ms)" "y \<in> fst ` set (flatten_opts ms)" "?g x = ?g y"
    moreover from this known have "did_id_val s x \<noteq> None" "did_id_val s y \<noteq> None" by blast+
    then obtain i a j b where "did_id_val s x = Some (i, a)" "did_id_val s y = Some (j, b)" by auto
    ultimately show "x = y" using did_id_unique [OF wf, of x i a y b] by simp
  qed
  ultimately show ?thesis by (simp add: card_image)
qed

lemma rocks_get_count_mem:
  assumes rel: "store_rel d s"
  shows "rocks_get_count s t c p = mem_get_count d t c p"
    and "rocks_get_distinct_did_count s t c p = mem_get_distinct_did_count d t c p"
proof -
  note wf = store_rel_with_dest(1) [OF rel]
  note none = store_rel_with_dest(3) [OF rel, of t c p]
  have slots: "list_all2 (slot_rel s) (get_target_linkers s ti) ms"
    if "target_id_val s (t, c, p) = Some ti" "mem_linkers d t c p = Some ms" for ti ms
    using store_rel_with_dest(4) [OF rel, of t c p] that by (simp add: key_linkers_def linkers_of_def)
  show "rocks_get_count s t c p = mem_get_count d t c p"
    using none slots_alive_length [OF slots]
    by (auto simp: rocks_get_count_def mem_get_count_def linkers_count_def Let_def split: option.split)
  show "rocks_get_distinct_did_count s t c p = mem_get_distinct_did_count d t c p"
    using none slots_dids_card [OF wf slots]
    by (auto simp: rocks_get_distinct_did_count_def mem_get_distinct_did_count_def count_distinct_dids_def
        split: option.split)
qed

text \<open>The window of a page, computed on \<open>u64\<close> here and on \<open>usize\<close> there.\<close>

lemma rocks_page_window:
  assumes len: "length ls < 2 ^ 64" and alive: "length (filter (\<lambda>(i, _). i \<noteq> 0) ls) = n"
    and be: "page_bounds (length ls) limit until = (b, e)"
  shows "rocks_page ls limit until item =
    \<lparr>pac_version = (of_nat (length ls), of_nat (length ls - n)),
     pac_items = List.map_filter item (rev (slice b e ls)),
     pac_next = next_cursor b, pac_total = of_nat n\<rparr>"
proof -
  have "n \<le> length ls" using alive by (metis length_filter_le)
  then have gone: "(of_nat (length ls) :: u64) - of_nat n = of_nat (length ls - n)" by simp
  have tot: "(of_nat n :: u64) + of_nat (length ls - n) = of_nat (length ls)"
    using \<open>n \<le> length ls\<close> by (simp flip: of_nat_add)
  have unat: "unat (of_nat (length ls) :: u64) = length ls" by (rule unat_of_nat_u64 [OF len])
  have "unat (case until of Some u \<Rightarrow> min u (of_nat (length ls)) | None \<Rightarrow> of_nat (length ls)) = e"
    using be unat by (auto simp: page_bounds_def Let_def min_def word_le_nat_alt split: option.splits)
  moreover have "b = e - unat limit" using be by (auto simp: page_bounds_def Let_def)
  ultimately show ?thesis
    by (cases until) (simp_all add: rocks_page_def linkers_count_def alive gone tot Let_def)
qed

lemma map_filter_rel:
  assumes "list_all2 R xs ys" "\<And>x y. R x y \<Longrightarrow> f x = g y"
  shows "List.map_filter f xs = List.map_filter g ys"
  using assms by (induction rule: list_all2_induct) (auto simp: List.map_filter_def)

lemma slice_rel: "list_all2 R xs ys \<Longrightarrow> list_all2 R (rev (slice b e xs)) (rev (slice b e ys))"
  by (simp add: slice_def list_all2_dropI list_all2_takeI)

lemma resolve_slot:
  assumes "rocks_wf s" "slot_rel s x y"
  shows "resolve_linker s (fst x) =
    (case y of None \<Rightarrow> None | Some (did, _) \<Rightarrow> if map_option snd (did_id_val s did) = Some True then Some did else None)"
proof (cases "fst x = 0")
  case True
  with assms(2) show ?thesis by (simp add: slot_rel_def resolve_linker_def)
next
  case False
  with assms(2) obtain did a where y: "y = Some (did, snd x)" and v: "did_id_val s did = Some (fst x, a)"
    by (auto simp: slot_rel_def)
  from rocks_wf_dest(5) [OF assms(1) v] y v False show ?thesis by (simp add: resolve_linker_def)
qed

lemma live_items_map_filter:
  "live_items d c ls = List.map_filter
     (\<lambda>y. case y of None \<Rightarrow> None
        | Some (did, rkey) \<Rightarrow>
            if hm_get (md_dids d) did = Some True
            then Some \<lparr>rid_did = did, rid_collection = c, rid_rkey = rkey\<rparr> else None) (rev ls)"
proof -
  have "map f (filter P (flatten_opts xs)) =
      List.map_filter (\<lambda>y. case y of None \<Rightarrow> None | Some z \<Rightarrow> if P z then Some (f z) else None) xs"
    for f :: "'x \<Rightarrow> 'y" and P xs
    by (induction xs rule: list.induct) (auto simp: List.map_filter_def split: option.split)
  then show ?thesis by (simp add: live_items_def case_prod_unfold cong: option.case_cong)
qed

lemma rocks_get_links_mem:
  assumes inv: "mem_inv d" and rel: "store_rel d s" and len: "length (linkers_of d t (c, p)) < 2 ^ 64"
  shows "mem_get_links d t c p limit until = Inr (rocks_get_links s t c p limit until)"
proof -
  note wf = store_rel_with_dest(1) [OF rel]
  define ms where "ms = linkers_of d t (c, p)"
  obtain b e where be: "page_bounds (length ms) limit until = (b, e)" by force
  have slots: "list_all2 (slot_rel s) (key_linkers s (t, c, p)) ms"
    using store_rel_with_dest(4) [OF rel] by (simp add: ms_def)
  note mem = mem_get_links_eq [OF inv ms_def be]
  show ?thesis
  proof (cases "target_id_val s (t, c, p)")
    case None
    then have "ms = []" using slots by (simp add: key_linkers_def)
    with mem be None show ?thesis
      by (auto simp: rocks_get_links_def empty_page_def page_bounds_def slice_def live_items_def next_cursor_def
          Let_def split: option.splits)
  next
    case (Some ti)
    let ?ls = "get_target_linkers s ti"
    let ?item = "\<lambda>(did_id, rkey). map_option
        (\<lambda>did. \<lparr>rid_did = did, rid_collection = c, rid_rkey = rkey\<rparr>) (resolve_linker s did_id)"
    have ls: "list_all2 (slot_rel s) ?ls ms" using slots Some by (simp add: key_linkers_def)
    then have same: "length ?ls = length ms" by (rule list_all2_lengthD)
    have item: "?item x = (case y of None \<Rightarrow> None
        | Some (did, rkey) \<Rightarrow>
            if hm_get (md_dids d) did = Some True
            then Some \<lparr>rid_did = did, rid_collection = c, rid_rkey = rkey\<rparr> else None)"
      if "slot_rel s x y" for x y
      using resolve_slot [OF wf that] that store_rel_with_dest(2) [OF rel]
      by (cases x; cases y) (auto simp: slot_rel_def split: if_splits)
    have "List.map_filter ?item (rev (slice b e ?ls)) = live_items d c (slice b e ms)"
      unfolding live_items_map_filter by (rule map_filter_rel [OF slice_rel [OF ls] item])
    then show ?thesis using mem rocks_page_window [OF _ slots_alive_length [OF ls], of limit until b e ?item]
        len be same Some by (simp add: rocks_get_links_def ms_def)
  qed
qed

definition did_slot_rel :: "RocksStorage \<Rightarrow> DidId \<times> string \<Rightarrow> Did option \<Rightarrow> bool" where
  "did_slot_rel s x y \<longleftrightarrow>
     (if fst x = 0 then y = None else \<exists>did a. y = Some did \<and> did_id_val s did = Some (fst x, a))"

lemma dedup_rel:
  assumes wf: "rocks_wf s" and "list_all2 (slot_rel s) ls ms"
    and "\<And>did i a. did_id_val s did = Some (i, a) \<Longrightarrow> did \<in> set seen' \<longleftrightarrow> i \<in> set seen"
  shows "list_all2 (did_slot_rel s) (zero_duplicates seen ls) (dedup_dids seen' ms)"
  using assms(2,3)
proof (induction arbitrary: seen seen' rule: list_all2_induct)
  case (Cons x xs y ys)
  obtain i rk where x: "x = (i, rk)" by force
  show ?case
  proof (cases "i = 0")
    case True
    with Cons(1) x have y: "y = None" by (simp add: slot_rel_def)
    have "did \<in> set seen' \<longleftrightarrow> j \<in> set (i # seen)" if "did_id_val s did = Some (j, a)" for did j a
      using Cons.prems [OF that] rocks_wf_dest(3) [OF wf that] True by simp
    then show ?thesis using Cons.IH [OF Cons.prems] Cons.IH [of seen' "i # seen"] True x y
      by (auto simp: did_slot_rel_def)
  next
    case False
    with Cons(1) x obtain did a where y: "y = Some (did, rk)" and v: "did_id_val s did = Some (i, a)"
      by (auto simp: slot_rel_def)
    have "did' \<in> set (did # seen') \<longleftrightarrow> j \<in> set (i # seen)" if "did_id_val s did' = Some (j, b)" for did' j b
    proof -
      have "did' = did \<longleftrightarrow> j = i" using that v did_id_unique [OF wf v, of did' b] by auto
      then show ?thesis using Cons.prems [OF that] by auto
    qed
    then show ?thesis using Cons.IH [OF Cons.prems] Cons.IH [of "did # seen'" "i # seen"] Cons.prems [OF v] False x y v
      by (auto simp: did_slot_rel_def)
  qed
qed simp

lemma did_slots_alive:
  "list_all2 (did_slot_rel s) ls ms \<Longrightarrow> length (filter (\<lambda>(i, _). i \<noteq> 0) ls) = length (flatten_opts ms)"
  by (induction rule: list_all2_induct) (auto simp: did_slot_rel_def split: if_splits)

lemma dedup_length: "length (dedup_dids seen ls) = length ls"
  by (induction seen ls rule: dedup_dids.induct) auto

lemma filter_flatten_map_filter:
  "filter P (flatten_opts xs) =
     List.map_filter (\<lambda>y. case y of None \<Rightarrow> None | Some z \<Rightarrow> if P z then Some z else None) xs"
  by (induction xs) (auto simp: List.map_filter_def flatten_opts_def split: option.split)

lemma resolve_did_slot:
  assumes "rocks_wf s" "did_slot_rel s x y"
  shows "resolve_linker s (fst x) =
    (case y of None \<Rightarrow> None | Some did \<Rightarrow> if map_option snd (did_id_val s did) = Some True then Some did else None)"
  using resolve_slot [OF assms(1), of x "map_option (\<lambda>did. (did, snd x)) y"] assms(2)
  by (cases y) (auto simp: did_slot_rel_def slot_rel_def split: if_splits)

lemma rocks_get_distinct_dids_mem:
  assumes inv: "mem_inv d" and rel: "store_rel d s" and len: "length (linkers_of d t (c, p)) < 2 ^ 64"
  shows "mem_get_distinct_dids d t c p limit until = Inr (rocks_get_distinct_dids s t c p limit until)"
proof (cases "target_id_val s (t, c, p)")
  case None
  then show ?thesis using store_rel_with_dest(3) [OF rel, of t c p]
    by (simp add: mem_get_distinct_dids_def rocks_get_distinct_dids_def)
next
  case (Some ti)
  note wf = store_rel_with_dest(1) [OF rel]
  from Some obtain ms where ms: "mem_linkers d t c p = Some ms"
    using store_rel_with_dest(3) [OF rel, of t c p] by auto
  then have lo: "linkers_of d t (c, p) = ms" by (simp add: linkers_of_def)
  define ds where "ds = dedup_dids [] ms"
  let ?ls = "get_distinct_target_linkers s ti"
  have "list_all2 (slot_rel s) (get_target_linkers s ti) ms"
    using store_rel_with_dest(4) [OF rel, of t c p] Some lo by (simp add: key_linkers_def)
  then have ls: "list_all2 (did_slot_rel s) ?ls ds" "length ds = length ms"
    using dedup_rel [OF wf, of "get_target_linkers s ti" ms "[]" "[]"]
    by (simp_all add: ds_def dedup_length get_distinct_target_linkers_def)
  obtain b e where be: "page_bounds (length ds) limit until = (b, e)" by force
  have known: "hm_get (md_dids d) did \<noteq> None" if "did \<in> set (flatten_opts (rev (slice b e ds)))" for did
  proof -
    from that have "Some did \<in> set ds"
      by (auto simp: set_flatten_opts slice_def dest!: in_set_dropD in_set_takeD)
    then obtain rk where "Some (did, rk) \<in> set ms" using set_dedup_dids unfolding ds_def by blast
    then have "(p, t) \<in> set (links_of d did (c, rk))"
      using linker_iff_link [OF inv] by (simp add: set_flatten_opts lo [symmetric])
    then show ?thesis using mem_inv_known [OF inv] by (metis list.set(1) empty_iff)
  qed
  have "filter_res (mem_is_active d) (flatten_opts (rev (slice b e ds))) =
      Inr (filter (\<lambda>did. hm_get (md_dids d) did = Some True) (flatten_opts (rev (slice b e ds))))"
    by (rule filter_res_total) (auto simp: mem_is_active_def split: option.split dest: known)
  moreover have "List.map_filter (\<lambda>(did_id, _). resolve_linker s did_id) (rev (slice b e ?ls)) =
      filter (\<lambda>did. hm_get (md_dids d) did = Some True) (flatten_opts (rev (slice b e ds)))"
    unfolding filter_flatten_map_filter store_rel_with_dest(2) [OF rel]
    by (rule map_filter_rel [OF slice_rel [OF ls(1)]])
      (simp add: case_prod_unfold resolve_did_slot [OF wf])
  ultimately show ?thesis
    using ms Some be ls rocks_page_window [OF _ did_slots_alive [OF ls(1)], of limit until b e
        "\<lambda>(did_id, _). resolve_linker s did_id"] len lo
    by (simp add: mem_get_distinct_dids_def rocks_get_distinct_dids_def Let_def list_all2_lengthD [OF ls(1)] flip: ds_def)
qed

section \<open>The contract of a link store\<close>

text \<open>The counts as functions of the abstract index.\<close>

definition spec_count :: "link_spec \<Rightarrow> Target \<Rightarrow> string \<Rightarrow> string \<Rightarrow> u64" where
  "spec_count sp t c p =
     of_nat (\<Sum>w \<in> {w. (p, t) \<in> set (ls_links sp (fst w) (c, snd w))}.
       count_list (ls_links sp (fst w) (c, snd w)) (p, t))"

definition spec_did_count :: "link_spec \<Rightarrow> Target \<Rightarrow> string \<Rightarrow> string \<Rightarrow> u64" where
  "spec_did_count sp t c p = of_nat (card {did. \<exists>rkey. (p, t) \<in> set (ls_links sp did (c, rkey))})"

locale link_storage =
  fixes valid :: "'s \<Rightarrow> bool"
    and index :: "'s \<Rightarrow> link_spec"
    and accepts :: "ActionableEvent \<Rightarrow> 's \<Rightarrow> bool"
    and push :: "ActionableEvent \<Rightarrow> u64 \<Rightarrow> 's \<Rightarrow> panic + 's"
    and count :: "'s \<Rightarrow> string \<Rightarrow> string \<Rightarrow> string \<Rightarrow> u64"
    and did_count :: "'s \<Rightarrow> string \<Rightarrow> string \<Rightarrow> string \<Rightarrow> u64"
  assumes push_ok: "valid s \<Longrightarrow> accepts ev s \<Longrightarrow>
      \<exists>s'. push ev cursor s = Inr s' \<and> valid s' \<and> index s' = spec_push ev (index s)"
    and count_ok: "valid s \<Longrightarrow> count s t c p = spec_count (index s) t c p"
    and did_count_ok: "valid s \<Longrightarrow> did_count s t c p = spec_did_count (index s) t c p"
begin

lemma link_free_count:
  assumes "valid s" "\<And>did rkey. (p, t) \<notin> set (ls_links (index s) did (c, rkey))"
  shows "count s t c p = 0" "did_count s t c p = 0"
  using assms by (simp_all add: count_ok did_count_ok spec_count_def spec_did_count_def)

lemma push_counts:
  assumes "valid s" "accepts ev s" "push ev cursor s = Inr s'"
  shows "valid s'" "count s' t c p = spec_count (spec_push ev (index s)) t c p"
    "did_count s' t c p = spec_did_count (spec_push ev (index s)) t c p"
  using push_ok [OF assms(1,2), of cursor] assms(3) by (auto simp: count_ok did_count_ok)

lemma deleted_account_gone:
  assumes "valid s" "accepts (DeleteAccount did) s" "push (DeleteAccount did) cursor s = Inr s'"
  shows "ls_links (index s') did repo = []" "ls_active (index s') did = None"
  using push_ok [OF assms(1,2), of cursor] assms(3) by auto

end

lemma mem_counts:
  assumes "mem_inv d"
  shows "mem_get_count d t c p = spec_count (mem_abs d) t c p"
    and "mem_get_distinct_did_count d t c p = spec_did_count (mem_abs d) t c p"
proof -
  let ?xs = "flatten_opts (linkers_of d t (c, p))"
  have set_xs: "set ?xs = {w. (p, t) \<in> set (links_of d (fst w) (c, snd w))}"
    using linker_iff_link [OF assms] by auto
  moreover have "length ?xs = sum (count_list ?xs) (set ?xs)" by (simp add: sum_count_set)
  ultimately show "mem_get_count d t c p = spec_count (mem_abs d) t c p"
    by (simp add: mem_get_count_linkers count_linkers [OF assms] spec_count_def mem_abs_def)
  have "fst ` set ?xs = {did. \<exists>rkey. (p, t) \<in> set (links_of d did (c, rkey))}"
    unfolding set_xs by (force simp: image_iff)
  then show "mem_get_distinct_did_count d t c p = spec_did_count (mem_abs d) t c p"
    by (auto simp: mem_get_distinct_did_count_def linkers_of_def spec_did_count_def mem_abs_def split: option.splits)
qed

interpretation mem: link_storage mem_inv mem_abs "\<lambda>_ _. True" mem_push mem_get_count mem_get_distinct_did_count
  by unfold_locales (use mem_push_ok mem_counts in auto)

text \<open>The index a disk store holds: ids are resolved to the target of their key.\<close>

definition target_of :: "RocksStorage \<Rightarrow> TargetId \<Rightarrow> Target" where
  "target_of s ti =
     (case find (\<lambda>(_, i). i = ti) (db_target_ids (rs_db s)) of None \<Rightarrow> '''' | Some ((t, _, _), _) \<Rightarrow> t)"

definition rocks_abs :: "RocksStorage \<Rightarrow> link_spec" where
  "rocks_abs s =
     \<lparr>ls_links = \<lambda>did (c, r).
        (case did_id_val s did of
           None \<Rightarrow> []
         | Some (i, _) \<Rightarrow> map (apsnd (target_of s)) (forward_links s (i, c, r))),
      ls_active = \<lambda>did. map_option snd (did_id_val s did)\<rparr>"

definition rocks_valid :: "RocksStorage \<Rightarrow> bool" where
  "rocks_valid s \<longleftrightarrow> spec_distinct (rocks_abs s) \<and> (\<exists>d. mem_inv d \<and> store_rel d s)"

lemma target_of_key:
  assumes "rocks_wf s" "target_id_val s (t, c, p) = Some ti"
  shows "target_of s ti = t"
proof -
  let ?m = "db_target_ids (rs_db s)"
  from assms(2) have mem: "((t, c, p), ti) \<in> set ?m" by (simp add: target_id_val_def hm_get_mem)
  then obtain k i where f: "find (\<lambda>(_, i). i = ti) ?m = Some (k, i)"
    by (metis (mono_tags, lifting) case_prodI find_None_iff not_Some_eq surj_pair)
  then obtain n where "n < length ?m" "?m ! n = (k, i)" "i = ti" unfolding find_Some_iff by auto
  then have "(k, i) \<in> set ?m" "i = ti" by (metis nth_mem)+
  then have "target_id_val s k = Some ti"
    using hm_get_iff_mem [OF rocks_wf_bounds(3) [OF assms(1)]] by (simp add: target_id_val_def)
  then have "k = (t, c, p)" using rocks_wf_dest(7) [OF assms] by blast
  with f show ?thesis by (simp add: target_of_def)
qed

lemma rocks_abs_rel:
  assumes inv: "mem_inv d" and rel: "store_rel d s"
  shows "rocks_abs s = mem_abs d"
proof -
  note wf = store_rel_with_dest(1) [OF rel]
  have map: "map (apsnd (target_of s)) xs = ys" if "list_all2 (link_rel s c) xs ys" for xs ys c
    using that by (induction rule: list_all2_induct)
      (auto simp: link_rel_def prod_eq_iff target_of_key [OF wf])
  have "ls_links (rocks_abs s) did (c, r) = links_of d did (c, r)" for did c r
  proof (cases "did_id_val s did")
    case None
    then have "hm_get (md_dids d) did = None" using store_rel_with_dest(2) [OF rel] by simp
    then have "links_of d did (c, r) = []" using mem_inv_known [OF inv] by blast
    with None show ?thesis by (simp add: rocks_abs_def)
  next
    case (Some v)
    then obtain i a where "did_id_val s did = Some (i, a)" by (cases v) auto
    with map [OF store_rel_with_dest(5) [OF rel this]] show ?thesis by (simp add: rocks_abs_def)
  qed
  moreover have "ls_active (rocks_abs s) = hm_get (md_dids d)"
    using store_rel_with_dest(2) [OF rel] by (simp add: rocks_abs_def fun_eq_iff)
  ultimately show ?thesis by (simp add: mem_abs_def rocks_abs_def fun_eq_iff)
qed

lemma rocks_push_ok:
  assumes "rocks_valid s" "admissible ev (rocks_abs s)" "has_room ev s"
  shows "\<exists>s'. rocks_push enc ev cursor s = Inr s' \<and> rocks_valid s' \<and> rocks_abs s' = spec_push ev (rocks_abs s)"
proof -
  from assms(1) obtain d where d: "mem_inv d" "store_rel d s" by (auto simp: rocks_valid_def)
  note abs = rocks_abs_rel [OF d]
  have dist: "spec_distinct (mem_abs d)" using assms(1) abs by (simp add: rocks_valid_def)
  from mem_push_ok [OF d(1)] obtain d' where
    d': "mem_push ev cursor d = Inr d'" "mem_inv d'" "mem_abs d' = spec_push ev (mem_abs d)" by blast
  from push_sim [OF d dist _ assms(3) d'(1)] assms(2) abs obtain s' where
    s': "rocks_push enc ev cursor s = Inr s'" "store_rel d' s'" by auto
  have "spec_distinct (mem_abs d')" using spec_distinct_push [OF dist] assms(2) d'(3) abs by simp
  with s' d' rocks_abs_rel [OF d'(2) s'(2)] abs show ?thesis by (auto simp: rocks_valid_def)
qed

interpretation rocks: link_storage rocks_valid rocks_abs "\<lambda>ev s. admissible ev (rocks_abs s) \<and> has_room ev s"
  "rocks_push enc" rocks_get_count rocks_get_distinct_did_count for enc
proof unfold_locales
  fix s t c p assume "rocks_valid s"
  then obtain d where d: "mem_inv d" "store_rel d s" by (auto simp: rocks_valid_def)
  show "rocks_get_count s t c p = spec_count (rocks_abs s) t c p"
    "rocks_get_distinct_did_count s t c p = spec_did_count (rocks_abs s) t c p"
    using rocks_get_count_mem [OF d(2)] mem_counts [OF d(1)] rocks_abs_rel [OF d] by simp_all
qed (use rocks_push_ok in blast)

section \<open>Lengths\<close>

lemma take_linkers_length:
  assumes "\<And>p y ls ls'. find_mut p y ls = Some ls' \<Longrightarrow> length ls' = length ls"
    and "fold_res (take_linker find_mut msg did) js d = Inr d'"
  shows "length (linkers_of d' t s) = length (linkers_of d t s)"
  using assms(2)
proof (induction js arbitrary: d)
  case (Cons j js)
  then obtain d1 where d1: "take_linker find_mut msg did j d = Inr d1"
    "fold_res (take_linker find_mut msg did) js d1 = Inr d'" by (auto split: sum.splits)
  from d1(1) have "length (linkers_of d1 t s) = length (linkers_of d t s)"
    by (cases j; cases s)
      (auto simp: take_linker_def linkers_of_def mem_linkers_def dest!: assms(1) split: option.splits if_splits)
  with Cons.IH [OF d1(2)] show ?case by simp
qed simp

lemma mem_push_length:
  assumes "mem_push ev cursor d = Inr d'"
  shows "length (linkers_of d' t s) \<le> length (linkers_of d t s) + length (event_links ev)"
proof -
  have add: "length (linkers_of (mem_add_links r ls d) t s) \<le> length (linkers_of d t s) + length ls" for r ls d
    unfolding mem_add_links_def
  proof (induction ls arbitrary: d)
    case (Cons l ls)
    from Cons.IH [of "mem_add_link r l d"] show ?case by (auto simp: linkers_of_add split: if_splits)
  qed simp
  have tg: "linkers_of e t s = linkers_of e' t s" if "md_targets e = md_targets e'" for e e'
    using that by (simp add: linkers_of_def mem_linkers_def)
  have rem: "length (linkers_of d' t s) = length (linkers_of d t s)" if "mem_remove_links r d = Inr d'" for r d d'
  proof -
    from that obtain js d1 where "fold_res (take_linker replace_last
        ''must be in dids list if we have a link to it'' (rid_did r)) js d = Inr d1" "md_targets d' = md_targets d1"
      by (auto simp: mem_remove_links_fold and_then_Inr split: option.splits)
    then show ?thesis using take_linkers_length [where find_mut = replace_last, OF length_replace_last] tg [of d' d1]
      by simp
  qed
  have del: "length (linkers_of d' t s) = length (linkers_of d t s)" if "mem_delete_account did d = Inr d'" for did
  proof -
    from that obtain js d1 where "fold_res (take_linker replace_first ''lkasjdlfkj'' did) js d = Inr d1"
      "md_targets d' = md_targets d1" by (auto simp: mem_delete_account_fold and_then_Inr)
    then show ?thesis using take_linkers_length [where find_mut = replace_first, OF length_replace_first] tg [of d' d1]
      by simp
  qed
  have acc: "linkers_of (mem_set_account did a d) t s = linkers_of d t s" for did a
    by (simp add: mem_set_account_def linkers_of_def mem_linkers_def split: option.split)
  show ?thesis
  proof (cases ev)
    case (UpdateLinks r ls)
    then obtain d1 where "mem_remove_links r d = Inr d1" "d' = mem_add_links r ls d1"
      using assms by (auto simp: mem_update_links_def and_then_Inr)
    with rem add UpdateLinks show ?thesis by (metis event_links.simps(2))
  qed (use assms add rem del acc in auto)
qed

lemma mem_run_length:
  "mem_run es d = Inr d' \<Longrightarrow> length (linkers_of d' t s) \<le> length (linkers_of d t s) + run_size es"
proof (induction es arbitrary: d)
  case (Cons e es)
  then obtain d1 where d1: "mem_push (fst e) (snd e) d = Inr d1" "mem_run es d1 = Inr d'"
    by (auto simp: and_then_Inr)
  from mem_push_length [OF d1(1), of t s] Cons.IH [OF d1(2)] show ?case by (simp add: run_size_def)
qed (simp add: run_size_def)

section \<open>Properties\<close>

text \<open>
  C5. \<open>RocksStorage\<close> implements the abstract index on every admissible sequence of events: from
  an empty database no assertion fails, the links and accounts held at the end are those the
  index prescribes, and the two counts are the counts of that index.
\<close>

theorem rocks_refines_index:
  assumes "admissible_run events empty_index" and "run_size events < 2 ^ 64 - 1"
  shows "\<exists>s. rocks_run enc events (rocks_open empty_db) = Inr s \<and>
    rocks_abs s = fold (spec_push \<circ> fst) events empty_index \<and>
    (\<forall>t c p. rocks_get_count s t c p = spec_count (rocks_abs s) t c p \<and>
             rocks_get_distinct_did_count s t c p = spec_did_count (rocks_abs s) t c p)"
proof -
  from run_sim_new [OF assms, of enc] obtain d s where
    s: "rocks_run enc events (rocks_open empty_db) = Inr s" "mem_inv d" "store_rel d s"
    "mem_abs d = fold (spec_push \<circ> fst) events empty_index" by blast
  moreover have "rocks_abs s = mem_abs d" by (rule rocks_abs_rel [OF s(2,3)])
  ultimately show ?thesis using rocks_get_count_mem [OF s(3)] mem_counts [OF s(2)] by auto
qed

definition rec_id :: "string \<Rightarrow> string \<Rightarrow> RecordId" where
  "rec_id did rkey = \<lparr>rid_did = Did did, rid_collection = ''c'', rid_rkey = rkey\<rparr>"

definition lnk :: "string \<Rightarrow> string \<Rightarrow> CollectedLink" where
  "lnk path uri = \<lparr>cl_path = path, cl_target = Uri uri\<rparr>"

definition ex_events :: "(ActionableEvent \<times> u64) list" where
  "ex_events =
     [(CreateLinks (rec_id ''a'' ''1'') [lnk ''.p'' ''e'', lnk ''.q'' ''e''], 1),
      (CreateLinks (rec_id ''b'' ''1'') [lnk ''.p'' ''e''], 2),
      (UpdateLinks (rec_id ''a'' ''1'') [lnk ''.p'' ''f''], 3),
      (DeactivateAccount (Did ''b''), 4),
      (DeleteAccount (Did ''a''), 5)]"

lemma ex_events_admissible: "admissible_run ex_events empty_index" "run_size ex_events < 2 ^ 64 - 1"
  by (auto simp: ex_events_def rec_id_def lnk_def repo_id_from_record_id_def link_pair_def
      spec_set_links_def spec_know_def run_size_def split: if_splits)

theorem rocks_refines_index_witness:
  "\<exists>s. rocks_run (\<lambda>_. []) ex_events (rocks_open empty_db) = Inr s \<and>
    rocks_abs s = fold (spec_push \<circ> fst) ex_events empty_index \<and>
    (\<forall>t c p. rocks_get_count s t c p = spec_count (rocks_abs s) t c p \<and>
             rocks_get_distinct_did_count s t c p = spec_did_count (rocks_abs s) t c p)"
  by (rule rocks_refines_index [OF ex_events_admissible])

text \<open>
  C19. On admissible sequences the disk store answers every paged query exactly as the reference
  store: same version, items in the same order, same cursor, same total, for every limit and
  every \<open>until\<close>.
\<close>

theorem rocks_pages_like_mem:
  assumes "admissible_run events empty_index" and "run_size events < 2 ^ 64 - 1"
  shows "\<exists>d s. mem_run events mem_new = Inr d \<and> rocks_run enc events (rocks_open empty_db) = Inr s \<and>
    (\<forall>t c p limit until.
       mem_get_links d t c p limit until = Inr (rocks_get_links s t c p limit until) \<and>
       mem_get_distinct_dids d t c p limit until = Inr (rocks_get_distinct_dids s t c p limit until))"
proof -
  from run_sim_new [OF assms, of enc] obtain d s where
    s: "mem_run events mem_new = Inr d" "rocks_run enc events (rocks_open empty_db) = Inr s"
    "mem_inv d" "store_rel d s" by blast
  have "length (linkers_of d t (c, p)) < 2 ^ 64" for t c p
    using mem_run_length [OF s(1), of t "(c, p)"] assms(2)
    by (simp add: mem_new_def linkers_of_def mem_linkers_def)
  then show ?thesis using s rocks_get_links_mem [OF s(3,4)] rocks_get_distinct_dids_mem [OF s(3,4)] by blast
qed

theorem rocks_pages_like_mem_witness:
  "\<exists>d s. mem_run ex_events mem_new = Inr d \<and> rocks_run (\<lambda>_. []) ex_events (rocks_open empty_db) = Inr s \<and>
    (\<forall>t c p limit until.
       mem_get_links d t c p limit until = Inr (rocks_get_links s t c p limit until) \<and>
       mem_get_distinct_dids d t c p limit until = Inr (rocks_get_distinct_dids s t c p limit until))"
  by (rule rocks_pages_like_mem [OF ex_events_admissible])

text \<open>
  C36. Reopening is safe: a store opened on the database of a valid store is valid and holds the
  same index, so ids handed out after a restart never collide with those on disk.
\<close>

theorem rocks_reopen:
  assumes "rocks_valid s"
    and "persisted (db_did_seq (rs_db s)) \<noteq> - 1" "persisted (db_target_seq (rs_db s)) \<noteq> - 1"
  shows "rocks_valid (rocks_open (rs_db s)) \<and> rocks_abs (rocks_open (rs_db s)) = rocks_abs s"
proof -
  let ?s = "rocks_open (rs_db s)"
  have reads: "did_id_val ?s = did_id_val s" "target_id_val ?s = target_id_val s"
    "get_val_from_id ?s = get_val_from_id s"
    "get_target_linkers ?s = get_target_linkers s" "forward_links ?s = forward_links s" "rs_db ?s = rs_db s"
    by (simp_all add: did_id_val_def target_id_val_def get_val_from_id_def get_target_linkers_def
        forward_links_def rocks_open_def fun_eq_iff)
  have "target_of ?s = target_of s" by (simp add: target_of_def reads fun_eq_iff)
  then have abs: "rocks_abs ?s = rocks_abs s" unfolding rocks_abs_def reads by (rule ssubst) (rule refl)
  from assms(1) obtain d where d: "mem_inv d" "store_rel d s" by (auto simp: rocks_valid_def)
  have seq: "persisted q \<le> it_priv_id_seq (id_table_init q)" if "persisted q \<noteq> - 1" for q
    using that u64_succ_greater by (cases q) (auto simp: persisted_def id_table_init_def less_imp_le Let_def)
  have wf: "rocks_wf ?s"
    using store_rel_with_dest(1) [OF d(2)] seq [OF assms(2)] seq [OF assms(3)]
    unfolding rocks_wf_def reads by (simp add: rocks_open_def) (simp add: id_table_init_def Let_def)
  have "store_rel d ?s"
    using d(2) wf slot_rel_cong [OF reads(1)] link_rel_cong [OF reads(2)] key_linkers_cong [OF reads(2,4)]
    unfolding store_rel_with_def reads by simp
  with d(1) abs assms(1) show ?thesis by (auto simp: rocks_valid_def)
qed

lemma rocks_valid_new: "rocks_valid (rocks_open empty_db)"
  using mem_inv_new store_rel_open rocks_abs_rel [OF mem_inv_new store_rel_open]
  by (auto simp: rocks_valid_def mem_abs_new spec_distinct_def)

theorem rocks_reopen_witness:
  "rocks_valid (rocks_open empty_db) \<and> persisted (db_did_seq (rs_db (rocks_open empty_db))) \<noteq> - 1 \<and>
   rocks_valid (rocks_open (rs_db (rocks_open empty_db)))"
  using rocks_valid_new rocks_reopen [OF rocks_valid_new]
  by (simp add: rocks_open_def empty_db_def persisted_def)

definition two_records :: "(ActionableEvent \<times> u64) list" where
  "two_records =
     [(CreateLinks (rec_id ''a'' ''1'') [lnk ''.p'' ''e''], 1),
      (CreateLinks (rec_id ''a'' ''2'') [lnk ''.p'' ''e''], 2),
      (DeleteAccount (Did ''a''), 3)]"

text \<open>
  Outside the admissible sequences the stores part.  An account with two records that link
  the same target is deleted: both removals read the same linker list before either is written,
  so one linker survives on disk, and the count stays one where the reference store has none.
\<close>

theorem rocks_delete_account_leaves_linker:
  "map_sum id (\<lambda>s. rocks_get_count s ''e'' ''c'' ''.p'') (rocks_run (\<lambda>_. []) two_records (rocks_open empty_db)) = Inr 1 \<and>
   map_sum id (\<lambda>d. mem_get_count d ''e'' ''c'' ''.p'') (mem_run two_records mem_new) = Inr 0"
  by code_simp

definition double_link :: "(ActionableEvent \<times> u64) list" where
  "double_link = [(CreateLinks (rec_id ''a'' ''1'') [lnk ''.p'' ''e'', lnk ''.p'' ''e''], 1)]"

text \<open>
  A record that links a new target twice at one path gets two target ids on disk, the second
  lookup not seeing the first in the pending batch; only the last is reachable, so the count is
  one where the reference store counts two.
\<close>

theorem rocks_double_link_counts_once:
  "map_sum id (\<lambda>s. rocks_get_count s ''e'' ''c'' ''.p'') (rocks_run (\<lambda>_. []) double_link (rocks_open empty_db)) = Inr 1 \<and>
   map_sum id (\<lambda>d. mem_get_count d ''e'' ''c'' ''.p'') (mem_run double_link mem_new) = Inr 2"
  by code_simp

text \<open>
  Every reopening after an id was created raises \<open>estimate_count\<close> by one without any new
  account or target, since \<open>init\<close> starts one past the last persisted number.
\<close>

lemma rocks_reopen_inflates_stats:
  assumes "db_did_seq (rs_db s) = Some (it_id_seq (rs_did_id_table s))"
  shows "stat_dids (rocks_get_stats est (rocks_open (rs_db s))) = stat_dids (rocks_get_stats est s) + 1"
  using assms by (simp add: rocks_get_stats_def rocks_open_def id_table_init_def estimate_count_def Let_def)

lemma rocks_reopen_inflates_stats_example:
  "map_sum id (\<lambda>s. (db_did_seq (rs_db s) = Some (it_id_seq (rs_did_id_table s)),
      stat_dids (rocks_get_stats (\<lambda>_. None) s), stat_dids (rocks_get_stats (\<lambda>_. None) (rocks_open (rs_db s)))))
    (rocks_run (\<lambda>_. []) double_link (rocks_open empty_db)) = Inr (True, 1, 2)"
proof -
  have "map_sum id (\<lambda>s. (db_did_seq (rs_db s) = Some (it_id_seq (rs_did_id_table s)), stat_dids (rocks_get_stats (\<lambda>_. None) s)))
      (rocks_run (\<lambda>_. []) double_link (rocks_open empty_db)) = Inr (True, 1)"
    by code_simp
  then obtain s where "rocks_run (\<lambda>_. []) double_link (rocks_open empty_db) = Inr s"
    "db_did_seq (rs_db s) = Some (it_id_seq (rs_did_id_table s))" "stat_dids (rocks_get_stats (\<lambda>_. None) s) = 1"
    by (cases "rocks_run (\<lambda>_. []) double_link (rocks_open empty_db)") auto
  then show ?thesis using rocks_reopen_inflates_stats [of s "\<lambda>_. None"] by simp
qed

end
