(* ===== verification/Constellation_Serve.thy ===== *)
theory Constellation_Serve
  imports Rocks_Props
begin

text \<open>
  The HTTP interface of the crate \<open>constellation\<close> (\<open>constellation/src/server/mod.rs\<close>,
  \<open>acceptable.rs\<close>, \<open>filters.rs\<close>): the store as the handlers see it (the trait \<open>LinkReader\<close> of
  \<open>storage/mod.rs\<close>), one definition per handler, the router and the content negotiation.

  Parameters stand for the packages the handlers call: \<open>bincode\<close> for the opaque cursors, axum's
  query extractor, the negotiation of \<open>headers-accept\<close>, the askama templates and the clock.
\<close>

section \<open>The store behind the handlers\<close>

text \<open>A call of the store returns, returns an error or panics.\<close>

datatype 'a StoreResult = Returns 'a | Errs | Panics

record LinkReader =
  lr_get_count :: "string \<Rightarrow> string \<Rightarrow> string \<Rightarrow> u64 StoreResult"
  lr_get_distinct_did_count :: "string \<Rightarrow> string \<Rightarrow> string \<Rightarrow> u64 StoreResult"
  lr_get_links :: "string \<Rightarrow> string \<Rightarrow> string \<Rightarrow> u64 \<Rightarrow> u64 option \<Rightarrow> RecordId PagedAppendingCollection StoreResult"
  lr_get_distinct_dids :: "string \<Rightarrow> string \<Rightarrow> string \<Rightarrow> u64 \<Rightarrow> u64 option \<Rightarrow> Did PagedAppendingCollection StoreResult"
  lr_get_all_record_counts :: "string \<Rightarrow> (string, (string, u64) hashmap) hashmap StoreResult"
  lr_get_all_counts :: "string \<Rightarrow> (string, (string, CountsByCount) hashmap) hashmap StoreResult"
  lr_get_stats :: "StorageStats StoreResult"

fun of_panic :: "panic + 'a \<Rightarrow> 'a StoreResult" where
  "of_panic (Inl _) = Panics"
| "of_panic (Inr x) = Returns x"

definition mem_reader :: "MemStorageData \<Rightarrow> LinkReader" where
  "mem_reader d =
     \<lparr>lr_get_count = \<lambda>t c p. Returns (mem_get_count d t c p),
      lr_get_distinct_did_count = \<lambda>t c p. Returns (mem_get_distinct_did_count d t c p),
      lr_get_links = \<lambda>t c p limit until. of_panic (mem_get_links d t c p limit until),
      lr_get_distinct_dids = \<lambda>t c p limit until. of_panic (mem_get_distinct_dids d t c p limit until),
      lr_get_all_record_counts = \<lambda>t. Returns (mem_get_all_record_counts d t),
      lr_get_all_counts = \<lambda>t. Returns (mem_get_all_counts d t),
      lr_get_stats = Returns (mem_get_stats d)\<rparr>"

definition rocks_reader ::
  "(TargetKey \<Rightarrow> u8 list) \<Rightarrow> (RocksDB \<Rightarrow> u64 option) \<Rightarrow> RocksStorage \<Rightarrow> LinkReader" where
  "rocks_reader enc estimate_num_keys s =
     \<lparr>lr_get_count = \<lambda>t c p. Returns (rocks_get_count s t c p),
      lr_get_distinct_did_count = \<lambda>t c p. Returns (rocks_get_distinct_did_count s t c p),
      lr_get_links = \<lambda>t c p limit until. Returns (rocks_get_links s t c p limit until),
      lr_get_distinct_dids = \<lambda>t c p limit until. Returns (rocks_get_distinct_dids s t c p limit until),
      lr_get_all_record_counts = \<lambda>t. Returns (rocks_get_all_record_counts enc s t),
      lr_get_all_counts = \<lambda>t. Returns (rocks_get_all_counts enc s t),
      lr_get_stats = Returns (rocks_get_stats estimate_num_keys s)\<rparr>"

section \<open>Requests and responses\<close>

definition DEFAULT_CURSOR_LIMIT :: u64 where "DEFAULT_CURSOR_LIMIT = 16"

definition DEFAULT_CURSOR_LIMIT_MAX :: u64 where "DEFAULT_CURSOR_LIMIT_MAX = 100"

definition INDEX_BEGAN_AT_TS :: nat where "INDEX_BEGAN_AT_TS = 1738083600"

text \<open>\<open>OpaqueApiCursor\<close> is a byte vector; \<open>ApiCursor\<close> is what \<open>bincode\<close> makes of it.\<close>

datatype OpaqueApiCursor = OpaqueApiCursor "u8 list"

record ApiCursor =
  ac_version :: "u64 \<times> u64"
  ac_next :: u64

record Bincode =
  bc_serialize :: "ApiCursor \<Rightarrow> u8 list"
  bc_deserialize :: "u8 list \<Rightarrow> ApiCursor option"

fun api_cursor_try_from :: "Bincode \<Rightarrow> OpaqueApiCursor \<Rightarrow> ApiCursor option" where
  "api_cursor_try_from bc (OpaqueApiCursor item) = bc_deserialize bc item"

definition opaque_from :: "Bincode \<Rightarrow> ApiCursor \<Rightarrow> OpaqueApiCursor" where
  "opaque_from bc item = OpaqueApiCursor (bc_serialize bc item)"

text \<open>
  The two count queries have the same fields, as have the two item queries and the two queries
  of one target.
\<close>

record CountQuery =
  cq_target :: string
  cq_collection :: string
  cq_path :: string

record ItemsQuery =
  iq_target :: string
  iq_collection :: string
  iq_path :: string
  iq_cursor :: "OpaqueApiCursor option"
  iq_limit :: "u64 option"

datatype TargetQuery = TargetQuery (tq_target: string)

record GetLinkItemsResponse =
  li_total :: u64
  li_linking_records :: "RecordId list"
  li_cursor :: "OpaqueApiCursor option"

record GetDidItemsResponse =
  di_total :: u64
  di_linking_dids :: "Did list"
  di_cursor :: "OpaqueApiCursor option"

record HelloReponse =
  he_days_indexed :: nat
  he_stats :: StorageStats

datatype Body =
    HelloBody HelloReponse
  | LinksCountBody u64 CountQuery
  | DidsCountBody u64 CountQuery
  | LinkItemsBody GetLinkItemsResponse ItemsQuery
  | DidItemsBody GetDidItemsResponse ItemsQuery
  | AllLinksBody "(string, (string, u64) hashmap) hashmap" TargetQuery
  | ExploreLinksBody "(string, (string, CountsByCount) hashmap) hashmap" TargetQuery

datatype StatusCode = BAD_REQUEST | NOT_FOUND | INTERNAL_SERVER_ERROR

text \<open>What the client gets; a panic of the handler drops the connection.\<close>

datatype Response =
    Json Body
  | Html string
  | Plain string
  | Status StatusCode
  | ConnectionReset

section \<open>acceptable.rs\<close>

datatype MediaType = APPLICATION_JSON | TEXT_HTML

definition AVAILABLE :: "MediaType list" where
  "AVAILABLE = [APPLICATION_JSON, TEXT_HTML]"

text \<open>
  \<open>'acc\<close> is a parsed \<open>Accept\<close> header; \<open>ax_query\<close> fields are axum's extractors of the query
  string, \<open>ax_now\<close> the system time in whole seconds.
\<close>

record ('acc, 'q) Axum =
  ax_negotiate :: "'acc \<Rightarrow> MediaType list \<Rightarrow> MediaType option"
  ax_render :: "Body \<Rightarrow> string option"
  ax_count_query :: "'q \<Rightarrow> CountQuery option"
  ax_items_query :: "'q \<Rightarrow> ItemsQuery option"
  ax_target_query :: "'q \<Rightarrow> TargetQuery option"
  ax_now :: nat
  ax_bincode :: Bincode

definition acceptable :: "('acc, 'q) Axum \<Rightarrow> 'acc option \<Rightarrow> Body \<Rightarrow> Response" where
  "acceptable ax accept thing =
     (case accept of
        None \<Rightarrow> Json thing
      | Some accepting \<Rightarrow>
          if ax_negotiate ax accepting AVAILABLE = Some TEXT_HTML
          then (case ax_render ax thing of
                  Some content \<Rightarrow> Html content
                | None \<Rightarrow> Status INTERNAL_SERVER_ERROR)
          else Json thing)"

text \<open>\<open>store.call().map_err(|_| INTERNAL_SERVER_ERROR)?\<close> and the rest of the handler.\<close>

fun with_store :: "'a StoreResult \<Rightarrow> ('a \<Rightarrow> Response) \<Rightarrow> Response" where
  "with_store (Returns x) k = k x"
| "with_store Errs k = Status INTERNAL_SERVER_ERROR"
| "with_store Panics k = ConnectionReset"

section \<open>The handlers\<close>

definition robots :: Response where
  "robots = Plain (''User-agent: *'' @ [CHR 0x0A] @ ''Disallow: /links'' @ [CHR 0x0A] @
     ''Disallow: /links/'' @ [CHR 0x0A] @ ''    '')"

definition hello :: "('acc, 'q) Axum \<Rightarrow> 'acc option \<Rightarrow> LinkReader \<Rightarrow> Response" where
  "hello ax accept store =
     with_store (lr_get_stats store) (\<lambda>stats.
       if ax_now ax < INDEX_BEGAN_AT_TS then Status INTERNAL_SERVER_ERROR
       else acceptable ax accept
              (HelloBody \<lparr>he_days_indexed = (ax_now ax - INDEX_BEGAN_AT_TS) div 86400, he_stats = stats\<rparr>))"

definition api_count_links :: "('acc, 'q) Axum \<Rightarrow> 'acc option \<Rightarrow> CountQuery \<Rightarrow> LinkReader \<Rightarrow> Response" where
  "api_count_links ax accept query store =
     with_store (lr_get_count store (cq_target query) (cq_collection query) (cq_path query))
       (\<lambda>tot. acceptable ax accept (LinksCountBody tot query))"

definition api_count_distinct_dids :: "('acc, 'q) Axum \<Rightarrow> 'acc option \<Rightarrow> CountQuery \<Rightarrow> LinkReader \<Rightarrow> Response" where
  "api_count_distinct_dids ax accept query store =
     with_store (lr_get_distinct_did_count store (cq_target query) (cq_collection query) (cq_path query))
       (\<lambda>tot. acceptable ax accept (DidsCountBody tot query))"

text \<open>The cursor and limit checks both item handlers make before they ask the store.\<close>

definition page_request :: "Bincode \<Rightarrow> ItemsQuery \<Rightarrow> StatusCode + (u64 option \<times> u64)" where
  "page_request bc query =
     (let limit = (case iq_limit query of Some l \<Rightarrow> l | None \<Rightarrow> DEFAULT_CURSOR_LIMIT) in
      case iq_cursor query of
        None \<Rightarrow> if limit > DEFAULT_CURSOR_LIMIT_MAX then Inl BAD_REQUEST else Inr (None, limit)
      | Some oc \<Rightarrow>
          (case api_cursor_try_from bc oc of
             None \<Rightarrow> Inl BAD_REQUEST
           | Some c \<Rightarrow>
               if limit > DEFAULT_CURSOR_LIMIT_MAX then Inl BAD_REQUEST
               else Inr (Some (ac_next c), limit)))"

definition page_cursor :: "Bincode \<Rightarrow> 'a PagedAppendingCollection \<Rightarrow> OpaqueApiCursor option" where
  "page_cursor bc paged =
     map_option (\<lambda>n. opaque_from bc \<lparr>ac_version = pac_version paged, ac_next = n\<rparr>) (pac_next paged)"

definition api_get_links :: "('acc, 'q) Axum \<Rightarrow> 'acc option \<Rightarrow> ItemsQuery \<Rightarrow> LinkReader \<Rightarrow> Response" where
  "api_get_links ax accept query store =
     (case page_request (ax_bincode ax) query of
        Inl status \<Rightarrow> Status status
      | Inr (until, limit) \<Rightarrow>
          with_store (lr_get_links store (iq_target query) (iq_collection query) (iq_path query) limit until)
            (\<lambda>paged. acceptable ax accept
               (LinkItemsBody
                 \<lparr>li_total = pac_total paged, li_linking_records = pac_items paged,
                  li_cursor = page_cursor (ax_bincode ax) paged\<rparr> query)))"

definition api_get_distinct_dids :: "('acc, 'q) Axum \<Rightarrow> 'acc option \<Rightarrow> ItemsQuery \<Rightarrow> LinkReader \<Rightarrow> Response" where
  "api_get_distinct_dids ax accept query store =
     (case page_request (ax_bincode ax) query of
        Inl status \<Rightarrow> Status status
      | Inr (until, limit) \<Rightarrow>
          with_store (lr_get_distinct_dids store (iq_target query) (iq_collection query) (iq_path query) limit until)
            (\<lambda>paged. acceptable ax accept
               (DidItemsBody
                 \<lparr>di_total = pac_total paged, di_linking_dids = pac_items paged,
                  di_cursor = page_cursor (ax_bincode ax) paged\<rparr> query)))"

definition api_count_all_links :: "('acc, 'q) Axum \<Rightarrow> 'acc option \<Rightarrow> TargetQuery \<Rightarrow> LinkReader \<Rightarrow> Response" where
  "api_count_all_links ax accept query store =
     with_store (lr_get_all_record_counts store (tq_target query))
       (\<lambda>links. acceptable ax accept (AllLinksBody links query))"

definition api_explore_links :: "('acc, 'q) Axum \<Rightarrow> 'acc option \<Rightarrow> TargetQuery \<Rightarrow> LinkReader \<Rightarrow> Response" where
  "api_explore_links ax accept query store =
     with_store (lr_get_all_counts store (tq_target query))
       (\<lambda>links. acceptable ax accept (ExploreLinksBody links query))"

section \<open>The router\<close>

text \<open>A query string the extractor rejects is answered by axum with 400, an unknown path with 404.\<close>

definition extracted :: "'a option \<Rightarrow> ('a \<Rightarrow> Response) \<Rightarrow> Response" where
  "extracted q handler = (case q of None \<Rightarrow> Status BAD_REQUEST | Some query \<Rightarrow> handler query)"

datatype Endpoint =
    Robots | Hello | CountLinks | CountDistinctDids | GetLinks | GetDistinctDids | CountAllLinks | ExploreLinks

definition routes :: "(string \<times> Endpoint) list" where
  "routes =
     [(''/robots.txt'', Robots),
      (''/'', Hello),
      (''/links/count'', CountLinks),
      (''/links/count/distinct-dids'', CountDistinctDids),
      (''/links'', GetLinks),
      (''/links/distinct-dids'', GetDistinctDids),
      (''/links/all/count'', CountAllLinks),
      (''/links/all'', ExploreLinks)]"

definition serve :: "('acc, 'q) Axum \<Rightarrow> LinkReader \<Rightarrow> string \<Rightarrow> 'acc option \<Rightarrow> 'q \<Rightarrow> Response" where
  "serve ax store path accept q =
     (case map_of routes path of
        None \<Rightarrow> Status NOT_FOUND
      | Some Robots \<Rightarrow> robots
      | Some Hello \<Rightarrow> hello ax accept store
      | Some CountLinks \<Rightarrow> extracted (ax_count_query ax q) (\<lambda>query. api_count_links ax accept query store)
      | Some CountDistinctDids \<Rightarrow>
          extracted (ax_count_query ax q) (\<lambda>query. api_count_distinct_dids ax accept query store)
      | Some GetLinks \<Rightarrow> extracted (ax_items_query ax q) (\<lambda>query. api_get_links ax accept query store)
      | Some GetDistinctDids \<Rightarrow>
          extracted (ax_items_query ax q) (\<lambda>query. api_get_distinct_dids ax accept query store)
      | Some CountAllLinks \<Rightarrow> extracted (ax_target_query ax q) (\<lambda>query. api_count_all_links ax accept query store)
      | Some ExploreLinks \<Rightarrow> extracted (ax_target_query ax q) (\<lambda>query. api_explore_links ax accept query store))"

section \<open>filters.rs\<close>

definition BROWSER :: string where
  "BROWSER = ''https://atproto-browser-plus-links.vercel.app/at/''"

definition to_browseable ::
  "(string \<Rightarrow> string option) \<Rightarrow> (string \<Rightarrow> string option) \<Rightarrow> string \<Rightarrow> string option" where
  "to_browseable resolve_path uri_norm s =
     (case parse_any_link resolve_path uri_norm s of
        None \<Rightarrow> None
      | Some (AtUri at_uri) \<Rightarrow> map_option (\<lambda>noproto. BROWSER @ noproto) (strip_prefix ''at://'' at_uri)
      | Some (LDid did) \<Rightarrow> Some (BROWSER @ did)
      | Some (Uri uri) \<Rightarrow> Some uri)"

text \<open>Every link has a page to browse, since the at-uris the parser returns start with \<open>at://\<close>.\<close>

lemma to_browseable_iff:
  "to_browseable resolve_path uri_norm s \<noteq> None \<longleftrightarrow> parse_any_link resolve_path uri_norm s \<noteq> None"
proof -
  have "strip_prefix ''at://'' u \<noteq> None" if "parse_at_uri resolve_path s = Some u" for u
    using that by (rule parse_at_uri_parts) (simp add: strip_prefix_def starts_with_def)
  then show ?thesis
    by (auto simp: to_browseable_def parse_any_link_def split: option.splits)
qed

end
