(* ===== verification/Constellation_Api.thy ===== *)
theory Constellation_Api
  imports Constellation_Consumer Constellation_Serve
begin

text \<open>
  The HTTP interface of \<open>constellation\<close>: what the paging handlers promise to a client over any
  store that pages as the two stores do, and that a client sees exactly the links of the events
  consumed.
\<close>

section \<open>Pages over the HTTP interface\<close>

text \<open>
  One request of a client for a page, at the level shared by the two paging handlers: the checks,
  the call of the store, the cursor of the answer.
\<close>

definition items_query :: "string \<Rightarrow> string \<Rightarrow> string \<Rightarrow> u64 option \<Rightarrow> OpaqueApiCursor option \<Rightarrow> ItemsQuery" where
  "items_query t c p limit cur =
     \<lparr>iq_target = t, iq_collection = c, iq_path = p, iq_cursor = cur, iq_limit = limit\<rparr>"

definition ask_page ::
  "Bincode \<Rightarrow> (u64 \<Rightarrow> u64 option \<Rightarrow> 'a PagedAppendingCollection StoreResult) \<Rightarrow> u64 option \<Rightarrow>
     OpaqueApiCursor option \<Rightarrow> ('a list \<times> OpaqueApiCursor option) option" where
  "ask_page bc get_page limit cur =
     (case page_request bc (items_query [] [] [] limit cur) of
        Inl _ \<Rightarrow> None
      | Inr (until, l) \<Rightarrow>
          (case get_page l until of
             Returns paged \<Rightarrow> Some (pac_items paged, page_cursor bc paged)
           | _ \<Rightarrow> None))"

text \<open>A client that follows the cursors it is given; the fuel is the number of requests it may make.\<close>

fun follow_cursors ::
  "nat \<Rightarrow> (OpaqueApiCursor option \<Rightarrow> ('a list \<times> OpaqueApiCursor option) option) \<Rightarrow> OpaqueApiCursor option \<Rightarrow> 'a list option"
where
  "follow_cursors 0 ask cur = None"
| "follow_cursors (Suc fuel) ask cur =
     (case ask cur of
        None \<Rightarrow> None
      | Some (items, None) \<Rightarrow> Some items
      | Some (items, Some c) \<Rightarrow> map_option (\<lambda>rest. items @ rest) (follow_cursors fuel ask (Some c)))"

definition bincode_ok :: "Bincode \<Rightarrow> bool" where
  "bincode_ok bc \<longleftrightarrow> (\<forall>c. bc_deserialize bc (bc_serialize bc c) = Some c)"

lemma page_request_ok:
  assumes "l \<le> 100"
  shows "page_request bc (items_query t c p (Some l) None) = Inr (None, l)"
    and "bincode_ok bc \<Longrightarrow>
      page_request bc (items_query t c p (Some l) (Some (opaque_from bc \<lparr>ac_version = v, ac_next = n\<rparr>))) = Inr (Some n, l)"
  using assms
  by (simp_all add: page_request_def items_query_def opaque_from_def bincode_ok_def DEFAULT_CURSOR_LIMIT_MAX_def not_less)

lemma length_map_filter_le: "length (List.map_filter f xs) \<le> length xs"
  by (simp add: List.map_filter_def)

lemma map_filter_append: "List.map_filter f (xs @ ys) = List.map_filter f xs @ List.map_filter f ys"
  by (simp add: List.map_filter_def)

text \<open>
  What the handlers rely on: a store lays the links of a source out in slots, shows some of them,
  and a page is a window of the slots, newest first, with a cursor at its old end.
\<close>

locale paged_store =
  fixes valid :: "'s \<Rightarrow> bool"
    and get_page :: "'s \<Rightarrow> string \<Rightarrow> string \<Rightarrow> string \<Rightarrow> u64 \<Rightarrow> u64 option \<Rightarrow> 'a PagedAppendingCollection StoreResult"
    and slots :: "'s \<Rightarrow> string \<Rightarrow> string \<Rightarrow> string \<Rightarrow> 'b list"
    and shown :: "'s \<Rightarrow> string \<Rightarrow> 'b \<Rightarrow> 'a option"
  assumes window: "valid s \<Longrightarrow> page_bounds (length (slots s t c p)) limit until = (b, e) \<Longrightarrow>
      \<exists>v n. get_page s t c p limit until =
        Returns \<lparr>pac_version = v, pac_items = List.map_filter (shown s c) (rev (slice b e (slots s t c p))),
                 pac_next = next_cursor b, pac_total = n\<rparr>"
    and room: "valid s \<Longrightarrow> length (slots s t c p) < 2 ^ 64"
begin

lemma page_length:
  assumes "valid s" "get_page s t c p limit until = Returns paged"
  shows "length (pac_items paged) \<le> unat limit"
proof -
  obtain b e where be: "page_bounds (length (slots s t c p)) limit until = (b, e)" by force
  then have "e - b \<le> unat limit" by (auto simp: page_bounds_def Let_def)
  moreover have "length (slice b e (slots s t c p)) \<le> e - b" by (simp add: slice_def)
  ultimately show ?thesis
    using window [OF assms(1) be] assms(2) length_map_filter_le [of "shown s c" "rev (slice b e (slots s t c p))"]
    by auto
qed

lemma ask_window:
  assumes "valid s" "bincode_ok bc" "l \<le> 100" "e \<le> length (slots s t c p)"
    and cur: "cur = Some (opaque_from bc \<lparr>ac_version = v, ac_next = of_nat e\<rparr>) \<or> (cur = None \<and> e = length (slots s t c p))"
  shows "\<exists>v'. ask_page bc (get_page s t c p) (Some l) cur =
    Some (List.map_filter (shown s c) (rev (slice (e - unat l) e (slots s t c p))),
      if e - unat l = 0 then None else Some (opaque_from bc \<lparr>ac_version = v', ac_next = of_nat (e - unat l)\<rparr>))"
proof -
  have e: "unat (of_nat e :: u64) = e" using assms(4) room [OF assms(1), of t c p] by (simp add: unat_of_nat_u64)
  obtain until where req: "page_request bc (items_query [] [] [] (Some l) cur) = Inr (until, l)"
    and be: "page_bounds (length (slots s t c p)) l until = (e - unat l, e)"
    using cur
  proof
    assume "cur = Some (opaque_from bc \<lparr>ac_version = v, ac_next = of_nat e\<rparr>)"
    then show thesis using that [of "Some (of_nat e)"] page_request_ok(2) [OF assms(3,2)] assms(4) e
      by (simp add: page_bounds_def)
  next
    assume "cur = None \<and> e = length (slots s t c p)"
    then show thesis using that [of None] page_request_ok(1) [OF assms(3)] by (simp add: page_bounds_def Let_def)
  qed
  from window [OF assms(1) be] obtain v' n where
    "get_page s t c p l until = Returns \<lparr>pac_version = v', pac_items =
       List.map_filter (shown s c) (rev (slice (e - unat l) e (slots s t c p))),
       pac_next = next_cursor (e - unat l), pac_total = n\<rparr>" by blast
  with req show ?thesis by (intro exI [of _ v']) (simp add: ask_page_def page_cursor_def next_cursor_def)
qed

lemma follow_from:
  assumes "valid s" "bincode_ok bc" "0 < l" "l \<le> 100"
  shows "e \<le> length (slots s t c p) \<Longrightarrow> e < fuel \<Longrightarrow>
    cur = Some (opaque_from bc \<lparr>ac_version = v, ac_next = of_nat e\<rparr>) \<or> (cur = None \<and> e = length (slots s t c p)) \<Longrightarrow>
    follow_cursors fuel (ask_page bc (get_page s t c p) (Some l)) cur =
      Some (List.map_filter (shown s c) (rev (take e (slots s t c p))))"
proof (induction fuel arbitrary: e cur v)
  case (Suc fuel)
  define b where "b = e - unat l"
  from ask_window [OF assms(1,2,4) Suc.prems(1,3)] obtain v' where
    ask: "ask_page bc (get_page s t c p) (Some l) cur =
      Some (List.map_filter (shown s c) (rev (slice b e (slots s t c p))),
        if b = 0 then None else Some (opaque_from bc \<lparr>ac_version = v', ac_next = of_nat b\<rparr>))"
    unfolding b_def by blast
  have items: "List.map_filter (shown s c) (rev (take e (slots s t c p))) =
      List.map_filter (shown s c) (rev (slice b e (slots s t c p))) @
      List.map_filter (shown s c) (rev (take b (slots s t c p)))"
    using slice_split [of b e "slots s t c p"] by (simp add: b_def map_filter_append)
  have "unat l > 0" using assms(3) by (simp add: unat_gt_0 word_neq_0_conv)
  then have "b \<noteq> 0 \<Longrightarrow> b < e" by (simp add: b_def)
  then have "b \<noteq> 0 \<Longrightarrow> follow_cursors fuel (ask_page bc (get_page s t c p) (Some l))
      (Some (opaque_from bc \<lparr>ac_version = v', ac_next = of_nat b\<rparr>)) =
      Some (List.map_filter (shown s c) (rev (take b (slots s t c p))))"
    using Suc.IH [of b] Suc.prems by simp
  then show ?case using ask items by (cases "b = 0") (simp_all add: map_filter_simps)
qed simp

text \<open>Following the cursors shows every slot exactly once.\<close>

lemma follow_all:
  assumes "valid s" "bincode_ok bc" "0 < l" "l \<le> 100"
  shows "follow_cursors (Suc (length (slots s t c p))) (ask_page bc (get_page s t c p) (Some l)) None =
    Some (List.map_filter (shown s c) (rev (slots s t c p)))"
  using follow_from [OF assms, of "length (slots s t c p)" t c p "Suc (length (slots s t c p))" None] by simp

text \<open>A page of no items leads to itself.\<close>

lemma limit_zero:
  assumes "valid s" "bincode_ok bc" "slots s t c p \<noteq> []"
  shows "follow_cursors fuel (ask_page bc (get_page s t c p) (Some 0)) None = None"
proof -
  let ?e = "length (slots s t c p)"
  have "follow_cursors fuel (ask_page bc (get_page s t c p) (Some 0)) cur = None"
    if "cur = Some (opaque_from bc \<lparr>ac_version = v, ac_next = of_nat ?e\<rparr>) \<or> cur = None" for cur v
    using that
  proof (induction fuel arbitrary: cur v)
    case (Suc fuel)
    then have "cur = Some (opaque_from bc \<lparr>ac_version = v, ac_next = of_nat ?e\<rparr>) \<or> (cur = None \<and> ?e = ?e)" by simp
    from ask_window [OF assms(1,2) _ order_refl this, of 0] assms(3) obtain v' where
      "ask_page bc (get_page s t c p) (Some 0) cur =
        Some ([], Some (opaque_from bc \<lparr>ac_version = v', ac_next = of_nat ?e\<rparr>))"
      by (auto simp: slice_def map_filter_simps)
    with Suc.IH show ?case by simp
  qed simp
  then show ?thesis by blast
qed

end

text \<open>Both stores page this way, for links and for accounts.\<close>

definition mem_servable :: "MemStorageData \<Rightarrow> bool" where
  "mem_servable d \<longleftrightarrow> mem_inv d \<and> (\<forall>t c p. length (linkers_of d t (c, p)) < 2 ^ 64)"

definition mem_shown :: "MemStorageData \<Rightarrow> string \<Rightarrow> (Did \<times> string) option \<Rightarrow> RecordId option" where
  "mem_shown d c y =
     (case y of None \<Rightarrow> None
      | Some (did, rkey) \<Rightarrow>
          if hm_get (md_dids d) did = Some True
          then Some \<lparr>rid_did = did, rid_collection = c, rid_rkey = rkey\<rparr> else None)"

definition mem_did_shown :: "MemStorageData \<Rightarrow> string \<Rightarrow> Did option \<Rightarrow> Did option" where
  "mem_did_shown d c y =
     (case y of None \<Rightarrow> None | Some did \<Rightarrow> if hm_get (md_dids d) did = Some True then Some did else None)"

interpretation mem_links: paged_store mem_servable "\<lambda>d. lr_get_links (mem_reader d)"
  "\<lambda>d t c p. linkers_of d t (c, p)" mem_shown
proof unfold_locales
  fix d t c p limit until b e
  assume "mem_servable d" and be: "page_bounds (length (linkers_of d t (c, p))) limit until = (b, e)"
  then have "mem_inv d" by (simp add: mem_servable_def)
  from mem_get_links_eq [OF this refl be]
  show "\<exists>v n. lr_get_links (mem_reader d) t c p limit until =
      Returns \<lparr>pac_version = v, pac_items = List.map_filter (mem_shown d c) (rev (slice b e (linkers_of d t (c, p)))),
        pac_next = next_cursor b, pac_total = n\<rparr>"
    by (simp add: mem_reader_def live_items_map_filter mem_shown_def [abs_def])
qed (simp add: mem_servable_def)

interpretation mem_dids: paged_store mem_servable "\<lambda>d. lr_get_distinct_dids (mem_reader d)"
  "\<lambda>d t c p. dedup_dids [] (linkers_of d t (c, p))" mem_did_shown
proof unfold_locales
  fix d t c p limit until b e
  assume d: "mem_servable d" and be: "page_bounds (length (dedup_dids [] (linkers_of d t (c, p)))) limit until = (b, e)"
  from mem_distinct_page [OF _ be] d
  show "\<exists>v n. lr_get_distinct_dids (mem_reader d) t c p limit until =
      Returns \<lparr>pac_version = v, pac_items = List.map_filter (mem_did_shown d c)
          (rev (slice b e (dedup_dids [] (linkers_of d t (c, p))))),
        pac_next = next_cursor b, pac_total = n\<rparr>"
    by (auto simp add: mem_reader_def mem_servable_def filter_flatten_map_filter mem_did_shown_def [abs_def])
qed (simp add: mem_servable_def dedup_length)

definition rocks_servable :: "RocksStorage \<Rightarrow> bool" where
  "rocks_servable s \<longleftrightarrow> (\<forall>t c p. length (key_linkers s (t, c, p)) < 2 ^ 64)"

definition rocks_shown :: "RocksStorage \<Rightarrow> string \<Rightarrow> DidId \<times> string \<Rightarrow> RecordId option" where
  "rocks_shown s c = (\<lambda>(did_id, rkey). map_option
     (\<lambda>did. \<lparr>rid_did = did, rid_collection = c, rid_rkey = rkey\<rparr>) (resolve_linker s did_id))"

lemma zero_duplicates_length: "length (zero_duplicates seen ls) = length ls"
  by (induction seen ls rule: zero_duplicates.induct) auto

lemma page_empty: "page_bounds 0 limit until = (b, e) \<Longrightarrow>
    empty_page = \<lparr>pac_version = (0, 0), pac_items = List.map_filter f (rev (slice b e [])), pac_next = next_cursor b, pac_total = 0\<rparr>"
  by (auto simp: empty_page_def page_bounds_def slice_def next_cursor_def map_filter_simps Let_def split: option.splits)

interpretation rocks_links: paged_store rocks_servable "\<lambda>s. lr_get_links (rocks_reader enc est s)"
  "\<lambda>s t c p. key_linkers s (t, c, p)" rocks_shown for enc est
proof unfold_locales
  fix s t c p limit until b e
  assume s: "rocks_servable s" and be: "page_bounds (length (key_linkers s (t, c, p))) limit until = (b, e)"
  then have "length (key_linkers s (t, c, p)) < 2 ^ 64" by (simp add: rocks_servable_def)
  with be show "\<exists>v n. lr_get_links (rocks_reader enc est s) t c p limit until =
      Returns \<lparr>pac_version = v, pac_items = List.map_filter (rocks_shown s c) (rev (slice b e (key_linkers s (t, c, p)))),
        pac_next = next_cursor b, pac_total = n\<rparr>"
    by (cases "target_id_val s (t, c, p)")
      (simp_all add: rocks_reader_def rocks_get_links_def key_linkers_def rocks_shown_def
        page_empty [where f = "rocks_shown s c"] rocks_page_window [OF _ refl])
qed (simp add: rocks_servable_def)

interpretation rocks_dids: paged_store rocks_servable "\<lambda>s. lr_get_distinct_dids (rocks_reader enc est s)"
  "\<lambda>s t c p. zero_duplicates [] (key_linkers s (t, c, p))" "\<lambda>s c (did_id, rkey). resolve_linker s did_id" for enc est
proof unfold_locales
  fix s t c p limit until b e
  assume s: "rocks_servable s"
    and be: "page_bounds (length (zero_duplicates [] (key_linkers s (t, c, p)))) limit until = (b, e)"
  then have "length (zero_duplicates [] (key_linkers s (t, c, p))) < 2 ^ 64"
    by (simp add: rocks_servable_def zero_duplicates_length)
  with be show "\<exists>v n. lr_get_distinct_dids (rocks_reader enc est s) t c p limit until =
      Returns \<lparr>pac_version = v, pac_items = List.map_filter (\<lambda>(did_id, rkey). resolve_linker s did_id)
          (rev (slice b e (zero_duplicates [] (key_linkers s (t, c, p))))),
        pac_next = next_cursor b, pac_total = n\<rparr>"
    by (cases "target_id_val s (t, c, p)")
      (auto simp: rocks_reader_def rocks_get_distinct_dids_def get_distinct_target_linkers_def key_linkers_def
        rocks_page_window [OF _ refl] dest!: page_empty [where f = "\<lambda>(did_id, rkey). resolve_linker s did_id"])
qed (simp add: rocks_servable_def zero_duplicates_length)

section \<open>From events to answers\<close>

text \<open>One request to each of the paging handlers, without an \<open>Accept\<close> header.\<close>

definition ask_links ::
  "('acc, 'q) Axum \<Rightarrow> LinkReader \<Rightarrow> string \<Rightarrow> string \<Rightarrow> string \<Rightarrow> u64 option \<Rightarrow> OpaqueApiCursor option \<Rightarrow>
     (RecordId list \<times> OpaqueApiCursor option) option" where
  "ask_links ax store t c p limit cur =
     (case api_get_links ax None (items_query t c p limit cur) store of
        Json (LinkItemsBody r _) \<Rightarrow> Some (li_linking_records r, li_cursor r)
      | _ \<Rightarrow> None)"

definition ask_dids ::
  "('acc, 'q) Axum \<Rightarrow> LinkReader \<Rightarrow> string \<Rightarrow> string \<Rightarrow> string \<Rightarrow> u64 option \<Rightarrow> OpaqueApiCursor option \<Rightarrow>
     (Did list \<times> OpaqueApiCursor option) option" where
  "ask_dids ax store t c p limit cur =
     (case api_get_distinct_dids ax None (items_query t c p limit cur) store of
        Json (DidItemsBody r _) \<Rightarrow> Some (di_linking_dids r, di_cursor r)
      | _ \<Rightarrow> None)"

lemma ask_page_eq:
  "ask_links ax store t c p limit = ask_page (ax_bincode ax) (lr_get_links store t c p) limit"
  "ask_dids ax store t c p limit = ask_page (ax_bincode ax) (lr_get_distinct_dids store t c p) limit"
proof -
  have req: "page_request bc (items_query t c p limit cur) = page_request bc (items_query [] [] [] limit cur)" for bc cur
    by (simp add: page_request_def items_query_def)
  have sel: "iq_target (items_query t c p limit cur) = t" "iq_collection (items_query t c p limit cur) = c"
    "iq_path (items_query t c p limit cur) = p" for cur by (simp_all add: items_query_def)
  show "ask_links ax store t c p limit = ask_page (ax_bincode ax) (lr_get_links store t c p) limit"
    by (rule ext) (simp add: ask_links_def ask_page_def api_get_links_def acceptable_def req sel
        split: sum.split prod.split StoreResult.split)
  show "ask_dids ax store t c p limit = ask_page (ax_bincode ax) (lr_get_distinct_dids store t c p) limit"
    by (rule ext) (simp add: ask_dids_def ask_page_def api_get_distinct_dids_def acceptable_def req sel
        split: sum.split prod.split StoreResult.split)
qed

text \<open>The events the consumer acts on, and the abstract index they make.\<close>

definition actionable_events :: "(string \<Rightarrow> Link option) \<Rightarrow> JsonValue list \<Rightarrow> (ActionableEvent \<times> u64) list" where
  "actionable_events parse updates = List.map_filter (get_actionable parse) updates"

definition index_of :: "(string \<Rightarrow> Link option) \<Rightarrow> JsonValue list \<Rightarrow> link_spec" where
  "index_of parse updates = fold (spec_push \<circ> fst) (actionable_events parse updates) empty_index"

text \<open>How often a record is shown among the links of a source, and the accounts shown.\<close>

definition spec_shown :: "link_spec \<Rightarrow> string \<Rightarrow> string \<Rightarrow> string \<Rightarrow> RecordId \<Rightarrow> nat" where
  "spec_shown sp t c p r =
     (if rid_collection r = c \<and> ls_active sp (rid_did r) = Some True
      then count_list (ls_links sp (rid_did r) (c, rid_rkey r)) (p, t) else 0)"

definition spec_dids_shown :: "link_spec \<Rightarrow> string \<Rightarrow> string \<Rightarrow> string \<Rightarrow> Did set" where
  "spec_dids_shown sp t c p =
     {did. ls_active sp did = Some True \<and> (\<exists>rkey. (p, t) \<in> set (ls_links sp did (c, rkey)))}"

lemma consume_updates_run:
  "consume_updates parse mem_push updates d = mem_run (actionable_events parse updates) d"
  "consume_updates parse (rocks_push enc) updates s = rocks_run enc (actionable_events parse updates) s"
proof -
  have "fold_res (consume_update parse mem_push) us d = mem_run (List.map_filter (get_actionable parse) us) d" for us d
    by (induction us arbitrary: d)
      (auto simp: consume_update_def map_filter_simps and_then_def split: option.split sum.split)
  then show "consume_updates parse mem_push updates d = mem_run (actionable_events parse updates) d"
    by (simp add: consume_updates_def actionable_events_def)
  have "fold_res (consume_update parse (rocks_push enc)) us s = rocks_run enc (List.map_filter (get_actionable parse) us) s" for us s
    by (induction us arbitrary: s)
      (auto simp: consume_update_def map_filter_simps and_then_def split: option.split sum.split)
  then show "consume_updates parse (rocks_push enc) updates s = rocks_run enc (actionable_events parse updates) s"
    by (simp add: consume_updates_def actionable_events_def)
qed

lemma count_shown:
  "count_list (List.map_filter (mem_shown d c) xs) r =
     (if rid_collection r = c \<and> hm_get (md_dids d) (rid_did r) = Some True
      then count_list xs (Some (rid_did r, rid_rkey r)) else 0)"
proof (induction xs)
  case (Cons y xs)
  have "mem_shown d c y = Some r \<longleftrightarrow> rid_collection r = c \<and> hm_get (md_dids d) (rid_did r) = Some True \<and>
      y = Some (rid_did r, rid_rkey r)"
    by (auto simp: mem_shown_def split: option.splits)
  with Cons show ?case by (auto simp: map_filter_simps split: option.split)
qed (simp add: map_filter_simps)

lemma dedup_flatten:
  "distinct (flatten_opts (dedup_dids seen ls))"
  "set (flatten_opts (dedup_dids seen ls)) = fst ` set (flatten_opts ls) - set seen"
proof -
  have "distinct (flatten_opts (dedup_dids seen ls)) \<and>
      set (flatten_opts (dedup_dids seen ls)) = fst ` set (flatten_opts ls) - set seen"
    by (induction seen ls rule: dedup_dids.induct) auto
  then show "distinct (flatten_opts (dedup_dids seen ls))"
    "set (flatten_opts (dedup_dids seen ls)) = fst ` set (flatten_opts ls) - set seen" by blast+
qed

lemma mem_answers:
  assumes d: "mem_servable d" and bc: "bincode_ok (ax_bincode ax)" and l: "0 < l" "l \<le> 100"
  shows "\<exists>fuel links dids.
    follow_cursors fuel (ask_links ax (mem_reader d) t c p (Some l)) None = Some links \<and>
    follow_cursors fuel (ask_dids ax (mem_reader d) t c p (Some l)) None = Some dids \<and>
    (\<forall>r. count_list links r = spec_shown (mem_abs d) t c p r) \<and>
    distinct dids \<and> set dids = spec_dids_shown (mem_abs d) t c p"
proof -
  let ?ls = "linkers_of d t (c, p)"
  define links where "links = List.map_filter (mem_shown d c) (rev ?ls)"
  define dids where "dids = List.map_filter (mem_did_shown d c) (rev (dedup_dids [] ?ls))"
  have inv: "mem_inv d" using d by (simp add: mem_servable_def)
  have "count_list links r = spec_shown (mem_abs d) t c p r" for r
    using mem_inv_cnt [OF inv, of "rid_did r" "(c, rid_rkey r)" p t]
    by (simp add: links_def count_shown spec_shown_def mem_abs_def cnt_def count_list_rev)
  moreover have dids_eq: "dids = filter (\<lambda>did. hm_get (md_dids d) did = Some True) (rev (flatten_opts (dedup_dids [] ?ls)))"
    unfolding dids_def flatten_opts_rev [symmetric] filter_flatten_map_filter mem_did_shown_def [abs_def] by simp
  have "fst ` set (flatten_opts ?ls) = {did. \<exists>rkey. (p, t) \<in> set (links_of d did (c, rkey))}"
    unfolding linker_iff_link [OF inv, symmetric] by force
  then have "set dids = spec_dids_shown (mem_abs d) t c p"
    by (auto simp: dids_eq dedup_flatten spec_dids_shown_def mem_abs_def)
  moreover have "distinct dids" by (simp add: dids_eq dedup_flatten)
  moreover have "follow_cursors (Suc (length ?ls)) (ask_links ax (mem_reader d) t c p (Some l)) None = Some links"
    unfolding ask_page_eq links_def by (rule mem_links.follow_all [OF d bc l])
  moreover have "follow_cursors (Suc (length ?ls)) (ask_dids ax (mem_reader d) t c p (Some l)) None = Some dids"
    unfolding ask_page_eq dids_def using mem_dids.follow_all [OF d bc l, of t c p] by (simp add: dedup_length)
  ultimately show ?thesis by blast
qed

lemma mem_run_servable:
  assumes "mem_run es mem_new = Inr d" "mem_inv d" "run_size es < 2 ^ 64"
  shows "mem_servable d"
proof -
  have "length (linkers_of d t (c, p)) < 2 ^ 64" for t c p
    using mem_run_length [OF assms(1), of t "(c, p)"] assms(3)
    by (simp add: mem_new_def linkers_of_def mem_linkers_def)
  then show ?thesis using assms(2) by (simp add: mem_servable_def)
qed


text \<open>A concrete run: one record that links one page; the cursor codec writes every bit in a byte.\<close>

definition u64_bits :: "u64 \<Rightarrow> u8 list" where
  "u64_bits w = map (\<lambda>i. of_bool (bit w i)) [0..<64]"

definition bits_u64 :: "u8 list \<Rightarrow> u64" where
  "bits_u64 bs = horner_sum of_bool 2 (map (\<lambda>b. b \<noteq> 0) bs)"

definition ex_bincode :: Bincode where
  "ex_bincode =
     \<lparr>bc_serialize = \<lambda>c. u64_bits (fst (ac_version c)) @ u64_bits (snd (ac_version c)) @ u64_bits (ac_next c),
      bc_deserialize = \<lambda>bs. Some \<lparr>ac_version = (bits_u64 (take 64 bs), bits_u64 (take 64 (drop 64 bs))),
                                  ac_next = bits_u64 (drop 128 bs)\<rparr>\<rparr>"

lemma bits_u64_bits: "bits_u64 (u64_bits w) = w"
proof -
  have "map (\<lambda>b. b \<noteq> 0) (u64_bits w) = map (bit w) [0..<64]" by (simp add: u64_bits_def)
  then show ?thesis by (simp add: bits_u64_def horner_sum_bit_eq_take_bit take_bit_word_eq_self)
qed

lemma ex_bincode_ok: "bincode_ok ex_bincode"
proof -
  have "length (u64_bits w) = 64" for w by (simp add: u64_bits_def)
  then show ?thesis by (simp add: bincode_ok_def ex_bincode_def bits_u64_bits)
qed

definition ex_axum :: "(unit, unit) Axum" where
  "ex_axum = \<lparr>ax_negotiate = \<lambda>_ _. None, ax_render = \<lambda>_. None, ax_count_query = \<lambda>_. None,
     ax_items_query = \<lambda>_. Some (items_query ''e'' ''c'' ''.p'' None None), ax_target_query = \<lambda>_. None,
     ax_now = 0, ax_bincode = ex_bincode\<rparr>"

definition ex_parse :: "string \<Rightarrow> Link option" where
  "ex_parse s = (if s = ''e'' then Some (Uri s) else None)"

definition ex_updates :: "JsonValue list" where
  "ex_updates =
     [JObject [(''time_us'', JNumber 1), (''kind'', JString ''commit''), (''did'', JString ''did:a''),
        (''commit'', JObject [(''collection'', JString ''c''), (''rkey'', JString ''1''), (''operation'', JString ''create''),
           (''record'', JObject [(''p'', JString ''e'')])])],
      JObject [(''kind'', JString ''identity'')]]"

lemma ex_updates_events:
  "actionable_events ex_parse ex_updates =
     [(CreateLinks \<lparr>rid_did = Did ''did:a'', rid_collection = ''c'', rid_rkey = ''1''\<rparr>
         [\<lparr>cl_path = ''.p'', cl_target = Uri ''e''\<rparr>], 1)]"
  by (simp add: actionable_events_def ex_updates_def map_filter_simps get_actionable_def get_actionable_commit_def
      commit_record_id_def collect_links_def ex_parse_def f64_as_u64_def)

lemma ex_index_shown:
  "spec_shown (index_of ex_parse ex_updates) ''e'' ''c'' ''.p''
     \<lparr>rid_did = Did ''did:a'', rid_collection = ''c'', rid_rkey = ''1''\<rparr> = 1"
  by (simp add: index_of_def ex_updates_events spec_shown_def spec_know_def spec_set_links_def link_pair_def
      repo_id_from_record_id_def)




section \<open>Errors and limits\<close>

text \<open>A store whose every call returns.\<close>

definition reader_total :: "LinkReader \<Rightarrow> bool" where
  "reader_total store \<longleftrightarrow>
     (\<forall>t c p. \<exists>x. lr_get_count store t c p = Returns x) \<and>
     (\<forall>t c p. \<exists>x. lr_get_distinct_did_count store t c p = Returns x) \<and>
     (\<forall>t c p limit until. \<exists>x. lr_get_links store t c p limit until = Returns x) \<and>
     (\<forall>t c p limit until. \<exists>x. lr_get_distinct_dids store t c p limit until = Returns x) \<and>
     (\<forall>t. \<exists>x. lr_get_all_record_counts store t = Returns x) \<and>
     (\<forall>t. \<exists>x. lr_get_all_counts store t = Returns x) \<and>
     (\<exists>x. lr_get_stats store = Returns x)"

lemma reader_totalD:
  assumes "reader_total store"
  shows "\<exists>x. lr_get_count store t c p = Returns x" "\<exists>x. lr_get_distinct_did_count store t c p = Returns x"
    "\<exists>x. lr_get_links store t c p limit until = Returns x" "\<exists>x. lr_get_distinct_dids store t c p limit until = Returns x"
    "\<exists>x. lr_get_all_record_counts store t = Returns x" "\<exists>x. lr_get_all_counts store t = Returns x"
    "\<exists>x. lr_get_stats store = Returns x"
  using assms unfolding reader_total_def by blast+

lemma mem_reader_total:
  assumes "mem_inv d"
  shows "reader_total (mem_reader d)"
proof -
  have "\<exists>x. of_panic (mem_get_links d t c p limit until) = Returns x" for t c p limit until
    using mem_get_links_eq [OF assms refl, of t c p limit until]
    by (cases "page_bounds (length (linkers_of d t (c, p))) limit until") simp
  moreover have "\<exists>x. of_panic (mem_get_distinct_dids d t c p limit until) = Returns x" for t c p limit until
  proof -
    obtain b e where "page_bounds (length (dedup_dids [] (linkers_of d t (c, p)))) limit until = (b, e)" by force
    from mem_distinct_page [OF assms this] show ?thesis by auto
  qed
  ultimately show ?thesis by (simp add: reader_total_def mem_reader_def)
qed

lemma rocks_reader_total: "reader_total (rocks_reader enc est s)"
  by (simp add: reader_total_def rocks_reader_def)

text \<open>Neither refused nor dropped: an answer, or an internal error of the template or the clock.\<close>

definition served :: "Response \<Rightarrow> bool" where
  "served r \<longleftrightarrow> r \<notin> {ConnectionReset, Status BAD_REQUEST, Status NOT_FOUND}"

lemma with_store_served:
  "\<exists>x. call = Returns x \<Longrightarrow> served (with_store call (\<lambda>x. acceptable ax accept (f x)))"
  by (auto simp: served_def acceptable_def split: option.splits if_splits)

lemma handlers_served:
  assumes "reader_total store"
  shows "served (hello ax accept store)"
    "served (api_count_links ax accept cq store)" "served (api_count_distinct_dids ax accept cq store)"
    "served (api_count_all_links ax accept tq store)" "served (api_explore_links ax accept tq store)"
proof -
  show "served (hello ax accept store)" using reader_totalD(7) [OF assms]
    by (auto simp: hello_def served_def acceptable_def split: option.splits if_splits)
qed (unfold api_count_links_def api_count_distinct_dids_def api_count_all_links_def api_explore_links_def,
    (rule with_store_served reader_totalD [OF assms])+)

text \<open>The item queries that are refused.\<close>

definition bad_page :: "Bincode \<Rightarrow> ItemsQuery \<Rightarrow> bool" where
  "bad_page bc query \<longleftrightarrow>
     (\<exists>l. iq_limit query = Some l \<and> 100 < l) \<or> (\<exists>oc. iq_cursor query = Some oc \<and> api_cursor_try_from bc oc = None)"

lemma page_request_bad:
  "(\<exists>e. page_request bc query = Inl e) \<longleftrightarrow> bad_page bc query"
  "page_request bc query = Inl e \<Longrightarrow> e = BAD_REQUEST"
  by (auto simp: page_request_def bad_page_def Let_def DEFAULT_CURSOR_LIMIT_MAX_def DEFAULT_CURSOR_LIMIT_def
      split: option.splits if_splits)

lemma item_handlers_served:
  assumes "reader_total store"
  shows "if bad_page (ax_bincode ax) query then api_get_links ax accept query store = Status BAD_REQUEST
      else served (api_get_links ax accept query store)"
    "if bad_page (ax_bincode ax) query then api_get_distinct_dids ax accept query store = Status BAD_REQUEST
      else served (api_get_distinct_dids ax accept query store)"
proof -
  note served = with_store_served [OF reader_totalD(3) [OF assms]] with_store_served [OF reader_totalD(4) [OF assms]]
  show "if bad_page (ax_bincode ax) query then api_get_links ax accept query store = Status BAD_REQUEST
      else served (api_get_links ax accept query store)"
    "if bad_page (ax_bincode ax) query then api_get_distinct_dids ax accept query store = Status BAD_REQUEST
      else served (api_get_distinct_dids ax accept query store)"
    using page_request_bad [of "ax_bincode ax" query]
    by (cases "page_request (ax_bincode ax) query";
        auto simp: api_get_links_def api_get_distinct_dids_def served split: prod.split)+
qed

text \<open>The requests whose query is refused.\<close>

fun bad_query :: "('acc, 'q) Axum \<Rightarrow> Endpoint \<Rightarrow> 'q \<Rightarrow> bool" where
  "bad_query ax Robots q = False"
| "bad_query ax Hello q = False"
| "bad_query ax CountLinks q = (ax_count_query ax q = None)"
| "bad_query ax CountDistinctDids q = (ax_count_query ax q = None)"
| "bad_query ax CountAllLinks q = (ax_target_query ax q = None)"
| "bad_query ax ExploreLinks q = (ax_target_query ax q = None)"
| "bad_query ax _ q =
     (case ax_items_query ax q of None \<Rightarrow> True | Some query \<Rightarrow> bad_page (ax_bincode ax) query)"



text \<open>
  Pages are bounded: an answer of a paging handler never has more items than the limit asked
  for, sixteen by default and a hundred at most, over either store.
\<close>

theorem pages_bounded:
  assumes store: "store = mem_reader d \<and> mem_servable d \<or> store = rocks_reader enc est s \<and> rocks_servable s"
  shows "(api_get_links ax accept query store = Json (LinkItemsBody links q) \<longrightarrow>
      length (li_linking_records links) \<le> unat (case iq_limit query of None \<Rightarrow> 16 | Some l \<Rightarrow> l) \<and>
      length (li_linking_records links) \<le> 100) \<and>
    (api_get_distinct_dids ax accept query store = Json (DidItemsBody dids q) \<longrightarrow>
      length (di_linking_dids dids) \<le> unat (case iq_limit query of None \<Rightarrow> 16 | Some l \<Rightarrow> l) \<and>
      length (di_linking_dids dids) \<le> 100)"
proof -
  let ?l = "case iq_limit query of None \<Rightarrow> 16 | Some l \<Rightarrow> l"
  have links: "length (pac_items pg) \<le> unat l" if "lr_get_links store t c p l u = Returns pg" for t c p l u pg
    using store that mem_links.page_length rocks_links.page_length by blast
  have dids: "length (pac_items pg) \<le> unat l" if "lr_get_distinct_dids store t c p l u = Returns pg" for t c p l u pg
    using store that mem_dids.page_length rocks_dids.page_length by blast
  have req: "l = ?l \<and> unat l \<le> 100" if "page_request (ax_bincode ax) query = Inr (u, l)" for u l
    using that by (auto simp: page_request_def Let_def DEFAULT_CURSOR_LIMIT_def DEFAULT_CURSOR_LIMIT_MAX_def
        not_less word_le_nat_alt split: option.splits if_splits)
  have body: "\<exists>pg. call = Returns pg \<and> f pg = b" if "with_store call (\<lambda>pg. acceptable ax accept (f pg)) = Json b" for call f b
    using that by (cases call) (auto simp: acceptable_def split: option.splits if_splits)
  show ?thesis
    by (cases "page_request (ax_bincode ax) query")
      (auto simp: api_get_links_def api_get_distinct_dids_def dest!: body req dest: links dids order_trans)
qed

lemma ex_mem_servable:
  "\<exists>d. mem_servable d \<and> linkers_of d ''e'' (''c'', ''.p'') = [Some (Did ''did:a'', ''1'')]"
proof -
  let ?es = "actionable_events ex_parse ex_updates"
  from mem_run_ok [OF mem_inv_new, of ?es] obtain d where d: "mem_run ?es mem_new = Inr d" "mem_inv d" by blast
  have "mem_servable d" using mem_run_servable [OF d] by (simp add: ex_updates_events run_size_def)
  moreover have "linkers_of d ''e'' (''c'', ''.p'') = [Some (Did ''did:a'', ''1'')]"
    using d(1) by (auto simp: ex_updates_events mem_add_links_def linkers_of_add mem_new_def linkers_of_def mem_linkers_def
        mem_add_link_def Let_def)
  ultimately show ?thesis by blast
qed

theorem pages_bounded_witness:
  "\<exists>links q. api_get_links ex_axum None (items_query ''e'' ''c'' ''.p'' None None) (rocks_reader (\<lambda>_. []) (\<lambda>_. None) (rocks_open empty_db)) =
      Json (LinkItemsBody links q) \<and> length (li_linking_records links) \<le> 16"
proof -
  let ?s = "rocks_reader (\<lambda>_. []) (\<lambda>_. None) (rocks_open empty_db)"
  have "rocks_servable (rocks_open empty_db)"
    by (simp add: rocks_servable_def key_linkers_def target_id_val_def rocks_open_def empty_db_def)
  moreover obtain links q where r: "api_get_links ex_axum None (items_query ''e'' ''c'' ''.p'' None None) ?s = Json (LinkItemsBody links q)"
    by (simp add: api_get_links_def page_request_def items_query_def DEFAULT_CURSOR_LIMIT_def DEFAULT_CURSOR_LIMIT_MAX_def
        rocks_reader_def acceptable_def)
  ultimately have "length (li_linking_records links) \<le> unat (16 :: u64)"
    using pages_bounded [of ?s _ "\<lambda>_. []" "\<lambda>_. None" "rocks_open empty_db" ex_axum None
        "items_query ''e'' ''c'' ''.p'' None None" links q] by (simp add: items_query_def)
  with r show ?thesis by auto
qed

text \<open>
  A limit of zero is accepted and never leads anywhere: as long as a source has slots, the
  pages are empty and every cursor leads to the next empty page, so no client that follows them
  ever finishes.
\<close>

theorem limit_zero_never_ends:
  assumes "bincode_ok (ax_bincode ax)"
    and "store = mem_reader d \<and> mem_servable d \<and> linkers_of d t (c, p) \<noteq> [] \<or>
      store = rocks_reader enc est s \<and> rocks_servable s \<and> key_linkers s (t, c, p) \<noteq> []"
  shows "follow_cursors fuel (ask_links ax store t c p (Some 0)) None = None"
  unfolding ask_page_eq using assms(2) rocks_links.limit_zero [OF _ assms(1)] mem_links.limit_zero [OF _ assms(1)] by auto

theorem limit_zero_never_ends_witness:
  "\<exists>d. mem_servable d \<and> linkers_of d ''e'' (''c'', ''.p'') = [Some (Did ''did:a'', ''1'')] \<and>
     follow_cursors 1000 (ask_links ex_axum (mem_reader d) ''e'' ''c'' ''.p'' (Some 0)) None = None"
proof -
  from ex_mem_servable obtain d where d: "mem_servable d" "linkers_of d ''e'' (''c'', ''.p'') = [Some (Did ''did:a'', ''1'')]"
    by blast
  moreover have "bincode_ok (ax_bincode ex_axum)" by (simp add: ex_axum_def ex_bincode_ok)
  ultimately show ?thesis using limit_zero_never_ends [of ex_axum "mem_reader d" d "''e''" "''c''" "''.p''"] by auto
qed

end
