(* ===== verification/Ufos_Batch.thy ===== *)
theory Ufos_Batch
  imports Prelude "HOL-Library.Multiset"
begin

text \<open>
  Batching of firehose events in the crate \<open>ufos\<close>: the events of \<open>jetstream/src/events.rs\<close>, the
  bounded batches of \<open>ufos/src/lib.rs\<close> (\<open>CollectionCommits\<close>, \<open>EventBatch\<close>) and the batcher of
  \<open>ufos/src/consumer.rs\<close>.

  A cursor is its \<open>u64\<close> of microseconds.  The cardinality sketch (the crate
  \<open>cardinality_estimator_safe\<close>) is a record of operations, an argument of everything that uses
  one.  The channel to the storage task is the list of batches sent so far; whether the queue is
  idle and whether a send succeeds are inputs of a step.
\<close>

section \<open>jetstream/src/events.rs\<close>

type_synonym Cursor = u64

datatype EventKind = Commit | Identity | Account
datatype CommitOp = Create | Update | Delete

record CommitEvent =
  ce_collection :: string
  ce_rkey :: string
  ce_rev :: string
  ce_operation :: CommitOp
  ce_record :: "string option"
  ce_cid :: "string option"

record IdentityEvent =
  ie_did :: string
  ie_handle :: "string option"
  ie_seq :: u64
  ie_time :: string

record AccountEvent =
  ae_active :: bool
  ae_did :: string
  ae_seq :: u64
  ae_time :: string
  ae_status :: "string option"

record JetstreamEvent =
  je_cursor :: Cursor
  je_did :: string
  je_kind :: EventKind
  je_commit :: "CommitEvent option"
  je_identity :: "IdentityEvent option"
  je_account :: "AccountEvent option"

definition cursor_from_start :: Cursor where
  "cursor_from_start = 0"

definition cursor_next :: "Cursor \<Rightarrow> Cursor" where
  "cursor_next c = c + 1"

text \<open>\<open>duration_since\<close> in microseconds; \<open>None\<close> is the \<open>SystemTimeError\<close> of an earlier cursor that is later.\<close>

definition duration_since :: "Cursor \<Rightarrow> Cursor \<Rightarrow> nat option" where
  "duration_since c earlier = (if earlier \<le> c then Some (unat c - unat earlier) else None)"

section \<open>ufos/src/lib.rs\<close>

record 'sk SketchOps =
  sk_default :: 'sk
  sk_insert_did :: "string \<Rightarrow> 'sk \<Rightarrow> 'sk"
  sk_merge :: "'sk \<Rightarrow> 'sk \<Rightarrow> 'sk"
  sk_estimate :: "'sk \<Rightarrow> nat"

datatype CommitAction = Put (put_record: string) (put_is_update: bool) | Cut

fun is_create :: "CommitAction \<Rightarrow> bool" where
  "is_create (Put _ is_update) \<longleftrightarrow> \<not> is_update"
| "is_create Cut \<longleftrightarrow> False"

record UFOsCommit =
  uc_cursor :: Cursor
  uc_did :: string
  uc_rkey :: string
  uc_rev :: string
  uc_action :: CommitAction

datatype FirehoseEventError = CruMissingRecord | AccountEventMissingAccount | CommitEventMissingCommit

datatype BatchInsertError = BatchFull UFOsCommit | BatchOverflow nat | BatchForever

definition from_commit_info ::
  "CommitEvent \<Rightarrow> string \<Rightarrow> Cursor \<Rightarrow> FirehoseEventError + UFOsCommit \<times> string" where
  "from_commit_info commit did cursor =
     and_then
       (case ce_operation commit of
          Delete \<Rightarrow> Inr Cut
        | cru \<Rightarrow> (case ce_record commit of
                   None \<Rightarrow> Inl CruMissingRecord
                 | Some rec \<Rightarrow> Inr (Put rec (cru = Update))))
       (\<lambda>action. Inr (\<lparr>uc_cursor = cursor, uc_did = did, uc_rkey = ce_rkey commit,
                        uc_rev = ce_rev commit, uc_action = action\<rparr>, ce_collection commit))"

record 'sk CollectionCommits =
  cc_creates :: nat
  cc_updates :: nat
  cc_deletes :: nat
  cc_dids_estimate :: 'sk
  cc_commits :: "UFOsCommit list"
  cc_head :: nat

definition cc_default :: "'sk SketchOps \<Rightarrow> 'sk CollectionCommits" where
  "cc_default sk = \<lparr>cc_creates = 0, cc_updates = 0, cc_deletes = 0,
     cc_dids_estimate = sk_default sk, cc_commits = [], cc_head = 0\<rparr>"

definition advance_head :: "nat \<Rightarrow> nat \<Rightarrow> nat" where
  "advance_head LIMIT head = (if head + 1 > LIMIT then 0 else head + 1)"

text \<open>
  The displacement loop, from \<open>head\<close>: its error or the commits after it, and the new head.
  \<open>None\<close> would be a loop that never ends.
\<close>

partial_function (option) displace ::
  "nat \<Rightarrow> UFOsCommit \<Rightarrow> UFOsCommit list \<Rightarrow> nat \<Rightarrow> nat \<Rightarrow> ((BatchInsertError + UFOsCommit list) \<times> nat) option"
where
  "displace LIMIT commit commits head_started_at head =
     (if length commits \<le> head then Some (Inl (BatchOverflow head), head)
      else if is_create (uc_action (commits ! head)) then Some (Inr (commits[head := commit]), head)
      else if advance_head LIMIT head = head_started_at then Some (Inl BatchForever, advance_head LIMIT head)
      else displace LIMIT commit commits head_started_at (advance_head LIMIT head))"

text \<open>Every accepted commit counts as activity of its account and as a commit of its kind.\<close>

definition count_commit :: "'sk SketchOps \<Rightarrow> UFOsCommit \<Rightarrow> 'sk CollectionCommits \<Rightarrow> 'sk CollectionCommits" where
  "count_commit sk commit cc =
     (let cc1 = cc\<lparr>cc_dids_estimate := sk_insert_did sk (uc_did commit) (cc_dids_estimate cc)\<rparr>
      in case uc_action commit of
           Put _ False \<Rightarrow> cc1\<lparr>cc_creates := cc_creates cc1 + 1\<rparr>
         | Put _ True \<Rightarrow> cc1\<lparr>cc_updates := cc_updates cc1 + 1\<rparr>
         | Cut \<Rightarrow> cc1\<lparr>cc_deletes := cc_deletes cc1 + 1\<rparr>)"

definition truncating_insert ::
  "'sk SketchOps \<Rightarrow> nat \<Rightarrow> UFOsCommit \<Rightarrow> 'sk CollectionCommits \<Rightarrow>
     (BatchInsertError option \<times> 'sk CollectionCommits) option"
where
  "truncating_insert sk LIMIT commit cc =
     (if cc_updates cc + cc_deletes cc = LIMIT then Some (Some (BatchFull commit), cc)
      else
        let cc2 = count_commit sk commit cc
        in if length (cc_commits cc2) < LIMIT then
             Some (None, cc2\<lparr>cc_commits := cc_commits cc2 @ [commit]\<rparr>)
           else
             (case displace LIMIT commit (cc_commits cc2) (cc_head cc2) (cc_head cc2) of
                None \<Rightarrow> None
              | Some (Inl e, head) \<Rightarrow> Some (Some e, cc2\<lparr>cc_head := head\<rparr>)
              | Some (Inr commits, head) \<Rightarrow> Some (None, cc2\<lparr>cc_commits := commits, cc_head := head\<rparr>)))"

record DeleteAccountReq =
  da_did :: string
  da_cursor :: Cursor

record 'sk EventBatch =
  eb_commits_by_nsid :: "(string, 'sk CollectionCommits) hashmap"
  eb_account_removes :: "DeleteAccountReq list"

definition eb_default :: "'sk EventBatch" where
  "eb_default = \<lparr>eb_commits_by_nsid = [], eb_account_removes = []\<rparr>"

definition insert_commit_by_nsid ::
  "'sk SketchOps \<Rightarrow> nat \<Rightarrow> string \<Rightarrow> UFOsCommit \<Rightarrow> nat \<Rightarrow> 'sk EventBatch \<Rightarrow>
     (BatchInsertError option \<times> 'sk EventBatch) option"
where
  "insert_commit_by_nsid sk LIMIT collection commit max_collections b =
     (let m = eb_commits_by_nsid b in
      if hm_get m collection = None \<and> max_collections \<le> length m then Some (Some (BatchFull commit), b)
      else
        let cc = (case hm_get m collection of None \<Rightarrow> cc_default sk | Some cc \<Rightarrow> cc)
        in map_option (\<lambda>(res, cc'). (res, b\<lparr>eb_commits_by_nsid := hm_insert collection cc' m\<rparr>))
             (truncating_insert sk LIMIT commit cc))"

definition total_collections :: "'sk EventBatch \<Rightarrow> nat" where
  "total_collections b = length (eb_commits_by_nsid b)"

definition estimate_dids :: "'sk SketchOps \<Rightarrow> 'sk EventBatch \<Rightarrow> nat" where
  "estimate_dids sk b =
     sk_estimate sk (fold (\<lambda>(_, cc) est. sk_merge sk est (cc_dids_estimate cc)) (eb_commits_by_nsid b) (sk_default sk))"

definition latest_cursor :: "'sk EventBatch \<Rightarrow> Cursor option" where
  "latest_cursor b =
     (let oldest = fold (\<lambda>(_, cc) o1. fold (\<lambda>c o2. if uc_cursor c > o2 then uc_cursor c else o2) (cc_commits cc) o1)
                     (eb_commits_by_nsid b) cursor_from_start;
          oldest = (if eb_account_removes b = [] then oldest
                    else let del = last (eb_account_removes b)
                         in if da_cursor del > oldest then da_cursor del else oldest)
      in if oldest > cursor_from_start then Some oldest else None)"

definition batch_is_empty :: "'sk EventBatch \<Rightarrow> bool" where
  "batch_is_empty b \<longleftrightarrow> eb_commits_by_nsid b = [] \<and> eb_account_removes b = []"

section \<open>ufos/src/consumer.rs\<close>

abbreviation MAX_BATCHED_RECORDS :: nat where "MAX_BATCHED_RECORDS \<equiv> 128"
abbreviation MAX_ACCOUNT_REMOVES :: nat where "MAX_ACCOUNT_REMOVES \<equiv> 1024"
abbreviation MAX_BATCHED_COLLECTIONS :: nat where "MAX_BATCHED_COLLECTIONS \<equiv> 64"
abbreviation MIN_BATCH_SPAN_US :: nat where "MIN_BATCH_SPAN_US \<equiv> 2000000"
abbreviation MAX_BATCH_SPAN_US :: nat where "MAX_BATCH_SPAN_US \<equiv> 60000000"

record 'sk Batcher =
  bt_initial_cursor :: "Cursor option"
  bt_batch :: "'sk EventBatch"
  bt_sent :: "'sk EventBatch list"

datatype BatcherError =
    CursorWentBack
  | FirehoseError FirehoseEventError
  | InsertError BatchInsertError
  | SendTimeout
  | Diverged

record StepEnv =
  env_queue_idle :: bool
  env_send_ok :: bool

definition send_current_batch_now :: "StepEnv \<Rightarrow> 'sk Batcher \<Rightarrow> BatcherError + 'sk Batcher" where
  "send_current_batch_now env s =
     (if env_send_ok env
      then Inr (s\<lparr>bt_initial_cursor := None, bt_batch := eb_default, bt_sent := bt_sent s @ [bt_batch s]\<rparr>)
      else Inl SendTimeout)"

text \<open>The result of an insert, as the handler reports it; a full batch hands its commit back.\<close>

definition try_insert ::
  "'sk SketchOps \<Rightarrow> string \<Rightarrow> UFOsCommit \<Rightarrow> 'sk Batcher \<Rightarrow> BatcherError + UFOsCommit option \<times> 'sk Batcher" where
  "try_insert sk collection commit s =
     (case insert_commit_by_nsid sk MAX_BATCHED_RECORDS collection commit MAX_BATCHED_COLLECTIONS (bt_batch s) of
        None \<Rightarrow> Inl Diverged
      | Some (None, b) \<Rightarrow> Inr (None, s\<lparr>bt_batch := b\<rparr>)
      | Some (Some (BatchFull c), b) \<Rightarrow> Inr (Some c, s\<lparr>bt_batch := b\<rparr>)
      | Some (Some e, b) \<Rightarrow> Inl (InsertError e))"

definition handle_commit ::
  "'sk SketchOps \<Rightarrow> StepEnv \<Rightarrow> UFOsCommit \<Rightarrow> string \<Rightarrow> 'sk Batcher \<Rightarrow> BatcherError + 'sk Batcher" where
  "handle_commit sk env commit collection s =
     and_then (try_insert sk collection commit s)
       (\<lambda>(full, s1). case full of
          None \<Rightarrow> Inr s1
        | Some commit' \<Rightarrow>
            and_then (send_current_batch_now env s1) (\<lambda>s2.
            and_then (try_insert sk collection commit' s2) (\<lambda>(full', s3).
              case full' of None \<Rightarrow> Inr s3 | Some c \<Rightarrow> Inl (InsertError (BatchFull c)))))"

definition handle_delete_account ::
  "StepEnv \<Rightarrow> string \<Rightarrow> Cursor \<Rightarrow> 'sk Batcher \<Rightarrow> BatcherError + 'sk Batcher" where
  "handle_delete_account env did cursor s =
     and_then
       (if MAX_ACCOUNT_REMOVES \<le> length (eb_account_removes (bt_batch s)) then send_current_batch_now env s else Inr s)
       (\<lambda>s'. Inr (s'\<lparr>bt_batch := (bt_batch s')
          \<lparr>eb_account_removes := eb_account_removes (bt_batch s') @ [\<lparr>da_did = did, da_cursor = cursor\<rparr>]\<rparr>\<rparr>))"

text \<open>The first part of \<open>handle_event\<close>: a batch that spans too long is sent, a fresh one gets its start.\<close>

definition note_cursor :: "StepEnv \<Rightarrow> Cursor \<Rightarrow> 'sk Batcher \<Rightarrow> BatcherError + 'sk Batcher" where
  "note_cursor env cursor s =
     (case bt_initial_cursor s of
        Some earliest \<Rightarrow>
          (case duration_since cursor earliest of
             None \<Rightarrow> Inl CursorWentBack
           | Some us \<Rightarrow> if MAX_BATCH_SPAN_US < us then send_current_batch_now env s else Inr s)
      | None \<Rightarrow> Inr (s\<lparr>bt_initial_cursor := Some cursor\<rparr>))"

definition handle_kind ::
  "'sk SketchOps \<Rightarrow> StepEnv \<Rightarrow> JetstreamEvent \<Rightarrow> 'sk Batcher \<Rightarrow> BatcherError + 'sk Batcher" where
  "handle_kind sk env event s =
     (case je_kind event of
        Commit \<Rightarrow>
          (case je_commit event of
             None \<Rightarrow> Inl (FirehoseError CommitEventMissingCommit)
           | Some commit \<Rightarrow>
               (case from_commit_info commit (je_did event) (je_cursor event) of
                  Inl e \<Rightarrow> Inl (FirehoseError e)
                | Inr (c, nsid) \<Rightarrow> handle_commit sk env c nsid s))
      | Account \<Rightarrow>
          (case je_account event of
             None \<Rightarrow> Inl (FirehoseError AccountEventMissingAccount)
           | Some account \<Rightarrow>
               if ae_active account then Inr s else handle_delete_account env (je_did event) (je_cursor event) s)
      | Identity \<Rightarrow> Inr s)"

definition send_if_idle :: "StepEnv \<Rightarrow> Cursor \<Rightarrow> 'sk Batcher \<Rightarrow> BatcherError + 'sk Batcher" where
  "send_if_idle env cursor s =
     (case bt_initial_cursor s of
        None \<Rightarrow> Inr s
      | Some earliest \<Rightarrow>
          (case duration_since cursor earliest of
             None \<Rightarrow> Inl CursorWentBack
           | Some us \<Rightarrow>
               if MIN_BATCH_SPAN_US < us \<and> env_queue_idle env then send_current_batch_now env s else Inr s))"

definition handle_event ::
  "'sk SketchOps \<Rightarrow> StepEnv \<Rightarrow> JetstreamEvent \<Rightarrow> 'sk Batcher \<Rightarrow> BatcherError + 'sk Batcher" where
  "handle_event sk env event s =
     and_then (note_cursor env (je_cursor event) s) (\<lambda>s.
     and_then (handle_kind sk env event s) (send_if_idle env (je_cursor event)))"

definition no_events_step :: "StepEnv \<Rightarrow> 'sk Batcher \<Rightarrow> BatcherError + 'sk Batcher" where
  "no_events_step env s =
     (if batch_is_empty (bt_batch s) then Inr s else send_current_batch_now env s)"

text \<open>One turn of \<open>run\<close>: an event, or \<open>None\<close> when thirty seconds passed without one.\<close>

definition batcher_step ::
  "'sk SketchOps \<Rightarrow> StepEnv \<times> JetstreamEvent option \<Rightarrow> 'sk Batcher \<Rightarrow> BatcherError + 'sk Batcher" where
  "batcher_step sk i s =
     (case snd i of None \<Rightarrow> no_events_step (fst i) s | Some event \<Rightarrow> handle_event sk (fst i) event s)"

definition batcher_new :: "'sk Batcher" where
  "batcher_new = \<lparr>bt_initial_cursor = None, bt_batch = eb_default, bt_sent = []\<rparr>"

abbreviation batcher_run ::
  "'sk SketchOps \<Rightarrow> (StepEnv \<times> JetstreamEvent option) list \<Rightarrow> 'sk Batcher \<Rightarrow> BatcherError + 'sk Batcher" where
  "batcher_run sk \<equiv> fold_res (batcher_step sk)"

end
