(* ===== verification/Db_Types.thy ===== *)
theory Db_Types
  imports Prelude "HOL-Library.List_Lexorder" "HOL-Library.Char_ord"
begin

text \<open>
  Byte encodings of keys and values (\<open>ufos/src/db_types.rs\<close>).  The trait \<open>DbBytes\<close> is a pair of an
  encoder and a decoder that also reports how many bytes it consumed.  The contract the storage
  relies on is the locale \<open>db_codec\<close>: a decoder reads back what the encoder wrote, whatever bytes
  follow.  \<open>db_tail_codec\<close> is the weaker contract of encodings that may only end a key.
  \<open>DbConcat\<close> combines a codec with a tail codec, and with another codec gives a codec again.

  Bytes are a \<open>string\<close>, one \<open>char\<close> per byte.
\<close>

type_synonym bytes = string

section \<open>Errors and primitive encodings\<close>

datatype EncodingError =
    BadAtriumStringType
  | NotEnoughNsidSegments
  | DecodeMissingSuffix
  | DecodeNotEnoughBytes
  | StringContainedNull
  | UnterminatedString
  | NotUtf8
  | WrongStaticPrefix string string
  | DecodeTooManyBytes nat
  | BadRangeBound
  | InvalidTruncated u64 u64
  | BincodeFailed

datatype db_failure = Failed EncodingError | Panicked string

type_synonym 'a encoder = "'a \<Rightarrow> db_failure + bytes"
type_synonym 'a decoder = "bytes \<Rightarrow> db_failure + 'a \<times> nat"

abbreviation NUL :: char where "NUL \<equiv> CHR 0x00"

text \<open>\<open>std::str::from_utf8\<close>: the well-formed byte sequences of the Unicode standard.\<close>

definition byte_in :: "nat \<Rightarrow> nat \<Rightarrow> char \<Rightarrow> bool" where
  "byte_in lo hi c \<longleftrightarrow> lo \<le> of_char c \<and> of_char c \<le> hi"

function utf8_valid :: "bytes \<Rightarrow> bool" where
  "utf8_valid bs =
     (case bs of
        [] \<Rightarrow> True
      | b0 # r0 \<Rightarrow>
          if byte_in 0 0x7F b0 then utf8_valid r0
          else (case r0 of
            [] \<Rightarrow> False
          | b1 # r1 \<Rightarrow>
              if byte_in 0xC2 0xDF b0 then byte_in 0x80 0xBF b1 \<and> utf8_valid r1
              else (case r1 of
                [] \<Rightarrow> False
              | b2 # r2 \<Rightarrow>
                  if byte_in 0xE0 0xEF b0 then
                    byte_in (if b0 = CHR 0xE0 then 0xA0 else 0x80) (if b0 = CHR 0xED then 0x9F else 0xBF) b1 \<and>
                    byte_in 0x80 0xBF b2 \<and> utf8_valid r2
                  else (case r2 of
                    [] \<Rightarrow> False
                  | b3 # r3 \<Rightarrow>
                      byte_in 0xF0 0xF4 b0 \<and>
                      byte_in (if b0 = CHR 0xF0 then 0x90 else 0x80) (if b0 = CHR 0xF4 then 0x8F else 0xBF) b1 \<and>
                      byte_in 0x80 0xBF b2 \<and> byte_in 0x80 0xBF b3 \<and> utf8_valid r3))))"
  by pat_completeness auto
termination by (relation "measure length") auto

declare utf8_valid.simps [simp del]

text \<open>Big-endian digits, as \<open>u64::to_be_bytes\<close> and \<open>u64::from_be_bytes\<close>.\<close>

primrec be_digits :: "nat \<Rightarrow> nat \<Rightarrow> bytes" where
  "be_digits 0 x = []"
| "be_digits (Suc n) x = be_digits n (x div 256) @ [char_of x]"

definition be_value :: "bytes \<Rightarrow> nat" where
  "be_value bs = foldl (\<lambda>acc c. acc * 256 + of_char c) 0 bs"

definition to_be_bytes :: "u64 \<Rightarrow> bytes" where
  "to_be_bytes x = be_digits 8 (unat x)"

definition from_be_bytes :: "bytes \<Rightarrow> u64" where
  "from_be_bytes bs = of_nat (be_value bs)"

section \<open>The implementations of DbBytes\<close>

definition string_to_db_bytes :: "string encoder" where
  "string_to_db_bytes s = (if NUL \<in> set s then Inl (Failed StringContainedNull) else Inr (s @ [NUL]))"

definition string_from_db_bytes :: "string decoder" where
  "string_from_db_bytes bs =
     (case split_once NUL bs of
        None \<Rightarrow> Inl (Failed UnterminatedString)
      | Some (s, _) \<Rightarrow> if utf8_valid s then Inr (s, length s + 1) else Inl (Failed NotUtf8))"

definition string_sub_prefix :: "string \<Rightarrow> db_failure + bytes" where
  "string_sub_prefix input = (if NUL \<in> set input then Inl (Failed StringContainedNull) else Inr input)"

definition cursor_to_db_bytes :: "u64 encoder" where
  "cursor_to_db_bytes c = Inr (to_be_bytes c)"

definition cursor_from_db_bytes :: "u64 decoder" where
  "cursor_from_db_bytes bs =
     (if length bs < 8 then Inl (Failed DecodeNotEnoughBytes) else Inr (from_be_bytes (take 8 bs), 8))"

text \<open>\<open>nsid_new\<close> is the check of \<open>Nsid::new\<close> (the crate atrium).\<close>

definition nsid_to_db_bytes :: "string encoder" where
  "nsid_to_db_bytes n = string_to_db_bytes n"

definition nsid_from_db_bytes :: "(string \<Rightarrow> bool) \<Rightarrow> string decoder" where
  "nsid_from_db_bytes nsid_new bs =
     and_then (string_from_db_bytes bs) (\<lambda>(s, n). if nsid_new s then Inr (s, n) else Inl (Failed BadAtriumStringType))"

definition empty_to_db_bytes :: "unit encoder" where
  "empty_to_db_bytes _ = Inr []"

definition empty_from_db_bytes :: "unit decoder" where
  "empty_from_db_bytes _ = Inr ((), 0)"

definition static_to_db_bytes :: "string \<Rightarrow> unit encoder" where
  "static_to_db_bytes lit _ = string_to_db_bytes lit"

definition static_from_db_bytes :: "string \<Rightarrow> unit decoder" where
  "static_from_db_bytes lit bs =
     and_then (string_from_db_bytes bs)
       (\<lambda>(prefix, eaten). if prefix \<noteq> lit then Inl (Failed (WrongStaticPrefix prefix lit)) else Inr ((), eaten))"

definition vec_to_db_bytes :: "bytes encoder" where
  "vec_to_db_bytes v = Inr v"

definition vec_from_db_bytes :: "bytes decoder" where
  "vec_from_db_bytes bs = Inr (bs, length bs)"

definition concat_to_db_bytes :: "'p encoder \<Rightarrow> 's encoder \<Rightarrow> ('p \<times> 's) encoder" where
  "concat_to_db_bytes encP encS x =
     and_then (encP (fst x)) (\<lambda>combined. and_then (encS (snd x)) (\<lambda>b. Inr (combined @ b)))"

definition concat_from_db_bytes :: "'p decoder \<Rightarrow> 's decoder \<Rightarrow> ('p \<times> 's) decoder" where
  "concat_from_db_bytes decP decS bs =
     and_then (decP bs) (\<lambda>(prefix, eaten).
       if \<not> eaten \<le> length bs then Inl (Panicked ''eaten'')
       else let suffix_bytes = drop eaten bs
            in if suffix_bytes = [] then Inl (Failed DecodeMissingSuffix)
               else and_then (decS suffix_bytes) (\<lambda>(suffix, also_eaten).
                      if \<not> also_eaten \<le> length suffix_bytes then Inl (Panicked ''also eaten'')
                      else Inr ((prefix, suffix), eaten + also_eaten)))"

definition db_complete :: "'a decoder \<Rightarrow> bytes \<Rightarrow> db_failure + 'a" where
  "db_complete dec bs =
     and_then (dec bs) (\<lambda>(t, n). if n < length bs then Inl (Failed (DecodeTooManyBytes (length bs - n))) else Inr t)"

text \<open>
  \<open>prefix_to_range\<close> of the crate lsm_tree enters as \<open>upper\<close>: the excluded upper bound of the range of
  a prefix, \<open>None\<close> when that range has none.
\<close>

definition as_prefix_range_end :: "(bytes \<Rightarrow> bytes option) \<Rightarrow> 'a encoder \<Rightarrow> 'a \<Rightarrow> db_failure + bytes" where
  "as_prefix_range_end upper enc x =
     and_then (enc x) (\<lambda>b. case upper b of None \<Rightarrow> Inl (Failed BadRangeBound) | Some e \<Rightarrow> Inr e)"

definition concat_range :: "(bytes \<Rightarrow> bytes option) \<Rightarrow> 'p encoder \<Rightarrow> 'p \<times> 's \<Rightarrow> db_failure + bytes \<times> bytes" where
  "concat_range upper encP x =
     and_then (encP (fst x)) (\<lambda>b. case upper b of None \<Rightarrow> Inl (Failed BadRangeBound) | Some e \<Rightarrow> Inr (b, e))"

definition concat_range_to_prefix_end ::
  "(bytes \<Rightarrow> bytes option) \<Rightarrow> 'p encoder \<Rightarrow> 's encoder \<Rightarrow> 'p \<times> 's \<Rightarrow> db_failure + bytes \<times> bytes" where
  "concat_range_to_prefix_end upper encP encS x =
     and_then (concat_to_db_bytes encP encS x) (\<lambda>b.
       and_then (as_prefix_range_end upper encP (fst x)) (\<lambda>e. Inr (b, e)))"

section \<open>The contract of a codec\<close>

locale db_tail_codec =
  fixes enc :: "'a encoder" and dec :: "'a decoder" and valid :: "'a \<Rightarrow> bool"
  assumes enc_total: "valid x \<Longrightarrow> \<exists>b. enc x = Inr b"
    and dec_whole: "valid x \<Longrightarrow> enc x = Inr b \<Longrightarrow> dec b = Inr (x, length b)"
begin

lemma complete_roundtrip: "valid x \<Longrightarrow> enc x = Inr b \<Longrightarrow> db_complete dec b = Inr x"
  by (simp add: db_complete_def dec_whole)

lemma enc_inj: "valid x \<Longrightarrow> valid y \<Longrightarrow> enc x = Inr b \<Longrightarrow> enc y = Inr b \<Longrightarrow> x = y"
  using dec_whole by (metis Inr_inject Pair_inject)

end

locale db_codec =
  fixes enc :: "'a encoder" and dec :: "'a decoder" and valid :: "'a \<Rightarrow> bool"
  assumes enc_some: "valid x \<Longrightarrow> \<exists>b. enc x = Inr b"
    and dec_enc: "valid x \<Longrightarrow> enc x = Inr b \<Longrightarrow> dec (b @ rest) = Inr (x, length b)"
begin

lemma roundtrip: "valid x \<Longrightarrow> \<exists>k. enc x = Inr k \<and> dec (k @ rest) = Inr (x, length k)"
  using enc_some dec_enc by blast

text \<open>No encoding is a proper prefix of another.\<close>

lemma prefix_free:
  assumes "valid x" "valid y" "enc x = Inr b" "enc y = Inr b'" "b @ r = b' @ r'"
  shows "x = y \<and> b = b' \<and> r = r'"
proof -
  have "x = y" using dec_enc [OF assms(1,3), of r] dec_enc [OF assms(2,4), of r'] assms(5) by simp
  with assms(3-5) show ?thesis by simp
qed

end

sublocale db_codec \<subseteq> db_tail_codec
proof
  show "valid x \<Longrightarrow> \<exists>b. enc x = Inr b" for x by (rule enc_some)
  show "valid x \<Longrightarrow> enc x = Inr b \<Longrightarrow> dec b = Inr (x, length b)" for x b using dec_enc [of x b "[]"] by simp
qed

text \<open>\<open>DbConcat\<close>: a suffix must encode to at least one byte, as \<open>from_db_bytes\<close> rejects an empty rest.\<close>

locale db_concat_tail =
  pre: db_codec encP decP validP + suf: db_tail_codec encS decS validS
  for encP :: "'p encoder" and decP validP and encS :: "'s encoder" and decS validS +
  assumes suffix_nonempty: "validS y \<Longrightarrow> encS y \<noteq> Inr []"
begin

lemma concat_parts:
  assumes "concat_to_db_bytes encP encS x = Inr b"
  shows "\<exists>b1 b2. encP (fst x) = Inr b1 \<and> encS (snd x) = Inr b2 \<and> b = b1 @ b2"
  using assms by (auto simp: concat_to_db_bytes_def and_then_Inr)

lemma concat_total: "validP (fst x) \<Longrightarrow> validS (snd x) \<Longrightarrow> \<exists>b. concat_to_db_bytes encP encS x = Inr b"
  using pre.enc_some suf.enc_total by (fastforce simp: concat_to_db_bytes_def)

lemma concat_whole:
  assumes "validP (fst x)" "validS (snd x)" "concat_to_db_bytes encP encS x = Inr b"
  shows "concat_from_db_bytes decP decS b = Inr (x, length b)"
proof -
  from concat_parts [OF assms(3)] obtain b1 b2 where
    b: "encP (fst x) = Inr b1" "encS (snd x) = Inr b2" "b = b1 @ b2" by blast
  then have "b2 \<noteq> []" using suffix_nonempty assms(2) by auto
  with b show ?thesis
    using pre.dec_enc [OF assms(1) b(1), of b2] suf.dec_whole [OF assms(2) b(2)]
    by (simp add: concat_from_db_bytes_def Let_def)
qed

end

sublocale db_concat_tail \<subseteq> cat: db_tail_codec "concat_to_db_bytes encP encS" "concat_from_db_bytes decP decS"
  "\<lambda>x. validP (fst x) \<and> validS (snd x)"
  by unfold_locales (use concat_total concat_whole in auto)

locale db_concat =
  pre: db_codec encP decP validP + suf: db_codec encS decS validS
  for encP :: "'p encoder" and decP validP and encS :: "'s encoder" and decS validS +
  assumes suffix_nonempty: "validS y \<Longrightarrow> encS y \<noteq> Inr []"
begin

lemma concat_dec:
  assumes "validP (fst x)" "validS (snd x)" "concat_to_db_bytes encP encS x = Inr b"
  shows "concat_from_db_bytes decP decS (b @ rest) = Inr (x, length b)"
proof -
  from assms(3) obtain b1 b2 where
    b: "encP (fst x) = Inr b1" "encS (snd x) = Inr b2" "b = b1 @ b2"
    by (auto simp: concat_to_db_bytes_def and_then_Inr)
  then have "b2 \<noteq> []" using suffix_nonempty assms(2) by auto
  with b show ?thesis
    using pre.dec_enc [OF assms(1) b(1), of "b2 @ rest"] suf.dec_enc [OF assms(2) b(2), of rest]
    by (simp add: concat_from_db_bytes_def Let_def)
qed

end

sublocale db_concat \<subseteq> tail: db_concat_tail
  by unfold_locales (rule suffix_nonempty)

sublocale db_concat \<subseteq> both: db_codec "concat_to_db_bytes encP encS" "concat_from_db_bytes decP decS"
  "\<lambda>x. validP (fst x) \<and> validS (snd x)"
  by unfold_locales (use tail.concat_total concat_dec in auto)

section \<open>Laws of the primitive encodings\<close>

lemma be_value_append: "be_value (bs @ [c]) = be_value bs * 256 + of_char c"
  by (simp add: be_value_def)

lemma length_be_digits [simp]: "length (be_digits n x) = n"
  by (induction n arbitrary: x) auto

lemma be_value_digits: "be_value (be_digits n x) = x mod 256 ^ n"
proof (induction n arbitrary: x)
  case (Suc n)
  have "x mod (256 * 256 ^ n) = 256 * (x div 256 mod 256 ^ n) + x mod 256" by (rule mod_mult2_eq)
  with Suc show ?case by (simp add: be_value_append)
qed (simp add: be_value_def)

lemma length_to_be_bytes [simp]: "length (to_be_bytes c) = 8"
  by (simp add: to_be_bytes_def)

lemma from_to_be_bytes [simp]: "from_be_bytes (to_be_bytes c) = c"
proof -
  have "unat c mod 256 ^ 8 = unat c" using unat_u64_less [of c] by simp
  then show ?thesis by (simp add: from_be_bytes_def to_be_bytes_def be_value_digits)
qed

lemma lex_snoc:
  "length xs = length ys \<Longrightarrow> (xs @ [a] < ys @ [b]) = (xs < ys \<or> xs = ys \<and> (a :: char) < b)"
  by (induction xs ys rule: list_induct2) auto

lemma char_of_less: "(char_of x < char_of y) = (x mod 256 < y mod (256 :: nat))"
  by (simp add: less_char_def)

text \<open>Big-endian digits sort like the numbers.\<close>

lemma be_digits_less: "(be_digits n x < be_digits n y) = (x mod 256 ^ n < y mod 256 ^ n)"
proof (induction n arbitrary: x y)
  case (Suc n)
  have split: "z mod 256 ^ Suc n = 256 * (z div 256 mod 256 ^ n) + z mod 256" for z :: nat
    using mod_mult2_eq [of z 256 "256 ^ n"] by simp
  have eq: "be_digits n (x div 256) = be_digits n (y div 256) \<longleftrightarrow> x div 256 mod 256 ^ n = y div 256 mod 256 ^ n"
  proof -
    have "be_digits n (x div 256) \<noteq> be_digits n (y div 256) \<longleftrightarrow> x div 256 mod 256 ^ n \<noteq> y div 256 mod 256 ^ n"
      unfolding linorder_neq_iff Suc.IH ..
    then show ?thesis by blast
  qed
  have lt: "256 * p + r < 256 * q + (s::nat) \<longleftrightarrow> p < q \<or> p = q \<and> r < s" if "r < 256" "s < 256" for p q r s
    using that by auto
  show ?case unfolding split
    by (subst lt) (auto simp: lex_snoc Suc.IH eq char_of_less)
qed simp

lemma to_be_bytes_less: "(to_be_bytes a < to_be_bytes b) = (a < b)"
proof -
  have "unat c mod 256 ^ 8 = unat c" for c :: u64 using unat_u64_less [of c] by simp
  then show ?thesis by (simp add: to_be_bytes_def be_digits_less word_less_nat_alt)
qed

definition str_ok :: "string \<Rightarrow> bool" where
  "str_ok s \<longleftrightarrow> NUL \<notin> set s \<and> utf8_valid s"

interpretation str: db_codec string_to_db_bytes string_from_db_bytes str_ok
  by unfold_locales (auto simp: string_to_db_bytes_def string_from_db_bytes_def str_ok_def split_once_first)

interpretation nsid: db_codec nsid_to_db_bytes "nsid_from_db_bytes nsid_new" "\<lambda>n. str_ok n \<and> nsid_new n" for nsid_new
  by unfold_locales (use str.enc_some str.dec_enc in \<open>auto simp: nsid_to_db_bytes_def nsid_from_db_bytes_def\<close>)

interpretation cur: db_codec cursor_to_db_bytes cursor_from_db_bytes "\<lambda>_. True"
  by unfold_locales (auto simp: cursor_to_db_bytes_def cursor_from_db_bytes_def)

interpretation static: db_codec "static_to_db_bytes lit" "static_from_db_bytes lit" "\<lambda>_. str_ok lit" for lit
  by unfold_locales (use str.enc_some str.dec_enc in \<open>auto simp: static_to_db_bytes_def static_from_db_bytes_def\<close>)

interpretation emp: db_codec empty_to_db_bytes empty_from_db_bytes "\<lambda>_. True"
  by unfold_locales (auto simp: empty_to_db_bytes_def empty_from_db_bytes_def)

interpretation vec: db_tail_codec vec_to_db_bytes vec_from_db_bytes "\<lambda>_. True"
  by unfold_locales (auto simp: vec_to_db_bytes_def vec_from_db_bytes_def)

lemma enc_nonempty:
  "string_to_db_bytes s \<noteq> Inr []" "nsid_to_db_bytes s \<noteq> Inr []" "cursor_to_db_bytes c \<noteq> Inr []"
  "static_to_db_bytes lit u \<noteq> Inr []"
proof -
  have "to_be_bytes c \<noteq> []" by (metis length_to_be_bytes list.size(3) zero_neq_numeral)
  then show "cursor_to_db_bytes c \<noteq> Inr []" by (simp add: cursor_to_db_bytes_def)
qed (simp_all add: string_to_db_bytes_def nsid_to_db_bytes_def static_to_db_bytes_def)

text \<open>Null termination keeps the order of strings.\<close>

lemma nul_least: "NUL \<le> c"
  by (simp add: less_eq_char_def)

lemma terminated_less:
  "NUL \<notin> set s \<Longrightarrow> NUL \<notin> set t \<Longrightarrow> (s @ [NUL] < t @ [NUL]) = (s < t)"
proof (induction s arbitrary: t)
  case Nil
  then show ?case using nul_least by (cases t) (auto simp: less_le)
next
  case (Cons a s)
  then show ?case using nul_least by (cases t) (auto simp: less_le not_le)
qed

end
