(* ===== verification/Jetstream.thy ===== *)
theory Jetstream
  imports Ufos_Batch Db_Types
begin

text \<open>
  The jetstream client (\<open>jetstream/src/lib.rs\<close>): its configuration, the requests it builds, the task
  that reads one websocket connection and the loop that reconnects.

  URL parsing (\<open>parse_url\<close>), JSON decoding (\<open>from_json\<close>) and zstd decoding (\<open>decompress\<close>:
  \<open>None\<close> when there is no decoder, else the text it yields, which does not parse when decoding fails) are
  arguments.  What the network does is a list of inputs: of messages for a connection, of connection
  attempts for the loop.  The channel to the consumer is the list of events sent on it.
\<close>

section \<open>Configuration\<close>

datatype DefaultJetstreamEndpoints = USEastOne | USEastTwo | USWestOne | USWestTwo

fun endpoint_string :: "DefaultJetstreamEndpoints \<Rightarrow> string" where
  "endpoint_string USEastOne = ''wss://jetstream1.us-east.bsky.network/subscribe''"
| "endpoint_string USEastTwo = ''wss://jetstream2.us-east.bsky.network/subscribe''"
| "endpoint_string USWestOne = ''wss://jetstream1.us-west.bsky.network/subscribe''"
| "endpoint_string USWestTwo = ''wss://jetstream2.us-west.bsky.network/subscribe''"

definition endpoint_or_shortcut :: "string \<Rightarrow> string" where
  "endpoint_or_shortcut s =
     (if s = ''us-east-1'' then endpoint_string USEastOne
      else if s = ''us-east-2'' then endpoint_string USEastTwo
      else if s = ''us-west-1'' then endpoint_string USWestOne
      else if s = ''us-west-2'' then endpoint_string USWestTwo
      else s)"

abbreviation MAX_WANTED_COLLECTIONS :: nat where "MAX_WANTED_COLLECTIONS \<equiv> 100"
abbreviation MAX_WANTED_DIDS :: nat where "MAX_WANTED_DIDS \<equiv> 10000"

datatype JetstreamCompression = NoCompression | Zstd

fun compression_bool :: "JetstreamCompression \<Rightarrow> bool" where
  "compression_bool NoCompression = False"
| "compression_bool Zstd = True"

definition compression_of_bool :: "bool \<Rightarrow> JetstreamCompression" where
  "compression_of_bool compress = (if compress then Zstd else NoCompression)"

record JetstreamConfig =
  jc_endpoint :: string
  jc_wanted_collections :: "string list"
  jc_wanted_dids :: "string list"
  jc_compression :: JetstreamCompression
  jc_user_agent :: "string option"
  jc_omit_user_agent_jetstream_info :: bool
  jc_replay_on_reconnect :: bool
  jc_channel_size :: nat
  jc_liveliness_ttl :: nat

definition jetstream_config_default :: JetstreamConfig where
  "jetstream_config_default =
     \<lparr>jc_endpoint = endpoint_string USEastOne, jc_wanted_collections = [], jc_wanted_dids = [],
      jc_compression = NoCompression, jc_user_agent = None, jc_omit_user_agent_jetstream_info = False,
      jc_replay_on_reconnect = False, jc_channel_size = 4096, jc_liveliness_ttl = 15000000\<rparr>"

datatype ConfigValidationError = TooManyWantedCollections nat | TooManyDids nat | InvalidEndpoint

definition validate :: "(string \<Rightarrow> bool) \<Rightarrow> JetstreamConfig \<Rightarrow> ConfigValidationError + unit" where
  "validate parse_url config =
     (let collections = length (jc_wanted_collections config); dids = length (jc_wanted_dids config)
      in if collections > MAX_WANTED_COLLECTIONS then Inl (TooManyWantedCollections collections)
         else if dids > MAX_WANTED_DIDS then Inl (TooManyDids dids)
         else if \<not> parse_url (jc_endpoint config) then Inl InvalidEndpoint
         else Inr ())"

definition jetstream_connector_new :: "(string \<Rightarrow> bool) \<Rightarrow> JetstreamConfig \<Rightarrow> ConfigValidationError + JetstreamConfig" where
  "jetstream_connector_new parse_url config = and_then (validate parse_url config) (\<lambda>_. Inr config)"

definition to_jetstream :: "Cursor \<Rightarrow> string" where
  "to_jetstream c = decimal (unat c)"

text \<open>What goes into a request: the parameters of its query and the user agent.  \<open>version\<close> is the package's.\<close>

definition base_params :: "JetstreamConfig \<Rightarrow> (string \<times> string) list" where
  "base_params config =
     map (\<lambda>s. (''wantedDids'', s)) (jc_wanted_dids config) @
     map (\<lambda>s. (''wantedCollections'', s)) (jc_wanted_collections config) @
     [(''compress'', case jc_compression config of NoCompression \<Rightarrow> ''false'' | Zstd \<Rightarrow> ''true'')]"

definition maybe_ua :: "string \<Rightarrow> JetstreamConfig \<Rightarrow> string option" where
  "maybe_ua version config =
     (let ua_info = (if jc_omit_user_agent_jetstream_info config then None
                     else Some (''v'' @ version @ '' via jetstream-oxide (microcosm/links fork)''))
      in case (jc_user_agent config, ua_info) of
           (Some ua, Some info) \<Rightarrow> Some (ua @ '' '' @ info)
         | (Some ua, None) \<Rightarrow> Some ua
         | (None, Some info) \<Rightarrow> Some info
         | (None, None) \<Rightarrow> None)"

record Request =
  rq_endpoint :: string
  rq_params :: "(string \<times> string) list"
  rq_user_agent :: "string option"

text \<open>\<open>request_ok\<close>: the URL and the headers are accepted by the crates that build the request.\<close>

definition build_request :: "string \<Rightarrow> (Request \<Rightarrow> bool) \<Rightarrow> JetstreamConfig \<Rightarrow> Cursor option \<Rightarrow> Request option" where
  "build_request version request_ok config maybe_cursor =
     (let params = base_params config @ (case maybe_cursor of Some c \<Rightarrow> [(''cursor'', to_jetstream c)] | None \<Rightarrow> []);
          req = \<lparr>rq_endpoint = jc_endpoint config, rq_params = params, rq_user_agent = maybe_ua version config\<rparr>
      in if request_ok req then Some req else None)"

section \<open>One connection\<close>

datatype JetstreamEventError = CompressionDictionaryError | PingPongError | NoMessagesReceived | ReceiverClosedError

text \<open>
  What the next read gives.  The flags of a message say whether the consumer still holds the channel,
  and last whether a write to the socket in the same turn succeeds.
\<close>

datatype SocketInput =
    TextMessage string bool bool
  | BinaryMessage bytes bool bool
  | PingMessage bool
  | CloseMessage
  | PongMessage
  | FrameMessage
  | SocketError
  | SocketEnded
  | SocketSilent

datatype Turn = Continue | Return "JetstreamEventError + unit"

record Connection =
  cn_last_cursor :: "Cursor option"
  cn_sent :: "JetstreamEvent list"

definition handle_jetstream_event :: "JetstreamEvent option \<Rightarrow> bool \<Rightarrow> bool \<Rightarrow> Connection \<Rightarrow> Turn \<times> Connection" where
  "handle_jetstream_event parsed receiver_open writable s =
     (case parsed of
        None \<Rightarrow> (Continue, s)
      | Some event \<Rightarrow>
          if (case cn_last_cursor s of Some seen \<Rightarrow> je_cursor event \<le> seen | None \<Rightarrow> False) then (Continue, s)
          else if \<not> receiver_open then (Return (Inl (if writable then ReceiverClosedError else PingPongError)), s)
          else (Continue, s\<lparr>cn_sent := cn_sent s @ [event],
                            cn_last_cursor := (case cn_last_cursor s of Some _ \<Rightarrow> Some (je_cursor event) | None \<Rightarrow> None)\<rparr>))"

fun websocket_turn ::
  "(string \<Rightarrow> JetstreamEvent option) \<Rightarrow> (bytes \<Rightarrow> string option) \<Rightarrow> SocketInput \<Rightarrow> Connection \<Rightarrow> Turn \<times> Connection" where
  "websocket_turn from_json decompress (TextMessage json receiver_open writable) s =
     handle_jetstream_event (from_json json) receiver_open writable s"
| "websocket_turn from_json decompress (BinaryMessage zstd_json receiver_open writable) s =
     (case decompress zstd_json of
        None \<Rightarrow> (Return (Inl CompressionDictionaryError), s)
      | Some json \<Rightarrow> handle_jetstream_event (from_json json) receiver_open writable s)"
| "websocket_turn from_json decompress (PingMessage writable) s =
     (if writable then Continue else Return (Inl PingPongError), s)"
| "websocket_turn from_json decompress CloseMessage s = (Continue, s)"
| "websocket_turn from_json decompress PongMessage s = (Continue, s)"
| "websocket_turn from_json decompress FrameMessage s = (Continue, s)"
| "websocket_turn from_json decompress SocketError s = (Return (Inr ()), s)"
| "websocket_turn from_json decompress SocketEnded s = (Return (Inr ()), s)"
| "websocket_turn from_json decompress SocketSilent s = (Return (Inl NoMessagesReceived), s)"

text \<open>The loop of the task over what the socket gives; \<open>None\<close> while it is still reading.\<close>

fun websocket_task ::
  "(string \<Rightarrow> JetstreamEvent option) \<Rightarrow> (bytes \<Rightarrow> string option) \<Rightarrow> SocketInput list \<Rightarrow> Connection \<Rightarrow>
     (JetstreamEventError + unit) option \<times> Connection" where
  "websocket_task from_json decompress [] s = (None, s)"
| "websocket_task from_json decompress (i # is) s =
     (case websocket_turn from_json decompress i s of
        (Continue, s') \<Rightarrow> websocket_task from_json decompress is s'
      | (Return r, s') \<Rightarrow> (Some r, s'))"

section \<open>Reconnecting\<close>

abbreviation max_retries :: nat where "max_retries \<equiv> 300"
abbreviation max_delay_ms :: u64 where "max_delay_ms \<equiv> 30000"

text \<open>\<open>2_u64.saturating_pow(n)\<close>, and the delay as release builds compute it, with a multiplication that wraps.\<close>

definition saturating_pow2 :: "nat \<Rightarrow> u64" where
  "saturating_pow2 n = (if n < 64 then 2 ^ n else - 1)"

definition backoff_delay :: "nat \<Rightarrow> u64" where
  "backoff_delay retry_attempt = min (1000 * saturating_pow2 retry_attempt) max_delay_ms"

text \<open>An attempt fails to connect, or gives a connection that lasted longer than the threshold of 15 s or not.\<close>

datatype Attempt = ConnectFailed | Connected "SocketInput list" bool

text \<open>The task is about to connect, still reading a connection, or has ended.\<close>

datatype Status = Connecting | Reading | Exited

record Connector =
  ct_retry_attempt :: nat
  ct_connect_cursor :: "Cursor option"
  ct_requests :: "Request list"
  ct_sent :: "JetstreamEvent list"
  ct_delays :: "u64 list"
  ct_status :: Status

definition connector_start :: "Cursor option \<Rightarrow> Connector" where
  "connector_start cursor = \<lparr>ct_retry_attempt = 0, ct_connect_cursor = cursor, ct_requests = [], ct_sent = [],
     ct_delays = [], ct_status = Connecting\<rparr>"

text \<open>What follows a connection that ended, or a failure to connect.\<close>

definition after_attempt :: "bool \<Rightarrow> Cursor option \<Rightarrow> Connector \<Rightarrow> Connector" where
  "after_attempt replay_on_reconnect last_cursor s =
     (if ct_retry_attempt s \<ge> max_retries then s\<lparr>ct_status := Exited\<rparr>
      else
        let s = s\<lparr>ct_connect_cursor := (if replay_on_reconnect then last_cursor else None)\<rparr>
        in if ct_retry_attempt s > 0 then s\<lparr>ct_delays := ct_delays s @ [backoff_delay (ct_retry_attempt s)]\<rparr> else s)"

definition connector_turn ::
  "string \<Rightarrow> (Request \<Rightarrow> bool) \<Rightarrow> (string \<Rightarrow> JetstreamEvent option) \<Rightarrow> (bytes \<Rightarrow> string option) \<Rightarrow> JetstreamConfig \<Rightarrow>
     Attempt \<Rightarrow> Connector \<Rightarrow> Connector" where
  "connector_turn version request_ok from_json decompress config attempt s =
     (case build_request version request_ok config (ct_connect_cursor s) of
        None \<Rightarrow> s\<lparr>ct_status := Exited\<rparr>
      | Some req \<Rightarrow>
          let s = s\<lparr>ct_requests := ct_requests s @ [req], ct_retry_attempt := ct_retry_attempt s + 1\<rparr>
          in (case attempt of
                ConnectFailed \<Rightarrow> after_attempt (jc_replay_on_reconnect config) (ct_connect_cursor s) s
              | Connected is long \<Rightarrow>
                  (case websocket_task from_json decompress is \<lparr>cn_last_cursor = ct_connect_cursor s, cn_sent = ct_sent s\<rparr> of
                     (None, c) \<Rightarrow> s\<lparr>ct_sent := cn_sent c, ct_status := Reading\<rparr>
                   | (Some (Inl ReceiverClosedError), c) \<Rightarrow> s\<lparr>ct_sent := cn_sent c, ct_status := Exited\<rparr>
                   | (Some _, c) \<Rightarrow>
                       after_attempt (jc_replay_on_reconnect config) (cn_last_cursor c)
                         (s\<lparr>ct_sent := cn_sent c, ct_retry_attempt := (if long then 0 else ct_retry_attempt s)\<rparr>))))"

fun connector_run ::
  "string \<Rightarrow> (Request \<Rightarrow> bool) \<Rightarrow> (string \<Rightarrow> JetstreamEvent option) \<Rightarrow> (bytes \<Rightarrow> string option) \<Rightarrow> JetstreamConfig \<Rightarrow>
     Attempt list \<Rightarrow> Connector \<Rightarrow> Connector" where
  "connector_run version request_ok from_json decompress config [] s = s"
| "connector_run version request_ok from_json decompress config (a # as) s =
     (if ct_status s = Connecting
      then connector_run version request_ok from_json decompress config as
             (connector_turn version request_ok from_json decompress config a s)
      else s)"

definition connect_cursor ::
  "string \<Rightarrow> (string \<Rightarrow> bool) \<Rightarrow> (Request \<Rightarrow> bool) \<Rightarrow> (string \<Rightarrow> JetstreamEvent option) \<Rightarrow> (bytes \<Rightarrow> string option) \<Rightarrow> JetstreamConfig \<Rightarrow>
     Attempt list \<Rightarrow> Cursor option \<Rightarrow> ConfigValidationError + Connector" where
  "connect_cursor version parse_url request_ok from_json decompress config attempts cursor =
     and_then (validate parse_url config)
       (\<lambda>_. Inr (connector_run version request_ok from_json decompress config attempts (connector_start cursor)))"

end
