(* ===== verification/Constellation_Main.thy ===== *)
theory Constellation_Main
  imports Constellation_Serve Jetstream
begin

text \<open>
  The binary of \<open>constellation\<close> (\<open>constellation/src/bin/main.rs\<close>) and the backups of the disk store
  (\<open>start_backup\<close> and \<open>backup_task\<close> of \<open>storage/rocks_store.rs\<close>).

  Durations are nanoseconds.  A rate limiter that has no token yet says how long to sleep; what the
  clock and the cancellation token show on each turn of the waiting loop are inputs, and so are the
  results of RocksDB's backup engine.  Subtracting a longer duration from a shorter one panics.
\<close>

section \<open>main.rs: starting\<close>

datatype StorageBackend = MemoryBackend | RocksBackend

record MainArgs =
  ma_jetstream :: string
  ma_data :: "string option"
  ma_backend :: StorageBackend
  ma_backup :: "string option"
  ma_backup_interval :: "u64 option"
  ma_max_old_backups :: "nat option"
  ma_fixture :: "string option"

definition jetstream_url :: "string \<Rightarrow> string" where
  "jetstream_url provided =
     (if provided = ''us-east-1'' then ''wss://jetstream1.us-east.bsky.network/subscribe''
      else if provided = ''us-east-2'' then ''wss://jetstream2.us-east.bsky.network/subscribe''
      else if provided = ''us-west-1'' then ''wss://jetstream1.us-west.bsky.network/subscribe''
      else if provided = ''us-west-2'' then ''wss://jetstream2.us-west.bsky.network/subscribe''
      else provided)"

text \<open>What \<open>run\<close> is called with, and the backups started before it: a directory, and for automatic ones how often and how many to keep.\<close>

record Launch =
  la_rocks_dir :: "string option"
  la_backup :: "(string \<times> (u64 \<times> nat option) option) option"
  la_fixture :: "string option"
  la_data_dir :: "string option"
  la_stream :: string

datatype MainError = OpenFailed | InvalidBackupConfig

definition auto_backup :: "u64 option \<Rightarrow> nat option \<Rightarrow> MainError + (u64 \<times> nat option) option" where
  "auto_backup interval copies =
     (case (interval, copies) of
        (Some interval_hrs, copies) \<Rightarrow> Inr (Some (interval_hrs, copies))
      | (None, None) \<Rightarrow> Inr None
      | (None, Some _) \<Rightarrow> Inl InvalidBackupConfig)"

text \<open>\<open>open_ok\<close>: \<open>RocksStorage::new\<close> opens the directory.\<close>

definition main_launch :: "(string \<Rightarrow> bool) \<Rightarrow> MainArgs \<Rightarrow> MainError + Launch" where
  "main_launch open_ok args =
     (let stream = jetstream_url (ma_jetstream args)
      in case ma_backend args of
           MemoryBackend \<Rightarrow>
             Inr \<lparr>la_rocks_dir = None, la_backup = None, la_fixture = ma_fixture args, la_data_dir = None, la_stream = stream\<rparr>
         | RocksBackend \<Rightarrow>
             (let storage_dir = (case ma_data args of Some p \<Rightarrow> p | None \<Rightarrow> ''rocks.test'')
              in if \<not> open_ok storage_dir then Inl OpenFailed
                 else and_then
                   (case ma_backup args of
                      None \<Rightarrow> Inr None
                    | Some backup_dir \<Rightarrow>
                        and_then (auto_backup (ma_backup_interval args) (ma_max_old_backups args))
                          (\<lambda>auto. Inr (Some (backup_dir, auto))))
                   (\<lambda>backup. Inr \<lparr>la_rocks_dir = Some storage_dir, la_backup = backup, la_fixture = ma_fixture args,
                                   la_data_dir = ma_data args, la_stream = stream\<rparr>)))"

section \<open>main.rs: the threads of run\<close>

record Process =
  pr_cancelled :: bool
  pr_desperation :: nat
  pr_consumer_up :: bool
  pr_server_up :: bool
  pr_monitor_up :: bool
  pr_panics :: "panic list"

definition process_new :: Process where
  "process_new = \<lparr>pr_cancelled = False, pr_desperation = 0, pr_consumer_up = True, pr_server_up = True,
     pr_monitor_up = True, pr_panics = []\<rparr>"

text \<open>
  An interrupt; the consumer's \<open>consume\<close> returns, with or without an error; the server's \<open>block_on\<close>
  returns \<open>Ok\<close> or an error; the monitor looks at the token.
\<close>

datatype ProcEvent = CtrlC | ConsumerDone | ServerDone bool | MonitorLooks

fun process_step :: "ProcEvent \<Rightarrow> Process \<Rightarrow> Process" where
  "process_step CtrlC p =
     (if pr_desperation p = 0 then p\<lparr>pr_cancelled := True, pr_desperation := 1\<rparr>
      else p\<lparr>pr_panics := pr_panics p @ [Panic ''fine, panicking!'']\<rparr>)"
| "process_step ConsumerDone p =
     (if pr_consumer_up p then p\<lparr>pr_consumer_up := False, pr_cancelled := True\<rparr> else p)"
| "process_step (ServerDone ok) p =
     (if \<not> pr_server_up p then p
      else if ok then p\<lparr>pr_server_up := False, pr_cancelled := True\<rparr>
      else p\<lparr>pr_server_up := False, pr_panics := pr_panics p @ [Panic ''called `Result::unwrap()` on an `Err` value'']\<rparr>)"
| "process_step MonitorLooks p =
     (if pr_monitor_up p \<and> pr_cancelled p then p\<lparr>pr_monitor_up := False\<rparr> else p)"

text \<open>\<open>thread::scope\<close> returns when every thread has ended.\<close>

definition scope_ended :: "Process \<Rightarrow> bool" where
  "scope_ended p \<longleftrightarrow> \<not> pr_consumer_up p \<and> \<not> pr_server_up p \<and> \<not> pr_monitor_up p"

section \<open>rocks_store.rs: backups\<close>

definition minimum_sleep :: nat where "minimum_sleep = 1000000000"

datatype Waited = WaitOver | WaitQuit | WaitPanic | StillWaiting

text \<open>The inner loop: on each turn, how long it has waited and whether the token is cancelled.\<close>

fun wait_loop :: "nat \<Rightarrow> (nat \<times> bool) list \<Rightarrow> Waited" where
  "wait_loop sleep [] = StillWaiting"
| "wait_loop sleep ((elapsed, cancelled) # turns) =
     (if sleep < elapsed then WaitPanic
      else let remaining = sleep - elapsed
           in if cancelled then WaitQuit
              else if remaining \<le> 0 then WaitOver
              else if remaining < minimum_sleep then WaitOver
              else wait_loop sleep turns)"

record Round =
  rd_wait :: "(nat \<times> (nat \<times> bool) list) option"
  rd_backup_ok :: bool
  rd_trim_ok :: bool

datatype BackupAct = DidBackup bool | DidTrim nat bool
datatype BackupEnd = TaskRunning | TaskQuit | TaskPanicked

fun backup_task :: "nat option \<Rightarrow> Round list \<Rightarrow> BackupEnd \<times> BackupAct list" where
  "backup_task copies [] = (TaskRunning, [])"
| "backup_task copies (rd # rds) =
     (case (case rd_wait rd of None \<Rightarrow> WaitOver | Some (sleep, turns) \<Rightarrow> wait_loop sleep turns) of
        WaitQuit \<Rightarrow> (TaskQuit, [])
      | WaitPanic \<Rightarrow> (TaskPanicked, [])
      | StillWaiting \<Rightarrow> (TaskRunning, [])
      | WaitOver \<Rightarrow>
          let acts = DidBackup (rd_backup_ok rd) # (case copies of Some n \<Rightarrow> [DidTrim n (rd_trim_ok rd)] | None \<Rightarrow> []);
              (e, more_acts) = backup_task copies rds
          in (e, acts @ more_acts))"

section \<open>What holds of them\<close>

lemma jetstream_url_shortcuts: "jetstream_url = endpoint_or_shortcut"
  by (rule ext) (simp add: jetstream_url_def endpoint_or_shortcut_def)

lemma keeping_needs_interval:
  assumes "ma_backend args = RocksBackend" "ma_backup args = Some dir" "ma_backup_interval args = None"
    "ma_max_old_backups args = Some n"
  shows "\<exists>e. main_launch open_ok args = Inl e"
  using assms by (simp add: main_launch_def auto_backup_def Let_def split: option.split)

text \<open>The default directory is opened but not watched: without \<open>--data\<close> the monitor has no path.\<close>

lemma default_dir_not_watched:
  assumes "main_launch open_ok args = Inr l" "ma_backend args = RocksBackend" "ma_data args = None"
  shows "la_rocks_dir l = Some ''rocks.test''" "la_data_dir l = None"
  using assms by (auto simp: main_launch_def Let_def and_then_Inr split: if_splits)

lemma cancelled_stays: "pr_cancelled p \<Longrightarrow> pr_cancelled (process_step ev p)"
  by (cases ev) auto

lemma cancelled_run: "pr_cancelled p \<Longrightarrow> pr_cancelled (fold process_step evs p)"
  by (induction evs arbitrary: p) (auto intro: cancelled_stays)

text \<open>
  When one thread returns, or on an interrupt, every other is told to stop, and stays told; the monitor
  then ends the next time it looks.  An error of the server is the exception: its thread panics before
  it cancels, and the two others run on.
\<close>

lemma end_cancels:
  assumes "ev = CtrlC \<and> pr_desperation p = 0 \<or> ev = ConsumerDone \<and> pr_consumer_up p \<or> ev = ServerDone True \<and> pr_server_up p"
  shows "pr_cancelled (fold process_step (ev # evs) p)"
proof -
  have "pr_cancelled (process_step ev p)" using assms by auto
  then show ?thesis by (simp add: cancelled_run)
qed

lemma told_to_stop_ends:
  assumes "pr_cancelled p"
  shows "scope_ended (fold process_step [ConsumerDone, ServerDone True, MonitorLooks] p)"
  using assms by (simp add: scope_ended_def)

theorem server_error_not_cancelled:
  "let p = process_step (ServerDone False) process_new
   in \<not> pr_server_up p \<and> \<not> pr_cancelled p \<and> pr_consumer_up p \<and> process_step MonitorLooks p = p"
  by (simp add: process_new_def)

text \<open>
  Sleeps that take exactly as long as asked: the wait ends, after as many turns as it has whole
  seconds and one more, and never panics.
\<close>

lemma wait_exact:
  assumes "length turns > (sleep - k * minimum_sleep) div minimum_sleep" "k * minimum_sleep \<le> sleep"
    and "\<forall>j < length turns. turns ! j = ((k + j) * minimum_sleep, False)"
  shows "wait_loop sleep turns = WaitOver"
  using assms
proof (induction turns arbitrary: k)
  case (Cons turn turns)
  from Cons.prems(3) have turn: "turn = (k * minimum_sleep, False)" by force
  show ?case
  proof (cases "sleep - k * minimum_sleep < minimum_sleep")
    case True
    with Cons.prems(2) show ?thesis by (simp add: turn)
  next
    case False
    have pos: "0 < minimum_sleep" by (simp add: minimum_sleep_def)
    let ?r = "sleep - k * minimum_sleep"
    have "?r div minimum_sleep = Suc ((?r - minimum_sleep) div minimum_sleep)"
      using False pos by (simp add: le_div_geq)
    moreover have "?r - minimum_sleep = sleep - Suc k * minimum_sleep" by simp
    ultimately have "length turns > (sleep - Suc k * minimum_sleep) div minimum_sleep" using Cons.prems(1) by simp
    moreover have "Suc k * minimum_sleep \<le> sleep" using False Cons.prems(2) by simp
    moreover have "\<forall>j < length turns. turns ! j = ((Suc k + j) * minimum_sleep, False)"
      using Cons.prems(3) by (metis Suc_less_eq add_Suc_shift length_Cons nth_Cons_Suc)
    ultimately have "wait_loop sleep turns = WaitOver" by (rule Cons.IH)
    moreover have "0 < ?r" using False pos by linarith
    ultimately show ?thesis using False Cons.prems(2) by (simp add: turn)
  qed
qed simp

text \<open>
  A sleep takes at least as long as asked, not exactly: when a whole second is left and the sleep
  overshoots by a nanosecond, the next turn subtracts more than it has and the task dies.
\<close>

theorem overslept_backup_panics:
  "wait_loop (2 * minimum_sleep) [(0, False), (minimum_sleep, False), (2 * minimum_sleep + 1, False)] = WaitPanic \<and>
   backup_task (Some 3) [\<lparr>rd_wait = None, rd_backup_ok = True, rd_trim_ok = True\<rparr>,
     \<lparr>rd_wait = Some (2 * minimum_sleep, [(0, False), (minimum_sleep, False), (2 * minimum_sleep + 1, False)]),
      rd_backup_ok = True, rd_trim_ok = True\<rparr>] = (TaskPanicked, [DidBackup True, DidTrim 3 True])"
  by (simp add: minimum_sleep_def)

text \<open>While it waits, a cancelled task quits without another backup.\<close>

lemma cancelled_wait_quits:
  assumes "list_all (\<lambda>(e, c). e + minimum_sleep \<le> sleep \<and> \<not> c) turns" "elapsed \<le> sleep"
  shows "backup_task copies (\<lparr>rd_wait = Some (sleep, turns @ (elapsed, True) # rest), rd_backup_ok = b, rd_trim_ok = t\<rparr> # rds) = (TaskQuit, [])"
proof -
  have "wait_loop sleep (turns @ (elapsed, True) # rest) = WaitQuit"
    using assms by (induction turns) (auto simp: minimum_sleep_def)
  then show ?thesis by simp
qed

end
