(* ===== verification/Link_Stats.thy ===== *)
theory Link_Stats
  imports Constellation_Serve
begin

text \<open>
  The binary \<open>constellation/src/bin/rocks-link-stats.rs\<close>: a scan over every target of the database
  that counts, for each kind of link, how many targets have how many linkers.

  What RocksDB answers while it is scanned is a parameter (\<open>StatsDb\<close>): a read may fail and bytes may
  not decode.  \<open>rocks_stats_db\<close> is the database of \<open>Rocks_Store\<close>, whose keys and values are decoded.
\<close>

section \<open>Data\<close>

type_synonym SourceLink = "string \<times> string \<times> string \<times> string option"

record SourceSample =
  sam_did :: string
  sam_rkey :: string

record Bucket =
  bk_count :: u64
  bk_sum :: u64
  bk_sample :: "SourceSample option"

type_synonym Buckets = "Bucket list"

definition bucket_default :: Bucket where
  "bucket_default = \<lparr>bk_count = 0, bk_sum = 0, bk_sample = None\<rparr>"

definition buckets_default :: Buckets where
  "buckets_default = replicate 23 bucket_default"

definition BUCKETS :: "u64 list" where
  "BUCKETS = [1, 2, 3, 4, 5, 6, 7, 8, 9, 10, 12, 16, 32, 64, 128, 256, 512, 1024, 4096, 16384, 65535, 262144, 1048576]"

record Printable =
  prt_collection :: string
  prt_path :: string
  prt_link_type :: string
  prt_target_collection :: "string option"
  prt_buckets :: Buckets

record ErrStats =
  es_failed_to_get_sample :: nat
  es_failed_to_read_target_id :: nat
  es_failed_to_deserialize_target_key :: nat
  es_failed_to_parse_target_as_link :: nat
  es_failed_to_get_links :: nat
  es_failed_to_deserialize_linkers :: nat

definition err_stats_default :: ErrStats where
  "err_stats_default =
     \<lparr>es_failed_to_get_sample = 0, es_failed_to_read_target_id = 0, es_failed_to_deserialize_target_key = 0,
      es_failed_to_parse_target_as_link = 0, es_failed_to_get_links = 0, es_failed_to_deserialize_linkers = 0\<rparr>"

text \<open>
  An entry of the iterator is \<open>None\<close> when the read failed; its key is \<open>None\<close> when it does not decode.
  A lookup gives \<open>None\<close> when nothing was read and \<open>Some None\<close> when what was read does not decode.
\<close>

type_synonym StatsItem = "(TargetKey option \<times> TargetId) option"

record StatsDb =
  sdb_linkers :: "TargetId \<Rightarrow> TargetLinkers option option"
  sdb_did :: "u64 \<Rightarrow> Did option option"

record StatsRun =
  sr_stats :: "(SourceLink, Buckets) hashmap"
  sr_err :: ErrStats
  sr_i :: nat

definition stats_new :: StatsRun where
  "stats_new = \<lparr>sr_stats = [], sr_err = err_stats_default, sr_i = 0\<rparr>"

section \<open>The scan\<close>

text \<open>The loop over the edges of the buckets.\<close>

fun edge_loop :: "u64 list \<Rightarrow> u64 \<Rightarrow> nat \<Rightarrow> nat" where
  "edge_loop [] n bucket = bucket"
| "edge_loop (edge # edges) n bucket =
     (if n \<le> edge \<or> bucket = 22 then bucket else edge_loop edges n (bucket + 1))"

definition source_link :: "(string \<Rightarrow> Link option) \<Rightarrow> TargetKey \<Rightarrow> SourceLink option" where
  "source_link parse k =
     (case k of (target, collection, rpath) \<Rightarrow>
        map_option (\<lambda>parsed. (collection, rpath, link_name parsed, link_at_uri_collection parsed)) (parse target))"

text \<open>The sample of a bucket that has none yet, and whether it could not be read.\<close>

definition take_sample :: "StatsDb \<Rightarrow> TargetLinkers \<Rightarrow> u64 \<Rightarrow> Bucket \<Rightarrow> Bucket \<times> bool" where
  "take_sample db linkers n b =
     (if bk_sample b \<noteq> None then (b, False)
      else case linkers ! unat (n - 1) of (did_id, k) \<Rightarrow>
        (case sdb_did db did_id of
           Some (Some (Did did)) \<Rightarrow> (b\<lparr>bk_sample := Some \<lparr>sam_did = did, sam_rkey = k\<rparr>\<rparr>, False)
         | _ \<Rightarrow> (b, True)))"

definition count_target :: "StatsDb \<Rightarrow> SourceLink \<Rightarrow> TargetLinkers \<Rightarrow> u64 \<Rightarrow> StatsRun \<Rightarrow> StatsRun" where
  "count_target db source linkers n r =
     (let bucket = edge_loop BUCKETS n 0;
          bs = (case hm_get (sr_stats r) source of None \<Rightarrow> buckets_default | Some bs \<Rightarrow> bs);
          b = bs ! bucket;
          (b', failed) = take_sample db linkers n (b\<lparr>bk_count := bk_count b + 1, bk_sum := bk_sum b + n\<rparr>);
          e = sr_err r
      in r\<lparr>sr_stats := hm_insert source (bs[bucket := b']) (sr_stats r),
           sr_err := (if failed then e\<lparr>es_failed_to_get_sample := es_failed_to_get_sample e + 1\<rparr> else e)\<rparr>)"

definition scan_item :: "(string \<Rightarrow> Link option) \<Rightarrow> StatsDb \<Rightarrow> StatsItem \<Rightarrow> StatsRun \<Rightarrow> StatsRun" where
  "scan_item parse db item r0 =
     (let r = r0\<lparr>sr_i := sr_i r0 + 1\<rparr>; e = sr_err r
      in case item of
           None \<Rightarrow> r\<lparr>sr_err := e\<lparr>es_failed_to_read_target_id := es_failed_to_read_target_id e + 1\<rparr>\<rparr>
         | Some (None, _) \<Rightarrow>
             r\<lparr>sr_err := e\<lparr>es_failed_to_deserialize_target_key := es_failed_to_deserialize_target_key e + 1\<rparr>\<rparr>
         | Some (Some target_key, target_id) \<Rightarrow>
             (case source_link parse target_key of
                None \<Rightarrow> r\<lparr>sr_err := e\<lparr>es_failed_to_parse_target_as_link := es_failed_to_parse_target_as_link e + 1\<rparr>\<rparr>
              | Some source \<Rightarrow>
                  (case sdb_linkers db target_id of
                     None \<Rightarrow> r\<lparr>sr_err := e\<lparr>es_failed_to_get_links := es_failed_to_get_links e + 1\<rparr>\<rparr>
                   | Some None \<Rightarrow>
                       r\<lparr>sr_err := e\<lparr>es_failed_to_deserialize_linkers := es_failed_to_deserialize_linkers e + 1\<rparr>\<rparr>
                   | Some (Some linkers) \<Rightarrow>
                       let (n, _) = linkers_count linkers
                       in if n = 0 then r else count_target db source linkers n r)))"

text \<open>The loop; each item comes with whether the scan was cancelled before it.\<close>

fun stats_scan :: "(string \<Rightarrow> Link option) \<Rightarrow> StatsDb \<Rightarrow> (bool \<times> StatsItem) list \<Rightarrow> StatsRun \<Rightarrow> StatsRun" where
  "stats_scan parse db [] r = r"
| "stats_scan parse db ((cancelled, item) # items) r =
     (if cancelled then r else stats_scan parse db items (scan_item parse db item r))"

definition itemify :: "(SourceLink, Buckets) hashmap \<Rightarrow> Printable list" where
  "itemify stats =
     map (\<lambda>((collection, path, link_type, target_collection), buckets).
        \<lparr>prt_collection = collection, prt_path = path, prt_link_type = link_type,
         prt_target_collection = target_collection, prt_buckets = buckets\<rparr>) stats"

text \<open>Digits in groups of three from the right (\<open>rchunks(3).rev()\<close>).\<close>

fun join_with :: "'a \<Rightarrow> 'a list list \<Rightarrow> 'a list" where
  "join_with sep [] = []"
| "join_with sep [x] = x"
| "join_with sep (x # y # xs) = x @ sep # join_with sep (y # xs)"

definition thousands :: "nat \<Rightarrow> string" where
  "thousands n = join_with CHR '','' (rev (map rev (chunks 3 (rev (decimal n)))))"

section \<open>The scan of a storage\<close>

definition rocks_stats_db :: "RocksStorage \<Rightarrow> StatsDb" where
  "rocks_stats_db s =
     \<lparr>sdb_linkers = (\<lambda>i. map_option Some (hm_get (db_target_linkers (rs_db s)) i)),
      sdb_did = (\<lambda>i. map_option Some (get_val_from_id s i))\<rparr>"

definition rocks_stats_items :: "(TargetKey \<Rightarrow> u8 list) \<Rightarrow> RocksStorage \<Rightarrow> StatsItem list" where
  "rocks_stats_items enc s = map (\<lambda>(k, i). Some (Some k, i)) (sort_key (enc \<circ> fst) (db_target_ids (rs_db s)))"

definition rocks_link_stats :: "(string \<Rightarrow> Link option) \<Rightarrow> (TargetKey \<Rightarrow> u8 list) \<Rightarrow> RocksStorage \<Rightarrow> StatsRun" where
  "rocks_link_stats parse enc s =
     stats_scan parse (rocks_stats_db s) (map (Pair False) (rocks_stats_items enc s)) stats_new"

end
