(* ===== verification/Link_Stats_Props.thy ===== *)
theory Link_Stats_Props
  imports Link_Stats
begin

text \<open>
  What the link statistics count: the bucket of a number of linkers, the buckets as functions of the
  targets that were scanned, and, for a storage, of the index it holds.
\<close>

section \<open>Buckets\<close>

definition holds_count :: "nat \<Rightarrow> u64 \<Rightarrow> bool" where
  "holds_count b n \<longleftrightarrow> n \<noteq> 0 \<and> (b = 0 \<or> BUCKETS ! (b - 1) < n) \<and> (b = 22 \<or> n \<le> BUCKETS ! b)"

lemma edge_loop_spec:
  "b + length es = 23 \<Longrightarrow> b \<le> 22 \<Longrightarrow>
   b \<le> edge_loop es n b \<and> edge_loop es n b \<le> 22 \<and>
   (edge_loop es n b = 22 \<or> n \<le> es ! (edge_loop es n b - b)) \<and>
   (\<forall>j. b \<le> j \<and> j < edge_loop es n b \<longrightarrow> es ! (j - b) < n)"
proof (induction es n b rule: edge_loop.induct)
  case (2 edge edges n b)
  show ?case
  proof (cases "n \<le> edge \<or> b = 22")
    case False
    then have "b + 1 + length edges = 23" "b + 1 \<le> 22" using "2.prems" by auto
    note ih = "2.IH" [OF False this]
    have shift: "(edge # edges) ! (j - b) = (if j = b then edge else edges ! (j - (b + 1)))" if "b \<le> j" for j
      using that by (auto simp: nth_Cons')
    have "(edge # edges) ! (j - b) < n" if "b \<le> j" "j < edge_loop edges n (b + 1)" for j
      using ih that False shift [OF that(1)] by (cases "j = b") auto
    moreover have "edge_loop edges n (b + 1) = 22 \<or> n \<le> (edge # edges) ! (edge_loop edges n (b + 1) - b)"
      using ih shift [of "edge_loop edges n (b + 1)"] by auto
    ultimately show ?thesis using ih False by auto
  qed (use "2.prems" in auto)
qed auto

lemma BUCKETS_length [simp]: "length BUCKETS = 23"
  by (simp add: BUCKETS_def)

lemma BUCKETS_sorted: "sorted_wrt (<) BUCKETS"
  by (simp add: BUCKETS_def)

lemma edge_loop_less: "edge_loop BUCKETS n 0 < 23"
  using edge_loop_spec [of 0 BUCKETS n] by auto

lemma edge_loop_holds_count:
  assumes "n \<noteq> 0"
  shows "holds_count (edge_loop BUCKETS n 0) n"
  using edge_loop_spec [of 0 BUCKETS n] assms
  by (cases "edge_loop BUCKETS n 0") (auto simp: holds_count_def)

lemma holds_count_unique:
  assumes "holds_count b n" "holds_count b' n" "b < b'" "b' < 23"
  shows False
proof -
  have "n \<le> BUCKETS ! b" using assms by (auto simp: holds_count_def)
  also have "BUCKETS ! b \<le> BUCKETS ! (b' - 1)"
  proof (cases "b = b' - 1")
    case False
    then have "b < b' - 1" using assms(3) by simp
    then show ?thesis using sorted_wrt_nth_less [OF BUCKETS_sorted, of b "b' - 1"] assms(4)
      by (simp add: less_imp_le)
  qed simp
  also have "BUCKETS ! (b' - 1) < n" using assms by (auto simp: holds_count_def)
  finally show False by simp
qed

lemma edge_loop_iff:
  assumes "b < 23"
  shows "n \<noteq> 0 \<and> edge_loop BUCKETS n 0 = b \<longleftrightarrow> holds_count b n"
  using edge_loop_holds_count [of n] edge_loop_less [of n] holds_count_unique assms
  by (metis holds_count_def nat_neq_iff)

section \<open>The scan\<close>

text \<open>What a scanned entry contributes: its kind of link and its live linkers.\<close>

definition live_target :: "(string \<Rightarrow> Link option) \<Rightarrow> StatsDb \<Rightarrow> StatsItem \<Rightarrow> (SourceLink \<times> u64) option" where
  "live_target parse db item =
     (case item of
        Some (Some k, i) \<Rightarrow>
          (case source_link parse k of
             None \<Rightarrow> None
           | Some src \<Rightarrow>
               (case sdb_linkers db i of Some (Some ls) \<Rightarrow> Some (src, fst (linkers_count ls)) | _ \<Rightarrow> None))
      | _ \<Rightarrow> None)"

definition hits :: "(string \<Rightarrow> Link option) \<Rightarrow> StatsDb \<Rightarrow> SourceLink \<Rightarrow> nat \<Rightarrow> StatsItem \<Rightarrow> u64 list" where
  "hits parse db src b item =
     (case live_target parse db item of
        Some (src', n) \<Rightarrow> if src' = src \<and> holds_count b n then [n] else []
      | None \<Rightarrow> [])"

definition stats_bucket :: "StatsRun \<Rightarrow> SourceLink \<Rightarrow> nat \<Rightarrow> Bucket" where
  "stats_bucket r src b = (case hm_get (sr_stats r) src of None \<Rightarrow> bucket_default | Some bs \<Rightarrow> bs ! b)"

definition buckets_ok :: "StatsRun \<Rightarrow> bool" where
  "buckets_ok r \<longleftrightarrow> (\<forall>src bs. hm_get (sr_stats r) src = Some bs \<longrightarrow> length bs = 23)"

text \<open>The errors that keep an entry from being counted, as opposed to its sample.\<close>

definition errors :: "StatsRun \<Rightarrow> nat" where
  "errors r =
     (let e = sr_err r
      in es_failed_to_read_target_id e + es_failed_to_deserialize_target_key e + es_failed_to_parse_target_as_link e +
         es_failed_to_get_links e + es_failed_to_deserialize_linkers e)"

lemma take_sample_keeps: "take_sample db ls n b = (b', failed) \<Longrightarrow> bk_count b' = bk_count b \<and> bk_sum b' = bk_sum b"
  by (auto simp: take_sample_def split: if_splits prod.splits option.splits Did.splits)

lemma buckets_okD: "buckets_ok r \<Longrightarrow> hm_get (sr_stats r) src = Some bs \<Longrightarrow> length bs = 23"
  unfolding buckets_ok_def by blast

lemma count_target_step:
  assumes "buckets_ok r" "b < 23" "n \<noteq> 0"
  shows "buckets_ok (count_target db src' ls n r)"
    and "bk_count (stats_bucket (count_target db src' ls n r) src b) =
      bk_count (stats_bucket r src b) + (if src' = src \<and> holds_count b n then 1 else 0)"
    and "bk_sum (stats_bucket (count_target db src' ls n r) src b) =
      bk_sum (stats_bucket r src b) + (if src' = src \<and> holds_count b n then n else 0)"
    and "errors (count_target db src' ls n r) = errors r" "sr_i (count_target db src' ls n r) = sr_i r"
proof -
  let ?e = "edge_loop BUCKETS n 0"
  define bs where "bs = (case hm_get (sr_stats r) src' of None \<Rightarrow> buckets_default | Some bs \<Rightarrow> bs)"
  have len: "length bs = 23"
    using buckets_okD [OF assms(1)] by (simp add: bs_def buckets_default_def split: option.split)
  have at: "bs ! j = stats_bucket r src' j" if "j < 23" for j
    using that by (auto simp: bs_def stats_bucket_def buckets_default_def split: option.splits)
  obtain b' f where t: "take_sample db ls n ((bs ! ?e)\<lparr>bk_count := bk_count (bs ! ?e) + 1, bk_sum := bk_sum (bs ! ?e) + n\<rparr>) = (b', f)"
    by (metis prod.exhaust)
  note keeps = take_sample_keeps [OF t]
  have stats: "sr_stats (count_target db src' ls n r) = hm_insert src' (bs[?e := b']) (sr_stats r)"
    using t by (simp add: count_target_def Let_def bs_def [symmetric])
  show "buckets_ok (count_target db src' ls n r)"
    unfolding buckets_ok_def stats using len buckets_okD [OF assms(1)] by (simp split: if_split)
  have hit: "holds_count b n \<longleftrightarrow> b = ?e" using edge_loop_iff [OF assms(2), of n] assms(3) by auto
  have new: "stats_bucket (count_target db src' ls n r) src b =
      (if src' = src then if b = ?e then b' else bs ! b else stats_bucket r src b)"
    using len assms(2) by (auto simp: stats_bucket_def [of "count_target db src' ls n r"] stats_bucket_def [of r] stats nth_list_update)
  show "bk_count (stats_bucket (count_target db src' ls n r) src b) =
      bk_count (stats_bucket r src b) + (if src' = src \<and> holds_count b n then 1 else 0)"
    "bk_sum (stats_bucket (count_target db src' ls n r) src b) =
      bk_sum (stats_bucket r src b) + (if src' = src \<and> holds_count b n then n else 0)"
    using keeps at assms(2) by (auto simp: new hit)
  show "errors (count_target db src' ls n r) = errors r" "sr_i (count_target db src' ls n r) = sr_i r"
    using t by (simp_all add: count_target_def Let_def bs_def [symmetric] errors_def)
qed

lemma buckets_ok_cong: "sr_stats r' = sr_stats r \<Longrightarrow> buckets_ok r' = buckets_ok r"
  "sr_stats r' = sr_stats r \<Longrightarrow> stats_bucket r' src b = stats_bucket r src b"
  by (simp_all add: buckets_ok_def stats_bucket_def)

lemma scan_item_error:
  assumes "live_target parse db item = None"
  shows "sr_stats (scan_item parse db item r) = sr_stats r" "sr_i (scan_item parse db item r) = sr_i r + 1"
    "errors (scan_item parse db item r) = errors r + 1"
proof -
  consider "item = None" | i where "item = Some (None, i)"
    | k i where "item = Some (Some k, i)" "source_link parse k = None"
    | k i src where "item = Some (Some k, i)" "source_link parse k = Some src" "sdb_linkers db i = None"
    | k i src where "item = Some (Some k, i)" "source_link parse k = Some src" "sdb_linkers db i = Some None"
    using assms by (auto simp: live_target_def split: option.splits)
  then have "sr_stats (scan_item parse db item r) = sr_stats r \<and> sr_i (scan_item parse db item r) = sr_i r + 1 \<and>
    errors (scan_item parse db item r) = errors r + 1"
    by cases (simp_all add: scan_item_def errors_def Let_def)
  then show "sr_stats (scan_item parse db item r) = sr_stats r" "sr_i (scan_item parse db item r) = sr_i r + 1"
    "errors (scan_item parse db item r) = errors r + 1" by simp_all
qed

lemma scan_item_live:
  assumes "live_target parse db item = Some (src', n)"
  obtains k i ls where "item = Some (Some k, i)" "source_link parse k = Some src'" "sdb_linkers db i = Some (Some ls)"
    "n = fst (linkers_count ls)"
proof -
  from assms obtain kk i where a: "item = Some (kk, i)" by (cases item) (auto simp: live_target_def)
  from assms a obtain k where b: "kk = Some k" by (cases kk) (auto simp: live_target_def)
  from assms a b have c: "source_link parse k = Some src'" by (auto simp: live_target_def split: option.splits)
  from assms a b c obtain ls where "sdb_linkers db i = Some (Some ls)" "n = fst (linkers_count ls)"
    by (auto simp: live_target_def split: option.splits)
  with a b c that show thesis by blast
qed

lemma scan_item_step:
  assumes "buckets_ok r" "b < 23"
  shows "buckets_ok (scan_item parse db item r) \<and>
    bk_count (stats_bucket (scan_item parse db item r) src b) =
      bk_count (stats_bucket r src b) + of_nat (length (hits parse db src b item)) \<and>
    bk_sum (stats_bucket (scan_item parse db item r) src b) =
      bk_sum (stats_bucket r src b) + sum_list (hits parse db src b item) \<and>
    sr_i (scan_item parse db item r) = sr_i r + 1 \<and>
    errors (scan_item parse db item r) = errors r + (if live_target parse db item = None then 1 else 0)"
proof (cases "live_target parse db item")
  case None
  note e = scan_item_error [OF None, of r]
  from None assms(1) show ?thesis
    unfolding buckets_ok_cong(1) [OF e(1)] buckets_ok_cong(2) [OF e(1)] e(2) e(3) by (simp add: hits_def)
next
  case (Some v)
  then obtain src' n where live: "live_target parse db item = Some (src', n)" by (cases v) auto
  from scan_item_live [OF live] obtain k i ls where item: "item = Some (Some k, i)" "source_link parse k = Some src'"
    "sdb_linkers db i = Some (Some ls)" and n: "n = fst (linkers_count ls)" .
  have hits: "hits parse db src b item = (if src' = src \<and> holds_count b n then [n] else [])"
    by (simp add: hits_def live)
  define r' where "r' = r\<lparr>sr_i := sr_i r + 1\<rparr>"
  have r': "buckets_ok r'" "\<And>src b. stats_bucket r' src b = stats_bucket r src b" "errors r' = errors r" "sr_i r' = sr_i r + 1"
    using assms(1) by (simp_all add: r'_def buckets_ok_def stats_bucket_def errors_def)
  have s: "scan_item parse db item r = (if n = 0 then r' else count_target db src' ls n r')"
    using item n by (simp add: scan_item_def Let_def r'_def case_prod_beta)
  show ?thesis
  proof (cases "n = 0")
    case True
    then have "hits parse db src b item = []" by (simp add: hits holds_count_def)
    with True s live r' show ?thesis by simp
  next
    case False
    note step = count_target_step [OF r'(1) assms(2) False, where db = db and src' = src' and ls = ls, unfolded r']
    from False s have "scan_item parse db item r = count_target db src' ls n r'" by simp
    with step live show ?thesis by (simp only: hits) (simp split: if_split)
  qed
qed

lemma stats_scan_fold: "stats_scan parse db (map (Pair False) items) r = fold (scan_item parse db) items r"
  by (induction items arbitrary: r) auto

lemma scan_counts:
  assumes "b < 23"
  shows "buckets_ok r \<Longrightarrow> buckets_ok (fold (scan_item parse db) items r) \<and>
    bk_count (stats_bucket (fold (scan_item parse db) items r) src b) =
      bk_count (stats_bucket r src b) + of_nat (length (concat (map (hits parse db src b) items))) \<and>
    bk_sum (stats_bucket (fold (scan_item parse db) items r) src b) =
      bk_sum (stats_bucket r src b) + sum_list (concat (map (hits parse db src b) items)) \<and>
    sr_i (fold (scan_item parse db) items r) = sr_i r + length items \<and>
    errors (fold (scan_item parse db) items r) = errors r + length (filter (\<lambda>it. live_target parse db it = None) items)"
proof (induction items arbitrary: r)
  case (Cons item items)
  note step = scan_item_step [OF Cons.prems assms, of parse db item src]
  from Cons.IH [OF conjunct1 [OF step]] step show ?case by (simp add: add.assoc)
qed simp

section \<open>The statistics of a storage\<close>

definition key_count :: "RocksStorage \<Rightarrow> TargetKey \<Rightarrow> u64" where
  "key_count s k = (case k of (t, c, p) \<Rightarrow> rocks_get_count s t c p)"

lemma key_count_missing: "target_id_val s k = None \<Longrightarrow> key_count s k = 0"
  by (cases k) (simp add: key_count_def rocks_get_count_def)

lemma key_count_linkers: "target_id_val s k = Some i \<Longrightarrow> key_count s k = fst (linkers_count (get_target_linkers s i))"
  by (cases k) (simp add: key_count_def rocks_get_count_def)

lemma hits_stored:
  assumes "target_id_val s k = Some i"
  shows "hits parse (rocks_stats_db s) src b (Some (Some k, i)) =
    (if source_link parse k = Some src \<and> holds_count b (key_count s k) then [key_count s k] else [])"
proof (cases "hm_get (db_target_linkers (rs_db s)) i")
  case None
  with assms have "key_count s k = 0" by (simp add: key_count_linkers get_target_linkers_def linkers_count_def)
  with None show ?thesis
    by (simp add: hits_def live_target_def rocks_stats_db_def holds_count_def split: option.split)
next
  case (Some ls)
  with assms have "key_count s k = fst (linkers_count ls)" by (simp add: key_count_linkers get_target_linkers_def)
  with Some show ?thesis
    by (simp add: hits_def live_target_def rocks_stats_db_def split: option.split)
qed

lemma concat_map_if: "concat (map (\<lambda>x. if P x then [f x] else []) xs) = map f (filter P xs)"
  by (induction xs) auto

text \<open>The targets a bucket is about, as keys of the table of targets.\<close>

definition bucket_keys :: "(string \<Rightarrow> Link option) \<Rightarrow> RocksStorage \<Rightarrow> SourceLink \<Rightarrow> nat \<Rightarrow> TargetKey set" where
  "bucket_keys parse s src b = {k. source_link parse k = Some src \<and> holds_count b (key_count s k)}"

lemma rocks_stats_bucket:
  assumes inv: "hm_inv (db_target_ids (rs_db s))" and b: "b < 23"
  shows "finite (bucket_keys parse s src b)"
    and "bk_count (stats_bucket (rocks_link_stats parse enc s) src b) = of_nat (card (bucket_keys parse s src b))"
    and "bk_sum (stats_bucket (rocks_link_stats parse enc s) src b) = sum (key_count s) (bucket_keys parse s src b)"
proof -
  let ?m = "db_target_ids (rs_db s)" and ?h = "hits parse (rocks_stats_db s) src b"
  let ?xs = "sort_key (enc \<circ> fst) ?m"
  let ?P = "\<lambda>(k, i). source_link parse k = Some src \<and> holds_count b (key_count s k)"
  have stored: "target_id_val s k = Some i" if "(k, i) \<in> set ?m" for k i
    using that hm_get_iff_mem [OF inv] by (simp add: target_id_val_def)
  have "map (\<lambda>(k, i). ?h (Some (Some k, i))) ?xs = map (\<lambda>ki. if ?P ki then [key_count s (fst ki)] else []) ?xs"
    by (rule map_cong) (auto simp: hits_stored [OF stored] split: if_splits)
  then have "concat (map (\<lambda>(k, i). ?h (Some (Some k, i))) ?xs) = map (\<lambda>ki. key_count s (fst ki)) (filter ?P ?xs)"
    by (simp only: concat_map_if)
  moreover have "map ?h (rocks_stats_items enc s) = map (\<lambda>(k, i). ?h (Some (Some k, i))) ?xs"
    unfolding rocks_stats_items_def map_map by (rule map_cong) auto
  ultimately have hits: "concat (map ?h (rocks_stats_items enc s)) = map (key_count s \<circ> fst) (filter ?P ?xs)"
    by (simp only: comp_def)
  have dist: "distinct (map fst ?xs)" using inv by (simp only: hm_inv_def distinct_map distinct_sort set_sort)
  have setx: "set ?xs = set ?m" by simp
  from dist have distf: "distinct (map fst (filter ?P ?xs))" by (rule distinct_map_filter)
  have "k \<in> fst ` set (filter ?P ?xs)" if "k \<in> bucket_keys parse s src b" for k
  proof -
    from that have "key_count s k \<noteq> 0" by (simp add: bucket_keys_def holds_count_def)
    then obtain i where "target_id_val s k = Some i" using key_count_missing by blast
    then have "(k, i) \<in> set ?m" by (simp add: target_id_val_def hm_get_mem)
    with that setx have "(k, i) \<in> set (filter ?P ?xs)" by (simp add: bucket_keys_def)
    from imageI [OF this, of fst] show ?thesis by (simp only: fst_conv)
  qed
  moreover have "fst ` set (filter ?P ?xs) \<subseteq> bucket_keys parse s src b" by (auto simp: bucket_keys_def)
  ultimately have keys: "set (map fst (filter ?P ?xs)) = bucket_keys parse s src b" by (simp only: set_map) blast
  have "finite (set (map fst (filter ?P ?xs)))" by (rule finite_set)
  then show "finite (bucket_keys parse s src b)" unfolding keys .
  have ok: "buckets_ok stats_new" by (simp add: buckets_ok_def stats_new_def hm_get_def)
  have zero: "stats_bucket stats_new src b = bucket_default" by (simp add: stats_bucket_def stats_new_def hm_get_def)
  note counts = scan_counts [OF b ok, of parse "rocks_stats_db s" "rocks_stats_items enc s" src, unfolded hits zero]
  have run: "rocks_link_stats parse enc s = fold (scan_item parse (rocks_stats_db s)) (rocks_stats_items enc s) stats_new"
    by (simp add: rocks_link_stats_def stats_scan_fold)
  show "bk_count (stats_bucket (rocks_link_stats parse enc s) src b) = of_nat (card (bucket_keys parse s src b))"
    using conjunct1 [OF conjunct2 [OF counts]] distinct_card [OF distf] unfolding keys run
    by (simp only: length_map bucket_default_def Bucket.select_convs add_0_left)
  show "bk_sum (stats_bucket (rocks_link_stats parse enc s) src b) = sum (key_count s) (bucket_keys parse s src b)"
    using conjunct1 [OF conjunct2 [OF conjunct2 [OF counts]]] sum_list_distinct_conv_sum_set [OF distf, of "key_count s"]
    unfolding keys run by (simp only: map_map bucket_default_def Bucket.select_convs add_0_left)
qed

text \<open>
  C20. The statistics of a reachable disk store are those of the index it holds: bucket \<open>b\<close> of a kind of
  link counts the targets whose number of linkers falls into it, and sums those numbers.
\<close>

theorem link_stats_exact:
  assumes "rocks_valid s" "b < 23"
  shows "bk_count (stats_bucket (rocks_link_stats parse enc s) src b) =
      of_nat (card {(t, c, p). source_link parse (t, c, p) = Some src \<and> holds_count b (spec_count (rocks_abs s) t c p)}) \<and>
    bk_sum (stats_bucket (rocks_link_stats parse enc s) src b) =
      (\<Sum>(t, c, p) | source_link parse (t, c, p) = Some src \<and> holds_count b (spec_count (rocks_abs s) t c p). spec_count (rocks_abs s) t c p)"
proof -
  from assms(1) obtain d where "store_rel d s" by (auto simp: rocks_valid_def)
  from rocks_wf_bounds(3) [OF store_rel_with_dest(1) [OF this]] have inv: "hm_inv (db_target_ids (rs_db s))" .
  have kc: "key_count s k = (case k of (t, c, p) \<Rightarrow> spec_count (rocks_abs s) t c p)" for k
    using rocks.count_ok [OF assms(1)] by (simp add: key_count_def split: prod.split)
  have keys: "bucket_keys parse s src b =
      {(t, c, p). source_link parse (t, c, p) = Some src \<and> holds_count b (spec_count (rocks_abs s) t c p)}"
    by (auto simp: bucket_keys_def kc)
  have "sum (key_count s) (bucket_keys parse s src b) = (\<Sum>(t, c, p) \<in> bucket_keys parse s src b. spec_count (rocks_abs s) t c p)"
    by (simp add: kc)
  with rocks_stats_bucket(2,3) [OF inv assms(2), of parse enc src] show ?thesis by (simp only: keys)
qed

definition stats_store :: RocksStorage where
  "stats_store =
     (case rocks_push (\<lambda>_. []) (CreateLinks (rec_id ''a'' ''1'') [lnk ''.p'' ''e'']) 1 (rocks_open empty_db) of
        Inr s \<Rightarrow> s | Inl _ \<Rightarrow> rocks_open empty_db)"

lemma stats_store_valid: "rocks_valid stats_store"
proof -
  let ?ev = "CreateLinks (rec_id ''a'' ''1'') [lnk ''.p'' ''e'']"
  have "admissible ?ev (rocks_abs (rocks_open empty_db))" "has_room ?ev (rocks_open empty_db)"
    by (simp_all add: rec_id_def lnk_def repo_id_from_record_id_def rocks_abs_def did_id_val_def rocks_open_def
        empty_db_def hm_get_def has_room_def id_table_init_def link_pair_def)
  from rocks_push_ok [OF rocks_valid_new this, of "\<lambda>_. []" 1] show ?thesis
    by (auto simp: stats_store_def split: sum.splits)
qed

theorem link_stats_exact_witness:
  "rocks_valid stats_store \<and>
   bk_count (stats_bucket (rocks_link_stats (\<lambda>s. Some (Uri s)) (\<lambda>_. []) stats_store) (''c'', ''.p'', ''uri'', None) 0) = 1 \<and>
   card {(t, c, p). source_link (\<lambda>s. Some (Uri s)) (t, c, p) = Some (''c'', ''.p'', ''uri'', None) \<and>
     holds_count 0 (spec_count (rocks_abs stats_store) t c p)} mod 2 ^ 64 = 1"
proof -
  have one: "bk_count (stats_bucket (rocks_link_stats (\<lambda>s. Some (Uri s)) (\<lambda>_. []) stats_store) (''c'', ''.p'', ''uri'', None) 0) = 1"
    by code_simp
  from link_stats_exact [OF stats_store_valid, of 0 "\<lambda>s. Some (Uri s)" "\<lambda>_. []" "(''c'', ''.p'', ''uri'', None)"]
  have "(of_nat (card {(t, c, p). source_link (\<lambda>s. Some (Uri s)) (t, c, p) = Some (''c'', ''.p'', ''uri'', None) \<and>
     holds_count 0 (spec_count (rocks_abs stats_store) t c p)}) :: u64) = 1" using one by simp
  then have "card {(t, c, p). source_link (\<lambda>s. Some (Uri s)) (t, c, p) = Some (''c'', ''.p'', ''uri'', None) \<and>
     holds_count 0 (spec_count (rocks_abs stats_store) t c p)} mod 2 ^ 64 = 1"
    using unat_of_nat [where 'a = 64, of "card {(t, c, p). source_link (\<lambda>s. Some (Uri s)) (t, c, p) = Some (''c'', ''.p'', ''uri'', None) \<and>
      holds_count 0 (spec_count (rocks_abs stats_store) t c p)}"] by simp
  with stats_store_valid one show ?thesis by blast
qed

section \<open>Samples and numbers\<close>

lemma sample_index_ok:
  assumes "n = fst (linkers_count ls)" "n \<noteq> 0" "length ls < 2 ^ 64"
  shows "unat (n - 1) < length ls"
proof -
  let ?l = "length (filter (\<lambda>(i, _). i \<noteq> 0) ls)"
  have le: "?l \<le> length ls" by simp
  have "?l < 2 ^ 64" using le assms(3) by (rule le_less_trans)
  then have n: "unat n = ?l" unfolding assms(1) linkers_count_def Let_def fst_conv by (rule unat_of_nat_u64)
  moreover have "unat (n - 1) = unat n - 1" using assms(2) by (simp add: unat_minus_one)
  ultimately show ?thesis using le assms(2) by (metis One_nat_def diff_Suc_less less_le_trans neq0_conv unat_eq_zero)
qed

text \<open>A target none of whose linkers was ever removed gives its newest linker as the sample.\<close>

lemma sample_newest:
  assumes "bk_sample b = None" "ls \<noteq> []" "list_all (\<lambda>(i, _). i \<noteq> 0) ls" "length ls < 2 ^ 64"
    and "sdb_did db (fst (last ls)) = Some (Some (Did did))"
  shows "take_sample db ls (fst (linkers_count ls)) b = (b\<lparr>bk_sample := Some \<lparr>sam_did = did, sam_rkey = snd (last ls)\<rparr>\<rparr>, False)"
proof -
  have "filter (\<lambda>(i, _). i \<noteq> 0) ls = ls" using assms(3) by (auto simp: list_all_iff filter_id_conv)
  then have n: "fst (linkers_count ls) = of_nat (length ls)" by (simp add: linkers_count_def)
  have "(of_nat (length ls) :: u64) \<noteq> 0" using assms(2,4) unat_of_nat_u64 [OF assms(4)] by (metis length_greater_0_conv less_numeral_extra(3) unat_0)
  then have "unat (of_nat (length ls) - 1 :: u64) = length ls - 1" by (simp add: unat_minus_one unat_of_nat_u64 [OF assms(4)])
  then show ?thesis using assms(1,2,5) by (simp add: take_sample_def n last_conv_nth case_prod_beta)
qed

text \<open>
  Removed linkers keep their slot, so the entry at the number of live linkers need not be a live one:
  here the only live linker of the target is known, and no sample is taken.
\<close>

definition removed_first :: "(ActionableEvent \<times> u64) list" where
  "removed_first =
     [(CreateLinks (rec_id ''a'' ''1'') [lnk ''.p'' ''e''], 1),
      (CreateLinks (rec_id ''b'' ''2'') [lnk ''.p'' ''e''], 2),
      (DeleteRecord (rec_id ''a'' ''1''), 3)]"

theorem live_linker_not_sampled:
  "\<exists>s. rocks_run (\<lambda>_. []) removed_first (rocks_open empty_db) = Inr s \<and>
     (let r = rocks_link_stats (\<lambda>s. Some (Uri s)) (\<lambda>_. []) s; b = stats_bucket r (''c'', ''.p'', ''uri'', None) 0
      in bk_count b = 1 \<and> bk_sample b = None \<and> es_failed_to_get_sample (sr_err r) = 1 \<and>
         pac_items (rocks_get_links s ''e'' ''c'' ''.p'' 16 None) = [rec_id ''b'' ''2''])"
proof -
  have "case rocks_run (\<lambda>_. []) removed_first (rocks_open empty_db) of
      Inl _ \<Rightarrow> False
    | Inr s \<Rightarrow> (let r = rocks_link_stats (\<lambda>s. Some (Uri s)) (\<lambda>_. []) s; b = stats_bucket r (''c'', ''.p'', ''uri'', None) 0
        in bk_count b = 1 \<and> bk_sample b = None \<and> es_failed_to_get_sample (sr_err r) = 1 \<and>
           pac_items (rocks_get_links s ''e'' ''c'' ''.p'' 16 None) = [rec_id ''b'' ''2''])"
    by code_simp
  then show ?thesis by (simp split: sum.splits)
qed

lemma filter_join_with: "filter (\<lambda>c. c \<noteq> sep) (join_with sep xss) = filter (\<lambda>c. c \<noteq> sep) (concat xss)"
  by (induction sep xss rule: join_with.induct) auto

lemma decimal_no_comma: "CHR '','' \<notin> set (decimal n)"
proof (induction n rule: less_induct)
  case (less n)
  have digit: "char_of (48 + d) \<noteq> CHR '',''" if "d < 10" for d :: nat
  proof
    assume "char_of (48 + d) = CHR '',''"
    then have "of_char (char_of (48 + d) :: char) = (of_char CHR '','' :: nat)" by simp
    with that show False by simp
  qed
  from less [of "n div 10"] digit [of n] digit [of "n mod 10"] show ?case
    by (subst decimal.simps) auto
qed

text \<open>Grouping the digits of a number loses none of them.\<close>

lemma thousands_digits: "filter (\<lambda>c. c \<noteq> CHR '','') (thousands n) = decimal n"
proof -
  have "concat (rev (map rev (chunks 3 (rev (decimal n))))) = rev (concat (chunks 3 (rev (decimal n))))"
    by (simp only: rev_concat rev_map)
  then have "concat (rev (map rev (chunks 3 (rev (decimal n))))) = decimal n" by (simp add: chunks_concat)
  then show ?thesis using decimal_no_comma [of n]
    by (simp add: thousands_def filter_join_with filter_id_conv) metis
qed

end
