(* ===== verification/Store_Types.thy ===== *)
theory Store_Types
  imports Db_Types Ufos_Batch
begin

text \<open>
  Keys and values of the UFOs database (\<open>ufos/src/store_types.rs\<close>): truncated cursors and the
  buckets of a time span, counts, the key types as concatenations of codecs, and the byte ranges
  the readers scan.  Every key type is an interpretation of \<open>db_concat\<close>, so it decodes back and is
  prefix-free.
\<close>

section \<open>Truncated cursors\<close>

abbreviation HOUR_IN_MICROS :: u64 where "HOUR_IN_MICROS \<equiv> 3600000000"
abbreviation WEEK_IN_MICROS :: u64 where "WEEK_IN_MICROS \<equiv> 604800000000"

definition truncate_u64 :: "u64 \<Rightarrow> u64 \<Rightarrow> u64" where
  "truncate_u64 MOD raw = (raw div MOD) * MOD"

definition try_from_raw_u64 :: "u64 \<Rightarrow> u64 \<Rightarrow> EncodingError + u64" where
  "try_from_raw_u64 MOD time_us =
     (if time_us mod MOD \<noteq> 0 then Inl (InvalidTruncated MOD (time_us mod MOD)) else Inr time_us)"

definition cycles_until :: "u64 \<Rightarrow> u64 \<Rightarrow> u64 \<Rightarrow> panic + u64" where
  "cycles_until MOD self other =
     (if other < self then Inl (Panic ''other must be greater than or equal to self'')
      else Inr ((other - self) div MOD))"

definition trunc_next :: "u64 \<Rightarrow> u64 \<Rightarrow> u64" where
  "trunc_next MOD self = self + MOD"

definition nth_next :: "u64 \<Rightarrow> u64 \<Rightarrow> u64 \<Rightarrow> u64" where
  "nth_next MOD self n = self + n * MOD"

definition trunc_prev :: "u64 \<Rightarrow> u64 \<Rightarrow> panic + u64" where
  "trunc_prev MOD self =
     (if self < MOD then Inl (Panic ''underflow: previous truncation start would be less than zero'')
      else Inr (self - MOD))"

definition trunc_to_db_bytes :: "u64 encoder" where
  "trunc_to_db_bytes c = cursor_to_db_bytes c"

definition trunc_from_db_bytes :: "u64 \<Rightarrow> u64 decoder" where
  "trunc_from_db_bytes MOD bs =
     and_then (cursor_from_db_bytes bs) (\<lambda>(cursor, n).
       case try_from_raw_u64 MOD cursor of Inl e \<Rightarrow> Inl (Failed e) | Inr me \<Rightarrow> Inr (me, n))"

section \<open>Buckets\<close>

datatype CursorBucket = Hour u64 | Week u64 | AllTime

text \<open>The loop of \<open>buckets_spanning\<close>; \<open>None\<close> would be a loop that never ends.\<close>

partial_function (option) bucket_loop :: "u64 \<Rightarrow> u64 \<Rightarrow> CursorBucket list \<Rightarrow> (panic + CursorBucket list) option" where
  "bucket_loop until current_lower out =
     (if \<not> current_lower < until then Some (Inr out)
      else (case cycles_until HOUR_IN_MICROS current_lower until of
              Inl e \<Rightarrow> Some (Inl e)
            | Inr cycles \<Rightarrow>
                (case (if cycles \<ge> WEEK_IN_MICROS div HOUR_IN_MICROS
                       then try_from_raw_u64 WEEK_IN_MICROS current_lower else Inl BadRangeBound) of
                   Inr week \<Rightarrow>
                     (case try_from_raw_u64 HOUR_IN_MICROS (trunc_next WEEK_IN_MICROS week) of
                        Inl e \<Rightarrow> Some (Inl (Panic ''unwrap''))
                      | Inr lower \<Rightarrow> bucket_loop until lower (out @ [Week week]))
                 | Inl _ \<Rightarrow>
                     bucket_loop until (trunc_next HOUR_IN_MICROS current_lower) (out @ [Hour current_lower]))))"

definition buckets_spanning :: "u64 \<Rightarrow> u64 \<Rightarrow> (panic + CursorBucket list) option" where
  "buckets_spanning since until = (if until \<le> since then Some (Inr []) else bucket_loop until since [])"

section \<open>Counts\<close>

record CommitCounts =
  cnt_creates :: u64
  cnt_updates :: u64
  cnt_deletes :: u64

definition counts_default :: CommitCounts where
  "counts_default = \<lparr>cnt_creates = 0, cnt_updates = 0, cnt_deletes = 0\<rparr>"

definition counts_merge :: "CommitCounts \<Rightarrow> CommitCounts \<Rightarrow> CommitCounts" where
  "counts_merge self other =
     \<lparr>cnt_creates = cnt_creates self + cnt_creates other,
      cnt_updates = cnt_updates self + cnt_updates other,
      cnt_deletes = cnt_deletes self + cnt_deletes other\<rparr>"

type_synonym 'sk CountsValue = "CommitCounts \<times> 'sk"

definition cv_default :: "'sk SketchOps \<Rightarrow> 'sk CountsValue" where
  "cv_default sk = (counts_default, sk_default sk)"

definition cv_merge :: "'sk SketchOps \<Rightarrow> 'sk CountsValue \<Rightarrow> 'sk CountsValue \<Rightarrow> 'sk CountsValue" where
  "cv_merge sk self other = (counts_merge (fst self) (fst other), sk_merge sk (snd self) (snd other))"

record JustCount =
  jc_creates :: u64
  jc_updates :: u64
  jc_deletes :: u64
  jc_dids_estimate :: u64

definition just_count_from :: "'sk SketchOps \<Rightarrow> 'sk CountsValue \<Rightarrow> JustCount" where
  "just_count_from sk cv =
     \<lparr>jc_creates = cnt_creates (fst cv), jc_updates = cnt_updates (fst cv), jc_deletes = cnt_deletes (fst cv),
      jc_dids_estimate = of_nat (sk_estimate sk (snd cv))\<rparr>"

section \<open>Keys\<close>

definition keyrank_to_db_bytes :: "u64 encoder" where
  "keyrank_to_db_bytes r = Inr (to_be_bytes r)"

definition keyrank_from_db_bytes :: "u64 decoder" where
  "keyrank_from_db_bytes bs =
     (if length bs < 8 then Inl (Failed DecodeNotEnoughBytes) else Inr (from_be_bytes (take 8 bs), 8))"

type_synonym NsidRecordFeedKey = "string \<times> Cursor"
type_synonym LiveCountsKey = "(unit \<times> Cursor) \<times> string"
type_synonym RollupKey = "(unit \<times> u64) \<times> string"
type_synonym RankKey = "(unit \<times> u64) \<times> u64 \<times> string"

definition feed_key_enc :: "NsidRecordFeedKey encoder" where
  "feed_key_enc = concat_to_db_bytes nsid_to_db_bytes cursor_to_db_bytes"

definition feed_key_dec :: "(string \<Rightarrow> bool) \<Rightarrow> NsidRecordFeedKey decoder" where
  "feed_key_dec nsid_new = concat_from_db_bytes (nsid_from_db_bytes nsid_new) cursor_from_db_bytes"

definition live_counts_enc :: "LiveCountsKey encoder" where
  "live_counts_enc =
     concat_to_db_bytes (concat_to_db_bytes (static_to_db_bytes ''live_counts'') cursor_to_db_bytes) nsid_to_db_bytes"

definition live_counts_dec :: "(string \<Rightarrow> bool) \<Rightarrow> LiveCountsKey decoder" where
  "live_counts_dec nsid_new =
     concat_from_db_bytes (concat_from_db_bytes (static_from_db_bytes ''live_counts'') cursor_from_db_bytes)
       (nsid_from_db_bytes nsid_new)"

definition live_counts_key :: "Cursor \<Rightarrow> string \<Rightarrow> LiveCountsKey" where
  "live_counts_key cursor collection = (((), cursor), collection)"

definition live_counts_range_from_cursor :: "(bytes \<Rightarrow> bytes option) \<Rightarrow> Cursor \<Rightarrow> db_failure + bytes \<times> bytes" where
  "live_counts_range_from_cursor upper cursor =
     concat_range_to_prefix_end upper (static_to_db_bytes ''live_counts'') cursor_to_db_bytes ((), cursor)"

text \<open>Hourly and weekly rollups differ in their static prefix and in the length of a bucket.\<close>

definition rollup_prefix_enc :: "string \<Rightarrow> (unit \<times> u64) encoder" where
  "rollup_prefix_enc lit = concat_to_db_bytes (static_to_db_bytes lit) trunc_to_db_bytes"

definition rollup_prefix_dec :: "string \<Rightarrow> u64 \<Rightarrow> (unit \<times> u64) decoder" where
  "rollup_prefix_dec lit MOD = concat_from_db_bytes (static_from_db_bytes lit) (trunc_from_db_bytes MOD)"

definition rollup_enc :: "string \<Rightarrow> RollupKey encoder" where
  "rollup_enc lit = concat_to_db_bytes (rollup_prefix_enc lit) nsid_to_db_bytes"

definition rollup_dec :: "(string \<Rightarrow> bool) \<Rightarrow> string \<Rightarrow> u64 \<Rightarrow> RollupKey decoder" where
  "rollup_dec nsid_new lit MOD = concat_from_db_bytes (rollup_prefix_dec lit MOD) (nsid_from_db_bytes nsid_new)"

definition rollup_new :: "u64 \<Rightarrow> string \<Rightarrow> RollupKey" where
  "rollup_new cursor nsid = (((), cursor), nsid)"

definition rollup_start :: "string \<Rightarrow> u64 \<Rightarrow> db_failure + bytes" where
  "rollup_start lit bucket = rollup_prefix_enc lit ((), bucket)"

definition rollup_after_nsid :: "string \<Rightarrow> u64 \<Rightarrow> string \<Rightarrow> db_failure + bytes" where
  "rollup_after_nsid lit bucket nsid = rollup_enc lit (rollup_new bucket nsid)"

definition rollup_after_nsid_prefix :: "string \<Rightarrow> u64 \<Rightarrow> bytes \<Rightarrow> db_failure + bytes" where
  "rollup_after_nsid_prefix lit bucket pre =
     concat_to_db_bytes (rollup_prefix_enc lit) vec_to_db_bytes (((), bucket), pre)"

definition rollup_end :: "(bytes \<Rightarrow> bytes option) \<Rightarrow> string \<Rightarrow> u64 \<Rightarrow> db_failure + bytes" where
  "rollup_end upper lit bucket = as_prefix_range_end upper (rollup_prefix_enc lit) ((), bucket)"

definition rollup_nsid_prefix_end :: "(bytes \<Rightarrow> bytes option) \<Rightarrow> string \<Rightarrow> u64 \<Rightarrow> bytes \<Rightarrow> db_failure + bytes" where
  "rollup_nsid_prefix_end upper lit bucket pre =
     as_prefix_range_end upper (concat_to_db_bytes (rollup_prefix_enc lit) vec_to_db_bytes) (((), bucket), pre)"

definition rank_enc :: "string \<Rightarrow> RankKey encoder" where
  "rank_enc lit = concat_to_db_bytes (rollup_prefix_enc lit) (concat_to_db_bytes keyrank_to_db_bytes nsid_to_db_bytes)"

definition rank_dec :: "(string \<Rightarrow> bool) \<Rightarrow> string \<Rightarrow> u64 \<Rightarrow> RankKey decoder" where
  "rank_dec nsid_new lit MOD =
     concat_from_db_bytes (rollup_prefix_dec lit MOD) (concat_from_db_bytes keyrank_from_db_bytes (nsid_from_db_bytes nsid_new))"

definition rank_new :: "u64 \<Rightarrow> u64 \<Rightarrow> string \<Rightarrow> RankKey" where
  "rank_new cursor rank nsid = (((), cursor), rank, nsid)"

definition with_rank :: "u64 \<Rightarrow> RankKey \<Rightarrow> RankKey" where
  "with_rank new_rank k = rank_new (snd (fst k)) new_rank (snd (snd k))"

definition all_time_enc :: "(unit \<times> string) encoder" where
  "all_time_enc = concat_to_db_bytes (static_to_db_bytes ''ever_counts'') nsid_to_db_bytes"

definition all_time_dec :: "(string \<Rightarrow> bool) \<Rightarrow> (unit \<times> string) decoder" where
  "all_time_dec nsid_new = concat_from_db_bytes (static_from_db_bytes ''ever_counts'') (nsid_from_db_bytes nsid_new)"

definition all_time_rank_enc :: "string \<Rightarrow> (unit \<times> u64 \<times> string) encoder" where
  "all_time_rank_enc lit =
     concat_to_db_bytes (static_to_db_bytes lit) (concat_to_db_bytes keyrank_to_db_bytes nsid_to_db_bytes)"

definition all_time_rank_dec :: "(string \<Rightarrow> bool) \<Rightarrow> string \<Rightarrow> (unit \<times> u64 \<times> string) decoder" where
  "all_time_rank_dec nsid_new lit =
     concat_from_db_bytes (static_from_db_bytes lit) (concat_from_db_bytes keyrank_from_db_bytes (nsid_from_db_bytes nsid_new))"

definition delete_account_enc :: "(unit \<times> Cursor) encoder" where
  "delete_account_enc = concat_to_db_bytes (static_to_db_bytes ''delete_acount'') cursor_to_db_bytes"

definition delete_account_dec :: "(unit \<times> Cursor) decoder" where
  "delete_account_dec = concat_from_db_bytes (static_from_db_bytes ''delete_acount'') cursor_from_db_bytes"

definition trim_cursor_enc :: "(unit \<times> string) encoder" where
  "trim_cursor_enc = concat_to_db_bytes (static_to_db_bytes ''trim_cursor'') nsid_to_db_bytes"

definition trim_cursor_dec :: "(string \<Rightarrow> bool) \<Rightarrow> (unit \<times> string) decoder" where
  "trim_cursor_dec nsid_new = concat_from_db_bytes (static_from_db_bytes ''trim_cursor'') (nsid_from_db_bytes nsid_new)"

section \<open>Every key type is a codec\<close>

interpretation trunc: db_codec trunc_to_db_bytes "trunc_from_db_bytes MOD" "\<lambda>c. c mod MOD = 0" for MOD
proof
  show "c mod MOD = 0 \<Longrightarrow> \<exists>b. trunc_to_db_bytes c = Inr b" for c
    by (simp add: trunc_to_db_bytes_def cursor_to_db_bytes_def)
  show "c mod MOD = 0 \<Longrightarrow> trunc_to_db_bytes c = Inr b \<Longrightarrow> trunc_from_db_bytes MOD (b @ rest) = Inr (c, length b)" for c b rest
    using cur.dec_enc [of c b rest]
    by (simp add: trunc_to_db_bytes_def trunc_from_db_bytes_def try_from_raw_u64_def)
qed

interpretation keyrank: db_codec keyrank_to_db_bytes keyrank_from_db_bytes "\<lambda>_. True"
  by unfold_locales (auto simp: keyrank_to_db_bytes_def keyrank_from_db_bytes_def)

lemma enc_nonempty2: "trunc_to_db_bytes c \<noteq> Inr []" "keyrank_to_db_bytes c \<noteq> Inr []"
  "concat_to_db_bytes keyrank_to_db_bytes nsid_to_db_bytes x \<noteq> Inr []"
  using enc_nonempty(3) [of c] enc_nonempty(2)
  by (auto simp: trunc_to_db_bytes_def keyrank_to_db_bytes_def cursor_to_db_bytes_def concat_to_db_bytes_def and_then_Inr)

interpretation feed_key: db_concat nsid_to_db_bytes "nsid_from_db_bytes nsid_new" "\<lambda>n. str_ok n \<and> nsid_new n"
  cursor_to_db_bytes cursor_from_db_bytes "\<lambda>_. True" for nsid_new
  by unfold_locales (rule enc_nonempty)

interpretation static_cursor: db_concat "static_to_db_bytes lit" "static_from_db_bytes lit" "\<lambda>_. str_ok lit"
  cursor_to_db_bytes cursor_from_db_bytes "\<lambda>_. True" for lit
  by unfold_locales (rule enc_nonempty)

interpretation static_nsid: db_concat "static_to_db_bytes lit" "static_from_db_bytes lit" "\<lambda>_. str_ok lit"
  nsid_to_db_bytes "nsid_from_db_bytes nsid_new" "\<lambda>n. str_ok n \<and> nsid_new n" for lit nsid_new
  by unfold_locales (rule enc_nonempty)

interpretation live: db_concat "concat_to_db_bytes (static_to_db_bytes lit) cursor_to_db_bytes"
  "concat_from_db_bytes (static_from_db_bytes lit) cursor_from_db_bytes" "\<lambda>x. str_ok lit \<and> True"
  nsid_to_db_bytes "nsid_from_db_bytes nsid_new" "\<lambda>n. str_ok n \<and> nsid_new n" for lit nsid_new
  by unfold_locales (rule enc_nonempty)

interpretation bucket: db_concat "static_to_db_bytes lit" "static_from_db_bytes lit" "\<lambda>_. str_ok lit"
  trunc_to_db_bytes "trunc_from_db_bytes MOD" "\<lambda>c. c mod MOD = 0" for lit MOD
  by unfold_locales (rule enc_nonempty2)

interpretation rollup: db_concat "concat_to_db_bytes (static_to_db_bytes lit) trunc_to_db_bytes"
  "concat_from_db_bytes (static_from_db_bytes lit) (trunc_from_db_bytes MOD)" "\<lambda>x. str_ok lit \<and> snd x mod MOD = 0"
  nsid_to_db_bytes "nsid_from_db_bytes nsid_new" "\<lambda>n. str_ok n \<and> nsid_new n" for lit MOD nsid_new
  by unfold_locales (rule enc_nonempty)

interpretation ranked: db_concat keyrank_to_db_bytes keyrank_from_db_bytes "\<lambda>_. True"
  nsid_to_db_bytes "nsid_from_db_bytes nsid_new" "\<lambda>n. str_ok n \<and> nsid_new n" for nsid_new
  by unfold_locales (rule enc_nonempty)

interpretation rank_key: db_concat "concat_to_db_bytes (static_to_db_bytes lit) trunc_to_db_bytes"
  "concat_from_db_bytes (static_from_db_bytes lit) (trunc_from_db_bytes MOD)" "\<lambda>x. str_ok lit \<and> snd x mod MOD = 0"
  "concat_to_db_bytes keyrank_to_db_bytes nsid_to_db_bytes"
  "concat_from_db_bytes keyrank_from_db_bytes (nsid_from_db_bytes nsid_new)"
  "\<lambda>x. True \<and> str_ok (snd x) \<and> nsid_new (snd x)" for lit MOD nsid_new
  by unfold_locales (rule enc_nonempty2)

interpretation ever_rank: db_concat "static_to_db_bytes lit" "static_from_db_bytes lit" "\<lambda>_. str_ok lit"
  "concat_to_db_bytes keyrank_to_db_bytes nsid_to_db_bytes"
  "concat_from_db_bytes keyrank_from_db_bytes (nsid_from_db_bytes nsid_new)"
  "\<lambda>x. True \<and> str_ok (snd x) \<and> nsid_new (snd x)" for lit nsid_new
  by unfold_locales (rule enc_nonempty2)

interpretation rollup_pre: db_codec "rollup_prefix_enc lit" "rollup_prefix_dec lit MOD" "\<lambda>x. str_ok lit \<and> snd x mod MOD = 0"
  for lit MOD
  unfolding rollup_prefix_enc_def rollup_prefix_dec_def by (rule bucket.both.db_codec_axioms)

end
