(* ===== verification/Fjall_Store.thy ===== *)
theory Fjall_Store
  imports Store_Types "HOL-Library.RBT" "HOL-Library.Product_Lexorder"
begin

text \<open>
  The writer of the UFOs database (\<open>FjallWriter\<close>, \<open>FjallBackground\<close> and \<open>FjallStorage::init\<close> of
  \<open>ufos/src/storage_fjall.rs\<close>).

  A fjall partition is an ordered tree, here a red-black tree keyed by the decoded keys.  The
  order of the decoded keys is the byte order of their encodings (proved for live counts in
  \<open>Store_Props\<close>), so a range scan is a filter of the tree's entries.  The partition \<open>rollups\<close>
  holds several key families, each with its own static prefix: each is a tree of its own here.  A
  fjall batch is the list of its writes, applied in order by \<open>commit\<close>.
\<close>

section \<open>Errors\<close>

datatype StorageError =
    InitError string
  | BadStateError string
  | EncodingErr EncodingError
  | BackgroundAlreadyStarted
  | BatchSenderExited
  | StoragePanic string

section \<open>The database\<close>

text \<open>The buckets counts are rolled up into.\<close>

datatype Rollup = Hourly u64 | Weekly u64 | Ever

text \<open>Rollup keys are ordered by their prefix, \<open>ever_counts < hourly_counts < weekly_counts\<close>, then by time.\<close>

fun rollup_rank :: "Rollup \<Rightarrow> nat \<times> u64" where
  "rollup_rank Ever = (0, 0)"
| "rollup_rank (Hourly h) = (1, h)"
| "rollup_rank (Weekly w) = (2, w)"

lemma rollup_rank_inject: "rollup_rank a = rollup_rank b \<Longrightarrow> a = b"
  by (cases a; cases b) auto

instantiation Rollup :: linorder
begin

definition less_eq_Rollup :: "Rollup \<Rightarrow> Rollup \<Rightarrow> bool" where
  "a \<le> b \<longleftrightarrow> rollup_rank a \<le> rollup_rank b"

definition less_Rollup :: "Rollup \<Rightarrow> Rollup \<Rightarrow> bool" where
  "a < b \<longleftrightarrow> rollup_rank a < rollup_rank b"

instance
  by intro_classes (auto simp: less_eq_Rollup_def less_Rollup_def intro: rollup_rank_inject)

end

type_synonym NsidRecordFeedVal = "string \<times> string \<times> string"
type_synonym RecordLocationKey = "string \<times> string \<times> string"

record RecordLocationVal =
  rl_cursor :: Cursor
  rl_is_update :: bool
  rl_rev :: string
  rl_record :: string

record 'sk FjallDb =
  db_js_cursor :: "Cursor option"
  db_js_endpoint :: "string option"
  db_takeoff :: "Cursor option"
  db_sketch_secret :: "bytes option"
  db_rollup_cursor :: "Cursor option"
  db_trim_cursors :: "(string, Cursor) rbt"
  db_feeds :: "(NsidRecordFeedKey, NsidRecordFeedVal) rbt"
  db_records :: "(RecordLocationKey, RecordLocationVal) rbt"
  db_live_counts :: "(Cursor \<times> string, 'sk CountsValue) rbt"
  db_rollups :: "(Rollup \<times> string, 'sk CountsValue) rbt"
  db_rank_records :: "(Rollup \<times> u64 \<times> string, unit) rbt"
  db_rank_dids :: "(Rollup \<times> u64 \<times> string, unit) rbt"
  db_queues :: "(Cursor, string) rbt"

definition db_empty :: "'sk FjallDb" where
  "db_empty = \<lparr>db_js_cursor = None, db_js_endpoint = None, db_takeoff = None, db_sketch_secret = None,
     db_rollup_cursor = None, db_trim_cursors = RBT.empty, db_feeds = RBT.empty, db_records = RBT.empty,
     db_live_counts = RBT.empty, db_rollups = RBT.empty, db_rank_records = RBT.empty,
     db_rank_dids = RBT.empty, db_queues = RBT.empty\<rparr>"

datatype 'sk FjallOp =
    InsFeed NsidRecordFeedKey NsidRecordFeedVal
  | InsRecord RecordLocationKey RecordLocationVal
  | DelRecord RecordLocationKey
  | InsLive "Cursor \<times> string" "'sk CountsValue"
  | DelLive "Cursor \<times> string"
  | InsRollup "Rollup \<times> string" "'sk CountsValue"
  | InsRankRecords "Rollup \<times> u64 \<times> string"
  | DelRankRecords "Rollup \<times> u64 \<times> string"
  | InsRankDids "Rollup \<times> u64 \<times> string"
  | DelRankDids "Rollup \<times> u64 \<times> string"
  | InsQueue Cursor string
  | DelQueue Cursor
  | SetJsCursor Cursor
  | SetRollupCursor Cursor
  | DelTrimCursor string

fun apply_op :: "'sk FjallOp \<Rightarrow> 'sk FjallDb \<Rightarrow> 'sk FjallDb" where
  "apply_op (InsFeed k v) db = db\<lparr>db_feeds := RBT.insert k v (db_feeds db)\<rparr>"
| "apply_op (InsRecord k v) db = db\<lparr>db_records := RBT.insert k v (db_records db)\<rparr>"
| "apply_op (DelRecord k) db = db\<lparr>db_records := RBT.delete k (db_records db)\<rparr>"
| "apply_op (InsLive k v) db = db\<lparr>db_live_counts := RBT.insert k v (db_live_counts db)\<rparr>"
| "apply_op (DelLive k) db = db\<lparr>db_live_counts := RBT.delete k (db_live_counts db)\<rparr>"
| "apply_op (InsRollup k v) db = db\<lparr>db_rollups := RBT.insert k v (db_rollups db)\<rparr>"
| "apply_op (InsRankRecords k) db = db\<lparr>db_rank_records := RBT.insert k () (db_rank_records db)\<rparr>"
| "apply_op (DelRankRecords k) db = db\<lparr>db_rank_records := RBT.delete k (db_rank_records db)\<rparr>"
| "apply_op (InsRankDids k) db = db\<lparr>db_rank_dids := RBT.insert k () (db_rank_dids db)\<rparr>"
| "apply_op (DelRankDids k) db = db\<lparr>db_rank_dids := RBT.delete k (db_rank_dids db)\<rparr>"
| "apply_op (InsQueue c did) db = db\<lparr>db_queues := RBT.insert c did (db_queues db)\<rparr>"
| "apply_op (DelQueue c) db = db\<lparr>db_queues := RBT.delete c (db_queues db)\<rparr>"
| "apply_op (SetJsCursor c) db = db\<lparr>db_js_cursor := Some c\<rparr>"
| "apply_op (SetRollupCursor c) db = db\<lparr>db_rollup_cursor := Some c\<rparr>"
| "apply_op (DelTrimCursor n) db = db\<lparr>db_trim_cursors := RBT.delete n (db_trim_cursors db)\<rparr>"

definition commit_batch :: "'sk FjallOp list \<Rightarrow> 'sk FjallDb \<Rightarrow> 'sk FjallDb" where
  "commit_batch ops db = fold apply_op ops db"

section \<open>Opening\<close>

text \<open>
  \<open>init_static_neu\<close> refuses to overwrite.  The writes before a failure stay, so \<open>init\<close> returns the
  database besides its result.  \<open>now\<close> is the clock and \<open>random\<close> the secret drawn, if the system has one.
\<close>

definition init_static_neu ::
  "('sk FjallDb \<Rightarrow> 'v option) \<Rightarrow> ('sk FjallDb \<Rightarrow> 'sk FjallDb) \<Rightarrow> 'sk FjallDb \<Rightarrow> (StorageError + unit) \<times> 'sk FjallDb" where
  "init_static_neu get put db =
     (if get db \<noteq> None then (Inl (InitError ''init failed: value for key already exists''), db)
      else (Inr (), put db))"

definition init_fresh ::
  "string \<Rightarrow> Cursor \<Rightarrow> bytes option \<Rightarrow> 'sk FjallDb \<Rightarrow> (StorageError + bytes) \<times> 'sk FjallDb" where
  "init_fresh endpoint now random db =
     (case init_static_neu db_js_endpoint (db_js_endpoint_update (\<lambda>_. Some endpoint)) db of
        (Inl e, db1) \<Rightarrow> (Inl e, db1)
      | (Inr _, db1) \<Rightarrow>
     (case random of
        None \<Rightarrow> (Inl (InitError ''failed to get a random secret for cardinality sketches''), db1)
      | Some secret \<Rightarrow>
     (case init_static_neu db_sketch_secret (db_sketch_secret_update (\<lambda>_. Some secret)) db1 of
        (Inl e, db2) \<Rightarrow> (Inl e, db2)
      | (Inr _, db2) \<Rightarrow>
     (case init_static_neu db_takeoff (db_takeoff_update (\<lambda>_. Some now)) db2 of
        (Inl e, db3) \<Rightarrow> (Inl e, db3)
      | (Inr _, db3) \<Rightarrow>
     (case init_static_neu db_rollup_cursor (db_rollup_cursor_update (\<lambda>_. Some cursor_from_start)) db3 of
        (Inl e, db4) \<Rightarrow> (Inl e, db4)
      | (Inr _, db4) \<Rightarrow> (Inr secret, db4))))))"

definition init_existing :: "string \<Rightarrow> bool \<Rightarrow> 'sk FjallDb \<Rightarrow> (StorageError + bytes) \<times> 'sk FjallDb" where
  "init_existing endpoint force_endpoint db =
     (case db_js_endpoint db of
        None \<Rightarrow> (Inl (InitError ''found cursor but missing js_endpoint, refusing to start.''), db)
      | Some stored \<Rightarrow>
     (case db_sketch_secret db of
        None \<Rightarrow> (Inl (InitError ''found cursor but missing sketch_secret, refusing to start.''), db)
      | Some stored_secret \<Rightarrow>
          if stored \<noteq> endpoint then
            if force_endpoint then (Inr stored_secret, db\<lparr>db_js_endpoint := Some endpoint\<rparr>)
            else (Inl (InitError ''stored js_endpoint differs from provided, refusing to start without --jetstream-force.''), db)
          else (Inr stored_secret, db)))"

definition fjall_init ::
  "string \<Rightarrow> bool \<Rightarrow> Cursor \<Rightarrow> bytes option \<Rightarrow> 'sk FjallDb \<Rightarrow> (StorageError + Cursor option \<times> bytes) \<times> 'sk FjallDb" where
  "fjall_init endpoint force_endpoint now random db =
     (let js_cursor = db_js_cursor db;
          (res, db') = (if js_cursor \<noteq> None then init_existing endpoint force_endpoint db
                        else init_fresh endpoint now random db)
      in (map_sum id (\<lambda>secret. (js_cursor, secret)) res, db'))"

definition background_tasks :: "bool \<Rightarrow> bool \<times> 'sk FjallDb \<Rightarrow> StorageError + bool \<times> 'sk FjallDb" where
  "background_tasks reroll w =
     (let (bg_taken, db) = w in
      if bg_taken then Inl BackgroundAlreadyStarted
      else if reroll then
        let db1 = db\<lparr>db_rollup_cursor := Some cursor_from_start\<rparr>
        in Inr (True, commit_batch (map DelTrimCursor (RBT.keys (db_trim_cursors db1))) db1)
      else Inr (True, db))"

section \<open>Inserting batches\<close>

text \<open>The string parts of keys and values go through \<open>String::to_db_bytes\<close>, which refuses a null byte.\<close>

definition encode_strings :: "string list \<Rightarrow> StorageError + unit" where
  "encode_strings ss = (if list_all (\<lambda>s. NUL \<notin> set s) ss then Inr () else Inl (EncodingErr StringContainedNull))"

primrec concat_res :: "('a \<Rightarrow> 'e + 'b list) \<Rightarrow> 'a list \<Rightarrow> 'e + 'b list" where
  "concat_res f [] = Inr []"
| "concat_res f (x # xs) = and_then (f x) (\<lambda>ys. and_then (concat_res f xs) (\<lambda>zs. Inr (ys @ zs)))"

definition location_key :: "UFOsCommit \<Rightarrow> string \<Rightarrow> RecordLocationKey" where
  "location_key commit collection = (uc_did commit, collection, uc_rkey commit)"

definition location_val :: "Cursor \<Rightarrow> string \<Rightarrow> string \<Rightarrow> bool \<Rightarrow> RecordLocationVal" where
  "location_val cursor r record is_update =
     \<lparr>rl_cursor = cursor, rl_is_update = is_update, rl_rev = r, rl_record = record\<rparr>"

definition commit_ops :: "string \<Rightarrow> UFOsCommit \<Rightarrow> StorageError + 'sk FjallOp list" where
  "commit_ops nsid commit =
     (case uc_action commit of
        Cut \<Rightarrow>
          and_then (encode_strings [uc_did commit, nsid, uc_rkey commit])
            (\<lambda>_. Inr [DelRecord (location_key commit nsid)])
      | Put record is_update \<Rightarrow>
          and_then (encode_strings [nsid, uc_did commit, uc_rkey commit, uc_rev commit])
            (\<lambda>_. Inr [InsFeed (nsid, uc_cursor commit) (uc_did commit, uc_rkey commit, uc_rev commit),
                      InsRecord (location_key commit nsid) (location_val (uc_cursor commit) (uc_rev commit) record is_update)]))"

definition counts_value :: "'sk CollectionCommits \<Rightarrow> 'sk CountsValue" where
  "counts_value cc =
     (\<lparr>cnt_creates = of_nat (cc_creates cc), cnt_updates = of_nat (cc_updates cc), cnt_deletes = of_nat (cc_deletes cc)\<rparr>,
      cc_dids_estimate cc)"

definition collection_ops :: "Cursor \<Rightarrow> string \<times> 'sk CollectionCommits \<Rightarrow> StorageError + 'sk FjallOp list" where
  "collection_ops latest entry =
     (let (nsid, commits) = entry in
      and_then (concat_res (commit_ops nsid) (cc_commits commits)) (\<lambda>ops.
      and_then (encode_strings [nsid]) (\<lambda>_.
        Inr (ops @ [InsLive (latest, nsid) (counts_value commits)]))))"

definition remove_ops :: "DeleteAccountReq \<Rightarrow> StorageError + 'sk FjallOp list" where
  "remove_ops r = and_then (encode_strings [da_did r]) (\<lambda>_. Inr [InsQueue (da_cursor r) (da_did r)])"

definition insert_batch :: "'sk EventBatch \<Rightarrow> 'sk FjallDb \<Rightarrow> StorageError + 'sk FjallDb" where
  "insert_batch event_batch db =
     (if batch_is_empty event_batch then Inr db
      else (case latest_cursor event_batch of
         None \<Rightarrow> Inl (StoragePanic ''called Option::unwrap() on a None value'')
       | Some latest \<Rightarrow>
           and_then (concat_res (collection_ops latest) (eb_commits_by_nsid event_batch)) (\<lambda>ops.
           and_then (concat_res remove_ops (eb_account_removes event_batch)) (\<lambda>removes.
             Inr (commit_batch (ops @ removes @ [SetJsCursor latest]) db)))))"

section \<open>Account deletion\<close>

abbreviation MAX_BATCHED_ACCOUNT_DELETE_RECORDS :: nat where "MAX_BATCHED_ACCOUNT_DELETE_RECORDS \<equiv> 1024"
abbreviation MAX_BATCHED_ROLLUP_COUNTS :: nat where "MAX_BATCHED_ROLLUP_COUNTS \<equiv> 256"

fun delete_loop ::
  "RecordLocationKey list \<Rightarrow> 'sk FjallOp list \<Rightarrow> nat \<Rightarrow> 'sk FjallDb \<Rightarrow> nat \<times> 'sk FjallDb" where
  "delete_loop [] batch records_deleted db = (records_deleted, commit_batch batch db)"
| "delete_loop (k # ks) batch records_deleted db =
     (let batch = batch @ [DelRecord k]; records_deleted = records_deleted + 1
      in if MAX_BATCHED_ACCOUNT_DELETE_RECORDS \<le> length batch
         then delete_loop ks [] records_deleted (commit_batch batch db)
         else delete_loop ks batch records_deleted db)"

definition delete_account :: "string \<Rightarrow> 'sk FjallDb \<Rightarrow> nat \<times> 'sk FjallDb" where
  "delete_account did db =
     delete_loop (filter (\<lambda>(d, _). d = did) (RBT.keys (db_records db))) [] 0 db"

definition rollup_delete_account :: "Cursor \<Rightarrow> string \<Rightarrow> 'sk FjallDb \<Rightarrow> nat \<times> 'sk FjallDb" where
  "rollup_delete_account cursor did db =
     (let (_, db1) = delete_account did db
      in (1, commit_batch [DelQueue cursor, SetRollupCursor cursor] db1))"

section \<open>Rolling up live counts\<close>

record 'sk Gathered =
  g_batch :: "'sk FjallOp list"
  g_cursors_advanced :: nat
  g_last_cursor :: Cursor
  g_dirty_nsids :: "string list"
  g_counts_by_rollup :: "(string \<times> Rollup, 'sk CountsValue) hashmap"

definition gather_start :: "'sk Gathered" where
  "gather_start = \<lparr>g_batch = [], g_cursors_advanced = 0, g_last_cursor = cursor_from_start,
     g_dirty_nsids = [], g_counts_by_rollup = []\<rparr>"

text \<open>The buckets a live count at a cursor belongs to.\<close>

definition hour_of :: "Cursor \<Rightarrow> Rollup" where
  "hour_of c = Hourly (truncate_u64 HOUR_IN_MICROS c)"

definition week_of :: "Cursor \<Rightarrow> Rollup" where
  "week_of c = Weekly (truncate_u64 WEEK_IN_MICROS c)"

definition merge_entry ::
  "'sk SketchOps \<Rightarrow> string \<times> Rollup \<Rightarrow> 'sk CountsValue \<Rightarrow> (string \<times> Rollup, 'sk CountsValue) hashmap \<Rightarrow>
     (string \<times> Rollup, 'sk CountsValue) hashmap" where
  "merge_entry sk k val m = hm_entry k (cv_default sk) (\<lambda>v. cv_merge sk v val) m"

definition gather_one :: "'sk SketchOps \<Rightarrow> Cursor \<Rightarrow> string \<Rightarrow> 'sk CountsValue \<Rightarrow> 'sk Gathered \<Rightarrow> 'sk Gathered" where
  "gather_one sk cursor nsid val g =
     g\<lparr>g_dirty_nsids := List.insert nsid (g_dirty_nsids g),
       g_batch := g_batch g @ [DelLive (cursor, nsid)],
       g_counts_by_rollup :=
         merge_entry sk (nsid, Ever) val
           (merge_entry sk (nsid, week_of cursor) val
             (merge_entry sk (nsid, hour_of cursor) val (g_counts_by_rollup g))),
       g_cursors_advanced := g_cursors_advanced g + 1,
       g_last_cursor := cursor\<rparr>"

fun gather ::
  "'sk SketchOps \<Rightarrow> Cursor option \<Rightarrow> nat \<Rightarrow> ((Cursor \<times> string) \<times> 'sk CountsValue) list \<Rightarrow> 'sk Gathered \<Rightarrow> 'sk Gathered"
where
  "gather sk limit rollup_limit [] g = g"
| "gather sk limit rollup_limit (((cursor, nsid), val) # timelies) g =
     (if rollup_limit = 0 then g
      else if (case limit of Some l \<Rightarrow> cursor > l | None \<Rightarrow> False) then g
      else gather sk limit (rollup_limit - 1) timelies (gather_one sk cursor nsid val g))"

definition rollup_ops :: "'sk SketchOps \<Rightarrow> 'sk FjallDb \<Rightarrow> (string \<times> Rollup) \<times> 'sk CountsValue \<Rightarrow> 'sk FjallOp list" where
  "rollup_ops sk db entry =
     (let ((nsid, rollup), counts) = entry;
          old = (case RBT.lookup (db_rollups db) (rollup, nsid) of None \<Rightarrow> cv_default sk | Some v \<Rightarrow> v);
          before_creates_count = cnt_creates (fst old);
          before_dids_estimate = of_nat (sk_estimate sk (snd old));
          rolled = cv_merge sk old counts;
          new_creates_count = cnt_creates (fst rolled);
          new_dids_estimate = of_nat (sk_estimate sk (snd rolled))
      in (if new_creates_count \<noteq> before_creates_count
          then [DelRankRecords (rollup, before_creates_count, nsid), InsRankRecords (rollup, new_creates_count, nsid)]
          else []) @
         (if new_dids_estimate \<noteq> before_dids_estimate
          then [DelRankDids (rollup, before_dids_estimate, nsid), InsRankDids (rollup, new_dids_estimate, nsid)]
          else []) @
         [InsRollup (rollup, nsid) rolled])"

definition rollup_live_counts ::
  "'sk SketchOps \<Rightarrow> ((Cursor \<times> string) \<times> 'sk CountsValue) list \<Rightarrow> Cursor option \<Rightarrow> nat \<Rightarrow> 'sk FjallDb \<Rightarrow>
     nat \<times> string list \<times> 'sk FjallDb"
where
  "rollup_live_counts sk timelies cursor_exclusive_limit rollup_limit db =
     (let g = gather sk cursor_exclusive_limit rollup_limit timelies gather_start;
          ops = g_batch g @ concat (map (rollup_ops sk db) (g_counts_by_rollup g)) @ [SetRollupCursor (g_last_cursor g)]
      in (g_cursors_advanced g, g_dirty_nsids g, commit_batch ops db))"

definition live_from :: "Cursor \<Rightarrow> 'sk FjallDb \<Rightarrow> ((Cursor \<times> string) \<times> 'sk CountsValue) list" where
  "live_from cursor db = filter (\<lambda>((c, _), _). cursor \<le> c) (RBT.entries (db_live_counts db))"

definition queue_from :: "Cursor \<Rightarrow> 'sk FjallDb \<Rightarrow> (Cursor \<times> string) list" where
  "queue_from cursor db = filter (\<lambda>(c, _). cursor \<le> c) (RBT.entries (db_queues db))"

definition step_rollup :: "'sk SketchOps \<Rightarrow> 'sk FjallDb \<Rightarrow> StorageError + nat \<times> string list \<times> 'sk FjallDb" where
  "step_rollup sk db =
     (case db_rollup_cursor db of
        None \<Rightarrow> Inl (BadStateError ''Could not find current rollup cursor'')
      | Some rollup_cursor \<Rightarrow>
          Inr (case (live_from rollup_cursor db, queue_from rollup_cursor db) of
             (((c, n), v) # timelies, (delete_cursor, did) # _) \<Rightarrow>
               if c < delete_cursor
               then rollup_live_counts sk (((c, n), v) # timelies) (Some delete_cursor) MAX_BATCHED_ROLLUP_COUNTS db
               else (let (k, db') = rollup_delete_account delete_cursor did db in (k, [], db'))
           | (t # timelies, []) \<Rightarrow> rollup_live_counts sk (t # timelies) None MAX_BATCHED_ROLLUP_COUNTS db
           | ([], (delete_cursor, did) # _) \<Rightarrow>
               (let (k, db') = rollup_delete_account delete_cursor did db in (k, [], db'))
           | ([], []) \<Rightarrow> (0, [], db)))"

section \<open>Trimming feeds\<close>

record 'sk Trim =
  tr_db :: "'sk FjallDb"
  tr_dangling :: nat
  tr_deleted :: nat
  tr_live_found :: nat
  tr_candidate :: "Cursor option"

definition trim_one :: "nat \<Rightarrow> NsidRecordFeedKey \<times> NsidRecordFeedVal \<Rightarrow> 'sk Trim \<Rightarrow> 'sk Trim" where
  "trim_one limit kv t =
     (let ((collection, cursor), (did, rkey, r)) = kv;
          loc = (did, collection, rkey);
          db = tr_db t;
          unfed = db\<lparr>db_feeds := RBT.delete (collection, cursor) (db_feeds db)\<rparr>
      in case RBT.lookup (db_records db) loc of
           None \<Rightarrow> t\<lparr>tr_db := unfed, tr_dangling := tr_dangling t + 1\<rparr>
         | Some meta \<Rightarrow>
             if rl_cursor meta \<noteq> cursor then t\<lparr>tr_db := unfed, tr_dangling := tr_dangling t + 1\<rparr>
             else if rl_rev meta \<noteq> r then
               t\<lparr>tr_db := unfed\<lparr>db_records := RBT.delete loc (db_records db)\<rparr>, tr_dangling := tr_dangling t + 1\<rparr>
             else if tr_live_found t + 1 \<le> limit then t\<lparr>tr_live_found := tr_live_found t + 1\<rparr>
             else t\<lparr>tr_live_found := tr_live_found t + 1,
                    tr_candidate := (case tr_candidate t of None \<Rightarrow> Some cursor | Some c \<Rightarrow> Some c),
                    tr_db := unfed\<lparr>db_records := RBT.delete loc (db_records db)\<rparr>,
                    tr_deleted := tr_deleted t + 1\<rparr>)"

definition feed_from :: "string \<Rightarrow> Cursor \<Rightarrow> 'sk FjallDb \<Rightarrow> (NsidRecordFeedKey \<times> NsidRecordFeedVal) list" where
  "feed_from collection cursor db =
     filter (\<lambda>((n, c), _). n = collection \<and> cursor \<le> c) (RBT.entries (db_feeds db))"

definition trim_collection :: "string \<Rightarrow> nat \<Rightarrow> bool \<Rightarrow> 'sk FjallDb \<Rightarrow> (nat \<times> nat \<times> bool) \<times> 'sk FjallDb" where
  "trim_collection collection limit full_scan db =
     (let live_range =
            (if full_scan then feed_from collection cursor_from_start db
             else feed_from collection
                    (case RBT.lookup (db_trim_cursors db) collection of None \<Rightarrow> cursor_from_start | Some c \<Rightarrow> c) db);
          t = fold (trim_one limit) (rev live_range)
                \<lparr>tr_db = db, tr_dangling = 0, tr_deleted = 0, tr_live_found = 0, tr_candidate = None\<rparr>;
          ended_early = False;
          db' = (case tr_candidate t of
                   None \<Rightarrow> tr_db t
                 | Some new_cursor \<Rightarrow>
                     (tr_db t)\<lparr>db_trim_cursors := RBT.insert collection new_cursor (db_trim_cursors (tr_db t))\<rparr>)
      in ((tr_dangling t, tr_deleted t, ended_early), db'))"

section \<open>Background work\<close>

text \<open>One turn of \<open>FjallBackground::run\<close>: the tick of either timer.  The set of dirty collections is kept in its iteration order.\<close>

datatype BgTick = RollupTick | TrimTick

fun trim_dirty :: "string list \<Rightarrow> nat \<Rightarrow> string list \<Rightarrow> 'sk FjallDb \<Rightarrow> string list \<times> 'sk FjallDb" where
  "trim_dirty [] total_deleted completed db = (completed, db)"
| "trim_dirty (c # cs) total_deleted completed db =
     (let ((danglers, deleted, ended_early), db') = trim_collection c 512 False db;
          completed = (if ended_early then completed else List.insert c completed)
      in if total_deleted + deleted > 10000000 then (completed, db')
         else trim_dirty cs (total_deleted + deleted) completed db')"

definition bg_step :: "'sk SketchOps \<Rightarrow> BgTick \<Rightarrow> string list \<times> 'sk FjallDb \<Rightarrow> StorageError + string list \<times> 'sk FjallDb" where
  "bg_step sk tick s =
     (let (dirty_nsids, db) = s in
      case tick of
        RollupTick \<Rightarrow> and_then (step_rollup sk db) (\<lambda>(n, dirty, db'). Inr (fold List.insert dirty dirty_nsids, db'))
      | TrimTick \<Rightarrow> (let (completed, db') = trim_dirty dirty_nsids 0 [] db
                     in Inr (filter (\<lambda>c. c \<notin> set completed) dirty_nsids, db')))"

end
