(* ===== verification/Fjall_Read.thy ===== *)
theory Fjall_Read
  imports Fjall_Store
begin

text \<open>
  The reader of the UFOs database (\<open>FjallReader\<close> of \<open>ufos/src/storage_fjall.rs\<close>) and the result
  types of \<open>ufos/src/lib.rs\<close>.  A query reads one state of the database (a snapshot); an iterator is
  the list of what it still yields.  \<open>now\<close> is the clock.  Keys and values read from the database
  decode (\<open>Store_Props\<close>), so decoding has no failure branch here; cursors that come from a client do.
\<close>

section \<open>Results\<close>

record NsidCount =
  nc_nsid :: string
  nc_creates :: u64
  nc_updates :: u64
  nc_deletes :: u64
  nc_dids_estimate :: u64

definition nsid_count_new :: "'sk SketchOps \<Rightarrow> string \<Rightarrow> 'sk CountsValue \<Rightarrow> NsidCount" where
  "nsid_count_new sk nsid counts =
     \<lparr>nc_nsid = nsid, nc_creates = cnt_creates (fst counts), nc_updates = cnt_updates (fst counts),
      nc_deletes = cnt_deletes (fst counts), nc_dids_estimate = of_nat (sk_estimate sk (snd counts))\<rparr>"

record PrefixCount =
  pc_prefix :: string
  pc_creates :: u64
  pc_updates :: u64
  pc_deletes :: u64
  pc_dids_estimate :: u64

definition prefix_count_new :: "'sk SketchOps \<Rightarrow> string \<Rightarrow> 'sk CountsValue \<Rightarrow> PrefixCount" where
  "prefix_count_new sk prefix counts =
     \<lparr>pc_prefix = prefix, pc_creates = cnt_creates (fst counts), pc_updates = cnt_updates (fst counts),
      pc_deletes = cnt_deletes (fst counts), pc_dids_estimate = of_nat (sk_estimate sk (snd counts))\<rparr>"

datatype PrefixChild = Collection NsidCount | PrefixItem PrefixCount

datatype OrderCollectionsBy = Lexi "bytes option" | RecordsCreated | DidsEstimate

record UFOsRecord =
  ur_cursor :: Cursor
  ur_did :: string
  ur_collection :: string
  ur_rkey :: string
  ur_rev :: string
  ur_record :: string
  ur_is_update :: bool

record ConsumerInfo =
  ci_endpoint :: string
  ci_started_at :: u64
  ci_latest_cursor :: "u64 option"
  ci_rollup_cursor :: "u64 option"

definition get_consumer_info :: "'sk FjallDb \<Rightarrow> StorageError + ConsumerInfo" where
  "get_consumer_info db =
     (case db_js_endpoint db of
        None \<Rightarrow> Inl (BadStateError ''Could not find jetstream endpoint'')
      | Some endpoint \<Rightarrow>
     (case db_takeoff db of
        None \<Rightarrow> Inl (BadStateError ''Could not find jetstream takeoff time'')
      | Some started_at \<Rightarrow>
          Inr \<lparr>ci_endpoint = endpoint, ci_started_at = started_at, ci_latest_cursor = db_js_cursor db,
               ci_rollup_cursor = db_rollup_cursor db\<rparr>))"

section \<open>Records\<close>

definition get_record :: "'sk FjallDb \<Rightarrow> NsidRecordFeedKey \<times> NsidRecordFeedVal \<Rightarrow> UFOsRecord option" where
  "get_record db kv =
     (let ((collection, cursor), (did, rkey, r)) = kv in
      case RBT.lookup (db_records db) (did, collection, rkey) of
        None \<Rightarrow> None
      | Some meta \<Rightarrow>
          if rl_cursor meta \<noteq> cursor then None
          else if rl_rev meta \<noteq> r then None
          else Some \<lparr>ur_cursor = cursor, ur_did = did, ur_collection = collection, ur_rkey = rkey,
                     ur_rev = rl_rev meta, ur_record = rl_record meta, ur_is_update = rl_is_update meta\<rparr>)"

text \<open>A \<open>RecordIterator\<close>: the feed entries it has not read yet, newest first, and how many records it gave out.\<close>

type_synonym RecordIterator = "(NsidRecordFeedKey \<times> NsidRecordFeedVal) list \<times> nat"

definition record_iterator_new :: "'sk FjallDb \<Rightarrow> string \<Rightarrow> RecordIterator" where
  "record_iterator_new db collection = (rev (feed_from collection cursor_from_start db), 0)"

text \<open>
  \<open>next\<close>: \<open>None\<close> at the end of the feed, \<open>Some None\<close> once the limit is reached, otherwise the next
  record that is still there.
\<close>

fun skip_dead ::
  "'sk FjallDb \<Rightarrow> (NsidRecordFeedKey \<times> NsidRecordFeedVal) list \<Rightarrow>
     (UFOsRecord \<times> (NsidRecordFeedKey \<times> NsidRecordFeedVal) list) option"
where
  "skip_dead db [] = None"
| "skip_dead db (kv # kvs) = (case get_record db kv of Some r \<Rightarrow> Some (r, kvs) | None \<Rightarrow> skip_dead db kvs)"

definition iter_next :: "'sk FjallDb \<Rightarrow> nat \<Rightarrow> RecordIterator \<Rightarrow> UFOsRecord option option \<times> RecordIterator" where
  "iter_next db limit it =
     (let (kvs, fetched) = it in
      if fetched = limit then (Some None, it)
      else (case skip_dead db kvs of
              None \<Rightarrow> (None, ([], fetched))
            | Some (r, kvs') \<Rightarrow> (Some (Some r), (kvs', fetched + 1))))"

text \<open>The scan for the iterator with the latest record, over what the iterators would yield next.\<close>

fun scan_latest :: "bool \<Rightarrow> nat \<Rightarrow> UFOsRecord option option list \<Rightarrow> (Cursor \<times> nat) option \<Rightarrow> (Cursor \<times> nat) option" where
  "scan_latest expand i [] latest = latest"
| "scan_latest expand i (None # peeks) latest = scan_latest expand (i + 1) peeks latest"
| "scan_latest expand i (Some None # peeks) latest = (if expand then scan_latest expand (i + 1) peeks latest else latest)"
| "scan_latest expand i (Some (Some r) # peeks) latest =
     scan_latest expand (i + 1) peeks
       (case latest of
          Some (cursor, _) \<Rightarrow> if ur_cursor r > cursor then Some (ur_cursor r, i) else latest
        | None \<Rightarrow> Some (ur_cursor r, i))"

lemma skip_dead_shorter: "skip_dead db kvs = Some (r, kvs') \<Longrightarrow> length kvs' < length kvs"
  by (induction kvs) (auto split: option.splits)

lemma iter_next_shorter: "iter_next db limit it = (Some (Some r), it') \<Longrightarrow> length (fst it') < length (fst it)"
  by (auto simp: iter_next_def Let_def split: prod.splits if_splits option.splits dest: skip_dead_shorter)

function merge_records :: "'sk FjallDb \<Rightarrow> nat \<Rightarrow> bool \<Rightarrow> RecordIterator list \<Rightarrow> StorageError + UFOsRecord list" where
  "merge_records db limit expand iters =
     (case scan_latest expand 0 (map (fst \<circ> iter_next db limit) iters) None of
        None \<Rightarrow> Inr []
      | Some (_, idx) \<Rightarrow>
          if idx < length iters then
            (case iter_next db limit (iters ! idx) of
               (Some (Some r), it) \<Rightarrow> map_sum id (Cons r) (merge_records db limit expand (iters[idx := it]))
             | _ \<Rightarrow> Inl (StoragePanic ''called Option::unwrap() on a None value''))
          else Inl (StoragePanic ''index out of bounds''))"
  by pat_completeness auto
termination
proof (relation "measure (\<lambda>(db, limit, expand, iters). sum_list (map (length \<circ> fst) iters))", simp)
  fix db :: "'sk FjallDb" and limit expand x idx it r and iters :: "RecordIterator list" and s y z c
  assume lt: "idx < length iters" and n: "(c, it) = iter_next db limit (iters ! idx)" "c = Some y" "y = Some r"
  have "sum_list (map (length \<circ> fst) (iters[idx := it])) =
      sum_list (map (length \<circ> fst) iters) + length (fst it) - length (fst (iters ! idx))"
    using lt by (simp add: map_update sum_list_update)
  moreover have "length (fst (iters ! idx)) \<le> sum_list (map (length \<circ> fst) iters)"
    using lt by (metis (no_types, lifting) comp_apply elem_le_sum_list length_map nth_map)
  ultimately show "((db, limit, expand, iters[idx := it]), db, limit, expand, iters)
      \<in> measure (\<lambda>(db, limit, expand, iters). sum_list (map (length \<circ> fst) iters))"
    using iter_next_shorter [of db limit "iters ! idx" r it] n by simp
qed

declare merge_records.simps [simp del]

definition get_records_by_collections ::
  "string list \<Rightarrow> nat \<Rightarrow> bool \<Rightarrow> 'sk FjallDb \<Rightarrow> StorageError + UFOsRecord list" where
  "get_records_by_collections collections limit expand_each_collection db =
     (if collections = [] then Inr []
      else merge_records db limit expand_each_collection (map (record_iterator_new db) collections))"

section \<open>Counts of one collection\<close>

fun rollup_of_bucket :: "CursorBucket \<Rightarrow> Rollup" where
  "rollup_of_bucket (Hour t) = Hourly t"
| "rollup_of_bucket (Week t) = Weekly t"
| "rollup_of_bucket AllTime = Ever"

definition lookup_counts :: "'sk SketchOps \<Rightarrow> 'sk FjallDb \<Rightarrow> Rollup \<Rightarrow> string \<Rightarrow> 'sk CountsValue" where
  "lookup_counts sk db b n = (case RBT.lookup (db_rollups db) (b, n) of None \<Rightarrow> cv_default sk | Some v \<Rightarrow> v)"

fun total_counts :: "'sk SketchOps \<Rightarrow> 'sk FjallDb \<Rightarrow> string \<Rightarrow> CursorBucket list \<Rightarrow> 'sk CountsValue \<Rightarrow> StorageError + 'sk CountsValue" where
  "total_counts sk db collection [] acc = Inr acc"
| "total_counts sk db collection (AllTime # bs) acc = Inl (StoragePanic ''internal error: entered unreachable code'')"
| "total_counts sk db collection (b # bs) acc =
     total_counts sk db collection bs (cv_merge sk acc (lookup_counts sk db (rollup_of_bucket b) collection))"

text \<open>\<open>None\<close> would be \<open>buckets_spanning\<close> never returning.\<close>

definition spanning :: "u64 \<Rightarrow> u64 \<Rightarrow> (CursorBucket list \<Rightarrow> StorageError + 'a) \<Rightarrow> (StorageError + 'a) option" where
  "spanning since until f =
     (case buckets_spanning since until of
        None \<Rightarrow> None
      | Some (Inl (Panic msg)) \<Rightarrow> Some (Inl (StoragePanic msg))
      | Some (Inr buckets) \<Rightarrow> Some (f buckets))"

definition hour_trunc :: "Cursor \<Rightarrow> u64" where
  "hour_trunc c = truncate_u64 HOUR_IN_MICROS c"

definition get_collection_counts ::
  "'sk SketchOps \<Rightarrow> Cursor \<Rightarrow> string \<Rightarrow> u64 \<Rightarrow> u64 option \<Rightarrow> 'sk FjallDb \<Rightarrow> (StorageError + JustCount) option" where
  "get_collection_counts sk now collection since until db =
     (let until = (case until of Some u \<Rightarrow> u | None \<Rightarrow> hour_trunc now) in
      spanning since until (\<lambda>buckets.
        map_sum id (just_count_from sk) (total_counts sk db collection buckets (cv_default sk))))"

section \<open>Time series\<close>

definition merge_all :: "'sk SketchOps \<Rightarrow> 'sk CountsValue list \<Rightarrow> 'sk CountsValue" where
  "merge_all sk cs = fold (\<lambda>c acc. cv_merge sk acc c) cs (cv_default sk)"

definition series_push ::
  "'sk SketchOps \<Rightarrow> string list \<Rightarrow> (u64 \<times> 'sk CountsValue list) list \<Rightarrow>
     (string, 'sk CountsValue list) hashmap \<Rightarrow> (string, 'sk CountsValue list) hashmap" where
  "series_push sk collections chunk series =
     fold (\<lambda>(i, c) m. hm_entry c [] (\<lambda>vs. vs @ [merge_all sk (map (\<lambda>(_, counts). counts ! i) chunk)]) m)
       (enumerate 0 collections) series"

definition get_timeseries ::
  "'sk SketchOps \<Rightarrow> Cursor \<Rightarrow> string list \<Rightarrow> u64 \<Rightarrow> u64 option \<Rightarrow> u64 \<Rightarrow> 'sk FjallDb \<Rightarrow>
     StorageError + u64 list \<times> (string, 'sk CountsValue list) hashmap" where
  "get_timeseries sk now collections since until step db =
     (if step > WEEK_IN_MICROS then Inl (StoragePanic ''week-stepping is todo'')
      else
        let until = (case until of Some u \<Rightarrow> u | None \<Rightarrow> hour_trunc now);
            empty_series = fold (\<lambda>c m. hm_insert c [] m) collections []
        in case duration_since until since of
             None \<Rightarrow> Inr ([], empty_series)
           | Some dt \<Rightarrow>
               let n_hours = dt div 3600000000;
                   counts_by_hour = map (\<lambda>i. let hour = nth_next HOUR_IN_MICROS since (of_nat i)
                     in (hour, map (lookup_counts sk db (Hourly hour)) collections)) [0..<n_hours];
                   step_hours = unat (step div (HOUR_IN_MICROS div 1000000))
               in if step_hours = 0 then Inl (StoragePanic ''chunk size must be non-zero'')
                  else
                    let cs = chunks step_hours counts_by_hour
                    in Inr (map (\<lambda>chunk. fst (hd chunk)) cs, fold (series_push sk collections) cs empty_series))"

section \<open>Lists of collections\<close>

definition get_earliest_hour :: "'sk FjallDb \<Rightarrow> u64" where
  "get_earliest_hour db =
     (case List.map_filter (\<lambda>((b, _), _). case b of Hourly h \<Rightarrow> Some h | _ \<Rightarrow> None) (RBT.entries (db_rollups db)) of
        h # _ \<Rightarrow> h
      | [] \<Rightarrow> cursor_from_start)"

text \<open>\<open>get_lexi_iter\<close>: the collections of a bucket that pass a test, in order, with their counts.\<close>

definition get_lexi_iter :: "'sk FjallDb \<Rightarrow> Rollup \<Rightarrow> (string \<Rightarrow> bool) \<Rightarrow> (string \<times> 'sk CountsValue) list" where
  "get_lexi_iter db b P = map (\<lambda>((_, n), v). (n, v)) (filter (\<lambda>((b', n), _). b' = b \<and> P n) (RBT.entries (db_rollups db)))"

text \<open>The first scan: the lowest collection at the head of an iterator.\<close>

fun lowest_nsid :: "(string \<times> 'v) list list \<Rightarrow> string option \<Rightarrow> string option" where
  "lowest_nsid [] lowest = lowest"
| "lowest_nsid ([] # iters) lowest = lowest_nsid iters lowest"
| "lowest_nsid (((nsid, _) # _) # iters) lowest =
     lowest_nsid iters (case lowest of Some current \<Rightarrow> if nsid > current then lowest else Some nsid | None \<Rightarrow> Some nsid)"

text \<open>The second scan: take it from every iterator that has it, and merge.\<close>

fun take_nsid :: "'sk SketchOps \<Rightarrow> string \<Rightarrow> (string \<times> 'sk CountsValue) list list \<Rightarrow> 'sk CountsValue \<Rightarrow>
    'sk CountsValue \<times> (string \<times> 'sk CountsValue) list list" where
  "take_nsid sk nsid [] merged = (merged, [])"
| "take_nsid sk nsid (it # iters) merged =
     (case it of
        (n, counts) # rest \<Rightarrow>
          if n = nsid then apsnd (Cons rest) (take_nsid sk nsid iters (cv_merge sk merged counts))
          else apsnd (Cons it) (take_nsid sk nsid iters merged)
      | [] \<Rightarrow> apsnd (Cons []) (take_nsid sk nsid iters merged))"

fun lexi_loop :: "'sk SketchOps \<Rightarrow> nat \<Rightarrow> (string \<times> 'sk CountsValue) list list \<Rightarrow> string option \<Rightarrow>
    (string \<times> 'sk CountsValue) list \<times> string option" where
  "lexi_loop sk 0 iters current = ([], current)"
| "lexi_loop sk (Suc limit) iters current =
     (case lowest_nsid iters None of
        None \<Rightarrow> ([], None)
      | Some nsid \<Rightarrow>
          (let (merged, iters') = take_nsid sk nsid iters (cv_default sk)
           in apfst (Cons (nsid, merged)) (lexi_loop sk limit iters' (Some nsid))))"

definition db_result :: "db_failure + 'a \<Rightarrow> StorageError + 'a" where
  "db_result r = (case r of Inl (Failed e) \<Rightarrow> Inl (EncodingErr e) | Inl (Panicked m) \<Rightarrow> Inl (StoragePanic m) | Inr x \<Rightarrow> Inr x)"

primrec opt_res :: "('a \<Rightarrow> 'e + 'b) \<Rightarrow> 'a option \<Rightarrow> 'e + 'b option" where
  "opt_res f None = Inr None"
| "opt_res f (Some x) = map_sum id Some (f x)"

definition get_lexi_collections ::
  "'sk SketchOps \<Rightarrow> (string \<Rightarrow> bool) \<Rightarrow> nat \<Rightarrow> bytes option \<Rightarrow> CursorBucket list \<Rightarrow> 'sk FjallDb \<Rightarrow>
     StorageError + NsidCount list \<times> bytes option" where
  "get_lexi_collections sk nsid_new limit cursor buckets db =
     and_then (opt_res (\<lambda>bs. db_result (db_complete (nsid_from_db_bytes nsid_new) bs)) cursor) (\<lambda>cursor_nsid.
       let iters = map (\<lambda>b. get_lexi_iter db (rollup_of_bucket b)
                     (\<lambda>n. case cursor_nsid of Some c \<Rightarrow> c < n | None \<Rightarrow> True)) buckets;
           (out, current_nsid) = lexi_loop sk limit iters None
       in and_then (opt_res (\<lambda>n. db_result (nsid_to_db_bytes n)) current_nsid) (\<lambda>next_cursor.
            Inr (map (\<lambda>(n, c). nsid_count_new sk n c) out, next_cursor)))"

text \<open>\<open>get_lookup_iter\<close>: the collections of a bucket by rank, highest first, and their counts, which the index says exist.\<close>

definition get_lookup_iter ::
  "'sk FjallDb \<Rightarrow> (Rollup \<times> u64 \<times> string, unit) rbt \<Rightarrow> Rollup \<Rightarrow> (string \<times> (StorageError + 'sk CountsValue)) list" where
  "get_lookup_iter db ranks b =
     map (\<lambda>(_, _, n). (n, case RBT.lookup (db_rollups db) (b, n) of
            Some v \<Rightarrow> Inr v
          | None \<Rightarrow> Inl (StoragePanic ''integrity: all-time rank rollup must have corresponding all-time count rollup'')))
       (rev (filter (\<lambda>(b', _, _). b' = b) (RBT.keys ranks)))"

text \<open>\<open>(limit as f64 * 1.3).ceil()\<close>, exact for every limit below \<open>2 ^ 49\<close>.\<close>

definition overfetch :: "nat \<Rightarrow> nat" where
  "overfetch limit = (13 * limit + 9) div 10"

definition rank_merge :: "'sk SketchOps \<Rightarrow> string \<times> (StorageError + 'sk CountsValue) \<Rightarrow>
    (string, 'sk CountsValue) hashmap \<Rightarrow> StorageError + (string, 'sk CountsValue) hashmap" where
  "rank_merge sk pair ranked =
     and_then (snd pair) (\<lambda>counts. Inr (hm_entry (fst pair) (cv_default sk) (\<lambda>v. cv_merge sk v counts) ranked))"

definition get_ordered_collections ::
  "'sk SketchOps \<Rightarrow> nat \<Rightarrow> OrderCollectionsBy \<Rightarrow> CursorBucket list \<Rightarrow> 'sk FjallDb \<Rightarrow> StorageError + NsidCount list" where
  "get_ordered_collections sk limit order buckets db =
     (case order of
        Lexi _ \<Rightarrow> if buckets = [] then Inr [] else Inl (StoragePanic ''internal error: entered unreachable code'')
      | _ \<Rightarrow>
          let ranks = (if order = RecordsCreated then db_rank_records db else db_rank_dids db);
              pairs = concat (map (\<lambda>b. take (overfetch limit) (get_lookup_iter db ranks (rollup_of_bucket b))) buckets)
          in and_then (fold_res (rank_merge sk) pairs []) (\<lambda>ranked.
               let sorted = (if order = RecordsCreated then sort_key (\<lambda>(_, c). cnt_creates (fst c)) ranked
                             else sort_key (\<lambda>(_, c). sk_estimate sk (snd c)) ranked)
               in Inr (map (\<lambda>(n, c). nsid_count_new sk n c) (take limit (rev sorted)))))"

definition with_buckets ::
  "Cursor \<Rightarrow> u64 option \<Rightarrow> u64 option \<Rightarrow> 'sk FjallDb \<Rightarrow> (CursorBucket list \<Rightarrow> StorageError + 'a) \<Rightarrow> (StorageError + 'a) option" where
  "with_buckets now since until db f =
     (if since = None \<and> until = None then Some (f [AllTime])
      else
        let lower = get_earliest_hour db;
            lower = (case since of Some specified \<Rightarrow> if specified > lower then specified else lower | None \<Rightarrow> lower);
            upper = (case until of Some u \<Rightarrow> u | None \<Rightarrow> hour_trunc now)
        in spanning lower upper f)"

definition get_collections ::
  "'sk SketchOps \<Rightarrow> (string \<Rightarrow> bool) \<Rightarrow> Cursor \<Rightarrow> nat \<Rightarrow> OrderCollectionsBy \<Rightarrow> u64 option \<Rightarrow> u64 option \<Rightarrow> 'sk FjallDb \<Rightarrow>
     (StorageError + NsidCount list \<times> bytes option) option" where
  "get_collections sk nsid_new now limit order since until db =
     with_buckets now since until db (\<lambda>buckets.
       case order of
         Lexi cursor \<Rightarrow> get_lexi_collections sk nsid_new limit cursor buckets db
       | _ \<Rightarrow> map_sum id (\<lambda>counts. (counts, None)) (get_ordered_collections sk limit order buckets db))"

fun contains_str :: "string \<Rightarrow> string \<Rightarrow> bool" where
  "contains_str [] t \<longleftrightarrow> t = []"
| "contains_str (c # s) t \<longleftrightarrow> starts_with (c # s) t \<or> contains_str s t"

fun search_loop :: "'sk SketchOps \<Rightarrow> string list \<Rightarrow> (string \<times> 'sk CountsValue) list \<Rightarrow> NsidCount list \<Rightarrow> NsidCount list" where
  "search_loop sk terms [] matches = matches"
| "search_loop sk terms ((nsid, counts) # kvs) matches =
     (let matches = (if list_ex (contains_str nsid) terms then matches @ [nsid_count_new sk nsid counts] else matches)
      in if 16 \<le> length matches then matches else search_loop sk terms kvs matches)"

definition search_collections :: "'sk SketchOps \<Rightarrow> string list \<Rightarrow> 'sk FjallDb \<Rightarrow> NsidCount list" where
  "search_collections sk terms db = search_loop sk terms (get_lexi_iter db Ever (\<lambda>_. True)) []"

section \<open>Prefixes\<close>

text \<open>\<open>nsid_new\<close> and \<open>domain_authority\<close> are \<open>Nsid::new\<close> and \<open>Nsid::domain_authority\<close> of the crate atrium.\<close>

definition nsid_prefix_new :: "(string \<Rightarrow> bool) \<Rightarrow> string \<Rightarrow> EncodingError + string" where
  "nsid_prefix_new nsid_new pre =
     (if \<not> nsid_new (pre @ ''.name'') then Inl BadAtriumStringType
      else if CHR ''.'' \<notin> set pre then Inl NotEnoughNsidSegments
      else Inr pre)"

definition is_group_of :: "(string \<Rightarrow> string) \<Rightarrow> string \<Rightarrow> string \<Rightarrow> panic + bool" where
  "is_group_of domain_authority self other =
     (if \<not> starts_with other self then Inl (Panic ''must be a prefix of other'')
      else Inr (self = domain_authority other))"

definition terminated :: "string \<Rightarrow> string" where
  "terminated self = self @ ''.''"

datatype Child = FullNsid string | ChildPrefix string

definition child_from_prefix :: "(string \<Rightarrow> string) \<Rightarrow> string \<Rightarrow> string \<Rightarrow> panic + Child option" where
  "child_from_prefix domain_authority nsid prefix =
     and_then (is_group_of domain_authority prefix nsid) (\<lambda>group.
       if group then Inr (Some (FullNsid nsid))
       else (case strip_prefix (prefix @ ''.'') nsid of
               None \<Rightarrow> Inr None
             | Some suffix \<Rightarrow>
                 (case split_once CHR ''.'' suffix of
                    None \<Rightarrow> Inl (Panic ''called Option::unwrap() on a None value'')
                  | Some (segment, _) \<Rightarrow> Inr (Some (ChildPrefix (prefix @ ''.'' @ segment))))))"

fun child_is_before :: "Child \<Rightarrow> Child \<Rightarrow> bool" where
  "child_is_before (FullNsid s) (ChildPrefix o1) \<longleftrightarrow> s = o1 \<or> s < o1"
| "child_is_before (ChildPrefix s) (FullNsid o1) \<longleftrightarrow> (if s = o1 then False else s < o1)"
| "child_is_before (FullNsid s) (FullNsid o1) \<longleftrightarrow> s < o1"
| "child_is_before (ChildPrefix s) (ChildPrefix o1) \<longleftrightarrow> s < o1"

fun child_into_inner :: "Child \<Rightarrow> string" where
  "child_into_inner (FullNsid s) = s"
| "child_into_inner (ChildPrefix s) = s"

text \<open>The iterator that names the child of each collection; a collection outside the prefix is a panic.\<close>

primrec child_iter :: "(string \<Rightarrow> string) \<Rightarrow> string \<Rightarrow> (string \<times> 'v) list \<Rightarrow> StorageError + (Child \<times> 'v) list" where
  "child_iter da prefix [] = Inr []"
| "child_iter da prefix (kv # kvs) =
     (case child_from_prefix da (fst kv) prefix of
        Inl (Panic m) \<Rightarrow> Inl (StoragePanic m)
      | Inr None \<Rightarrow> Inl (StoragePanic ''failed from_prefix (bad iter bounds?)'')
      | Inr (Some child) \<Rightarrow> map_sum id (Cons (child, snd kv)) (child_iter da prefix kvs))"

fun lowest_child :: "(Child \<times> 'v) list list \<Rightarrow> Child option \<Rightarrow> Child option" where
  "lowest_child [] lowest = lowest"
| "lowest_child ([] # iters) lowest = lowest_child iters lowest"
| "lowest_child (((child, _) # _) # iters) lowest =
     lowest_child iters
       (case lowest of Some current \<Rightarrow> if child_is_before current child then lowest else Some child | None \<Rightarrow> Some child)"

text \<open>The inner \<open>while let\<close>: everything of one child at the head of the iterators.\<close>

fun take_child :: "'sk SketchOps \<Rightarrow> Child \<Rightarrow> (Child \<times> 'sk CountsValue) list list \<Rightarrow> 'sk CountsValue \<times> 'sk CountsValue \<Rightarrow>
    ('sk CountsValue \<times> 'sk CountsValue) \<times> (Child \<times> 'sk CountsValue) list list" where
  "take_child sk child [] acc = (acc, [])"
| "take_child sk child (it # iters) acc =
     (let here = takeWhile (\<lambda>(c, _). c = child) it;
          acc' = fold (\<lambda>(_, counts) (prefix_count, merged). (cv_merge sk prefix_count counts, cv_merge sk merged counts)) here acc
      in apsnd (Cons (dropWhile (\<lambda>(c, _). c = child) it)) (take_child sk child iters acc'))"

fun prefix_loop :: "'sk SketchOps \<Rightarrow> nat \<Rightarrow> (Child \<times> 'sk CountsValue) list list \<Rightarrow> 'sk CountsValue \<Rightarrow> Child option \<Rightarrow>
    'sk CountsValue \<times> PrefixChild list \<times> Child option" where
  "prefix_loop sk 0 iters prefix_count current = (prefix_count, [], current)"
| "prefix_loop sk (Suc limit) iters prefix_count current =
     (case lowest_child iters None of
        None \<Rightarrow> (prefix_count, [], None)
      | Some child \<Rightarrow>
          (let ((prefix_count', merged), iters') = take_child sk child iters (prefix_count, cv_default sk);
               item = (case child of FullNsid n \<Rightarrow> Collection (nsid_count_new sk n merged)
                       | ChildPrefix p \<Rightarrow> PrefixItem (prefix_count_new sk p merged));
               (total, items, cur) = prefix_loop sk limit iters' prefix_count' (Some child)
           in (total, item # items, cur)))"

definition get_lexi_prefix ::
  "'sk SketchOps \<Rightarrow> (string \<Rightarrow> string) \<Rightarrow> string \<Rightarrow> nat \<Rightarrow> bytes option \<Rightarrow> CursorBucket list \<Rightarrow> 'sk FjallDb \<Rightarrow>
     StorageError + JustCount \<times> PrefixChild list \<times> bytes option" where
  "get_lexi_prefix sk da prefix limit cursor buckets db =
     and_then (db_result (string_sub_prefix (terminated prefix))) (\<lambda>prefix_sub.
     and_then (opt_res (\<lambda>bs. db_result (db_complete string_from_db_bytes bs)) cursor) (\<lambda>cursor_child.
     and_then (concat_res (\<lambda>b. map_sum id (\<lambda>it. [it]) (child_iter da prefix
                (get_lexi_iter db (rollup_of_bucket b)
                   (\<lambda>n. starts_with n prefix_sub \<and> (case cursor_child of Some c \<Rightarrow> c < n | None \<Rightarrow> True))))) buckets) (\<lambda>iters.
       let (prefix_count, items, current_child) = prefix_loop sk limit iters (cv_default sk) None
       in and_then (opt_res (\<lambda>c. db_result (string_to_db_bytes (child_into_inner c))) current_child) (\<lambda>next_cursor.
            Inr (just_count_from sk prefix_count, items, next_cursor)))))"

definition get_prefix ::
  "'sk SketchOps \<Rightarrow> (string \<Rightarrow> string) \<Rightarrow> Cursor \<Rightarrow> string \<Rightarrow> nat \<Rightarrow> OrderCollectionsBy \<Rightarrow> u64 option \<Rightarrow> u64 option \<Rightarrow> 'sk FjallDb \<Rightarrow>
     (StorageError + JustCount \<times> PrefixChild list \<times> bytes option) option" where
  "get_prefix sk da now prefix limit order since until db =
     with_buckets now since until db (\<lambda>buckets.
       case order of
         Lexi cursor \<Rightarrow> get_lexi_prefix sk da prefix limit cursor buckets db
       | _ \<Rightarrow> Inl (StoragePanic ''not yet implemented''))"

end
