(* ===== verification/Ufos_Serve.thy ===== *)
theory Ufos_Serve
  imports Fjall_Read
begin

text \<open>
  The HTTP interface of \<open>ufos\<close> (\<open>ufos/src/server/mod.rs\<close>, \<open>collections_query.rs\<close>): one
  definition per handler, from its parsed query to the answer, over the reader of the fjall store.

  A storage call runs in a blocking task whose panic the server sees as an error, so every failure
  of the storage is an internal error of the handler; a panic in the handler itself is
  \<open>HandlerPanics\<close>.  Parameters stand for the clock, for \<open>Nsid\<close> of the crate atrium, for base64, for
  the range of chrono's \<open>DateTime\<close> and for the iteration order of a \<open>HashSet\<close>.  Metrics, the
  index page and the OpenAPI document are left out.
\<close>

section \<open>Requests and answers\<close>

record UfosEnv =
  ue_now :: Cursor
  ue_nsid_new :: "string \<Rightarrow> bool"
  ue_domain_authority :: "string \<Rightarrow> string"
  ue_b64_decode :: "string \<Rightarrow> bytes option"
  ue_b64_encode :: "bytes \<Rightarrow> string"
  ue_datetime_ok :: "int \<Rightarrow> bool"
  ue_set_order :: "string list \<Rightarrow> string list"

datatype 'a Handled = Answer 'a | BadRequest | InternalError | HandlerPanics | Hangs

fun of_storage :: "StorageError + 'a \<Rightarrow> ('a \<Rightarrow> 'b Handled) \<Rightarrow> 'b Handled" where
  "of_storage (Inl _) k = InternalError"
| "of_storage (Inr x) k = k x"

text \<open>For the calls that might not return.\<close>

definition of_spanning :: "(StorageError + 'a) option \<Rightarrow> ('a \<Rightarrow> 'b Handled) \<Rightarrow> 'b Handled" where
  "of_spanning r k = (case r of None \<Rightarrow> Hangs | Some x \<Rightarrow> of_storage x k)"

text \<open>A \<open>?\<close> in a handler on a check of the request.\<close>

definition checked :: "'a option \<Rightarrow> ('a \<Rightarrow> 'b Handled) \<Rightarrow> 'b Handled" where
  "checked r k = (case r of None \<Rightarrow> BadRequest | Some x \<Rightarrow> k x)"

text \<open>\<open>Option<T>\<close> mapped by a fallible function and transposed.\<close>

definition transposed :: "('a \<Rightarrow> 'b option) \<Rightarrow> 'a option \<Rightarrow> 'b option option" where
  "transposed f x = (case x of None \<Rightarrow> Some None | Some y \<Rightarrow> map_option Some (f y))"

record ApiRecord =
  ar_did :: string
  ar_collection :: string
  ar_rkey :: string
  ar_record :: string
  ar_time_us :: u64

definition api_record_from :: "UFOsRecord \<Rightarrow> ApiRecord" where
  "api_record_from ufo =
     \<lparr>ar_did = ur_did ufo, ar_collection = ur_collection ufo, ar_rkey = ur_rkey ufo,
      ar_record = ur_record ufo, ar_time_us = ur_cursor ufo\<rparr>"

datatype CollectionsQueryOrder = OrderRecordsCreated | OrderDidsEstimate

fun order_from :: "CollectionsQueryOrder \<Rightarrow> OrderCollectionsBy" where
  "order_from OrderRecordsCreated = RecordsCreated"
| "order_from OrderDidsEstimate = DidsEstimate"

text \<open>Datetimes are their timestamps in microseconds.\<close>

record CollectionsQuery =
  co_limit :: "nat option"
  co_cursor :: "string option"
  co_since :: "int option"
  co_until :: "int option"
  co_order :: "CollectionsQueryOrder option"

record TimeseriesQuery =
  ti_collection :: string
  ti_since :: "int option"
  ti_until :: "int option"
  ti_step :: "u64 option"

section \<open>Times\<close>

text \<open>\<open>dt_to_cursor\<close>: times before the epoch and more than two hours ahead are refused.\<close>

definition dt_to_cursor :: "UfosEnv \<Rightarrow> int \<Rightarrow> u64 option" where
  "dt_to_cursor env t =
     (if t < 0 then None
      else
        let t = of_int t; t_now = ue_now env in
        if t > t_now \<and> t - t_now > 2 * HOUR_IN_MICROS then None
        else Some (truncate_u64 HOUR_IN_MICROS t))"

text \<open>\<open>Cursor::at(SystemTime::now() - d)\<close>, which panics before the epoch.\<close>

definition ago :: "UfosEnv \<Rightarrow> u64 \<Rightarrow> Cursor option" where
  "ago env d = (if ue_now env < d then None else Some (ue_now env - d))"

definition since_or_week_ago :: "UfosEnv \<Rightarrow> int option \<Rightarrow> (u64 \<Rightarrow> 'b Handled) \<Rightarrow> 'b Handled" where
  "since_or_week_ago env since k =
     checked (transposed (dt_to_cursor env) since) (\<lambda>since.
       case since of
         Some s \<Rightarrow> k s
       | None \<Rightarrow>
           (case ago env WEEK_IN_MICROS of
              None \<Rightarrow> HandlerPanics
            | Some c \<Rightarrow> k (truncate_u64 HOUR_IN_MICROS c)))"

section \<open>Records\<close>

fun insert_nsids :: "UfosEnv \<Rightarrow> string list \<Rightarrow> string list \<Rightarrow> string list option" where
  "insert_nsids env [] out = Some out"
| "insert_nsids env (c # cs) out =
     (if ue_nsid_new env c then insert_nsids env cs (if c \<in> set out then out else out @ [c]) else None)"

definition to_multiple_nsids :: "UfosEnv \<Rightarrow> string \<Rightarrow> string list option" where
  "to_multiple_nsids env s = insert_nsids env (split_on CHR '','' s) []"

text \<open>\<open>DAY_IN_MICROS\<close> is \<open>86_400\<close> seconds.\<close>

abbreviation DAY_IN_MICROS :: u64 where "DAY_IN_MICROS \<equiv> 86400000000"

definition some_collections :: "'sk SketchOps \<Rightarrow> UfosEnv \<Rightarrow> 'sk FjallDb \<Rightarrow> (string list \<Rightarrow> 'b Handled) \<Rightarrow> 'b Handled" where
  "some_collections sk env db k =
     (case ago env (3 * DAY_IN_MICROS) of
        None \<Rightarrow> HandlerPanics
      | Some c \<Rightarrow>
          (case try_from_raw_u64 HOUR_IN_MICROS (truncate_u64 WEEK_IN_MICROS c) of
             Inl _ \<Rightarrow> HandlerPanics
           | Inr since \<Rightarrow>
               of_spanning (get_collections sk (ue_nsid_new env) (ue_now env) 1000 (Lexi None) (Some since) None db)
                 (\<lambda>(collections, _).
                   case insert_nsids env (map nc_nsid collections) [] of
                     None \<Rightarrow> HandlerPanics
                   | Some nsids \<Rightarrow> k nsids)))"

definition ufos_get_records :: "'sk SketchOps \<Rightarrow> UfosEnv \<Rightarrow> string option \<Rightarrow> 'sk FjallDb \<Rightarrow> ApiRecord list Handled" where
  "ufos_get_records sk env collection db =
     (let answer = (\<lambda>limit collections.
            of_storage (get_records_by_collections (ue_set_order env collections) limit True db)
              (\<lambda>records. Answer (map api_record_from records)))
      in case collection of
           Some provided \<Rightarrow> checked (to_multiple_nsids env provided) (answer 42)
         | None \<Rightarrow> some_collections sk env db (answer 12))"

section \<open>Counts\<close>

text \<open>\<open>HashSet<Nsid>\<close> from the repeated parameter of \<open>collections_query.rs\<close>.\<close>

definition nsids_try_from :: "UfosEnv \<Rightarrow> string list \<Rightarrow> string list option" where
  "nsids_try_from env cs = insert_nsids env cs []"

fun stats_loop :: "'sk SketchOps \<Rightarrow> UfosEnv \<Rightarrow> u64 \<Rightarrow> u64 option \<Rightarrow> 'sk FjallDb \<Rightarrow> string list \<Rightarrow>
    (string, JustCount) hashmap \<Rightarrow> (string, JustCount) hashmap Handled" where
  "stats_loop sk env since until db [] seen = Answer seen"
| "stats_loop sk env since until db (c # cs) seen =
     of_spanning (get_collection_counts sk (ue_now env) c since until db)
       (\<lambda>counts. stats_loop sk env since until db cs (hm_insert c counts seen))"

definition ufos_collection_stats ::
  "'sk SketchOps \<Rightarrow> UfosEnv \<Rightarrow> string list \<Rightarrow> int option \<Rightarrow> int option \<Rightarrow> 'sk FjallDb \<Rightarrow> (string, JustCount) hashmap Handled" where
  "ufos_collection_stats sk env collections since until db =
     checked (nsids_try_from env collections) (\<lambda>nsids.
     since_or_week_ago env since (\<lambda>since.
     checked (transposed (dt_to_cursor env) until) (\<lambda>until.
       stats_loop sk env since until db (ue_set_order env nsids) [])))"

section \<open>Lists\<close>

text \<open>The checks shared by the two listings: order or cursor, limit, times.\<close>

definition query_order :: "UfosEnv \<Rightarrow> CollectionsQuery \<Rightarrow> OrderCollectionsBy option" where
  "query_order env q =
     (case co_order q of
        Some o1 \<Rightarrow> if co_cursor q \<noteq> None then None else Some (order_from o1)
      | None \<Rightarrow>
          map_option Lexi (transposed (ue_b64_decode env)
            (case co_cursor q of Some c \<Rightarrow> if c = [] then None else Some c | None \<Rightarrow> None)))"

definition query_limit :: "CollectionsQuery \<Rightarrow> nat option" where
  "query_limit q =
     (let limit = (case (co_limit q, co_order q) of
                     (Some limit, _) \<Rightarrow> limit
                   | (None, Some _) \<Rightarrow> 32
                   | (None, None) \<Rightarrow> 100)
      in if 1 \<le> limit \<and> limit \<le> 200 then Some limit else None)"

definition list_request :: "UfosEnv \<Rightarrow> CollectionsQuery \<Rightarrow>
    (nat \<Rightarrow> OrderCollectionsBy \<Rightarrow> u64 option \<Rightarrow> u64 option \<Rightarrow> 'b Handled) \<Rightarrow> 'b Handled" where
  "list_request env q k =
     checked (query_order env q) (\<lambda>order.
     checked (query_limit q) (\<lambda>limit.
     checked (transposed (dt_to_cursor env) (co_since q)) (\<lambda>since.
     checked (transposed (dt_to_cursor env) (co_until q)) (\<lambda>until.
       k limit order since until))))"

definition ufos_get_collections ::
  "'sk SketchOps \<Rightarrow> UfosEnv \<Rightarrow> CollectionsQuery \<Rightarrow> 'sk FjallDb \<Rightarrow> (NsidCount list \<times> string option) Handled" where
  "ufos_get_collections sk env q db =
     list_request env q (\<lambda>limit order since until.
       of_spanning (get_collections sk (ue_nsid_new env) (ue_now env) limit order since until db)
         (\<lambda>(collections, next_cursor). Answer (collections, map_option (ue_b64_encode env) next_cursor)))"

definition ufos_get_prefix ::
  "'sk SketchOps \<Rightarrow> UfosEnv \<Rightarrow> string \<Rightarrow> CollectionsQuery \<Rightarrow> 'sk FjallDb \<Rightarrow>
     (JustCount \<times> PrefixChild list \<times> string option) Handled" where
  "ufos_get_prefix sk env prefix q db =
     (case nsid_prefix_new (ue_nsid_new env) prefix of
        Inl _ \<Rightarrow> BadRequest
      | Inr prefix \<Rightarrow>
          list_request env q (\<lambda>limit order since until.
            of_spanning (get_prefix sk (ue_domain_authority env) (ue_now env) prefix limit order since until db)
              (\<lambda>(tot, children, next_cursor). Answer (tot, children, map_option (ue_b64_encode env) next_cursor))))"

section \<open>Time series and search\<close>

definition query_step :: "u64 option \<Rightarrow> u64 option" where
  "query_step step =
     (case step of
        Some secs \<Rightarrow> if secs < 3600 then None else Some (secs div 3600 * 3600)
      | None \<Rightarrow> Some 86400)"

definition ufos_get_timeseries ::
  "'sk SketchOps \<Rightarrow> UfosEnv \<Rightarrow> TimeseriesQuery \<Rightarrow> 'sk FjallDb \<Rightarrow> (int list \<times> (string, JustCount list) hashmap) Handled" where
  "ufos_get_timeseries sk env q db =
     since_or_week_ago env (ti_since q) (\<lambda>since.
     checked (transposed (dt_to_cursor env) (ti_until q)) (\<lambda>until.
     checked (query_step (ti_step q)) (\<lambda>step.
       if \<not> ue_nsid_new env (ti_collection q) then BadRequest
       else of_storage (get_timeseries sk (ue_now env) [ti_collection q] since until step db)
              (\<lambda>(range_cursors, series).
                if list_all (\<lambda>c. ue_datetime_ok env (sint c)) range_cursors
                then Answer (map sint range_cursors, map (\<lambda>(c, vs). (c, map (just_count_from sk) vs)) series)
                else HandlerPanics))))"

definition ufos_search :: "'sk SketchOps \<Rightarrow> string \<Rightarrow> 'sk FjallDb \<Rightarrow> NsidCount list Handled" where
  "ufos_search sk q db = Answer (search_collections sk (split_on CHR '' '' q) db)"

section \<open>Meta\<close>

definition ufos_meta_info :: "(StorageError + 'info) \<Rightarrow> 'sk FjallDb \<Rightarrow> (string \<times> 'info \<times> ConsumerInfo) Handled" where
  "ufos_meta_info storage_stats db =
     of_storage storage_stats (\<lambda>storage.
     of_storage (get_consumer_info db) (\<lambda>consumer. Answer (''fjall storage v2'', storage, consumer)))"

end
