(* ===== verification/Store_Props.thy ===== *)
theory Store_Props
  imports Store_Types
begin

text \<open>
  What the key encodings guarantee to the storage: keys decode back, live counts sort by time, a
  scan of a bucket returns the keys of that bucket and no others, and the buckets of a span tile
  it exactly.
\<close>

section \<open>Byte order\<close>

lemma lex_append_same: "(p @ xs < p @ ys) = (xs < (ys :: 'a::order list))"
  by (induction p) auto

lemma lex_append_length:
  "length p = length q \<Longrightarrow> (p @ xs < q @ ys) = (p < q \<or> p = q \<and> xs < (ys :: 'a::order list))"
  by (induction p q rule: list_induct2) auto

lemma live_counts_enc_eq:
  "NUL \<notin> set n \<Longrightarrow>
     live_counts_enc (live_counts_key c n) = Inr ((''live_counts'' @ [NUL]) @ to_be_bytes c @ n @ [NUL])"
  by (simp add: live_counts_enc_def live_counts_key_def concat_to_db_bytes_def static_to_db_bytes_def
      string_to_db_bytes_def cursor_to_db_bytes_def nsid_to_db_bytes_def)

lemma rollup_prefix_eq:
  "NUL \<notin> set lit \<Longrightarrow> rollup_prefix_enc lit ((), b) = Inr (lit @ [NUL] @ to_be_bytes b)"
  by (simp add: rollup_prefix_enc_def concat_to_db_bytes_def static_to_db_bytes_def string_to_db_bytes_def
      trunc_to_db_bytes_def cursor_to_db_bytes_def)

lemma rollup_enc_eq:
  "NUL \<notin> set lit \<Longrightarrow> NUL \<notin> set n \<Longrightarrow>
     rollup_enc lit (rollup_new b n) = Inr ((lit @ [NUL] @ to_be_bytes b) @ n @ [NUL])"
  by (simp add: rollup_enc_def rollup_new_def concat_to_db_bytes_def [of "rollup_prefix_enc lit"] rollup_prefix_eq
      nsid_to_db_bytes_def string_to_db_bytes_def)

section \<open>Properties of the keys\<close>


lemma str_ok_example: "str_ok ''a.b.c''" "str_ok ''hourly_counts''"
  unfolding str_ok_def by code_simp+


text \<open>
  Live counts sort by time: in the byte order of the database the key of one count comes
  before that of another exactly if its cursor is smaller or, for one cursor, its collection is.
\<close>

theorem live_counts_sorted:
  assumes "str_ok n" "str_ok n'"
    and "live_counts_enc (live_counts_key c n) = Inr k" "live_counts_enc (live_counts_key c' n') = Inr k'"
  shows "(k < k') = (c < c' \<or> c = c' \<and> n < n')"
proof -
  have nul: "NUL \<notin> set n" "NUL \<notin> set n'" using assms(1,2) by (simp_all add: str_ok_def)
  have k: "k = (''live_counts'' @ [NUL]) @ to_be_bytes c @ n @ [NUL]"
    "k' = (''live_counts'' @ [NUL]) @ to_be_bytes c' @ n' @ [NUL]"
    using live_counts_enc_eq [OF nul(1), of c] live_counts_enc_eq [OF nul(2), of c'] assms(3,4)
    by (simp_all only: sum.inject)
  have "to_be_bytes c = to_be_bytes c' \<longleftrightarrow> c = c'" by (metis from_to_be_bytes)
  then show ?thesis
    unfolding k lex_append_same
    by (simp add: lex_append_length to_be_bytes_less terminated_less [OF nul])
qed

theorem live_counts_sorted_witness:
  "\<exists>k k'. live_counts_enc (live_counts_key 7 ''a.b.c'') = Inr k \<and> live_counts_enc (live_counts_key 300 ''a.b.c'') = Inr k' \<and> k < k'"
proof -
  have nul: "NUL \<notin> set ''a.b.c''" by simp
  from live_counts_sorted [OF str_ok_example(1) str_ok_example(1) live_counts_enc_eq [OF nul] live_counts_enc_eq [OF nul], of 7 300]
  show ?thesis using live_counts_enc_eq [OF nul] by (intro exI conjI) (assumption | simp)+
qed

section \<open>Scans\<close>

text \<open>What \<open>prefix_to_range\<close> promises: its range holds exactly the extensions of the prefix.\<close>

definition upper_ok :: "(bytes \<Rightarrow> bytes option) \<Rightarrow> bool" where
  "upper_ok upper \<longleftrightarrow> (\<forall>p e k. upper p = Some e \<longrightarrow> (p \<le> k \<and> k < e \<longleftrightarrow> (\<exists>r. k = p @ r)))"

text \<open>The usual bound: drop trailing bytes 255 and add one to the last byte left.\<close>

fun prefix_upper :: "bytes \<Rightarrow> bytes option" where
  "prefix_upper [] = None"
| "prefix_upper (c # cs) =
     (case prefix_upper cs of
        Some e \<Rightarrow> Some (c # e)
      | None \<Rightarrow> if of_char c = (255::nat) then None else Some [char_of (of_char c + (1::nat))])"

lemma of_char_le: "of_char c \<le> (255::nat)"
proof -
  have "of_char c = of_char c mod (256::nat)" by simp
  also have "\<dots> < 256" by (rule mod_less_divisor) simp
  finally show ?thesis by linarith
qed

lemma prefix_upper_None: "prefix_upper p = None \<Longrightarrow> p \<le> k \<longleftrightarrow> (\<exists>r. k = p @ r)"
proof (induction p arbitrary: k)
  case (Cons c cs)
  then have cs: "prefix_upper cs = None" and c: "of_char c = (255::nat)" by (auto split: option.splits if_splits)
  have top: "\<not> c < d" for d using c of_char_le [of d] by (simp add: less_char_def)
  show ?case using Cons.IH [OF cs] top by (cases k) auto
qed simp

lemma prefix_upper_ok: "upper_ok prefix_upper"
  unfolding upper_ok_def
proof (intro allI impI)
  fix p e k
  show "prefix_upper p = Some e \<Longrightarrow> (p \<le> k \<and> k < e) = (\<exists>r. k = p @ r)"
  proof (induction p arbitrary: e k)
    case (Cons c cs)
    show ?case
    proof (cases "prefix_upper cs")
      case None
      with Cons.prems have c: "of_char c \<noteq> (255::nat)" and e: "e = [char_of (of_char c + (1::nat))]"
        by (auto split: if_splits)
      have "of_char c + (1::nat) < 256" using c of_char_le [of c] by simp
      then have step: "d < char_of (of_char c + (1::nat)) \<longleftrightarrow> d \<le> c" for d
        by (simp add: less_char_def less_eq_char_def less_Suc_eq_le)
      show ?thesis
      proof (cases k)
        case (Cons d ks)
        have "c # cs \<le> d # ks \<and> d # ks < e \<longleftrightarrow> d = c \<and> cs \<le> ks"
          unfolding e Cons_less_Cons Cons_le_Cons step by auto
        with Cons prefix_upper_None [OF None] show ?thesis by auto
      qed simp
    next
      case (Some e')
      with Cons.prems have e: "e = c # e'" by simp
      show ?thesis
      proof (cases k)
        case (Cons d ks)
        have "c # cs \<le> d # ks \<and> d # ks < e \<longleftrightarrow> d = c \<and> cs \<le> ks \<and> ks < e'"
          by (auto simp: e)
        with Cons Cons.IH [OF Some, of ks] show ?thesis by auto
      qed simp
    qed
  qed simp
qed



section \<open>Buckets\<close>

text \<open>\<open>tiles lo bs hi\<close>: the buckets follow one another without gap or overlap from \<open>lo\<close> to \<open>hi\<close>, each at a boundary of its kind.\<close>

fun tiles :: "nat \<Rightarrow> CursorBucket list \<Rightarrow> nat \<Rightarrow> bool" where
  "tiles lo [] hi \<longleftrightarrow> lo = hi"
| "tiles lo (Hour h # bs) hi \<longleftrightarrow> unat h = lo \<and> 3600000000 dvd lo \<and> tiles (lo + 3600000000) bs hi"
| "tiles lo (Week w # bs) hi \<longleftrightarrow> unat w = lo \<and> 604800000000 dvd lo \<and> tiles (lo + 604800000000) bs hi"
| "tiles lo (AllTime # bs) hi \<longleftrightarrow> False"

lemma u64_mod_0: "(x :: u64) mod m = 0 \<longleftrightarrow> unat m dvd unat x"
  by (metis dvd_eq_mod_eq_0 unat_eq_zero unat_mod)

lemma unat_u64_add: "unat (x :: u64) + unat y < 2 ^ 64 \<Longrightarrow> unat (x + y) = unat x + unat y"
  using unat_add_lem [of x y] by simp

lemma bucket_loop_tiles:
  assumes "unat current mod 3600000000 = 0" "unat until mod 3600000000 = 0" "unat current \<le> unat until"
  shows "\<exists>bs. bucket_loop until current out = Some (Inr (out @ bs)) \<and> tiles (unat current) bs (unat until)"
  using assms
proof (induction "unat until - unat current" arbitrary: current out rule: less_induct)
  case less
  show ?case
  proof (cases "current < until")
    case False
    then have "unat current = unat until" using less.prems by (simp add: word_less_nat_alt)
    then show ?thesis using False by (intro exI [of _ "[]"]) (simp add: bucket_loop.simps)
  next
    case True
    then have lt: "unat current < unat until" by (simp add: word_less_nat_alt)
    have dvds: "3600000000 dvd unat current" "3600000000 dvd unat until" using less.prems by auto
    then have "3600000000 dvd unat until - unat current" by (rule dvd_diff_nat [rotated])
    then have hour: "unat current + 3600000000 \<le> unat until" using lt by (auto dest!: dvd_imp_le)
    have cyc: "cycles_until HOUR_IN_MICROS current until = Inr ((until - current) div HOUR_IN_MICROS)"
      using True by (simp add: cycles_until_def)
    have cyc_nat: "unat ((until - current) div HOUR_IN_MICROS) = (unat until - unat current) div 3600000000"
      using True by (simp add: unat_div unat_sub)
    have room: "unat until < 2 ^ 64" by (rule unat_u64_less)
    show ?thesis
    proof (cases "WEEK_IN_MICROS div HOUR_IN_MICROS \<le> (until - current) div HOUR_IN_MICROS \<and> current mod WEEK_IN_MICROS = 0")
      case week: True
      then have "168 \<le> (unat until - unat current) div 3600000000"
        using cyc_nat by (simp add: word_le_nat_alt)
      then have fits: "unat current + 604800000000 \<le> unat until" using lt by (simp add: less_eq_div_iff_mult_less_eq)
      then have nx: "unat (current + WEEK_IN_MICROS) = unat current + 604800000000"
        using room by (subst unat_u64_add) auto
      have wd: "604800000000 dvd unat current" using week by (simp add: u64_mod_0)
      have al: "unat (current + WEEK_IN_MICROS) mod 3600000000 = 0"
        unfolding nx using dvds(1) by (simp add: mod_add_eq [symmetric] dvd_eq_mod_eq_0)
      then have tr: "try_from_raw_u64 HOUR_IN_MICROS (trunc_next WEEK_IN_MICROS current) = Inr (current + WEEK_IN_MICROS)"
        by (simp add: try_from_raw_u64_def trunc_next_def u64_mod_0 dvd_eq_mod_eq_0)
      have "bucket_loop until current out = bucket_loop until (current + WEEK_IN_MICROS) (out @ [Week current])"
        using True week cyc tr by (subst bucket_loop.simps) (simp add: try_from_raw_u64_def)
      moreover have "\<exists>bs. bucket_loop until (current + WEEK_IN_MICROS) (out @ [Week current]) =
          Some (Inr ((out @ [Week current]) @ bs)) \<and> tiles (unat (current + WEEK_IN_MICROS)) bs (unat until)"
        by (rule less.hyps) (use nx fits lt al less.prems in auto)
      ultimately show ?thesis using nx wd
        by (metis append.assoc append_Cons append_Nil tiles.simps(3))
    next
      case hr: False
      then have "\<exists>e. (if WEEK_IN_MICROS div HOUR_IN_MICROS \<le> (until - current) div HOUR_IN_MICROS
          then try_from_raw_u64 WEEK_IN_MICROS current else Inl BadRangeBound) = Inl e"
        by (simp add: try_from_raw_u64_def)
      then obtain e where cond: "(if WEEK_IN_MICROS div HOUR_IN_MICROS \<le> (until - current) div HOUR_IN_MICROS
          then try_from_raw_u64 WEEK_IN_MICROS current else Inl BadRangeBound) = Inl e" by blast
      have nx: "unat (current + HOUR_IN_MICROS) = unat current + 3600000000"
        using room hour by (subst unat_u64_add) auto
      have al: "unat (current + HOUR_IN_MICROS) mod 3600000000 = 0" using less.prems(1) by (simp add: nx)
      have "bucket_loop until current out = bucket_loop until (current + HOUR_IN_MICROS) (out @ [Hour current])"
        unfolding bucket_loop.simps [of until current] cyc sum.case cond using True by (simp add: trunc_next_def)
      moreover have "\<exists>bs. bucket_loop until (current + HOUR_IN_MICROS) (out @ [Hour current]) =
          Some (Inr ((out @ [Hour current]) @ bs)) \<and> tiles (unat (current + HOUR_IN_MICROS)) bs (unat until)"
        by (rule less.hyps) (use nx hour lt al less.prems in auto)
      ultimately show ?thesis using nx dvds(1)
        by (metis append.assoc append_Cons append_Nil tiles.simps(2))
    qed
  qed
qed

text \<open>
  C18. \<open>buckets_spanning\<close> always returns, and for two whole hours the hour and week buckets it
  returns tile the span between them: no gap, no overlap, every week on a week boundary.  An empty
  span has no buckets.
\<close>

theorem buckets_tile_span:
  assumes "since mod HOUR_IN_MICROS = 0" "until mod HOUR_IN_MICROS = 0"
  shows "\<exists>bs. buckets_spanning since until = Some (Inr bs) \<and>
    (if since < until then tiles (unat since) bs (unat until) else bs = [])"
proof (cases "since < until")
  case True
  have "unat since mod 3600000000 = 0" "unat until mod 3600000000 = 0"
    using assms by (simp_all add: u64_mod_0 dvd_eq_mod_eq_0)
  with bucket_loop_tiles [of since until "[]"] True show ?thesis
    by (simp add: buckets_spanning_def word_less_nat_alt word_le_nat_alt)
next
  case False
  then have "until \<le> since" by simp
  with False show ?thesis by (intro exI [of _ "[]"]) (simp only: buckets_spanning_def if_True if_False simp_thms)
qed

theorem buckets_tile_span_witness:
  "(1209600000000 :: u64) mod HOUR_IN_MICROS = 0 \<and> (1814400000000 + 3600000000 :: u64) mod HOUR_IN_MICROS = 0 \<and>
   (\<exists>bs. buckets_spanning 1209600000000 1818000000000 = Some (Inr bs) \<and> tiles 1209600000000 bs 1818000000000)"
proof -
  have "\<exists>bs. buckets_spanning 1209600000000 1818000000000 = Some (Inr bs) \<and>
    (if (1209600000000 :: u64) < 1818000000000
     then tiles (unat (1209600000000 :: u64)) bs (unat (1818000000000 :: u64)) else bs = [])"
    by (rule buckets_tile_span) simp_all
  then show ?thesis by simp
qed

end
