(* ===== verification/Fjall_Rollup.thy ===== *)
theory Fjall_Rollup
  imports Fjall_Store Store_Props
begin

text \<open>
  What the background rollup guarantees.  A counter of a commit (creates, updates or deletes) is an
  instance of the locale \<open>count_field\<close>; for each of them the sum of a rollup bucket and of the live
  counts still waiting for it is unchanged by a rollup step, and grows by exactly the counts of a
  batch when the batch is inserted.
\<close>

section \<open>Sums over a tree\<close>

definition tree_sum :: "('k \<Rightarrow> 'v \<Rightarrow> 'a::comm_monoid_add) \<Rightarrow> ('k::linorder, 'v) rbt \<Rightarrow> 'a" where
  "tree_sum f t = sum_list (map (\<lambda>(k, v). f k v) (RBT.entries t))"

lemma tree_sum_dom: "tree_sum f t = (\<Sum>k \<in> dom (RBT.lookup t). f k (the (RBT.lookup t k)))"
proof -
  have d: "distinct (map fst (RBT.entries t))" by (rule RBT.distinct_entries)
  have "tree_sum f t = (\<Sum>kv \<in> set (RBT.entries t). f (fst kv) (snd kv))"
    unfolding tree_sum_def
    by (subst sum_list_distinct_conv_sum_set) (use d in \<open>auto simp: distinct_map split_def\<close>)
  also have "\<dots> = (\<Sum>k \<in> fst ` set (RBT.entries t). f k (the (RBT.lookup t k)))"
  proof (subst sum.reindex)
    show "inj_on fst (set (RBT.entries t))" using d by (simp add: distinct_map)
  qed (auto intro!: sum.cong simp flip: RBT.lookup_in_tree)
  also have "fst ` set (RBT.entries t) = dom (RBT.lookup t)"
    by (simp add: RBT.lookup_keys RBT.keys_def_alt)
  finally show ?thesis .
qed

lemma tree_sum_empty [simp]: "tree_sum f RBT.empty = 0"
  by (simp add: tree_sum_dom)

lemma tree_sum_insert:
  "RBT.lookup t k = None \<Longrightarrow> tree_sum f (RBT.insert k v t) = f k v + tree_sum f t"
proof -
  assume k: "RBT.lookup t k = None"
  then have "k \<notin> dom (RBT.lookup t)" by blast
  then show ?thesis by (auto simp: tree_sum_dom intro!: sum.cong arg_cong2 [where f = "(+)"])
qed

lemma tree_sum_delete:
  "RBT.lookup t k = Some v \<Longrightarrow> f k v + tree_sum f (RBT.delete k t) = tree_sum f t"
proof -
  assume k: "RBT.lookup t k = Some v"
  then have "k \<in> dom (RBT.lookup t)" by blast
  then have "tree_sum f t = f k v + (\<Sum>j \<in> dom (RBT.lookup t) - {k}. f j (the (RBT.lookup t j)))"
    unfolding tree_sum_dom using k by (subst sum.remove [of _ k]) auto
  also have "(\<Sum>j \<in> dom (RBT.lookup t) - {k}. f j (the (RBT.lookup t j))) = tree_sum f (RBT.delete k t)"
    unfolding tree_sum_dom by (auto intro!: sum.cong)
  finally show ?thesis by simp
qed

definition tree_size :: "('k::linorder, 'v) rbt \<Rightarrow> nat" where
  "tree_size t = length (RBT.entries t)"

lemma tree_size_sum: "tree_size t = tree_sum (\<lambda>_ _. 1) t"
  by (simp add: tree_size_def tree_sum_def split_def sum_list_triv)

lemma tree_size_delete: "RBT.lookup t k = Some v \<Longrightarrow> Suc (tree_size (RBT.delete k t)) = tree_size t"
  using tree_sum_delete [of t k v "\<lambda>_ _. 1 :: nat"] by (simp add: tree_size_sum)

text \<open>Removing the keys of some of the entries of a tree.\<close>

lemma lookup_delete_keys: "RBT.lookup (fold RBT.delete ks t) = (RBT.lookup t) |` (- set ks)"
  by (induction ks arbitrary: t) (auto simp: fun_eq_iff restrict_map_def)

lemma tree_sum_delete_entries:
  assumes "distinct (map fst kvs)" "set kvs \<subseteq> set (RBT.entries t)"
  shows "sum_list (map (\<lambda>(k, v). f k v) kvs) + tree_sum f (fold RBT.delete (map fst kvs) t) = tree_sum f t"
  using assms
proof (induction kvs arbitrary: t)
  case (Cons kv kvs)
  obtain k v where kv: "kv = (k, v)" by (rule prod.exhaust)
  from Cons.prems kv have k: "RBT.lookup t k = Some v" by (simp add: RBT.lookup_in_tree)
  have sub: "set kvs \<subseteq> set (RBT.entries (RBT.delete k t))"
  proof
    fix x assume x: "x \<in> set kvs"
    with Cons.prems kv have "fst x \<noteq> k" "x \<in> set (RBT.entries t)" by (auto simp: image_iff)
    then show "x \<in> set (RBT.entries (RBT.delete k t))"
      by (cases x rule: prod.exhaust) (simp flip: RBT.lookup_in_tree)
  qed
  from Cons.IH [OF _ sub] Cons.prems
  have "sum_list (map (\<lambda>(k, v). f k v) kvs) + tree_sum f (fold RBT.delete (map fst kvs) (RBT.delete k t)) =
      tree_sum f (RBT.delete k t)" by simp
  with tree_sum_delete [OF k, of f] kv show ?case by (simp add: add.assoc)
qed simp

section \<open>Counters and buckets\<close>

locale count_field =
  fixes p :: "CommitCounts \<Rightarrow> u64"
  assumes p_default [simp]: "p counts_default = 0"
    and p_merge [simp]: "p (counts_merge a b) = p a + p b"

interpretation creates: count_field cnt_creates
  by unfold_locales (simp_all add: counts_default_def counts_merge_def)

interpretation updates: count_field cnt_updates
  by unfold_locales (simp_all add: counts_default_def counts_merge_def)

interpretation deletes: count_field cnt_deletes
  by unfold_locales (simp_all add: counts_default_def counts_merge_def)

fun in_bucket :: "Rollup \<Rightarrow> Cursor \<Rightarrow> bool" where
  "in_bucket (Hourly h) c \<longleftrightarrow> truncate_u64 HOUR_IN_MICROS c = h"
| "in_bucket (Weekly w) c \<longleftrightarrow> truncate_u64 WEEK_IN_MICROS c = w"
| "in_bucket Ever c \<longleftrightarrow> True"

lemma in_bucket_iff: "in_bucket b c \<longleftrightarrow> b = hour_of c \<or> b = week_of c \<or> b = Ever"
  by (cases b) (auto simp: hour_of_def week_of_def)

lemma buckets_distinct [simp]: "hour_of c \<noteq> week_of d" "hour_of c \<noteq> Ever" "week_of c \<noteq> Ever"
  "week_of d \<noteq> hour_of c" "Ever \<noteq> hour_of c" "Ever \<noteq> week_of c"
  by (simp_all add: hour_of_def week_of_def)

text \<open>What a live count contributes to the bucket \<open>b\<close> of the collection \<open>n\<close>.\<close>

definition share :: "(CommitCounts \<Rightarrow> u64) \<Rightarrow> Rollup \<Rightarrow> string \<Rightarrow> Cursor \<times> string \<Rightarrow> 'sk CountsValue \<Rightarrow> u64" where
  "share p b n k v = (if snd k = n \<and> in_bucket b (fst k) then p (fst v) else 0)"

definition opt_count :: "(CommitCounts \<Rightarrow> u64) \<Rightarrow> 'sk CountsValue option \<Rightarrow> u64" where
  "opt_count p v = (case v of None \<Rightarrow> 0 | Some v \<Rightarrow> p (fst v))"

definition rolled :: "(CommitCounts \<Rightarrow> u64) \<Rightarrow> 'sk FjallDb \<Rightarrow> Rollup \<Rightarrow> string \<Rightarrow> u64" where
  "rolled p db b n = opt_count p (RBT.lookup (db_rollups db) (b, n))"

definition waiting :: "(CommitCounts \<Rightarrow> u64) \<Rightarrow> 'sk FjallDb \<Rightarrow> Rollup \<Rightarrow> string \<Rightarrow> u64" where
  "waiting p db b n = tree_sum (share p b n) (db_live_counts db)"

definition counted :: "(CommitCounts \<Rightarrow> u64) \<Rightarrow> 'sk FjallDb \<Rightarrow> Rollup \<Rightarrow> string \<Rightarrow> u64" where
  "counted p db b n = rolled p db b n + waiting p db b n"

section \<open>Gathering live counts\<close>

definition gatherable :: "Cursor option \<Rightarrow> (Cursor \<times> string) \<times> 'v \<Rightarrow> bool" where
  "gatherable limit kv \<longleftrightarrow> (case limit of Some l \<Rightarrow> fst (fst kv) \<le> l | None \<Rightarrow> True)"

definition gathered :: "Cursor option \<Rightarrow> nat \<Rightarrow> ((Cursor \<times> string) \<times> 'v) list \<Rightarrow> ((Cursor \<times> string) \<times> 'v) list" where
  "gathered limit n ts = takeWhile (gatherable limit) (take n ts)"

lemma gather_fold:
  "gather sk limit n ts g = fold (\<lambda>((c, m), v). gather_one sk c m v) (gathered limit n ts) g"
proof (induction sk limit n ts g rule: gather.induct)
  case (2 sk limit n c m v ts g)
  then show ?case
    by (cases n) (auto simp: gathered_def gatherable_def not_less split: option.split)
qed (simp add: gathered_def)

lemma gather_batch:
  "g_batch (fold (\<lambda>((c, m), v). gather_one sk c m v) kvs g) = g_batch g @ map (DelLive \<circ> fst) kvs"
  by (induction kvs arbitrary: g) (auto simp: gather_one_def split_def)

lemma gather_advanced:
  "g_cursors_advanced (fold (\<lambda>((c, m), v). gather_one sk c m v) kvs g) = g_cursors_advanced g + length kvs"
  by (induction kvs arbitrary: g) (auto simp: gather_one_def split_def)

lemma gather_last:
  "g_last_cursor (fold (\<lambda>((c, m), v). gather_one sk c m v) kvs g) =
     (if kvs = [] then g_last_cursor g else fst (fst (last kvs)))"
  by (induction kvs arbitrary: g) (auto simp: gather_one_def split_def)

lemma gather_dirty:
  "set (g_dirty_nsids (fold (\<lambda>((c, m), v). gather_one sk c m v) kvs g)) =
     set (g_dirty_nsids g) \<union> (snd \<circ> fst) ` set kvs"
  by (induction kvs arbitrary: g) (auto simp: gather_one_def split_def)

lemma gather_inv:
  "hm_inv (g_counts_by_rollup g) \<Longrightarrow>
   hm_inv (g_counts_by_rollup (fold (\<lambda>((c, m), v). gather_one sk c m v) kvs g))"
  by (induction kvs arbitrary: g) (auto simp: gather_one_def merge_entry_def split_def)

context count_field
begin

lemma cv_default_zero [simp]: "p (fst (cv_default sk)) = 0"
  by (simp add: cv_default_def)

lemma cv_merge_add [simp]: "p (fst (cv_merge sk a b)) = p (fst a) + p (fst b)"
  by (simp add: cv_merge_def)

lemma opt_merge_entry:
  "opt_count p (hm_get (merge_entry sk k val m) k') =
     (if k' = k then opt_count p (hm_get m k) + p (fst val) else opt_count p (hm_get m k'))"
  by (auto simp: merge_entry_def opt_count_def split: option.split)

lemma gather_one_count:
  "opt_count p (hm_get (g_counts_by_rollup (gather_one sk c m v g)) (n, b)) =
     opt_count p (hm_get (g_counts_by_rollup g) (n, b)) + share p b n (c, m) v"
  by (auto simp: gather_one_def opt_merge_entry share_def in_bucket_iff)

lemma gather_count:
  "opt_count p (hm_get (g_counts_by_rollup (fold (\<lambda>((c, m), v). gather_one sk c m v) kvs g)) (n, b)) =
     opt_count p (hm_get (g_counts_by_rollup g) (n, b)) + sum_list (map (\<lambda>(k, v). share p b n k v) kvs)"
proof (induction kvs arbitrary: g)
  case (Cons kv kvs)
  obtain c m v where kv: "kv = ((c, m), v)" by (metis prod.exhaust)
  show ?case by (simp add: kv Cons.IH gather_one_count add.assoc)
qed simp

end

section \<open>Committing a rollup\<close>

lemma commit_batch_append: "commit_batch (xs @ ys) db = commit_batch ys (commit_batch xs db)"
  by (simp add: commit_batch_def)

lemma commit_batch_simps [simp]:
  "commit_batch [] db = db" "commit_batch (x # xs) db = commit_batch xs (apply_op x db)"
  by (simp_all add: commit_batch_def)

lemma commit_del_live:
  "commit_batch (map (DelLive \<circ> fst) kvs) db = db\<lparr>db_live_counts := fold RBT.delete (map fst kvs) (db_live_counts db)\<rparr>"
  by (induction kvs arbitrary: db) simp_all

definition old_counts :: "'sk SketchOps \<Rightarrow> 'sk FjallDb \<Rightarrow> Rollup \<Rightarrow> string \<Rightarrow> 'sk CountsValue" where
  "old_counts sk db b n = (case RBT.lookup (db_rollups db) (b, n) of None \<Rightarrow> cv_default sk | Some v \<Rightarrow> v)"

definition dids_of :: "'sk SketchOps \<Rightarrow> 'sk CountsValue \<Rightarrow> u64" where
  "dids_of sk v = of_nat (sk_estimate sk (snd v))"

definition rank_move ::
  "u64 \<Rightarrow> u64 \<Rightarrow> Rollup \<Rightarrow> string \<Rightarrow> (Rollup \<times> u64 \<times> string, unit) rbt \<Rightarrow> (Rollup \<times> u64 \<times> string, unit) rbt" where
  "rank_move old new b n t = (if new \<noteq> old then RBT.insert (b, new, n) () (RBT.delete (b, old, n) t) else t)"

lemma commit_rollup_ops:
  "commit_batch (rollup_ops sk db0 ((n, b), v)) db =
     (let old = old_counts sk db0 b n; new = cv_merge sk old v
      in db\<lparr>db_rank_records := rank_move (cnt_creates (fst old)) (cnt_creates (fst new)) b n (db_rank_records db),
            db_rank_dids := rank_move (dids_of sk old) (dids_of sk new) b n (db_rank_dids db),
            db_rollups := RBT.insert (b, n) new (db_rollups db)\<rparr>)"
  by (simp add: rollup_ops_def Let_def old_counts_def dids_of_def rank_move_def commit_batch_append)

text \<open>All rollups of one batch: every bucket with new counts gets them merged in, nothing else changes.\<close>

lemma commit_rollups:
  assumes "hm_inv es"
  shows "RBT.lookup (db_rollups (commit_batch (concat (map (rollup_ops sk db0) es)) db)) (b, n) =
     (case hm_get es (n, b) of
        None \<Rightarrow> RBT.lookup (db_rollups db) (b, n)
      | Some v \<Rightarrow> Some (cv_merge sk (old_counts sk db0 b n) v))"
  using assms
proof (induction es arbitrary: db)
  case (Cons e es)
  obtain m c v where e: "e = ((m, c), v)" by (metis prod.exhaust)
  have inv: "hm_inv es" and fresh: "hm_get es (m, c) = None"
    using Cons.prems e by (auto simp: hm_inv_def hm_get_def map_of_eq_None_iff)
  have get: "hm_get (e # es) k = (if k = (m, c) then Some v else hm_get es k)" for k
    by (simp add: hm_get_def e)
  show ?case
    by (simp add: commit_batch_append Cons.IH [OF inv] e commit_rollup_ops Let_def)
      (auto simp: get [unfolded e] fresh split: option.split)
qed (simp add: hm_get_def)

lemma commit_rollups_frame:
  fixes sk :: "'sk SketchOps" and db db0 :: "'sk FjallDb"
  defines "db' es \<equiv> commit_batch (concat (map (rollup_ops sk db0) es)) db"
  shows "db_live_counts (db' es) = db_live_counts db" "db_queues (db' es) = db_queues db"
    "db_js_cursor (db' es) = db_js_cursor db" "db_rollup_cursor (db' es) = db_rollup_cursor db"
    "db_feeds (db' es) = db_feeds db" "db_records (db' es) = db_records db"
    "db_trim_cursors (db' es) = db_trim_cursors db"
proof -
  have "\<exists>a b c. db' es = db\<lparr>db_rank_records := a, db_rank_dids := b, db_rollups := c\<rparr>"
    unfolding db'_def
  proof (induction es arbitrary: db)
    case Nil
    show ?case by (intro exI [of _ "db_rank_records db"] exI [of _ "db_rank_dids db"] exI [of _ "db_rollups db"]) simp
  next
    case (Cons e es)
    obtain m c v where e: "e = ((m, c), v)" by (metis prod.exhaust)
    show ?case
      using Cons.IH [of "commit_batch (rollup_ops sk db0 e) db"]
      by (fastforce simp: commit_batch_append e commit_rollup_ops Let_def)
  qed
  then obtain a b c where "db' es = db\<lparr>db_rank_records := a, db_rank_dids := b, db_rollups := c\<rparr>" by blast
  then show "db_live_counts (db' es) = db_live_counts db" "db_queues (db' es) = db_queues db"
    "db_js_cursor (db' es) = db_js_cursor db" "db_rollup_cursor (db' es) = db_rollup_cursor db"
    "db_feeds (db' es) = db_feeds db" "db_records (db' es) = db_records db"
    "db_trim_cursors (db' es) = db_trim_cursors db" by simp_all
qed

text \<open>The effect of \<open>rollup_live_counts\<close> on each family of keys.\<close>

lemma rollup_live_counts_effect:
  assumes "rollup_live_counts sk ts limit k db = (n, dirty, db')"
  defines "kvs \<equiv> gathered limit k ts"
  defines "g \<equiv> fold (\<lambda>((c, m), v). gather_one sk c m v) kvs gather_start"
  shows "n = length kvs" "set dirty = (snd \<circ> fst) ` set kvs"
    "db_live_counts db' = fold RBT.delete (map fst kvs) (db_live_counts db)"
    "RBT.lookup (db_rollups db') (b, m) =
       (case hm_get (g_counts_by_rollup g) (m, b) of
          None \<Rightarrow> RBT.lookup (db_rollups db) (b, m)
        | Some v \<Rightarrow> Some (cv_merge sk (old_counts sk db b m) v))"
    "db_rollup_cursor db' = Some (if kvs = [] then cursor_from_start else fst (fst (last kvs)))"
    "db_queues db' = db_queues db" "db_js_cursor db' = db_js_cursor db"
    "db_feeds db' = db_feeds db" "db_records db' = db_records db" "db_trim_cursors db' = db_trim_cursors db"
proof -
  have inv: "hm_inv (g_counts_by_rollup g)"
    unfolding g_def by (rule gather_inv) (simp add: gather_start_def)
  have db': "db' = commit_batch [SetRollupCursor (g_last_cursor g)]
      (commit_batch (concat (map (rollup_ops sk db) (g_counts_by_rollup g)))
        (commit_batch (map (DelLive \<circ> fst) kvs) db))"
    and n: "n = g_cursors_advanced g" and dirty: "dirty = g_dirty_nsids g"
    using assms(1) by (auto simp: rollup_live_counts_def Let_def gather_fold g_def kvs_def commit_batch_append
        gather_batch gather_start_def)
  note effect = db' commit_del_live commit_rollups [OF inv] commit_rollups_frame
  show "n = length kvs" by (simp add: n g_def gather_advanced gather_start_def)
  show "set dirty = (snd \<circ> fst) ` set kvs" by (simp add: dirty g_def gather_dirty gather_start_def)
  show "db_live_counts db' = fold RBT.delete (map fst kvs) (db_live_counts db)" by (simp add: effect)
  show "RBT.lookup (db_rollups db') (b, m) =
      (case hm_get (g_counts_by_rollup g) (m, b) of
         None \<Rightarrow> RBT.lookup (db_rollups db) (b, m)
       | Some v \<Rightarrow> Some (cv_merge sk (old_counts sk db b m) v))" by (simp add: effect split: option.split)
  show "db_rollup_cursor db' = Some (if kvs = [] then cursor_from_start else fst (fst (last kvs)))"
    by (simp add: effect g_def gather_last gather_start_def)
  show "db_queues db' = db_queues db" "db_js_cursor db' = db_js_cursor db" "db_feeds db' = db_feeds db"
    "db_records db' = db_records db" "db_trim_cursors db' = db_trim_cursors db" by (simp_all add: effect)
qed

context count_field
begin

lemma rollup_live_counts_conserves:
  assumes run: "rollup_live_counts sk ts limit k db = (n, dirty, db')"
    and ts: "set ts \<subseteq> set (RBT.entries (db_live_counts db))" "distinct (map fst ts)"
  shows "counted p db' b m = counted p db b m"
proof -
  let ?kvs = "gathered limit k ts"
  let ?g = "fold (\<lambda>((c, m), v). gather_one sk c m v) ?kvs gather_start"
  note effect = rollup_live_counts_effect [OF run]
  have kvs: "distinct (map fst ?kvs)" "set ?kvs \<subseteq> set (RBT.entries (db_live_counts db))"
  proof -
    obtain j where "?kvs = take j ts" unfolding gathered_def by (metis take_take takeWhile_eq_take)
    then show "distinct (map fst ?kvs)" "set ?kvs \<subseteq> set (RBT.entries (db_live_counts db))"
      using ts set_take_subset [of j ts] by (auto simp: take_map [symmetric])
  qed
  have sum: "opt_count p (hm_get (g_counts_by_rollup ?g) (m, b)) = sum_list (map (\<lambda>(k, v). share p b m k v) ?kvs)"
    by (simp only: gather_count) (simp add: gather_start_def opt_count_def)
  have "rolled p db' b m = rolled p db b m + opt_count p (hm_get (g_counts_by_rollup ?g) (m, b))"
    by (cases "hm_get (g_counts_by_rollup ?g) (m, b)"; cases "RBT.lookup (db_rollups db) (b, m)")
      (simp_all add: rolled_def effect(4) opt_count_def old_counts_def)
  moreover have "sum_list (map (\<lambda>(k, v). share p b m k v) ?kvs) + waiting p db' b m = waiting p db b m"
    unfolding waiting_def effect(3) by (rule tree_sum_delete_entries [OF kvs])
  ultimately show ?thesis by (simp add: counted_def sum add.assoc)
qed

end

section \<open>Account deletion\<close>

lemma commit_del_records:
  "commit_batch (map DelRecord ks) db = db\<lparr>db_records := fold RBT.delete ks (db_records db)\<rparr>"
  by (induction ks arbitrary: db) simp_all

lemma delete_loop_effect:
  "delete_loop ks (map DelRecord bs) n db = (n + length ks, db\<lparr>db_records := fold RBT.delete (bs @ ks) (db_records db)\<rparr>)"
proof (induction ks arbitrary: bs n db)
  case (Cons k ks)
  have snoc: "map DelRecord bs @ [DelRecord k] = map DelRecord (bs @ [k])" by simp
  show ?case
    using Cons.IH [of "[]" "Suc n" "db\<lparr>db_records := fold RBT.delete (bs @ [k]) (db_records db)\<rparr>"]
      Cons.IH [of "bs @ [k]" "Suc n" db]
    unfolding delete_loop.simps Let_def snoc commit_del_records by simp
qed (simp add: commit_del_records)

lemma delete_account_effect:
  "delete_account did db =
     (length (filter (\<lambda>(d, _). d = did) (RBT.keys (db_records db))),
      db\<lparr>db_records := fold RBT.delete (filter (\<lambda>(d, _). d = did) (RBT.keys (db_records db))) (db_records db)\<rparr>)"
  using delete_loop_effect [of _ "[]" 0 db] by (simp add: delete_account_def)

lemma rollup_delete_account_effect:
  "rollup_delete_account cursor did db =
     (1, (snd (delete_account did db))
           \<lparr>db_queues := RBT.delete cursor (db_queues db), db_rollup_cursor := Some cursor\<rparr>)"
  by (simp add: rollup_delete_account_def delete_account_effect)

lemma rollup_delete_account_frame:
  assumes "rollup_delete_account cursor did db = (k, db')"
  shows "k = 1" "db_live_counts db' = db_live_counts db" "db_rollups db' = db_rollups db"
    "db_queues db' = RBT.delete cursor (db_queues db)" "db_rollup_cursor db' = Some cursor"
    "db_js_cursor db' = db_js_cursor db" "db_rank_records db' = db_rank_records db" "db_rank_dids db' = db_rank_dids db"
    "db_feeds db' = db_feeds db" "db_trim_cursors db' = db_trim_cursors db"
  using assms by (auto simp: rollup_delete_account_effect delete_account_effect)

section \<open>The rollup cursor\<close>

definition last_js :: "'sk FjallDb \<Rightarrow> Cursor" where
  "last_js db = (case db_js_cursor db of None \<Rightarrow> cursor_from_start | Some j \<Rightarrow> j)"

text \<open>Everything still waiting lies between the rollup cursor and the last cursor inserted.\<close>

definition cursors_ok :: "'sk FjallDb \<Rightarrow> bool" where
  "cursors_ok db \<longleftrightarrow>
     (\<exists>rc. db_rollup_cursor db = Some rc \<and> rc \<le> last_js db \<and>
        (\<forall>k \<in> dom (RBT.lookup (db_live_counts db)). rc \<le> fst k \<and> fst k \<le> last_js db) \<and>
        (\<forall>c \<in> dom (RBT.lookup (db_queues db)). rc \<le> c \<and> c \<le> last_js db))"

definition pending :: "'sk FjallDb \<Rightarrow> nat" where
  "pending db = tree_size (db_live_counts db) + tree_size (db_queues db)"

lemma entry_dom: "kv \<in> set (RBT.entries t) \<Longrightarrow> fst kv \<in> dom (RBT.lookup t)"
  using RBT.lookup_in_tree [of t "fst kv" "snd kv"] by (simp add: domIff)

lemma dom_entry: "k \<in> dom (RBT.lookup t) \<Longrightarrow> k \<in> fst ` set (RBT.entries t)"
  by (auto simp: RBT.lookup_in_tree) (force simp: image_iff)

lemma scan_all:
  assumes "db_rollup_cursor db = Some rc"
    and "\<forall>k \<in> dom (RBT.lookup (db_live_counts db)). rc \<le> fst k"
    and "\<forall>c \<in> dom (RBT.lookup (db_queues db)). rc \<le> c"
  shows "live_from rc db = RBT.entries (db_live_counts db)" "queue_from rc db = RBT.entries (db_queues db)"
  using assms unfolding live_from_def queue_from_def
  by (auto simp: filter_id_conv split_def dest: entry_dom)

lemma hd_entry_least:
  assumes "RBT.entries t = e # es" "k \<in> dom (RBT.lookup t)"
  shows "fst e \<le> k"
  using RBT.sorted_entries [of t] dom_entry [OF assms(2)] assms(1) by auto

text \<open>A rollup of live counts takes a prefix of the entries: what it leaves is not before what it took.\<close>

lemma gathered_prefix: "gathered limit n ts = take (length (gathered limit n ts)) ts"
proof -
  let ?w = "takeWhile (gatherable limit) (take n ts)"
  have "?w = take (length ?w) (take n ts)" by (rule takeWhile_eq_take)
  also have "\<dots> = take (min (length ?w) n) ts" by (rule take_take)
  also have "min (length ?w) n = length ?w" using length_takeWhile_le [of "gatherable limit" "take n ts"] by simp
  finally show ?thesis unfolding gathered_def .
qed

lemma rest_after:
  assumes "k \<in> dom (RBT.lookup (fold RBT.delete (map fst (take j (RBT.entries t))) t))"
    and "e \<in> set (take j (RBT.entries t))"
  shows "fst e \<le> k"
proof -
  have "k \<in> dom (RBT.lookup t)" and n: "k \<notin> fst ` set (take j (RBT.entries t))"
    using assms(1) unfolding lookup_delete_keys dom_restrict set_map by auto
  then have "k \<in> fst ` set (RBT.entries t)" by (intro dom_entry)
  with n have "k \<in> fst ` set (drop j (RBT.entries t))"
    by (metis Un_iff append_take_drop_id image_Un set_append)
  moreover have "sorted (map fst (take j (RBT.entries t)) @ map fst (drop j (RBT.entries t)))"
    using RBT.sorted_entries [of t] by (metis append_take_drop_id map_append)
  ultimately show ?thesis using assms(2) by (auto simp: sorted_append)
qed

section \<open>One step\<close>

text \<open>The three things a step can do when the cursors are in order.\<close>

lemma step_rollup_cases [consumes 1, case_names Idle Live Delete]:
  assumes "cursors_ok db"
  obtains
    (Idle) "step_rollup sk db = Inr (0, [], db)" "pending db = 0"
  | (Live) n dirty db' limit where
      "step_rollup sk db = Inr (n, dirty, db')"
      "rollup_live_counts sk (RBT.entries (db_live_counts db)) limit MAX_BATCHED_ROLLUP_COUNTS db = (n, dirty, db')"
      "RBT.entries (db_live_counts db) \<noteq> []" "gatherable limit (hd (RBT.entries (db_live_counts db)))"
      "case limit of None \<Rightarrow> RBT.entries (db_queues db) = []
         | Some d \<Rightarrow> \<exists>did rest. RBT.entries (db_queues db) = (d, did) # rest"
  | (Delete) d did rest db' where
      "step_rollup sk db = Inr (1, [], db')" "rollup_delete_account d did db = (1, db')"
      "RBT.entries (db_queues db) = (d, did) # rest"
      "\<forall>k \<in> dom (RBT.lookup (db_live_counts db)). d \<le> fst k"
proof -
  from assms obtain rc where rc: "db_rollup_cursor db = Some rc"
    "\<forall>k \<in> dom (RBT.lookup (db_live_counts db)). rc \<le> fst k" "\<forall>c \<in> dom (RBT.lookup (db_queues db)). rc \<le> c"
    by (auto simp: cursors_ok_def)
  note scan = scan_all [OF rc]
  obtain db2 where del: "rollup_delete_account d did db = (1, db2 d did)" for d did
    by (simp add: rollup_delete_account_effect)
  show thesis
  proof (cases "RBT.entries (db_live_counts db)")
    case live: Nil
    then have none: "\<forall>k \<in> dom (RBT.lookup (db_live_counts db)). d \<le> fst k" for d
      using dom_entry [of _ "db_live_counts db"] by fastforce
    show ?thesis
    proof (cases "RBT.entries (db_queues db)")
      case Nil
      with live show ?thesis
        by (intro Idle) (simp_all add: step_rollup_def rc scan pending_def tree_size_def)
    next
      case (Cons q qs)
      obtain d did where q: "q = (d, did)" by (rule prod.exhaust)
      show ?thesis
        by (rule Delete [of "db2 d did" d did qs])
          (use live Cons q none in \<open>simp_all add: step_rollup_def rc scan del del: domIff\<close>)
    qed
  next
    case live: (Cons t ts)
    obtain c m v where t: "t = ((c, m), v)" by (metis prod.exhaust)
    have first: "\<forall>k \<in> dom (RBT.lookup (db_live_counts db)). c \<le> fst k"
      using hd_entry_least [OF live] t by (fastforce simp: less_eq_prod_def)
    show ?thesis
    proof (cases "RBT.entries (db_queues db)")
      case Nil
      obtain n dirty db' where run: "rollup_live_counts sk (t # ts) None MAX_BATCHED_ROLLUP_COUNTS db = (n, dirty, db')"
        by (metis prod.exhaust)
      show ?thesis
        by (rule Live [of n dirty db' None]) (use live Nil run t in \<open>simp_all add: step_rollup_def rc scan gatherable_def\<close>)
    next
      case (Cons q qs)
      obtain d did where q: "q = (d, did)" by (rule prod.exhaust)
      show ?thesis
      proof (cases "c < d")
        case True
        obtain n dirty db' where run: "rollup_live_counts sk (t # ts) (Some d) MAX_BATCHED_ROLLUP_COUNTS db = (n, dirty, db')"
          by (metis prod.exhaust)
        show ?thesis
          by (rule Live [of n dirty db' "Some d"])
            (use live Cons q run t True in \<open>simp_all add: step_rollup_def rc scan gatherable_def\<close>)
      next
        case False
        then have "\<forall>k \<in> dom (RBT.lookup (db_live_counts db)). d \<le> fst k"
          using first by (metis not_less order_trans)
        then show ?thesis
          by (intro Delete [of "db2 d did" d did qs])
            (use live Cons q t False in \<open>simp_all add: step_rollup_def rc scan del del: domIff\<close>)
      qed
    qed
  qed
qed

lemma gathered_hd:
  assumes "ts \<noteq> []" "gatherable limit (hd ts)" "0 < n"
  shows "gathered limit n ts \<noteq> []"
  using assms by (cases ts; cases n) (auto simp: gathered_def)

lemma gathered_le: "e \<in> set (gathered (Some d) n ts) \<Longrightarrow> fst (fst e) \<le> d"
  by (auto simp: gathered_def gatherable_def dest!: set_takeWhileD)

lemma gathered_set: "set (gathered limit n ts) \<subseteq> set ts"
  using gathered_prefix [of limit n ts] set_take_subset by metis

lemma gathered_distinct: "distinct (map fst ts) \<Longrightarrow> distinct (map fst (gathered limit n ts))"
  by (subst gathered_prefix) (simp add: take_map [symmetric])

text \<open>A step keeps the cursors in order, and works off exactly as many entries as it reports.\<close>

lemma step_rollup_cursors:
  assumes "cursors_ok db" "step_rollup sk db = Inr (n, dirty, db')"
  shows "cursors_ok db'" "last_js db' = last_js db"
proof -
  let ?l = "db_live_counts db" and ?q = "db_queues db"
  from assms(1) obtain rc where rc: "db_rollup_cursor db = Some rc"
    and live: "\<forall>k \<in> dom (RBT.lookup ?l). rc \<le> fst k \<and> fst k \<le> last_js db"
    and queue: "\<forall>c \<in> dom (RBT.lookup ?q). rc \<le> c \<and> c \<le> last_js db"
    by (auto simp: cursors_ok_def)
  from assms(1) have "cursors_ok db' \<and> last_js db' = last_js db"
  proof (cases rule: step_rollup_cases [where sk = sk])
    case Idle
    then show ?thesis using assms by simp
  next
    case (Live n' dirty' db'' limit)
    let ?kvs = "gathered limit MAX_BATCHED_ROLLUP_COUNTS (RBT.entries ?l)"
    from Live(1) assms(2) have run: "rollup_live_counts sk (RBT.entries ?l) limit MAX_BATCHED_ROLLUP_COUNTS db = (n, dirty, db')"
      using Live(2) by simp
    note effect = rollup_live_counts_effect [OF run]
    have ne: "?kvs \<noteq> []" by (rule gathered_hd [OF Live(3,4)]) simp
    let ?rc = "fst (fst (last ?kvs))"
    have last: "last ?kvs \<in> set ?kvs" using ne by simp
    then have le: "?rc \<le> last_js db" using live entry_dom gathered_set by blast
    have js: "last_js db' = last_js db" by (simp add: last_js_def effect)
    have "\<forall>k \<in> dom (RBT.lookup (db_live_counts db')). ?rc \<le> fst k \<and> fst k \<le> last_js db"
    proof
      fix k assume k: "k \<in> dom (RBT.lookup (db_live_counts db'))"
      then have "fst (last ?kvs) \<le> k"
        using rest_after [of k "length ?kvs" ?l "last ?kvs"] last effect(3) gathered_prefix by metis
      moreover have "k \<in> dom (RBT.lookup ?l)" using k by (simp add: effect(3) lookup_delete_keys)
      ultimately show "?rc \<le> fst k \<and> fst k \<le> last_js db" using live by (auto simp: less_eq_prod_def)
    qed
    moreover have "\<forall>c \<in> dom (RBT.lookup (db_queues db')). ?rc \<le> c \<and> c \<le> last_js db"
    proof
      fix c assume "c \<in> dom (RBT.lookup (db_queues db'))"
      then have c: "c \<in> dom (RBT.lookup ?q)" by (simp add: effect)
      show "?rc \<le> c \<and> c \<le> last_js db"
      proof (cases limit)
        case None
        with Live(5) dom_entry [OF c] show ?thesis by simp
      next
        case (Some d)
        with Live(5) hd_entry_least [OF _ c] have "d \<le> c" by fastforce
        moreover have "?rc \<le> d" using last gathered_le unfolding Some by blast
        ultimately show ?thesis using queue c by auto
      qed
    qed
    moreover have "db_rollup_cursor db' = Some ?rc" using effect(5) ne by simp
    ultimately show ?thesis using le js unfolding cursors_ok_def by auto
  next
    case (Delete d did rest db'')
    then have run: "rollup_delete_account d did db = (1, db')" using assms(2) by simp
    note effect = rollup_delete_account_frame [OF run]
    have js: "last_js db' = last_js db" by (simp add: last_js_def effect)
    have d: "d \<in> dom (RBT.lookup ?q)" using Delete(3) entry_dom [of "(d, did)" ?q] by simp
    have "\<forall>c \<in> dom (RBT.lookup (db_queues db')). d \<le> c \<and> c \<le> last_js db"
      using hd_entry_least [OF Delete(3)] queue by (auto simp: effect)
    moreover have "\<forall>k \<in> dom (RBT.lookup (db_live_counts db')). d \<le> fst k \<and> fst k \<le> last_js db"
      using Delete(4) live by (simp add: effect)
    ultimately show ?thesis using d queue js effect(5) unfolding cursors_ok_def by auto
  qed
  then show "cursors_ok db'" "last_js db' = last_js db" by simp_all
qed

lemma step_rollup_pending:
  assumes "cursors_ok db" "step_rollup sk db = Inr (n, dirty, db')"
  shows "pending db = n + pending db'" "n = 0 \<longleftrightarrow> pending db = 0"
proof -
  from assms(1) have "pending db = n + pending db' \<and> (n = 0 \<longleftrightarrow> pending db = 0)"
  proof (cases rule: step_rollup_cases [where sk = sk])
    case Idle
    then show ?thesis using assms by simp
  next
    case (Live n' dirty' db'' limit)
    let ?l = "db_live_counts db"
    let ?kvs = "gathered limit MAX_BATCHED_ROLLUP_COUNTS (RBT.entries ?l)"
    from Live(1) assms(2) have run: "rollup_live_counts sk (RBT.entries ?l) limit MAX_BATCHED_ROLLUP_COUNTS db = (n, dirty, db')"
      using Live(2) by simp
    note effect = rollup_live_counts_effect [OF run]
    have ne: "?kvs \<noteq> []" by (rule gathered_hd [OF Live(3,4)]) simp
    have "distinct (map fst ?kvs)" by (rule gathered_distinct) (rule RBT.distinct_entries)
    from tree_sum_delete_entries [OF this gathered_set, of "\<lambda>_ _. 1 :: nat"]
    have "length ?kvs + tree_size (db_live_counts db') = tree_size ?l"
      unfolding tree_size_sum effect(3) by (simp add: split_def sum_list_triv)
    moreover have "0 < length ?kvs" using ne by simp
    ultimately show ?thesis unfolding pending_def effect(1,6) by arith
  next
    case (Delete d did rest db'')
    then have run: "rollup_delete_account d did db = (1, db')" and n: "n = 1" using assms(2) by simp_all
    have "RBT.lookup (db_queues db) d = Some did" using Delete(3) by (simp add: RBT.lookup_in_tree)
    from tree_size_delete [OF this] show ?thesis
      unfolding pending_def rollup_delete_account_frame(2,4) [OF run] n by linarith
  qed
  then show "pending db = n + pending db'" "n = 0 \<longleftrightarrow> pending db = 0" by blast+
qed

context count_field
begin

lemma step_rollup_conserves:
  assumes "cursors_ok db" "step_rollup sk db = Inr (n, dirty, db')"
  shows "counted p db' b m = counted p db b m"
  using assms(1)
proof (cases rule: step_rollup_cases [where sk = sk])
  case Idle
  then show ?thesis using assms by simp
next
  case (Live n' dirty' db'' limit)
  with assms(2) show ?thesis
    by (intro rollup_live_counts_conserves [OF _ subset_refl RBT.distinct_entries]) simp
next
  case (Delete d did rest db'')
  then have "rollup_delete_account d did db = (1, db')" using assms(2) by simp
  from rollup_delete_account_frame [OF this] show ?thesis by (simp add: counted_def rolled_def waiting_def)
qed

end

section \<open>Rank indexes\<close>

text \<open>
  A rank index agrees with the rollups: every entry is the current rank of its bucket, and every
  bucket whose rank is not the initial one has its entry.
\<close>

definition ranks_ok ::
  "('sk CountsValue \<Rightarrow> u64) \<Rightarrow> u64 \<Rightarrow> (Rollup \<times> string, 'sk CountsValue) rbt \<Rightarrow> (Rollup \<times> u64 \<times> string, unit) rbt \<Rightarrow> bool"
where
  "ranks_ok est est0 rollups ranks \<longleftrightarrow>
     (\<forall>b r n. RBT.lookup ranks (b, r, n) \<noteq> None \<longrightarrow> (\<exists>v. RBT.lookup rollups (b, n) = Some v \<and> est v = r)) \<and>
     (\<forall>b n v. RBT.lookup rollups (b, n) = Some v \<longrightarrow> est v \<noteq> est0 \<longrightarrow> RBT.lookup ranks (b, est v, n) \<noteq> None)"

lemma ranks_ok_empty: "ranks_ok est est0 RBT.empty RBT.empty"
  by (simp add: ranks_ok_def)

lemma ranks_ok_move:
  assumes ok: "ranks_ok est est0 rollups ranks" and d: "est d = est0"
  shows "ranks_ok est est0 (RBT.insert (b, n) new rollups)
     (rank_move (est (case RBT.lookup rollups (b, n) of None \<Rightarrow> d | Some v \<Rightarrow> v)) (est new) b n ranks)"
proof -
  define old where "old = (case RBT.lookup rollups (b, n) of None \<Rightarrow> d | Some v \<Rightarrow> v)"
  have entry: "RBT.lookup ranks (b, r, n) \<noteq> None \<Longrightarrow> r = est old" for r
    using ok unfolding ranks_ok_def old_def by (force split: option.split)
  have present: "est old \<noteq> est0 \<Longrightarrow> RBT.lookup ranks (b, est old, n) \<noteq> None"
    using ok d by (auto simp: ranks_ok_def old_def split: option.splits)
  have other: "RBT.lookup ranks (b', r, n') \<noteq> None \<Longrightarrow> (b', n') \<noteq> (b, n) \<Longrightarrow>
      \<exists>v. RBT.lookup (RBT.insert (b, n) new rollups) (b', n') = Some v \<and> est v = r" for b' r n'
    using ok by (auto simp: ranks_ok_def)
  have other': "RBT.lookup rollups (b', n') = Some v \<Longrightarrow> est v \<noteq> est0 \<Longrightarrow>
      RBT.lookup ranks (b', est v, n') \<noteq> None" for b' n' v
    using ok unfolding ranks_ok_def by blast
  show ?thesis
    unfolding old_def [symmetric] ranks_ok_def
  proof (intro conjI allI impI)
    fix b' r n'
    assume a: "RBT.lookup (rank_move (est old) (est new) b n ranks) (b', r, n') \<noteq> None"
    show "\<exists>v. RBT.lookup (RBT.insert (b, n) new rollups) (b', n') = Some v \<and> est v = r"
    proof (cases "(b', n') = (b, n)")
      case True
      with a entry [of r] show ?thesis by (auto simp: rank_move_def split: if_splits)
    next
      case False
      with a have "RBT.lookup ranks (b', r, n') \<noteq> None" by (auto simp: rank_move_def split: if_splits)
      with False show ?thesis by (intro other)
    qed
  next
    fix b' n' v
    assume v: "RBT.lookup (RBT.insert (b, n) new rollups) (b', n') = Some v" "est v \<noteq> est0"
    show "RBT.lookup (rank_move (est old) (est new) b n ranks) (b', est v, n') \<noteq> None"
    proof (cases "(b', n') = (b, n)")
      case True
      with v present show ?thesis by (auto simp: rank_move_def)
    next
      case False
      with v other' [of b' n' v] show ?thesis by (auto simp: rank_move_def)
    qed
  qed
qed

definition indexes_ok :: "'sk SketchOps \<Rightarrow> 'sk FjallDb \<Rightarrow> bool" where
  "indexes_ok sk db \<longleftrightarrow>
     ranks_ok (\<lambda>v. cnt_creates (fst v)) 0 (db_rollups db) (db_rank_records db) \<and>
     ranks_ok (dids_of sk) (dids_of sk (cv_default sk)) (db_rollups db) (db_rank_dids db)"

lemma commit_rollups_indexes:
  assumes "hm_inv es" "indexes_ok sk db"
    and "\<forall>e \<in> set es. RBT.lookup (db_rollups db) (snd (fst e), fst (fst e)) = RBT.lookup (db_rollups db0) (snd (fst e), fst (fst e))"
  shows "indexes_ok sk (commit_batch (concat (map (rollup_ops sk db0) es)) db)"
  using assms
proof (induction es arbitrary: db)
  case (Cons e es)
  obtain n b v where e: "e = ((n, b), v)" by (metis prod.exhaust)
  have same: "old_counts sk db0 b n = old_counts sk db b n" using Cons.prems(3) e by (simp add: old_counts_def)
  let ?new = "cv_merge sk (old_counts sk db b n) v"
  have "ranks_ok (\<lambda>v. cnt_creates (fst v)) 0 (RBT.insert (b, n) ?new (db_rollups db))
      (rank_move (cnt_creates (fst (old_counts sk db b n))) (cnt_creates (fst ?new)) b n (db_rank_records db))"
    unfolding old_counts_def
    by (rule ranks_ok_move [where est = "\<lambda>v. cnt_creates (fst v)"]) (use Cons.prems(2) in \<open>simp_all add: indexes_ok_def\<close>)
  moreover have "ranks_ok (dids_of sk) (dids_of sk (cv_default sk)) (RBT.insert (b, n) ?new (db_rollups db))
      (rank_move (dids_of sk (old_counts sk db b n)) (dids_of sk ?new) b n (db_rank_dids db))"
    unfolding old_counts_def by (rule ranks_ok_move) (use Cons.prems(2) in \<open>simp_all add: indexes_ok_def\<close>)
  ultimately have "indexes_ok sk (commit_batch (rollup_ops sk db0 e) db)"
    unfolding indexes_ok_def e commit_rollup_ops Let_def same by simp
  moreover have "hm_inv es" using Cons.prems(1) by (simp add: hm_inv_def)
  moreover have "\<forall>x \<in> set es. RBT.lookup (db_rollups (commit_batch (rollup_ops sk db0 e) db)) (snd (fst x), fst (fst x)) =
      RBT.lookup (db_rollups db0) (snd (fst x), fst (fst x))"
    using Cons.prems(1,3) e by (auto simp: commit_rollup_ops Let_def hm_inv_def image_iff)
  ultimately show ?case using Cons.IH by (simp add: commit_batch_append)
qed simp

lemma step_rollup_indexes:
  assumes "cursors_ok db" "indexes_ok sk db" "step_rollup sk db = Inr (n, dirty, db')"
  shows "indexes_ok sk db'"
  using assms(1)
proof (cases rule: step_rollup_cases [where sk = sk])
  case Idle
  then show ?thesis using assms by simp
next
  case (Live n' dirty' db'' limit)
  define g where "g = fold (\<lambda>((c, m), v). gather_one sk c m v)
    (gathered limit MAX_BATCHED_ROLLUP_COUNTS (RBT.entries (db_live_counts db))) gather_start"
  have inv: "hm_inv (g_counts_by_rollup g)" unfolding g_def by (rule gather_inv) (simp add: gather_start_def)
  let ?live = "commit_batch (map (DelLive \<circ> fst) (gathered limit MAX_BATCHED_ROLLUP_COUNTS (RBT.entries (db_live_counts db)))) db"
  have "db' = commit_batch [SetRollupCursor (g_last_cursor g)]
      (commit_batch (concat (map (rollup_ops sk db) (g_counts_by_rollup g))) ?live)"
    using Live(1,2) assms(3) by (simp add: rollup_live_counts_def Let_def gather_fold g_def [symmetric] commit_batch_append
        gather_batch [of sk _ gather_start, folded g_def]) (auto simp: g_def gather_batch gather_start_def)
  moreover have "indexes_ok sk (commit_batch (concat (map (rollup_ops sk db) (g_counts_by_rollup g))) ?live)"
    using assms(2) by (intro commit_rollups_indexes [OF inv]) (simp_all add: commit_del_live indexes_ok_def)
  ultimately show ?thesis by (simp add: indexes_ok_def)
next
  case (Delete d did rest db'')
  then have "rollup_delete_account d did db = (1, db')" using assms(3) by simp
  from rollup_delete_account_frame [OF this] assms(2) show ?thesis by (simp add: indexes_ok_def)
qed

end
