(* ===== verification/Fjall_Run.thy ===== *)
theory Fjall_Run
  imports Fjall_Rollup
begin

text \<open>
  Sequences of storage operations: batches arrive from the consumer while the background task rolls
  counts up and trims feeds.  The operations interleave in any order; what is assumed of the
  batches is the order in which the consumer sends them.
\<close>

section \<open>Inserting a batch\<close>

lemma commit_record_ops:
  "commit_ops nsid commit = Inr ops \<Longrightarrow> \<exists>f r. commit_batch ops db = db\<lparr>db_feeds := f, db_records := r\<rparr>"
  by (force simp: commit_ops_def and_then_Inr split: CommitAction.splits intro: exI [of _ "db_feeds db"])

lemma commit_records_ops:
  "concat_res (commit_ops nsid) cs = Inr ops \<Longrightarrow> \<exists>f r. commit_batch ops db = db\<lparr>db_feeds := f, db_records := r\<rparr>"
proof (induction cs arbitrary: ops db)
  case Nil
  then show ?case by (auto intro!: exI [of _ "db_feeds db"] exI [of _ "db_records db"])
next
  case (Cons c cs)
  then obtain o1 o2 where o: "commit_ops nsid c = Inr o1" "concat_res (commit_ops nsid) cs = Inr o2" "ops = o1 @ o2"
    by (auto simp: and_then_Inr)
  obtain f r where 1: "commit_batch o1 db = db\<lparr>db_feeds := f, db_records := r\<rparr>"
    using commit_record_ops [OF o(1)] by blast
  obtain f' r' where "commit_batch o2 (db\<lparr>db_feeds := f, db_records := r\<rparr>) = db\<lparr>db_feeds := f', db_records := r'\<rparr>"
    using Cons.IH [OF o(2), of "db\<lparr>db_feeds := f, db_records := r\<rparr>"] by auto
  then show ?case by (auto simp: o(3) commit_batch_append 1)
qed

definition insert_live :: "Cursor \<Rightarrow> (string \<times> 'sk CollectionCommits) list \<Rightarrow>
    (Cursor \<times> string, 'sk CountsValue) rbt \<Rightarrow> (Cursor \<times> string, 'sk CountsValue) rbt" where
  "insert_live l cs t = fold (\<lambda>(n, cc). RBT.insert (l, n) (counts_value cc)) cs t"

definition insert_queue :: "DeleteAccountReq list \<Rightarrow> (Cursor, string) rbt \<Rightarrow> (Cursor, string) rbt" where
  "insert_queue rs t = fold (\<lambda>r. RBT.insert (da_cursor r) (da_did r)) rs t"

lemma commit_collection_ops:
  "concat_res (collection_ops l) cs = Inr ops \<Longrightarrow>
   \<exists>f r. commit_batch ops db =
     db\<lparr>db_feeds := f, db_records := r, db_live_counts := insert_live l cs (db_live_counts db)\<rparr>"
proof (induction cs arbitrary: ops db)
  case Nil
  then show ?case by (auto intro!: exI [of _ "db_feeds db"] exI [of _ "db_records db"] simp: insert_live_def)
next
  case (Cons c cs)
  obtain n cc where c: "c = (n, cc)" by (rule prod.exhaust)
  from Cons.prems c obtain o1 o2 where o: "concat_res (commit_ops n) (cc_commits cc) = Inr o1"
    "concat_res (collection_ops l) cs = Inr o2" "ops = (o1 @ [InsLive (l, n) (counts_value cc)]) @ o2"
    by (auto simp: and_then_Inr collection_ops_def [of l "(n, cc)"])
  obtain f r where 1: "commit_batch o1 db = db\<lparr>db_feeds := f, db_records := r\<rparr>"
    using commit_records_ops [OF o(1)] by blast
  show ?case
    using Cons.IH [OF o(2), of "db\<lparr>db_feeds := f, db_records := r,
        db_live_counts := RBT.insert (l, n) (counts_value cc) (db_live_counts db)\<rparr>"]
    by (auto simp: o(3) commit_batch_append 1 c insert_live_def)
qed

lemma commit_remove_ops:
  "concat_res remove_ops rs = Inr ops \<Longrightarrow>
   commit_batch ops db = db\<lparr>db_queues := insert_queue rs (db_queues db)\<rparr>"
proof (induction rs arbitrary: ops db)
  case (Cons r rs)
  then obtain o2 where o: "concat_res remove_ops rs = Inr o2" "ops = InsQueue (da_cursor r) (da_did r) # o2"
    by (auto simp: and_then_Inr remove_ops_def [of r])
  show ?case using Cons.IH [OF o(1)] by (simp add: o(2) insert_queue_def)
qed (simp add: insert_queue_def)

lemma insert_batch_effect:
  assumes "insert_batch eb db = Inr db'" "\<not> batch_is_empty eb"
  obtains l f r where "latest_cursor eb = Some l"
    "db' = db\<lparr>db_feeds := f, db_records := r,
        db_live_counts := insert_live l (eb_commits_by_nsid eb) (db_live_counts db),
        db_queues := insert_queue (eb_account_removes eb) (db_queues db), db_js_cursor := Some l\<rparr>"
proof -
  from assms obtain l ops removes where l: "latest_cursor eb = Some l"
    and o: "concat_res (collection_ops l) (eb_commits_by_nsid eb) = Inr ops"
      "concat_res remove_ops (eb_account_removes eb) = Inr removes"
      "db' = commit_batch (ops @ removes @ [SetJsCursor l]) db"
    by (auto simp: insert_batch_def and_then_Inr split: option.splits)
  obtain f r where "commit_batch ops db = db\<lparr>db_feeds := f, db_records := r,
      db_live_counts := insert_live l (eb_commits_by_nsid eb) (db_live_counts db)\<rparr>"
    using commit_collection_ops [OF o(1)] by blast
  with that l show thesis by (simp add: o(3) commit_batch_append commit_remove_ops [OF o(2)])
qed

section \<open>What a batch adds\<close>

lemma insert_live_sum:
  assumes "distinct (map fst cs)" "\<forall>n. RBT.lookup t (l, n) = None"
  shows "tree_sum f (insert_live l cs t) = sum_list (map (\<lambda>(n, cc). f (l, n) (counts_value cc)) cs) + tree_sum f t"
proof -
  have "tree_sum f (insert_live l cs t) = sum_list (map (\<lambda>(n, cc). f (l, n) (counts_value cc)) cs) + tree_sum f t"
    if "distinct (map fst cs)" "\<forall>n \<in> fst ` set cs. RBT.lookup t (l, n) = None"
    using that
  proof (induction cs arbitrary: t)
    case (Cons c cs)
    obtain n cc where c: "c = (n, cc)" by (rule prod.exhaust)
    have "tree_sum f (insert_live l cs (RBT.insert (l, n) (counts_value cc) t)) =
        sum_list (map (\<lambda>(n, cc). f (l, n) (counts_value cc)) cs) + tree_sum f (RBT.insert (l, n) (counts_value cc) t)"
      using Cons.prems c by (intro Cons.IH) auto
    moreover have "tree_sum f (RBT.insert (l, n) (counts_value cc) t) = f (l, n) (counts_value cc) + tree_sum f t"
      using Cons.prems c by (intro tree_sum_insert) simp
    ultimately show ?case by (simp add: c insert_live_def ac_simps)
  qed (simp add: insert_live_def)
  then show ?thesis using assms by simp
qed

text \<open>The counts a batch holds for the bucket \<open>b\<close> of a collection: those of its latest cursor.\<close>

definition batch_share :: "(CommitCounts \<Rightarrow> u64) \<Rightarrow> Rollup \<Rightarrow> string \<Rightarrow> 'sk EventBatch \<Rightarrow> u64" where
  "batch_share p b n eb =
     (case (latest_cursor eb, hm_get (eb_commits_by_nsid eb) n) of
        (Some l, Some cc) \<Rightarrow> if in_bucket b l then p (fst (counts_value cc)) else 0
      | _ \<Rightarrow> 0)"

lemma sum_share:
  "distinct (map fst cs) \<Longrightarrow>
   sum_list (map (\<lambda>(m, cc). share p b n (l, m) (counts_value cc)) cs) =
     (case hm_get cs n of None \<Rightarrow> 0 | Some cc \<Rightarrow> if in_bucket b l then p (fst (counts_value cc)) else 0)"
proof (induction cs)
  case (Cons c cs)
  obtain m cc where c: "c = (m, cc)" by (rule prod.exhaust)
  show ?case
  proof (cases "m = n")
    case True
    with Cons.prems c have "hm_get cs n = None" by (auto simp: hm_get_def map_of_eq_None_iff)
    with Cons True c show ?thesis by (auto simp: share_def hm_get_def)
  next
    case False
    with Cons c show ?thesis by (auto simp: share_def hm_get_def split: option.split)
  qed
qed (simp add: hm_get_def)

text \<open>The consumer sends batches in order: all of a batch is after everything inserted before.\<close>

definition batch_after :: "Cursor \<Rightarrow> 'sk EventBatch \<Rightarrow> bool" where
  "batch_after js eb \<longleftrightarrow>
     hm_inv (eb_commits_by_nsid eb) \<and>
     (case latest_cursor eb of
        None \<Rightarrow> True
      | Some l \<Rightarrow> js < l \<and> list_all (\<lambda>r. js < da_cursor r \<and> da_cursor r \<le> l) (eb_account_removes eb))"

lemma dom_insert_live: "dom (RBT.lookup (insert_live l cs t)) = dom (RBT.lookup t) \<union> (\<lambda>c. (l, fst c)) ` set cs"
proof (induction cs arbitrary: t)
  case (Cons c cs)
  obtain n cc where c: "c = (n, cc)" by (rule prod.exhaust)
  have "insert_live l (c # cs) t = insert_live l cs (RBT.insert (l, n) (counts_value cc) t)"
    by (simp add: c insert_live_def)
  then show ?case by (simp only: Cons.IH) (simp add: c del: fun_upd_apply)
qed (simp add: insert_live_def)

lemma dom_insert_queue: "dom (RBT.lookup (insert_queue rs t)) = dom (RBT.lookup t) \<union> da_cursor ` set rs"
proof (induction rs arbitrary: t)
  case (Cons r rs)
  have "insert_queue (r # rs) t = insert_queue rs (RBT.insert (da_cursor r) (da_did r) t)" by (simp add: insert_queue_def)
  then show ?case by (simp only: Cons.IH) (simp del: fun_upd_apply)
qed (simp add: insert_queue_def)

lemma insert_batch_cursors:
  assumes ok: "cursors_ok db" and ins: "insert_batch eb db = Inr db'" and after: "batch_after (last_js db) eb"
  shows "cursors_ok db'"
    "last_js db' = (if batch_is_empty eb then last_js db else case latest_cursor eb of None \<Rightarrow> last_js db | Some l \<Rightarrow> l)"
proof -
  have "cursors_ok db' \<and> last_js db' =
      (if batch_is_empty eb then last_js db else case latest_cursor eb of None \<Rightarrow> last_js db | Some l \<Rightarrow> l)"
  proof (cases "batch_is_empty eb")
    case True
    with ok ins show ?thesis by (simp add: insert_batch_def)
  next
    case False
    obtain l f r where l: "latest_cursor eb = Some l" and db': "db' = db\<lparr>db_feeds := f, db_records := r,
        db_live_counts := insert_live l (eb_commits_by_nsid eb) (db_live_counts db),
        db_queues := insert_queue (eb_account_removes eb) (db_queues db), db_js_cursor := Some l\<rparr>"
      by (rule insert_batch_effect [OF ins False])
    obtain rc where rc: "db_rollup_cursor db = Some rc" "rc \<le> last_js db"
      and old: "\<forall>k \<in> dom (RBT.lookup (db_live_counts db)). rc \<le> fst k \<and> fst k \<le> last_js db"
        "\<forall>c \<in> dom (RBT.lookup (db_queues db)). rc \<le> c \<and> c \<le> last_js db"
      using ok by (auto simp: cursors_ok_def)
    have lt: "last_js db < l" and rem: "\<forall>r \<in> set (eb_account_removes eb). last_js db < da_cursor r \<and> da_cursor r \<le> l"
      using after l by (auto simp: batch_after_def list_all_iff)
    have js: "last_js db' = l" by (simp add: db' last_js_def)
    have "\<forall>k \<in> dom (RBT.lookup (db_live_counts db')). rc \<le> fst k \<and> fst k \<le> l"
    proof
      fix k assume "k \<in> dom (RBT.lookup (db_live_counts db'))"
      then consider "k \<in> dom (RBT.lookup (db_live_counts db))" | "fst k = l"
        by (auto simp: db' dom_insert_live simp del: domIff)
      then show "rc \<le> fst k \<and> fst k \<le> l" using old(1) lt rc(2) by cases force+
    qed
    moreover have "\<forall>c \<in> dom (RBT.lookup (db_queues db')). rc \<le> c \<and> c \<le> l"
    proof
      fix c assume "c \<in> dom (RBT.lookup (db_queues db'))"
      then consider "c \<in> dom (RBT.lookup (db_queues db))" | r where "r \<in> set (eb_account_removes eb)" "c = da_cursor r"
        by (auto simp: db' dom_insert_queue simp del: domIff)
      then show "rc \<le> c \<and> c \<le> l" using old(2) lt rc(2) rem by cases force+
    qed
    moreover have "db_rollup_cursor db' = Some rc" by (simp add: db' rc)
    ultimately show ?thesis using False l js lt rc(2) unfolding cursors_ok_def by auto
  qed
  then show "cursors_ok db'"
    "last_js db' = (if batch_is_empty eb then last_js db else case latest_cursor eb of None \<Rightarrow> last_js db | Some l \<Rightarrow> l)"
    by blast+
qed

context count_field
begin

lemma insert_batch_counts:
  assumes ok: "cursors_ok db" and ins: "insert_batch eb db = Inr db'" and after: "batch_after (last_js db) eb"
  shows "counted p db' b n = counted p db b n + (if batch_is_empty eb then 0 else batch_share p b n eb)"
proof (cases "batch_is_empty eb")
  case True
  with ins show ?thesis by (simp add: insert_batch_def)
next
  case False
  obtain l f r where l: "latest_cursor eb = Some l" and db': "db' = db\<lparr>db_feeds := f, db_records := r,
      db_live_counts := insert_live l (eb_commits_by_nsid eb) (db_live_counts db),
      db_queues := insert_queue (eb_account_removes eb) (db_queues db), db_js_cursor := Some l\<rparr>"
    by (rule insert_batch_effect [OF ins False])
  have lt: "last_js db < l" and d: "distinct (map fst (eb_commits_by_nsid eb))"
    using after l by (auto simp: batch_after_def hm_inv_def)
  have "RBT.lookup (db_live_counts db) (l, m) = None" for m
  proof (rule ccontr)
    assume "RBT.lookup (db_live_counts db) (l, m) \<noteq> None"
    then have "(l, m) \<in> dom (RBT.lookup (db_live_counts db))" by blast
    then have "l \<le> last_js db" using ok by (force simp: cursors_ok_def)
    with lt show False by simp
  qed
  then have "waiting p db' b n =
      sum_list (map (\<lambda>(m, cc). share p b n (l, m) (counts_value cc)) (eb_commits_by_nsid eb)) + waiting p db b n"
    by (simp add: waiting_def db' insert_live_sum [OF d])
  then show ?thesis
    using False by (simp add: counted_def rolled_def db' sum_share [OF d] batch_share_def l split: option.split)
qed

end

section \<open>Trimming does not touch the counts\<close>

definition feeds_only :: "'sk FjallDb \<Rightarrow> 'sk FjallDb \<Rightarrow> bool" where
  "feeds_only db db' \<longleftrightarrow>
     db' = db\<lparr>db_feeds := db_feeds db', db_records := db_records db', db_trim_cursors := db_trim_cursors db'\<rparr>"

lemma feeds_only_refl: "feeds_only db db"
  by (simp add: feeds_only_def)

lemma feeds_only_trans:
  assumes "feeds_only a b" "feeds_only b c"
  shows "feeds_only a c"
proof -
  have "c = (a\<lparr>db_feeds := db_feeds b, db_records := db_records b, db_trim_cursors := db_trim_cursors b\<rparr>)
      \<lparr>db_feeds := db_feeds c, db_records := db_records c, db_trim_cursors := db_trim_cursors c\<rparr>"
    using assms unfolding feeds_only_def by metis
  then show ?thesis unfolding feeds_only_def by simp
qed

lemma feeds_only_frame:
  assumes "feeds_only db db'"
  shows "db_live_counts db' = db_live_counts db" "db_rollups db' = db_rollups db" "db_queues db' = db_queues db"
    "db_rank_records db' = db_rank_records db" "db_rank_dids db' = db_rank_dids db"
    "db_rollup_cursor db' = db_rollup_cursor db" "db_js_cursor db' = db_js_cursor db"
  by (subst assms [unfolded feeds_only_def], simp)+

lemma trim_one_frame: "feeds_only (tr_db t) (tr_db (trim_one limit kv t))"
proof -
  obtain n c did rkey r where kv: "kv = ((n, c), (did, rkey, r))" by (metis prod.exhaust)
  show ?thesis
    by (cases "RBT.lookup (db_records (tr_db t)) (did, n, rkey)")
      (simp_all add: kv trim_one_def Let_def feeds_only_def)
qed

lemma trim_loop_frame: "feeds_only (tr_db t) (tr_db (fold (trim_one limit) kvs t))"
  by (induction kvs arbitrary: t) (auto intro: feeds_only_refl feeds_only_trans [OF trim_one_frame])

lemma trim_collection_frame: "feeds_only db (snd (trim_collection nsid limit full db))"
proof -
  have "feeds_only db (case tr_candidate t of None \<Rightarrow> tr_db t
      | Some c \<Rightarrow> (tr_db t)\<lparr>db_trim_cursors := RBT.insert nsid c (db_trim_cursors (tr_db t))\<rparr>)"
    if "feeds_only db (tr_db t)" for t :: "'a Trim"
    using feeds_only_trans [OF that] by (auto simp: that feeds_only_def split: option.split)
  from this [OF trim_loop_frame [of "\<lparr>tr_db = db, tr_dangling = 0, tr_deleted = 0, tr_live_found = 0, tr_candidate = None\<rparr>",
      unfolded Trim.simps]]
  show ?thesis unfolding trim_collection_def Let_def snd_conv .
qed

section \<open>Runs\<close>

datatype 'sk StoreOp = OpInsert "'sk EventBatch" | OpRollup | OpTrim string nat bool

fun store_op :: "'sk SketchOps \<Rightarrow> 'sk StoreOp \<Rightarrow> 'sk FjallDb \<Rightarrow> StorageError + 'sk FjallDb" where
  "store_op sk (OpInsert eb) db = insert_batch eb db"
| "store_op sk OpRollup db = map_sum id (\<lambda>(_, _, db'). db') (step_rollup sk db)"
| "store_op sk (OpTrim n limit full) db = Inr (snd (trim_collection n limit full db))"

fun ops_ordered :: "Cursor \<Rightarrow> 'sk StoreOp list \<Rightarrow> bool" where
  "ops_ordered js [] \<longleftrightarrow> True"
| "ops_ordered js (OpInsert eb # ops) \<longleftrightarrow> batch_after js eb \<and>
     ops_ordered (if batch_is_empty eb then js else case latest_cursor eb of None \<Rightarrow> js | Some l \<Rightarrow> l) ops"
| "ops_ordered js (_ # ops) \<longleftrightarrow> ops_ordered js ops"

fun inserted :: "(CommitCounts \<Rightarrow> u64) \<Rightarrow> Rollup \<Rightarrow> string \<Rightarrow> 'sk StoreOp list \<Rightarrow> u64" where
  "inserted p b n [] = 0"
| "inserted p b n (OpInsert eb # ops) = (if batch_is_empty eb then 0 else batch_share p b n eb) + inserted p b n ops"
| "inserted p b n (_ # ops) = inserted p b n ops"

definition db_ok :: "'sk SketchOps \<Rightarrow> 'sk FjallDb \<Rightarrow> bool" where
  "db_ok sk db \<longleftrightarrow> cursors_ok db \<and> indexes_ok sk db"

lemma step_rollup_returns: "cursors_ok db \<Longrightarrow> \<exists>n dirty db'. step_rollup sk db = Inr (n, dirty, db')"
  by (cases rule: step_rollup_cases [where sk = sk]) auto

lemma store_op_ok:
  assumes "db_ok sk db" "store_op sk x db = Inr db'" "ops_ordered (last_js db) (x # ops)"
  shows "db_ok sk db' \<and> ops_ordered (last_js db') ops"
proof (cases x)
  case (OpInsert eb)
  with assms have ins: "insert_batch eb db = Inr db'" and after: "batch_after (last_js db) eb" by simp_all
  have "indexes_ok sk db'"
  proof (cases "batch_is_empty eb")
    case True
    with assms ins show ?thesis by (simp add: insert_batch_def db_ok_def)
  next
    case False
    show ?thesis by (rule insert_batch_effect [OF ins False]) (use assms(1) in \<open>simp add: db_ok_def indexes_ok_def\<close>)
  qed
  with insert_batch_cursors [OF _ ins after] assms OpInsert show ?thesis by (simp add: db_ok_def)
next
  case OpRollup
  with assms obtain n dirty where "step_rollup sk db = Inr (n, dirty, db')" by (cases "step_rollup sk db") auto
  with step_rollup_cursors [of db sk n dirty db'] step_rollup_indexes [of db sk n dirty db'] assms OpRollup
  show ?thesis by (simp add: db_ok_def)
next
  case (OpTrim n limit full)
  with assms have "db' = snd (trim_collection n limit full db)" by simp
  with assms OpTrim feeds_only_frame [OF trim_collection_frame [of db n limit full]] show ?thesis
    by (simp add: db_ok_def cursors_ok_def last_js_def indexes_ok_def)
qed

context count_field
begin

lemma store_op_counts:
  assumes "db_ok sk db" "store_op sk x db = Inr db'" "ops_ordered (last_js db) (x # ops)"
  shows "counted p db' b n = counted p db b n + inserted p b n [x]"
proof (cases x)
  case (OpInsert eb)
  with assms show ?thesis by (simp add: db_ok_def insert_batch_counts)
next
  case OpRollup
  with assms obtain k dirty where "step_rollup sk db = Inr (k, dirty, db')" by (cases "step_rollup sk db") auto
  with step_rollup_conserves [of db sk k dirty db'] assms OpRollup show ?thesis by (simp add: db_ok_def)
next
  case (OpTrim m limit full)
  with assms feeds_only_frame [OF trim_collection_frame [of db m limit full]] show ?thesis
    by (auto simp: counted_def rolled_def waiting_def)
qed

lemma run_counts:
  assumes "db_ok sk db" "fold_res (store_op sk) ops db = Inr db'" "ops_ordered (last_js db) ops"
  shows "counted p db' b n = counted p db b n + inserted p b n ops"
  using assms
proof (induction ops arbitrary: db)
  case (Cons x ops)
  then obtain db1 where 1: "store_op sk x db = Inr db1" "fold_res (store_op sk) ops db1 = Inr db'"
    by (auto split: sum.splits)
  from store_op_ok [OF Cons.prems(1) 1(1) Cons.prems(3)] Cons.IH [OF _ 1(2)]
  have "counted p db' b n = counted p db1 b n + inserted p b n ops" by simp
  moreover have "inserted p b n (x # ops) = inserted p b n [x] + inserted p b n ops" by (cases x) simp_all
  ultimately show ?case using store_op_counts [OF Cons.prems(1) 1(1) Cons.prems(3)] by (simp add: add.assoc)
qed simp

end

lemma run_ok:
  assumes "db_ok sk db" "fold_res (store_op sk) ops db = Inr db'" "ops_ordered (last_js db) ops"
  shows "db_ok sk db'"
  using assms
proof (induction ops arbitrary: db)
  case (Cons x ops)
  then obtain db1 where 1: "store_op sk x db = Inr db1" "fold_res (store_op sk) ops db1 = Inr db'"
    by (auto split: sum.splits)
  from store_op_ok [OF Cons.prems(1) 1(1) Cons.prems(3)] Cons.IH [OF _ 1(2)] show ?case by simp
qed simp

text \<open>Rolling up again and again: at most one step per pending entry.\<close>

lemma rollup_drains:
  "db_ok sk db \<Longrightarrow> \<exists>k db'. k \<le> pending db \<and> fold_res (store_op sk) (replicate k OpRollup) db = Inr db' \<and> pending db' = 0"
proof (induction "pending db" arbitrary: db rule: less_induct)
  case less
  show ?case
  proof (cases "pending db = 0")
    case True
    then show ?thesis by (intro exI [of _ 0] exI [of _ db]) simp
  next
    case False
    have ok: "cursors_ok db" using less.prems by (simp add: db_ok_def)
    obtain n dirty db1 where s: "step_rollup sk db = Inr (n, dirty, db1)" using step_rollup_returns [OF ok] by blast
    from step_rollup_pending [OF ok s] False have lt: "pending db1 < pending db" by simp
    have "db_ok sk db1" using step_rollup_cursors [OF ok s] step_rollup_indexes [OF ok _ s] less.prems by (simp add: db_ok_def)
    from less.hyps [OF lt this] obtain k db' where k: "k \<le> pending db1"
      "fold_res (store_op sk) (replicate k OpRollup) db1 = Inr db'" "pending db' = 0" by blast
    then show ?thesis using lt s by (intro exI [of _ "Suc k"] exI [of _ db']) simp
  qed
qed

lemma inserted_replicate_rollup [simp]: "inserted p b n (replicate k OpRollup) = 0"
  by (induction k) simp_all

lemma ops_ordered_replicate_rollup [simp]: "ops_ordered js (replicate k OpRollup)"
  by (induction k) simp_all

text \<open>A fresh database.\<close>

definition db_fresh :: "'sk SketchOps \<Rightarrow> string \<Rightarrow> Cursor \<Rightarrow> bytes \<Rightarrow> 'sk FjallDb" where
  "db_fresh sk endpoint now secret = snd (fjall_init endpoint False now (Some secret) db_empty)"

lemma db_fresh_eq: "db_fresh sk endpoint now secret = db_empty\<lparr>db_js_endpoint := Some endpoint,
    db_sketch_secret := Some secret, db_takeoff := Some now, db_rollup_cursor := Some cursor_from_start\<rparr>"
  by (simp add: db_fresh_def fjall_init_def init_fresh_def init_static_neu_def db_empty_def)

lemma db_fresh_ok: "db_ok sk (db_fresh sk endpoint now secret)"
  by (simp add: db_ok_def db_fresh_eq db_empty_def cursors_ok_def last_js_def indexes_ok_def ranks_ok_empty cursor_from_start_def)

lemma db_fresh_counts [simp]: "counted p (db_fresh sk endpoint now secret) b n = 0"
  by (simp add: db_fresh_eq db_empty_def counted_def rolled_def waiting_def opt_count_def)

lemma db_fresh_js [simp]: "last_js (db_fresh sk endpoint now secret) = cursor_from_start"
  by (simp add: db_fresh_eq db_empty_def last_js_def)

lemma waiting_none: "pending db = 0 \<Longrightarrow> waiting p db b n = 0"
  by (simp add: pending_def tree_size_def waiting_def tree_sum_def)

section \<open>Runs do not fail\<close>

definition no_nul :: "string \<Rightarrow> bool" where
  "no_nul s \<longleftrightarrow> NUL \<notin> set s"

text \<open>A batch the storage can write: no null bytes in its strings, and an event with a positive cursor.\<close>

definition batch_encodable :: "'sk EventBatch \<Rightarrow> bool" where
  "batch_encodable eb \<longleftrightarrow>
     (batch_is_empty eb \<or> latest_cursor eb \<noteq> None) \<and>
     list_all (\<lambda>(n, cc). no_nul n \<and> list_all (\<lambda>c. no_nul (uc_did c) \<and> no_nul (uc_rkey c) \<and> no_nul (uc_rev c)) (cc_commits cc))
       (eb_commits_by_nsid eb) \<and>
     list_all (\<lambda>r. no_nul (da_did r)) (eb_account_removes eb)"

lemma concat_res_returns: "\<forall>x \<in> set xs. \<exists>ys. f x = Inr ys \<Longrightarrow> \<exists>ys. concat_res f xs = Inr ys"
  by (induction xs) (auto simp: and_then_Inr)

lemma commit_ops_returns:
  "no_nul n \<Longrightarrow> no_nul (uc_did c) \<Longrightarrow> no_nul (uc_rkey c) \<Longrightarrow> no_nul (uc_rev c) \<Longrightarrow> \<exists>ops. commit_ops n c = Inr ops"
  by (simp add: commit_ops_def encode_strings_def no_nul_def split: CommitAction.split)

lemma insert_batch_returns:
  fixes eb :: "'sk EventBatch"
  assumes "batch_encodable eb"
  shows "\<exists>db'. insert_batch eb db = Inr db'"
proof (cases "batch_is_empty eb")
  case False
  with assms obtain l where l: "latest_cursor eb = Some l" by (auto simp: batch_encodable_def)
  have "\<exists>ops. collection_ops l e = Inr ops" if "e \<in> set (eb_commits_by_nsid eb)" for e
  proof -
    obtain n cc where e: "e = (n, cc)" by (rule prod.exhaust)
    with assms that have "no_nul n"
      and c: "\<forall>c \<in> set (cc_commits cc). no_nul (uc_did c) \<and> no_nul (uc_rkey c) \<and> no_nul (uc_rev c)"
      by (auto simp: batch_encodable_def list_all_iff)
    then have "\<exists>ops. concat_res (commit_ops n) (cc_commits cc) = Inr ops"
      by (intro concat_res_returns ballI commit_ops_returns) auto
    then show ?thesis using \<open>no_nul n\<close>
      by (auto simp: e collection_ops_def and_then_Inr encode_strings_def no_nul_def)
  qed
  then obtain ops where "concat_res (collection_ops l) (eb_commits_by_nsid eb) = Inr ops"
    using concat_res_returns by metis
  moreover have "\<exists>ops :: 'sk FjallOp list. concat_res remove_ops (eb_account_removes eb) = Inr ops"
    using assms by (intro concat_res_returns) (auto simp: batch_encodable_def list_all_iff remove_ops_def encode_strings_def no_nul_def)
  ultimately show ?thesis using False l by (auto simp: insert_batch_def)
qed (simp add: insert_batch_def)

fun ops_encodable :: "'sk StoreOp list \<Rightarrow> bool" where
  "ops_encodable [] \<longleftrightarrow> True"
| "ops_encodable (OpInsert eb # ops) \<longleftrightarrow> batch_encodable eb \<and> ops_encodable ops"
| "ops_encodable (_ # ops) \<longleftrightarrow> ops_encodable ops"

lemma run_returns:
  assumes "db_ok sk db" "ops_ordered (last_js db) ops" "ops_encodable ops"
  shows "\<exists>db'. fold_res (store_op sk) ops db = Inr db'"
  using assms
proof (induction ops arbitrary: db)
  case (Cons x ops)
  have "\<exists>db1. store_op sk x db = Inr db1"
  proof (cases x)
    case (OpInsert eb)
    with Cons.prems insert_batch_returns show ?thesis by auto
  next
    case OpRollup
    with Cons.prems step_rollup_returns [of db sk] show ?thesis by (auto simp: db_ok_def)
  qed simp
  then obtain db1 where 1: "store_op sk x db = Inr db1" by blast
  have "ops_encodable ops" using Cons.prems(3) by (cases x) simp_all
  with store_op_ok [OF Cons.prems(1) 1 Cons.prems(2)] Cons.IH 1 show ?case by simp
qed simp

end
