(* ===== verification/Ufos_Batch_Props.thy ===== *)
theory Ufos_Batch_Props
  imports Ufos_Batch
begin

text \<open>
  What batching guarantees: a bounded batch never loses an update or a delete and never runs into
  its overflow errors; over a whole run of the batcher every commit is counted exactly once and
  every update, delete and account removal is in exactly one batch.
\<close>

section \<open>One collection\<close>

text \<open>
  The invariant of \<open>CollectionCommits\<close>: the vector stays within its limit, the counters of updates
  and deletes are those of the vector, and everything before the head is not displaceable.
\<close>

definition cc_inv :: "nat \<Rightarrow> 'sk CollectionCommits \<Rightarrow> bool" where
  "cc_inv LIMIT cc \<longleftrightarrow>
     length (cc_commits cc) \<le> LIMIT \<and>
     cc_updates cc + cc_deletes cc = length (filter (\<lambda>c. \<not> is_create (uc_action c)) (cc_commits cc)) \<and>
     cc_head cc \<le> length (cc_commits cc) \<and>
     (\<forall>i < cc_head cc. \<not> is_create (uc_action (cc_commits cc ! i)))"

definition kept :: "UFOsCommit list \<Rightarrow> UFOsCommit multiset" where
  "kept cs = mset (filter (\<lambda>c. \<not> is_create (uc_action c)) cs)"

text \<open>What the counters say: so many commits of each kind.\<close>

datatype CommitKind = Created | Updated | Deleted

fun kind_of :: "CommitAction \<Rightarrow> CommitKind" where
  "kind_of (Put _ False) = Created"
| "kind_of (Put _ True) = Updated"
| "kind_of Cut = Deleted"

definition cc_tally :: "'sk CollectionCommits \<Rightarrow> CommitKind multiset" where
  "cc_tally cc = replicate_mset (cc_creates cc) Created + replicate_mset (cc_updates cc) Updated +
     replicate_mset (cc_deletes cc) Deleted"

lemma cc_tally_default [simp]: "cc_tally (cc_default sk) = {#}"
  by (simp add: cc_tally_def cc_default_def)

lemma count_cc_tally:
  "count (cc_tally cc) Created = cc_creates cc" "count (cc_tally cc) Updated = cc_updates cc"
  "count (cc_tally cc) Deleted = cc_deletes cc"
  by (simp_all add: cc_tally_def)

lemma cc_inv_default [simp]: "cc_inv LIMIT (cc_default sk)"
  by (simp add: cc_inv_def cc_default_def)

text \<open>From a head with a create at or after it, the loop replaces the first such create.\<close>

lemma displace_finds:
  assumes "head \<le> j" "j < length commits" "length commits \<le> LIMIT" "started \<le> head"
    and "is_create (uc_action (commits ! j))" "\<forall>i. head \<le> i \<longrightarrow> i < j \<longrightarrow> \<not> is_create (uc_action (commits ! i))"
  shows "displace LIMIT commit commits started head = Some (Inr (commits[j := commit]), j)"
  using assms
proof (induction "j - head" arbitrary: head)
  case 0
  then show ?case by (simp add: displace.simps)
next
  case (Suc n)
  then have "head < j" and ne: "\<not> is_create (uc_action (commits ! head))" by auto
  then have adv: "advance_head LIMIT head = Suc head" using Suc.prems by (simp add: advance_head_def)
  have "displace LIMIT commit commits started head = displace LIMIT commit commits started (Suc head)"
    using Suc.prems ne \<open>head < j\<close> by (subst displace.simps) (simp add: adv)
  also have "\<dots> = Some (Inr (commits[j := commit]), j)"
    using Suc.hyps Suc.prems \<open>head < j\<close> by (intro Suc.hyps(1)) auto
  finally show ?case .
qed

lemma filter_replace_create:
  assumes "j < length cs" "\<not> P (cs ! j)"
  shows "mset (filter P (cs[j := c])) = mset (filter P cs) + (if P c then {#c#} else {#})"
proof -
  have "cs = take j cs @ cs ! j # drop (Suc j) cs" using assms by (simp add: id_take_nth_drop)
  then have "filter P cs = filter P (take j cs) @ filter P (drop (Suc j) cs)"
    using assms(2) by (metis filter.simps(2) filter_append)
  moreover have "cs[j := c] = take j cs @ c # drop (Suc j) cs" using assms by (simp add: upd_conv_take_nth_drop)
  ultimately show ?thesis by simp
qed

text \<open>
  The behaviour of \<open>truncating_insert\<close> on a valid batch: rejected as full and unchanged, or
  accepted with the commit in the batch and no update or delete lost.
\<close>

lemma truncating_insert_cases:
  assumes inv: "cc_inv LIMIT cc"
  shows "cc_updates cc + cc_deletes cc = LIMIT \<and> truncating_insert sk LIMIT c cc = Some (Some (BatchFull c), cc) \<or>
    (\<exists>cc'. truncating_insert sk LIMIT c cc = Some (None, cc') \<and> cc_inv LIMIT cc' \<and>
       cc_tally cc' = cc_tally cc + {#kind_of (uc_action c)#} \<and> c \<in> set (cc_commits cc') \<and>
       kept (cc_commits cc') = kept (cc_commits cc) + (if is_create (uc_action c) then {#} else {#c#}))"
proof (cases "cc_updates cc + cc_deletes cc = LIMIT")
  case False
  let ?nc = "\<lambda>c. \<not> is_create (uc_action c)"
  define cc2 where "cc2 = count_commit sk c cc"
  have cc2: "cc_commits cc2 = cc_commits cc" "cc_head cc2 = cc_head cc" "cc_tally cc2 = cc_tally cc + {#kind_of (uc_action c)#}"
    "cc_updates cc2 + cc_deletes cc2 = cc_updates cc + cc_deletes cc + (if ?nc c then 1 else 0)"
    by (auto simp: cc2_def count_commit_def cc_tally_def Let_def split: CommitAction.split bool.split)
  have ins: "truncating_insert sk LIMIT c cc =
     (if length (cc_commits cc) < LIMIT then Some (None, cc2\<lparr>cc_commits := cc_commits cc @ [c]\<rparr>)
      else (case displace LIMIT c (cc_commits cc) (cc_head cc) (cc_head cc) of
                None \<Rightarrow> None
              | Some (Inl e, head) \<Rightarrow> Some (Some e, cc2\<lparr>cc_head := head\<rparr>)
              | Some (Inr commits, head) \<Rightarrow> Some (None, cc2\<lparr>cc_commits := commits, cc_head := head\<rparr>)))"
    using False by (simp add: truncating_insert_def cc2 Let_def flip: cc2_def)
  have count: "cc_updates cc + cc_deletes cc = length (filter ?nc (cc_commits cc))"
    and len: "length (cc_commits cc) \<le> LIMIT" and head: "cc_head cc \<le> length (cc_commits cc)"
    and before: "\<And>i. i < cc_head cc \<Longrightarrow> ?nc (cc_commits cc ! i)"
    using inv by (simp_all add: cc_inv_def)
  show ?thesis
  proof (cases "length (cc_commits cc) < LIMIT")
    case True
    let ?cc' = "cc2\<lparr>cc_commits := cc_commits cc @ [c]\<rparr>"
    have "cc_inv LIMIT ?cc'"
      using True count head before cc2 by (auto simp: cc_inv_def nth_append)
    moreover have "cc_tally ?cc' = cc_tally cc + {#kind_of (uc_action c)#}" using cc2 by (simp add: cc_tally_def)
    moreover have "truncating_insert sk LIMIT c cc = Some (None, ?cc')" using ins True by simp
    ultimately show ?thesis by (intro disjI2 exI [of _ ?cc']) (simp add: kept_def)
  next
    case full: False
    then have "length (filter ?nc (cc_commits cc)) < length (cc_commits cc)"
      using False count len length_filter_le [of ?nc "cc_commits cc"] by linarith
    then have ex: "\<exists>j. j < length (cc_commits cc) \<and> \<not> ?nc (cc_commits cc ! j)"
      by (metis filter_True in_set_conv_nth less_irrefl)
    define j where "j = (LEAST j. j < length (cc_commits cc) \<and> \<not> ?nc (cc_commits cc ! j))"
    have j: "j < length (cc_commits cc)" "\<not> ?nc (cc_commits cc ! j)"
      using LeastI_ex [OF ex] unfolding j_def by blast+
    have least: "\<not> (i < length (cc_commits cc) \<and> \<not> ?nc (cc_commits cc ! i))" if "i < j" for i
      using not_less_Least that unfolding j_def by blast
    have "cc_head cc \<le> j" using before j(2) by (metis not_le)
    then have "displace LIMIT c (cc_commits cc) (cc_head cc) (cc_head cc) = Some (Inr ((cc_commits cc)[j := c]), j)"
      using j least len by (intro displace_finds) auto
    then have "truncating_insert sk LIMIT c cc = Some (None, cc2\<lparr>cc_commits := (cc_commits cc)[j := c], cc_head := j\<rparr>)"
      using ins full by simp
    moreover have ms: "mset (filter ?nc ((cc_commits cc)[j := c])) =
        mset (filter ?nc (cc_commits cc)) + (if ?nc c then {#c#} else {#})"
      by (rule filter_replace_create) (use j in auto)
    have "length (filter ?nc ((cc_commits cc)[j := c])) = length (filter ?nc (cc_commits cc)) + (if ?nc c then 1 else 0)"
      using arg_cong [OF ms, of size] by (cases "?nc c") (simp_all del: mset_filter)
    then have "cc_inv LIMIT (cc2\<lparr>cc_commits := (cc_commits cc)[j := c], cc_head := j\<rparr>)"
      using j least len count cc2 by (auto simp: cc_inv_def)
    moreover have "cc_tally (cc2\<lparr>cc_commits := (cc_commits cc)[j := c], cc_head := j\<rparr>) = cc_tally cc + {#kind_of (uc_action c)#}"
      using cc2 by (simp add: cc_tally_def)
    moreover have "c \<in> set ((cc_commits cc)[j := c])" using j by (simp add: set_update_memI)
    ultimately show ?thesis using ms
      by (intro disjI2 exI [of _ "cc2\<lparr>cc_commits := (cc_commits cc)[j := c], cc_head := j\<rparr>"])
        (simp add: kept_def del: mset_filter)
  qed
qed (simp add: truncating_insert_def)

section \<open>A whole batch\<close>

text \<open>A quantity summed over the entries of a map, and how an insertion changes it.\<close>

definition entry_sum :: "('k \<times> 'v \<Rightarrow> 'm::comm_monoid_add) \<Rightarrow> ('k, 'v) hashmap \<Rightarrow> 'm" where
  "entry_sum g m = sum_list (map g m)"

lemma entry_sum_insert:
  "entry_sum g (hm_insert k v m) + (case hm_get m k of None \<Rightarrow> 0 | Some v0 \<Rightarrow> g (k, v0)) = entry_sum g m + g (k, v)"
  unfolding entry_sum_def hm_insert_def hm_get_def
  by (induction m) (auto simp: algebra_simps split: option.splits)

text \<open>The updates and deletes a batch holds, with their collections, and the commits it counted.\<close>

definition batch_kept :: "'sk EventBatch \<Rightarrow> (string \<times> UFOsCommit) multiset" where
  "batch_kept b = entry_sum (\<lambda>(n, cc). image_mset (Pair n) (kept (cc_commits cc))) (eb_commits_by_nsid b)"

definition batch_tally :: "'sk EventBatch \<Rightarrow> (string \<times> CommitKind) multiset" where
  "batch_tally b = entry_sum (\<lambda>(n, cc). image_mset (Pair n) (cc_tally cc)) (eb_commits_by_nsid b)"

definition batch_inv :: "'sk EventBatch \<Rightarrow> bool" where
  "batch_inv b \<longleftrightarrow>
     (\<forall>(n, cc) \<in> set (eb_commits_by_nsid b). cc_inv MAX_BATCHED_RECORDS cc \<and> cc_tally cc \<noteq> {#}) \<and>
     hm_inv (eb_commits_by_nsid b) \<and>
     length (eb_commits_by_nsid b) \<le> MAX_BATCHED_COLLECTIONS \<and>
     length (eb_account_removes b) \<le> MAX_ACCOUNT_REMOVES"

lemma batch_default [simp]:
  "batch_inv eb_default" "batch_kept eb_default = {#}" "batch_tally eb_default = {#}" "eb_account_removes eb_default = []"
  by (simp_all add: batch_inv_def batch_kept_def batch_tally_def eb_default_def entry_sum_def)

lemma length_hm_insert: "length (hm_insert k v m) = length m + (if hm_get m k = None then 1 else 0)"
  unfolding hm_insert_def hm_get_def by (induction m) auto

lemma set_hm_insert: "x \<in> set (hm_insert k v m) \<Longrightarrow> x = (k, v) \<or> x \<in> set m"
  unfolding hm_insert_def by (induction m) (auto split: if_splits)

lemma insert_commit_cases:
  assumes inv: "batch_inv b"
  shows "insert_commit_by_nsid sk MAX_BATCHED_RECORDS n c MAX_BATCHED_COLLECTIONS b = Some (Some (BatchFull c), b) \<and>
      b \<noteq> eb_default \<or>
    (\<exists>b'. insert_commit_by_nsid sk MAX_BATCHED_RECORDS n c MAX_BATCHED_COLLECTIONS b = Some (None, b') \<and> batch_inv b' \<and>
       batch_tally b' = batch_tally b + {#(n, kind_of (uc_action c))#} \<and> eb_account_removes b' = eb_account_removes b \<and>
       batch_kept b' = batch_kept b + (if is_create (uc_action c) then {#} else {#(n, c)#}))"
proof (cases "hm_get (eb_commits_by_nsid b) n = None \<and> MAX_BATCHED_COLLECTIONS \<le> length (eb_commits_by_nsid b)")
  case True
  then show ?thesis by (auto simp: insert_commit_by_nsid_def eb_default_def)
next
  case False
  let ?m = "eb_commits_by_nsid b"
  define cc where "cc = (case hm_get ?m n of None \<Rightarrow> cc_default sk | Some cc \<Rightarrow> cc)"
  have ins: "insert_commit_by_nsid sk MAX_BATCHED_RECORDS n c MAX_BATCHED_COLLECTIONS b =
      map_option (\<lambda>(res, cc'). (res, b\<lparr>eb_commits_by_nsid := hm_insert n cc' ?m\<rparr>)) (truncating_insert sk MAX_BATCHED_RECORDS c cc)"
    using False by (auto simp: insert_commit_by_nsid_def cc_def Let_def)
  have ccinv: "cc_inv MAX_BATCHED_RECORDS cc"
    using inv hm_get_mem [of ?m n] by (auto simp: cc_def batch_inv_def split: option.split)
  from truncating_insert_cases [OF ccinv, of sk c] show ?thesis
  proof
    assume full: "cc_updates cc + cc_deletes cc = MAX_BATCHED_RECORDS \<and>
      truncating_insert sk MAX_BATCHED_RECORDS c cc = Some (Some (BatchFull c), cc)"
    then have some: "hm_get ?m n = Some cc" by (auto simp: cc_def cc_default_def split: option.splits)
    then have "hm_insert n cc ?m = ?m" by (rule hm_insert_same)
    with full ins some show ?thesis by (auto simp: eb_default_def)
  next
    assume "\<exists>cc'. truncating_insert sk MAX_BATCHED_RECORDS c cc = Some (None, cc') \<and> cc_inv MAX_BATCHED_RECORDS cc' \<and>
       cc_tally cc' = cc_tally cc + {#kind_of (uc_action c)#} \<and> c \<in> set (cc_commits cc') \<and>
       kept (cc_commits cc') = kept (cc_commits cc) + (if is_create (uc_action c) then {#} else {#c#})"
    then obtain cc' where t: "truncating_insert sk MAX_BATCHED_RECORDS c cc = Some (None, cc')"
      and cc': "cc_inv MAX_BATCHED_RECORDS cc'" "cc_tally cc' = cc_tally cc + {#kind_of (uc_action c)#}"
        "kept (cc_commits cc') = kept (cc_commits cc) + (if is_create (uc_action c) then {#} else {#c#})" by blast
    let ?b = "b\<lparr>eb_commits_by_nsid := hm_insert n cc' ?m\<rparr>"
    have "batch_inv ?b"
      using inv cc'(1,2) False by (auto simp: batch_inv_def length_hm_insert dest!: set_hm_insert)
    moreover have "batch_tally ?b = batch_tally b + {#(n, kind_of (uc_action c))#}"
      using entry_sum_insert [of "\<lambda>(n, cc). image_mset (Pair n) (cc_tally cc)" n cc' ?m] cc'(2)
      by (auto simp: batch_tally_def cc_def split: option.splits)
    moreover have "batch_kept ?b = batch_kept b + (if is_create (uc_action c) then {#} else {#(n, c)#})"
      using entry_sum_insert [of "\<lambda>(n, cc). image_mset (Pair n) (kept (cc_commits cc))" n cc' ?m] cc'(3)
      by (auto simp: batch_kept_def cc_def cc_default_def kept_def split: option.splits)
    ultimately show ?thesis using ins t by (intro disjI2 exI [of _ ?b]) simp
  qed
qed

section \<open>The batcher\<close>

abbreviation batches :: "'sk Batcher \<Rightarrow> 'sk EventBatch list" where
  "batches s \<equiv> bt_sent s @ [bt_batch s]"

definition bt_inv :: "'sk Batcher \<Rightarrow> bool" where
  "bt_inv s \<longleftrightarrow> (\<forall>b \<in> set (batches s). batch_inv b)"

definition all_kept :: "'sk Batcher \<Rightarrow> (string \<times> UFOsCommit) multiset" where
  "all_kept s = sum_list (map batch_kept (batches s))"

definition all_tally :: "'sk Batcher \<Rightarrow> (string \<times> CommitKind) multiset" where
  "all_tally s = sum_list (map batch_tally (batches s))"

definition all_removes :: "'sk Batcher \<Rightarrow> DeleteAccountReq list" where
  "all_removes s = concat (map eb_account_removes (batches s))"

text \<open>What an event carries: its commit, if it has one that decodes, and its account removal.\<close>

definition event_commit :: "JetstreamEvent \<Rightarrow> (string \<times> UFOsCommit) list" where
  "event_commit event =
     (case (je_kind event, je_commit event) of
        (Commit, Some commit) \<Rightarrow>
          (case from_commit_info commit (je_did event) (je_cursor event) of
             Inr (c, nsid) \<Rightarrow> [(nsid, c)]
           | Inl _ \<Rightarrow> [])
      | _ \<Rightarrow> [])"

definition event_removal :: "JetstreamEvent \<Rightarrow> DeleteAccountReq list" where
  "event_removal event =
     (case (je_kind event, je_account event) of
        (Account, Some account) \<Rightarrow>
          if ae_active account then [] else [\<lparr>da_did = je_did event, da_cursor = je_cursor event\<rparr>]
      | _ \<Rightarrow> [])"

definition commits_in :: "(StepEnv \<times> JetstreamEvent option) list \<Rightarrow> (string \<times> UFOsCommit) list" where
  "commits_in is = concat (map (\<lambda>i. case snd i of None \<Rightarrow> [] | Some e \<Rightarrow> event_commit e) is)"

definition removals_in :: "(StepEnv \<times> JetstreamEvent option) list \<Rightarrow> DeleteAccountReq list" where
  "removals_in is = concat (map (\<lambda>i. case snd i of None \<Rightarrow> [] | Some e \<Rightarrow> event_removal e) is)"

definition keeps :: "(string \<times> UFOsCommit) list \<Rightarrow> (string \<times> UFOsCommit) multiset" where
  "keeps cs = mset (filter (\<lambda>(_, c). \<not> is_create (uc_action c)) cs)"

definition tally_of :: "(string \<times> UFOsCommit) list \<Rightarrow> (string \<times> CommitKind) multiset" where
  "tally_of cs = mset (map (\<lambda>(n, c). (n, kind_of (uc_action c))) cs)"

text \<open>\<open>grows s cs rs s'\<close>: the step from \<open>s\<close> to \<open>s'\<close> took in exactly the commits \<open>cs\<close> and the removals \<open>rs\<close>.\<close>

definition grows ::
  "'sk Batcher \<Rightarrow> (string \<times> UFOsCommit) list \<Rightarrow> DeleteAccountReq list \<Rightarrow> 'sk Batcher \<Rightarrow> bool" where
  "grows s cs rs s' \<longleftrightarrow> bt_inv s' \<and> all_tally s' = all_tally s + tally_of cs \<and>
     all_kept s' = all_kept s + keeps cs \<and> all_removes s' = all_removes s @ rs"

lemma grows_refl: "bt_inv s \<Longrightarrow> grows s [] [] s"
  by (simp add: grows_def keeps_def tally_of_def)

lemma grows_trans: "grows s cs rs s' \<Longrightarrow> grows s' cs' rs' s'' \<Longrightarrow> grows s (cs @ cs') (rs @ rs') s''"
  by (auto simp: grows_def keeps_def tally_of_def ac_simps)

lemma grows_inv: "grows s cs rs s' \<Longrightarrow> bt_inv s'"
  by (simp add: grows_def)

lemma grows_cursor: "bt_inv s \<Longrightarrow> grows s [] [] (s\<lparr>bt_initial_cursor := c\<rparr>)"
  by (simp add: grows_def keeps_def tally_of_def bt_inv_def all_tally_def all_kept_def all_removes_def)

lemma send_grows:
  assumes "bt_inv s" "send_current_batch_now env s = Inr s'"
  shows "grows s [] [] s'" "bt_batch s' = eb_default"
  using assms by (auto simp: send_current_batch_now_def grows_def keeps_def tally_of_def bt_inv_def all_tally_def all_kept_def
      all_removes_def split: if_splits)

lemma try_insert_cases:
  assumes "bt_inv s"
  shows "try_insert sk n c s = Inr (Some c, s) \<and> bt_batch s \<noteq> eb_default \<or>
    (\<exists>s'. try_insert sk n c s = Inr (None, s') \<and> grows s [(n, c)] [] s')"
proof -
  have "batch_inv (bt_batch s)" using assms by (simp add: bt_inv_def)
  from insert_commit_cases [OF this, of sk n c] show ?thesis
    using assms
    by (auto simp: try_insert_def grows_def bt_inv_def all_tally_def all_kept_def all_removes_def keeps_def tally_of_def)
qed

lemma handle_commit_cases:
  assumes "bt_inv s"
  shows "handle_commit sk env c n s = Inl SendTimeout \<or> (\<exists>s'. handle_commit sk env c n s = Inr s' \<and> grows s [(n, c)] [] s')"
proof (rule disjE [OF try_insert_cases [OF assms, of sk n c]])
  assume full: "try_insert sk n c s = Inr (Some c, s) \<and> bt_batch s \<noteq> eb_default"
  show ?thesis
  proof (cases "send_current_batch_now env s")
    case (Inl e)
    then show ?thesis using full by (auto simp: handle_commit_def send_current_batch_now_def split: if_splits)
  next
    case (Inr s1)
    from send_grows [OF assms Inr] have g: "grows s [] [] s1" and "bt_batch s1 = eb_default" .
    with try_insert_cases [OF grows_inv [OF g], of sk n c] obtain s2 where
      "try_insert sk n c s1 = Inr (None, s2)" "grows s1 [(n, c)] [] s2" by auto
    with grows_trans [OF g] full Inr show ?thesis by (fastforce simp: handle_commit_def)
  qed
next
  assume "\<exists>s'. try_insert sk n c s = Inr (None, s') \<and> grows s [(n, c)] [] s'"
  then show ?thesis by (auto simp: handle_commit_def)
qed

lemma handle_delete_grows:
  assumes "bt_inv s" "handle_delete_account env did cursor s = Inr s'"
  shows "grows s [] [\<lparr>da_did = did, da_cursor = cursor\<rparr>] s'"
proof -
  from assms(2) obtain s1 where s1: "(if MAX_ACCOUNT_REMOVES \<le> length (eb_account_removes (bt_batch s))
      then send_current_batch_now env s else Inr s) = Inr s1"
    and s': "s' = s1\<lparr>bt_batch := (bt_batch s1)
      \<lparr>eb_account_removes := eb_account_removes (bt_batch s1) @ [\<lparr>da_did = did, da_cursor = cursor\<rparr>]\<rparr>\<rparr>"
    by (auto simp: handle_delete_account_def and_then_Inr)
  have g: "grows s [] [] s1" and room: "length (eb_account_removes (bt_batch s1)) < MAX_ACCOUNT_REMOVES"
    using s1 send_grows [OF assms(1), of env s1] grows_refl [OF assms(1)] by (auto split: if_splits)
  have "grows s1 [] [\<lparr>da_did = did, da_cursor = cursor\<rparr>] s'"
    using grows_inv [OF g] room
    by (auto simp: s' grows_def keeps_def tally_of_def bt_inv_def batch_inv_def all_tally_def all_kept_def all_removes_def
        batch_tally_def batch_kept_def)
  with grows_trans [OF g] show ?thesis by fastforce
qed

lemma note_cursor_grows: "bt_inv s \<Longrightarrow> note_cursor env cursor s = Inr s' \<Longrightarrow> grows s [] [] s'"
  by (auto simp: note_cursor_def grows_cursor grows_refl dest: send_grows split: option.splits if_splits)

lemma send_if_idle_grows: "bt_inv s \<Longrightarrow> send_if_idle env cursor s = Inr s' \<Longrightarrow> grows s [] [] s'"
  by (auto simp: send_if_idle_def grows_refl dest: send_grows split: option.splits if_splits)

lemma handle_kind_grows:
  assumes "bt_inv s" "handle_kind sk env event s = Inr s'"
  shows "grows s (event_commit event) (event_removal event) s'"
proof (cases "je_kind event")
  case Commit
  with assms(2) obtain commit c n where "je_commit event = Some commit"
    "from_commit_info commit (je_did event) (je_cursor event) = Inr (c, n)" "handle_commit sk env c n s = Inr s'"
    by (auto simp: handle_kind_def split: option.splits sum.splits)
  with Commit handle_commit_cases [OF assms(1), of sk env c n] show ?thesis
    by (auto simp: event_commit_def event_removal_def)
next
  case Account
  with assms(2) obtain account where "je_account event = Some account"
    "(if ae_active account then Inr s else handle_delete_account env (je_did event) (je_cursor event) s) = Inr s'"
    by (auto simp: handle_kind_def split: option.splits)
  with Account handle_delete_grows [OF assms(1)] grows_refl [OF assms(1)] show ?thesis
    by (auto simp: event_commit_def event_removal_def split: if_splits)
qed (use assms grows_refl in \<open>auto simp: handle_kind_def event_commit_def event_removal_def\<close>)

lemma handle_event_grows:
  assumes "bt_inv s" "handle_event sk env event s = Inr s'"
  shows "grows s (event_commit event) (event_removal event) s'"
proof -
  from assms(2) obtain s1 s2 where "note_cursor env (je_cursor event) s = Inr s1"
    "handle_kind sk env event s1 = Inr s2" "send_if_idle env (je_cursor event) s2 = Inr s'"
    by (auto simp: handle_event_def and_then_Inr)
  with assms(1) note_cursor_grows handle_kind_grows send_if_idle_grows grows_inv
  have "grows s [] [] s1" "grows s1 (event_commit event) (event_removal event) s2" "grows s2 [] [] s'" by blast+
  from grows_trans [OF grows_trans [OF this(1,2)] this(3)] show ?thesis by simp
qed

lemma batcher_step_grows:
  assumes "bt_inv s" "batcher_step sk i s = Inr s'"
  shows "grows s (commits_in [i]) (removals_in [i]) s'"
  using assms handle_event_grows [OF assms(1), of sk "fst i"] send_grows [OF assms(1), of "fst i"] grows_refl [OF assms(1)]
  by (auto simp: batcher_step_def commits_in_def removals_in_def no_events_step_def split: option.splits if_splits)

lemma batcher_run_grows:
  "bt_inv s \<Longrightarrow> batcher_run sk is s = Inr s' \<Longrightarrow> grows s (commits_in is) (removals_in is) s'"
proof (induction "is" arbitrary: s)
  case Nil
  then show ?case by (simp add: grows_refl commits_in_def removals_in_def)
next
  case (Cons i "is")
  then obtain s1 where "batcher_step sk i s = Inr s1" "batcher_run sk is s1 = Inr s'" by (auto split: sum.splits)
  with Cons batcher_step_grows grows_inv
  have "grows s (commits_in [i]) (removals_in [i]) s1" "grows s1 (commits_in is) (removals_in is) s'" by blast+
  from grows_trans [OF this] show ?case by (simp add: commits_in_def removals_in_def)
qed

lemma bt_inv_new: "bt_inv batcher_new"
  by (simp add: bt_inv_def batcher_new_def)

lemma send_errors: "send_current_batch_now env s = Inl e \<Longrightarrow> e = SendTimeout"
  by (auto simp: send_current_batch_now_def split: if_splits)

lemma handle_kind_errors:
  assumes "bt_inv s" "handle_kind sk env event s = Inl e"
  shows "e = SendTimeout \<or> (\<exists>f. e = FirehoseError f)"
proof (cases "je_kind event")
  case Commit
  show ?thesis
  proof (cases "\<exists>c n. handle_commit sk env c n s = Inl e")
    case True
    then obtain c n where "handle_commit sk env c n s = Inl e" by blast
    with handle_commit_cases [OF assms(1), of sk env c n] show ?thesis by auto
  next
    case False
    with Commit assms(2) show ?thesis by (auto simp: handle_kind_def split: option.splits sum.splits)
  qed
next
  case Account
  with assms(2) show ?thesis
    by (auto simp: handle_kind_def handle_delete_account_def and_then_Inl dest: send_errors
        split: option.splits if_splits)
qed (use assms in \<open>simp add: handle_kind_def\<close>)

lemma batcher_step_errors:
  assumes inv: "bt_inv s" and err: "batcher_step sk i s = Inl e"
  shows "e = CursorWentBack \<or> e = SendTimeout \<or> (\<exists>f. e = FirehoseError f)"
proof (cases "snd i")
  case None
  with err show ?thesis by (auto simp: batcher_step_def no_events_step_def dest: send_errors split: if_splits)
next
  case (Some event)
  let ?c = "je_cursor event"
  from Some err consider "note_cursor (fst i) ?c s = Inl e"
    | s1 where "note_cursor (fst i) ?c s = Inr s1" "handle_kind sk (fst i) event s1 = Inl e"
    | s1 s2 where "handle_kind sk (fst i) event s1 = Inr s2" "send_if_idle (fst i) ?c s2 = Inl e"
    by (auto simp: batcher_step_def handle_event_def and_then_Inl and_then_Inr)
  then show ?thesis
  proof cases
    case 2
    then show ?thesis using handle_kind_errors [OF grows_inv [OF note_cursor_grows [OF inv 2(1)]] 2(2)] by blast
  qed (auto simp: note_cursor_def send_if_idle_def dest: send_errors split: option.splits if_splits)
qed

section \<open>Properties\<close>

text \<open>
  C11. \<open>truncating_insert\<close> on a valid batch always returns.  It rejects a commit only when every
  slot holds an update or a delete, and then leaves the batch as it was; otherwise the commit is
  in the batch, is counted, and no update or delete was displaced.  The errors \<open>BatchOverflow\<close>
  and \<open>BatchForever\<close> never occur.
\<close>

theorem truncating_insert_safe:
  assumes "cc_inv LIMIT cc"
  shows "\<exists>res cc'. truncating_insert sk LIMIT c cc = Some (res, cc') \<and> cc_inv LIMIT cc' \<and>
    (case res of
       Some e \<Rightarrow> e = BatchFull c \<and> cc' = cc \<and> cc_updates cc + cc_deletes cc = LIMIT
     | None \<Rightarrow> c \<in> set (cc_commits cc') \<and> cc_tally cc' = cc_tally cc + {#kind_of (uc_action c)#} \<and>
         kept (cc_commits cc') = kept (cc_commits cc) + (if is_create (uc_action c) then {#} else {#c#}))"
  using truncating_insert_cases [OF assms, of sk c] assms by fastforce

definition ex_sketch :: "string list SketchOps" where
  "ex_sketch = \<lparr>sk_default = [], sk_insert_did = List.insert, sk_merge = List.union, sk_estimate = length\<rparr>"

definition ex_commit :: "Cursor \<Rightarrow> CommitAction \<Rightarrow> UFOsCommit" where
  "ex_commit cursor action = \<lparr>uc_cursor = cursor, uc_did = ''d'', uc_rkey = ''k'', uc_rev = ''r'', uc_action = action\<rparr>"

theorem truncating_insert_safe_witness:
  "cc_inv 2 (cc_default ex_sketch) \<and>
   (\<exists>res cc'. truncating_insert ex_sketch 2 (ex_commit 1 Cut) (cc_default ex_sketch) = Some (res, cc') \<and> cc_inv 2 cc')"
  using truncating_insert_safe [of 2 "cc_default ex_sketch" ex_sketch "ex_commit 1 Cut"] by auto

text \<open>
  C6. The batcher loses nothing but displaced creates.  After any run without an error, over the
  batches sent and the current one: every commit received is counted once, under its collection and its kind, the updates and
  deletes held are exactly those received, account removals are all there in order, and every
  batch respects its limits.
\<close>

theorem batcher_conserves:
  assumes "batcher_run sk inputs batcher_new = Inr s"
  shows "all_tally s = tally_of (commits_in inputs) \<and> all_kept s = keeps (commits_in inputs) \<and>
    all_removes s = removals_in inputs \<and>
    (\<forall>b \<in> set (batches s). length (eb_commits_by_nsid b) \<le> 64 \<and> length (eb_account_removes b) \<le> 1024 \<and>
       (\<forall>(n, cc) \<in> set (eb_commits_by_nsid b). length (cc_commits cc) \<le> 128))"
proof -
  from batcher_run_grows [OF bt_inv_new assms] have g: "grows batcher_new (commits_in inputs) (removals_in inputs) s" .
  have "all_tally batcher_new = {#}" "all_kept batcher_new = {#}" "all_removes batcher_new = []"
    by (simp_all add: all_tally_def all_kept_def all_removes_def batcher_new_def)
  with g show ?thesis by (fastforce simp: grows_def bt_inv_def batch_inv_def cc_inv_def)
qed

definition ex_event :: "Cursor \<Rightarrow> CommitOp \<Rightarrow> JetstreamEvent" where
  "ex_event cursor op =
     \<lparr>je_cursor = cursor, je_did = ''d'', je_kind = Commit,
      je_commit = Some \<lparr>ce_collection = ''a.b.c'', ce_rkey = ''k'', ce_rev = ''r'', ce_operation = op,
                        ce_record = Some ''{}'', ce_cid = None\<rparr>,
      je_identity = None, je_account = None\<rparr>"

definition ex_inputs :: "(StepEnv \<times> JetstreamEvent option) list" where
  "ex_inputs = [(\<lparr>env_queue_idle = True, env_send_ok = True\<rparr>, Some (ex_event 5 Create)),
                (\<lparr>env_queue_idle = True, env_send_ok = True\<rparr>, Some (ex_event 3000005 Delete)),
                (\<lparr>env_queue_idle = True, env_send_ok = True\<rparr>, None)]"

lemmas batcher_eval =
  ex_inputs_def ex_event_def ex_sketch_def batcher_new_def eb_default_def batcher_step_def handle_event_def
  note_cursor_def handle_kind_def send_if_idle_def no_events_step_def send_current_batch_now_def from_commit_info_def
  handle_commit_def try_insert_def insert_commit_by_nsid_def truncating_insert_def count_commit_def cc_default_def
  duration_since_def batch_is_empty_def hm_get_def hm_insert_def Let_def

theorem batcher_conserves_witness:
  "\<exists>s. batcher_run ex_sketch ex_inputs batcher_new = Inr s \<and> all_tally s = {#(''a.b.c'', Created), (''a.b.c'', Deleted)#} \<and>
     size (all_kept s) = 1 \<and> length (bt_sent s) = 1"
proof -
  have "map_sum id (\<lambda>s. length (bt_sent s)) (batcher_run ex_sketch ex_inputs batcher_new) = Inr 1"
    by (simp add: batcher_eval)
  then obtain s where s: "batcher_run ex_sketch ex_inputs batcher_new = Inr s" "length (bt_sent s) = 1"
    by (cases "batcher_run ex_sketch ex_inputs batcher_new") auto
  have "map (\<lambda>(n, c). (n, kind_of (uc_action c))) (commits_in ex_inputs) = [(''a.b.c'', Created), (''a.b.c'', Deleted)]"
    by code_simp
  then have "tally_of (commits_in ex_inputs) = {#(''a.b.c'', Created), (''a.b.c'', Deleted)#}" by (simp add: tally_of_def)
  moreover have "length (filter (\<lambda>(_, c). \<not> is_create (uc_action c)) (commits_in ex_inputs)) = 1" by code_simp
  then have "size (keeps (commits_in ex_inputs)) = 1" by (simp add: keeps_def del: mset_filter)
  ultimately show ?thesis using s batcher_conserves [OF s(1)] by auto
qed

text \<open>
  The batcher stops only for an event that breaks the protocol or for the outside world: a
  cursor that runs backwards, an incomplete event, a send that times out.  It never stops because
  of its own batch.
\<close>

theorem batcher_errors:
  assumes "batcher_run sk inputs batcher_new = Inl e"
  shows "e = CursorWentBack \<or> e = SendTimeout \<or> (\<exists>f. e = FirehoseError f)"
proof -
  have "bt_inv s \<Longrightarrow> batcher_run sk inputs s = Inl e \<Longrightarrow> ?thesis" for s
  proof (induction inputs arbitrary: s)
    case (Cons i inputs)
    show ?case
    proof (cases "batcher_step sk i s")
      case (Inl e')
      with Cons.prems batcher_step_errors [OF Cons.prems(1) Inl] show ?thesis by simp
    next
      case (Inr s1)
      with Cons.prems batcher_step_grows [OF Cons.prems(1) Inr] grows_inv show ?thesis
        by (intro Cons.IH [of s1]) auto
    qed
  qed simp
  with assms bt_inv_new show ?thesis by blast
qed

theorem batcher_errors_witness:
  "batcher_run ex_sketch (rev ex_inputs) batcher_new = Inl CursorWentBack \<and>
   (CursorWentBack = CursorWentBack \<or> CursorWentBack = SendTimeout \<or> (\<exists>f. CursorWentBack = FirehoseError f))"
proof -
  have "(case batcher_run ex_sketch (rev ex_inputs) batcher_new of Inl e \<Rightarrow> e = CursorWentBack | Inr _ \<Rightarrow> False)"
    by (simp add: batcher_eval)
  then have run: "batcher_run ex_sketch (rev ex_inputs) batcher_new = Inl CursorWentBack"
    by (simp split: sum.splits)
  with batcher_errors [OF run] show ?thesis by blast
qed

text \<open>
  Once a collection is full of creates, a new create takes the slot of the create before it: the
  head only moves past updates and deletes.
\<close>

lemma displaced_create_is_latest:
  assumes "length (cc_commits cc) = LIMIT" "cc_updates cc + cc_deletes cc \<noteq> LIMIT"
    and "cc_head cc < LIMIT" "is_create (uc_action (cc_commits cc ! cc_head cc))" "is_create (uc_action c)"
  shows "\<exists>cc'. truncating_insert sk LIMIT c cc = Some (None, cc') \<and> cc_head cc' = cc_head cc \<and>
    cc_commits cc' = (cc_commits cc)[cc_head cc := c]"
proof -
  have cc2: "cc_commits (count_commit sk c cc) = cc_commits cc" "cc_head (count_commit sk c cc) = cc_head cc"
    by (auto simp: count_commit_def Let_def split: CommitAction.split bool.split)
  have "displace LIMIT c (cc_commits cc) (cc_head cc) (cc_head cc) = Some (Inr ((cc_commits cc)[cc_head cc := c]), cc_head cc)"
    by (rule displace_finds) (use assms in auto)
  then show ?thesis using assms(1,2) by (simp add: truncating_insert_def cc2 Let_def)
qed

end
