(* ===== verification/Fjall_Props.thy ===== *)
theory Fjall_Props
  imports Fjall_Run Fjall_Read Ufos_Batch_Props
begin

text \<open>
  What the UFOs storage promises: no count is lost or counted twice however inserts and background
  work interleave, the background work catches up, the rank indexes agree with the counts, and a
  query over a span of hours returns exactly what was inserted in it.
\<close>

section \<open>Counts\<close>

text \<open>
  C7. No count is lost and none is counted twice.  Start from a fresh database and run any
  sequence of batch inserts, rollup steps and feed trims, with batches in cursor order: for every
  hour, week and for all time, and for every collection, what is rolled up plus what still waits as
  live counts is the sum of what the batches held, for creates, updates and deletes.
\<close>

theorem rollup_accounts:
  assumes "fjall_init endpoint force now (Some secret) db_empty = (Inr opened, db0)"
    and "fold_res (store_op sk) ops db0 = Inr db" "ops_ordered cursor_from_start ops"
  shows "rolled cnt_creates db b n + waiting cnt_creates db b n = inserted cnt_creates b n ops \<and>
    rolled cnt_updates db b n + waiting cnt_updates db b n = inserted cnt_updates b n ops \<and>
    rolled cnt_deletes db b n + waiting cnt_deletes db b n = inserted cnt_deletes b n ops"
proof -
  have db0: "db0 = db_fresh sk endpoint now secret"
    using assms(1) by (auto simp: db_fresh_def fjall_init_def init_fresh_def init_static_neu_def db_empty_def)
  have ok: "db_ok sk db0" and js: "last_js db0 = cursor_from_start" and zero: "counted p db0 b n = 0" for p
    unfolding db0 by (simp_all add: db_fresh_ok)
  note ordered = assms(3) [folded js]
  show ?thesis
    using creates.run_counts [OF ok assms(2) ordered, of b n] updates.run_counts [OF ok assms(2) ordered, of b n]
      deletes.run_counts [OF ok assms(2) ordered, of b n]
    by (simp add: zero) (simp add: counted_def)
qed

definition sample_commit :: "Cursor \<Rightarrow> string \<Rightarrow> UFOsCommit" where
  "sample_commit c rkey = \<lparr>uc_cursor = c, uc_did = ''did:plc:a'', uc_rkey = rkey, uc_rev = ''r'', uc_action = Put ''{}'' False\<rparr>"

definition sample_batch :: "Cursor \<Rightarrow> string list EventBatch" where
  "sample_batch c = \<lparr>eb_commits_by_nsid = [(''a.b.c'', \<lparr>cc_creates = 2, cc_updates = 0, cc_deletes = 0,
      cc_dids_estimate = [''did:plc:a''], cc_commits = [sample_commit (c - 1) ''x'', sample_commit c ''y''], cc_head = 0\<rparr>)],
     eb_account_removes = []\<rparr>"

definition sample_ops :: "string list StoreOp list" where
  "sample_ops = [OpInsert (sample_batch 10), OpRollup, OpInsert (sample_batch 7200000001), OpTrim ''a.b.c'' 1 False, OpRollup,
     OpInsert (sample_batch 7200000009)]"

lemma sample_opened: "\<exists>r. fjall_init ''ep'' False 1 (Some ''s'') db_empty = (Inr r, db_fresh ex_sketch ''ep'' 1 ''s'')"
  by (simp add: db_fresh_def fjall_init_def init_fresh_def init_static_neu_def db_empty_def)

lemma sample_ordered: "ops_ordered cursor_from_start sample_ops"
  by code_simp

lemma sample_encodable: "ops_encodable sample_ops"
  by code_simp

lemma sample_runs: "\<exists>db. fold_res (store_op ex_sketch) sample_ops (db_fresh ex_sketch ''ep'' 1 ''s'') = Inr db"
  by (rule run_returns [OF db_fresh_ok]) (simp_all add: sample_ordered sample_encodable)

theorem rollup_accounts_witness:
  "\<exists>db. fold_res (store_op ex_sketch) sample_ops (db_fresh ex_sketch ''ep'' 1 ''s'') = Inr db \<and>
     rolled cnt_creates db (Hourly 7200000000) ''a.b.c'' + waiting cnt_creates db (Hourly 7200000000) ''a.b.c'' = 4"
proof -
  obtain r where r: "fjall_init ''ep'' False 1 (Some ''s'') db_empty = (Inr r, db_fresh ex_sketch ''ep'' 1 ''s'')"
    using sample_opened by blast
  obtain db where run: "fold_res (store_op ex_sketch) sample_ops (db_fresh ex_sketch ''ep'' 1 ''s'') = Inr db"
    using sample_runs by blast
  have "inserted cnt_creates (Hourly 7200000000) ''a.b.c'' sample_ops = 4" by code_simp
  with run rollup_accounts [OF r run sample_ordered, of "Hourly 7200000000" "''a.b.c''"] show ?thesis by auto
qed

text \<open>
  C21. The background work catches up.  A run over encodable batches in cursor order never fails,
  and afterwards at most as many rollup steps as there are entries waiting empty both the live
  counts and the queue of account deletions; then the rollups hold all the batches.
\<close>

theorem rollup_catches_up:
  assumes "fjall_init endpoint force now (Some secret) db_empty = (Inr opened, db0)"
    and "ops_ordered cursor_from_start ops" "ops_encodable ops"
  shows "\<exists>db k db'. fold_res (store_op sk) ops db0 = Inr db \<and> k \<le> pending db \<and>
    fold_res (store_op sk) (replicate k OpRollup) db = Inr db' \<and>
    RBT.entries (db_live_counts db') = [] \<and> RBT.entries (db_queues db') = [] \<and>
    (\<forall>b n. rolled cnt_creates db' b n = inserted cnt_creates b n ops \<and>
           rolled cnt_updates db' b n = inserted cnt_updates b n ops \<and>
           rolled cnt_deletes db' b n = inserted cnt_deletes b n ops)"
proof -
  have db0: "db0 = db_fresh sk endpoint now secret"
    using assms(1) by (auto simp: db_fresh_def fjall_init_def init_fresh_def init_static_neu_def db_empty_def)
  have ok0: "db_ok sk db0" and js: "last_js db0 = cursor_from_start" and zero: "counted p db0 b n = 0" for p b n
    unfolding db0 by (simp_all add: db_fresh_ok)
  note ordered = assms(2) [folded js]
  obtain db where first: "fold_res (store_op sk) ops db0 = Inr db" using run_returns [OF ok0 ordered assms(3)] by blast
  have ok: "db_ok sk db" by (rule run_ok [OF ok0 first ordered])
  obtain k db' where k: "k \<le> pending db" and run: "fold_res (store_op sk) (replicate k OpRollup) db = Inr db'"
    and drained: "pending db' = 0" using rollup_drains [OF ok] by blast
  have "counted p db' b n = inserted p b n ops" if "count_field p" for p b n
    using count_field.run_counts [OF that ok run, of b n] count_field.run_counts [OF that ok0 first ordered, of b n] zero by simp
  then have "rolled p db' b n = inserted p b n ops" if "count_field p" for p b n
    using waiting_none [OF drained] that by (simp add: counted_def)
  with k run first drained creates.count_field_axioms updates.count_field_axioms deletes.count_field_axioms
  show ?thesis by (auto simp: pending_def tree_size_def)
qed

theorem rollup_catches_up_witness:
  "\<exists>db k db'. fold_res (store_op ex_sketch) sample_ops (db_fresh ex_sketch ''ep'' 1 ''s'') = Inr db \<and>
     fold_res (store_op ex_sketch) (replicate k OpRollup) db = Inr db' \<and>
     rolled cnt_creates db' Ever ''a.b.c'' = 6"
proof -
  obtain r where r: "fjall_init ''ep'' False 1 (Some ''s'') db_empty = (Inr r, db_fresh ex_sketch ''ep'' 1 ''s'')"
    using sample_opened by blast
  have "inserted cnt_creates Ever ''a.b.c'' sample_ops = 6" by code_simp
  with rollup_catches_up [OF r sample_ordered sample_encodable, of ex_sketch] show ?thesis by metis
qed

section \<open>Ranks\<close>

lemma filtered_ranks:
  "RBT.keys ranks = ks \<Longrightarrow> sorted (map (\<lambda>(_, r, n). (r, n)) (filter (\<lambda>(b', _, _). b' = b) (ks :: (Rollup \<times> u64 \<times> string) list)))"
proof -
  assume k: "RBT.keys ranks = ks"
  have "sorted ks" using RBT.sorted_keys [of ranks] k by simp
  then show ?thesis
  proof (induction ks)
    case (Cons x xs)
    then show ?case by (cases x rule: prod_cases3) (auto simp: less_eq_prod_def split_def)
  qed simp
qed

lemma ranked_entries:
  assumes "ranks_ok est est0 (db_rollups db) ranks"
  shows "\<forall>(n, res) \<in> set (get_lookup_iter db ranks b). \<exists>v. res = Inr v \<and> RBT.lookup (db_rollups db) (b, n) = Some v"
    and "RBT.lookup (db_rollups db) (b, n) = Some v \<Longrightarrow> est v \<noteq> est0 \<Longrightarrow> (n, Inr v) \<in> set (get_lookup_iter db ranks b)"
    and "\<forall>k \<in> set (filter (\<lambda>(b', _, _). b' = b) (RBT.keys ranks)).
      \<exists>v. RBT.lookup (db_rollups db) (b, snd (snd k)) = Some v \<and> fst (snd k) = est v"
proof -
  show keys: "\<forall>k \<in> set (filter (\<lambda>(b', _, _). b' = b) (RBT.keys ranks)).
      \<exists>v. RBT.lookup (db_rollups db) (b, snd (snd k)) = Some v \<and> fst (snd k) = est v"
    using assms unfolding ranks_ok_def by (auto simp flip: RBT.lookup_keys) (metis option.distinct(1))
  then show "\<forall>(n, res) \<in> set (get_lookup_iter db ranks b). \<exists>v. res = Inr v \<and> RBT.lookup (db_rollups db) (b, n) = Some v"
    by (fastforce simp: get_lookup_iter_def)
  assume v: "RBT.lookup (db_rollups db) (b, n) = Some v" "est v \<noteq> est0"
  then have "RBT.lookup ranks (b, est v, n) \<noteq> None" using assms unfolding ranks_ok_def by blast
  then have "(b, est v, n) \<in> set (RBT.keys ranks)" by (simp flip: RBT.lookup_keys add: domIff)
  with v(1) show "(n, Inr v) \<in> set (get_lookup_iter db ranks b)"
    unfolding get_lookup_iter_def by (force simp: image_iff)
qed

lemma rank_merge_returns:
  "\<forall>(n, res) \<in> set pairs. \<exists>v. res = Inr v \<Longrightarrow> \<exists>m. fold_res (rank_merge sk) pairs m0 = Inr m"
proof (induction pairs arbitrary: m0)
  case (Cons x xs)
  obtain n v where x: "x = (n, Inr v)" using Cons.prems by (cases x rule: prod.exhaust) auto
  then show ?case using Cons by (simp add: rank_merge_def)
qed simp

lemma get_ordered_returns:
  assumes "indexes_ok sk db" "\<forall>c. order \<noteq> Lexi c"
  shows "\<exists>xs. get_ordered_collections sk limit order buckets db = Inr xs"
proof -
  let ?ranks = "if order = RecordsCreated then db_rank_records db else db_rank_dids db"
  let ?pairs = "concat (map (\<lambda>b. take (overfetch limit) (get_lookup_iter db ?ranks (rollup_of_bucket b))) buckets)"
  have "\<forall>(n, res) \<in> set ?pairs. \<exists>v. res = Inr v"
  proof
    fix x assume "x \<in> set ?pairs"
    then obtain b where "x \<in> set (get_lookup_iter db ?ranks (rollup_of_bucket b))" by (auto dest: in_set_takeD)
    then show "case x of (n, res) \<Rightarrow> \<exists>v. res = Inr v"
      using assms(1) ranked_entries(1) [of _ _ db ?ranks "rollup_of_bucket b"]
      by (fastforce simp: indexes_ok_def split: if_splits)
  qed
  then obtain m where "fold_res (rank_merge sk) ?pairs [] = Inr m" using rank_merge_returns by blast
  then show ?thesis using assms(2) by (cases order) (auto simp: get_ordered_collections_def Let_def)
qed

lemma ranked_sorted:
  assumes "ranks_ok (\<lambda>v. cnt_creates (fst v)) 0 (db_rollups db) ranks"
  shows "sorted_wrt (\<lambda>x y. rolled cnt_creates db b (fst y) \<le> rolled cnt_creates db b (fst x)) (get_lookup_iter db ranks b)"
    and "distinct (map fst (get_lookup_iter db ranks b))"
proof -
  let ?ks = "filter (\<lambda>(b', _, _). b' = b) (RBT.keys ranks)"
  have rank: "rolled cnt_creates db b (snd (snd k)) = fst (snd k)" if "k \<in> set ?ks" for k
    using bspec [OF ranked_entries(3) [OF assms, of b] that] by (auto simp: rolled_def opt_count_def)
  have "sorted_wrt (\<lambda>k k'. (fst (snd k), snd (snd k)) \<le> (fst (snd k'), snd (snd k'))) ?ks"
    using filtered_ranks [OF refl, of b ranks] by (simp add: sorted_wrt_map split_def)
  then have "sorted_wrt (\<lambda>k k'. rolled cnt_creates db b (snd (snd k)) \<le> rolled cnt_creates db b (snd (snd k'))) ?ks"
    by (rule sorted_wrt_mono_rel [rotated]) (auto simp: rank less_eq_prod_def)
  then show "sorted_wrt (\<lambda>x y. rolled cnt_creates db b (fst y) \<le> rolled cnt_creates db b (fst x)) (get_lookup_iter db ranks b)"
    by (simp add: get_lookup_iter_def sorted_wrt_map sorted_wrt_rev split_def)
  have "inj_on (snd \<circ> snd) (set ?ks)"
  proof (rule inj_onI)
    fix k k' assume k: "k \<in> set ?ks" "k' \<in> set ?ks" "(snd \<circ> snd) k = (snd \<circ> snd) k'"
    then have "fst (snd k) = fst (snd k')" using rank [of k] rank [of k'] by simp
    with k show "k = k'" by (auto simp: prod_eq_iff)
  qed
  moreover have "distinct ?ks" by simp
  ultimately have "distinct (map (snd \<circ> snd) ?ks)" by (simp only: distinct_map)
  then show "distinct (map fst (get_lookup_iter db ranks b))"
    by (simp add: get_lookup_iter_def split_def comp_def rev_map [symmetric])
qed



section \<open>Spans of time\<close>

lemma unat_truncate: "unat (truncate_u64 M c) = unat c div unat M * unat M"
proof -
  have "unat c div unat M * unat M \<le> unat c" by simp
  also have "unat c < 2 ^ 64" by (rule unat_u64_less)
  finally have "unat (c div M) * unat M < 2 ^ 64" by (simp add: unat_div)
  then show ?thesis using unat_mult_lem [of "c div M" M] by (simp add: truncate_u64_def unat_div)
qed

lemma truncate_iff:
  assumes "unat M = m" "0 < m" "m dvd unat h"
  shows "truncate_u64 M c = h \<longleftrightarrow> unat h \<le> unat c \<and> unat c < unat h + m"
proof -
  obtain q where q: "unat h = m * q" using assms(3) by blast
  have "truncate_u64 M c = h \<longleftrightarrow> unat c div m * m = m * q"
    using q unat_truncate [of M c] assms(1) by (metis unsigned_word_eqI)
  also have "\<dots> \<longleftrightarrow> unat c div m = q" using assms(2) by (simp add: mult.commute)
  also have "\<dots> \<longleftrightarrow> m * q \<le> unat c \<and> unat c < m * q + m"
  proof
    assume "unat c div m = q"
    then have "unat c = m * q + unat c mod m" by (metis mult_div_mod_eq)
    moreover have "unat c mod m < m" using assms(2) by simp
    ultimately show "m * q \<le> unat c \<and> unat c < m * q + m" by linarith
  qed (auto intro: div_nat_eqI)
  finally show ?thesis by (simp add: q)
qed

text \<open>Of the buckets that tile a span, exactly one holds a cursor of the span and none holds another.\<close>

lemma tiles_share:
  "tiles lo bs hi \<Longrightarrow>
   sum_list (map (\<lambda>b. if in_bucket (rollup_of_bucket b) c then x else (0 :: u64)) bs) =
     (if lo \<le> unat c \<and> unat c < hi then x else 0) \<and> lo \<le> hi"
proof (induction lo bs hi rule: tiles.induct)
  case (2 lo h bs hi)
  then have "in_bucket (Hourly h) c \<longleftrightarrow> lo \<le> unat c \<and> unat c < lo + 3600000000"
    using truncate_iff [of HOUR_IN_MICROS 3600000000 h c] by simp
  with 2 show ?case by auto
next
  case (3 lo w bs hi)
  then have "in_bucket (Weekly w) c \<longleftrightarrow> lo \<le> unat c \<and> unat c < lo + 604800000000"
    using truncate_iff [of WEEK_IN_MICROS 604800000000 w c] by simp
  with 3 show ?case by auto
qed auto

text \<open>What the batches with a latest cursor in a span held for a collection.\<close>

fun inserted_span :: "(CommitCounts \<Rightarrow> u64) \<Rightarrow> u64 \<Rightarrow> u64 \<Rightarrow> string \<Rightarrow> 'sk StoreOp list \<Rightarrow> u64" where
  "inserted_span p since until n [] = 0"
| "inserted_span p since until n (OpInsert eb # ops) =
     (case (latest_cursor eb, hm_get (eb_commits_by_nsid eb) n) of
        (Some l, Some cc) \<Rightarrow> if since \<le> l \<and> l < until then p (fst (counts_value cc)) else 0
      | _ \<Rightarrow> 0) + inserted_span p since until n ops"
| "inserted_span p since until n (_ # ops) = inserted_span p since until n ops"

lemma inserted_tiles:
  assumes "tiles (unat since) bs (unat until)"
  shows "sum_list (map (\<lambda>b. inserted p (rollup_of_bucket b) n ops) bs) = inserted_span p since until n ops"
proof (induction ops)
  case (Cons x ops)
  show ?case
  proof (cases x)
    case (OpInsert eb)
    have empty: "batch_is_empty eb \<Longrightarrow> batch_share p b n eb = 0" for b
      by (simp add: batch_is_empty_def batch_share_def hm_get_def split: option.split)
    have "sum_list (map (\<lambda>b. batch_share p (rollup_of_bucket b) n eb) bs) =
        (case (latest_cursor eb, hm_get (eb_commits_by_nsid eb) n) of
           (Some l, Some cc) \<Rightarrow> if since \<le> l \<and> l < until then p (fst (counts_value cc)) else 0
         | _ \<Rightarrow> 0)"
      using tiles_share [OF assms] unfolding batch_share_def
      by (auto simp: word_le_nat_alt word_less_nat_alt sum_list_triv split: option.split)
    moreover have "(if batch_is_empty eb then 0 else batch_share p b n eb) = batch_share p b n eb" for b
      using empty by simp
    ultimately show ?thesis using Cons.IH by (simp add: OpInsert sum_list_addf)
  qed (use Cons.IH in simp_all)
qed (simp add: sum_list_triv)

context count_field
begin

lemma total_counts_sum:
  "\<forall>b \<in> set bs. b \<noteq> AllTime \<Longrightarrow>
   \<exists>cv. total_counts sk db n bs acc = Inr cv \<and>
     p (fst cv) = p (fst acc) + sum_list (map (\<lambda>b. rolled p db (rollup_of_bucket b) n) bs)"
proof (induction bs arbitrary: acc)
  case (Cons b bs)
  have look: "p (fst (lookup_counts sk db b' n)) = rolled p db b' n" for b'
    by (simp add: lookup_counts_def rolled_def opt_count_def split: option.split)
  show ?case
    using Cons by (cases b) (fastforce simp: look add.assoc)+
qed simp

end

lemma tiles_no_all_time: "tiles lo bs hi \<Longrightarrow> \<forall>b \<in> set bs. b \<noteq> AllTime"
  by (induction lo bs hi rule: tiles.induct) auto

lemma buckets_share:
  assumes "since mod HOUR_IN_MICROS = 0" "until mod HOUR_IN_MICROS = 0"
  obtains bs where "buckets_spanning since until = Some (Inr bs)" "\<forall>b \<in> set bs. b \<noteq> AllTime"
    "\<And>p. sum_list (map (\<lambda>b. inserted p (rollup_of_bucket b) n ops) bs) = inserted_span p since until n ops"
proof (cases "since < until")
  case True
  then obtain bs where bs: "buckets_spanning since until = Some (Inr bs)" "tiles (unat since) bs (unat until)"
    using bucket_loop_tiles [of since until "[]"] assms
    by (auto simp: buckets_spanning_def u64_mod_0 dvd_eq_mod_eq_0 word_less_nat_alt word_le_nat_alt)
  with that tiles_no_all_time inserted_tiles show thesis by blast
next
  case False
  have "inserted_span p since until n ops = 0" for p
  proof (induction ops)
    case (Cons x ops)
    then show ?case using False by (cases x) (auto split: option.split)
  qed simp
  with False show thesis by (intro that [of "[]"]) (auto simp: buckets_spanning_def)
qed

text \<open>
  C17. Span queries are exact.  Once the background work has caught up, \<open>get_collection_counts\<close>
  between two whole hours returns, and returns the sums over exactly the batches whose latest
  cursor lies in the span, although it adds up a mixture of hour and week rollups.
\<close>

theorem span_counts_exact:
  assumes "fjall_init endpoint force now (Some secret) db_empty = (Inr opened, db0)"
    and "fold_res (store_op sk) ops db0 = Inr db" "ops_ordered cursor_from_start ops"
    and "RBT.entries (db_live_counts db) = []"
    and "since mod HOUR_IN_MICROS = 0" "until mod HOUR_IN_MICROS = 0"
  shows "\<exists>jc. get_collection_counts sk clock n since (Some until) db = Some (Inr jc) \<and>
    jc_creates jc = inserted_span cnt_creates since until n ops \<and>
    jc_updates jc = inserted_span cnt_updates since until n ops \<and>
    jc_deletes jc = inserted_span cnt_deletes since until n ops"
proof -
  have db0: "db0 = db_fresh sk endpoint now secret"
    using assms(1) by (auto simp: db_fresh_def fjall_init_def init_fresh_def init_static_neu_def db_empty_def)
  have ok0: "db_ok sk db0" and js: "last_js db0 = cursor_from_start" and zero: "counted p db0 b n = 0" for p b
    unfolding db0 by (simp_all add: db_fresh_ok)
  note ordered = assms(3) [folded js]
  have rolled: "rolled p db b n = inserted p b n ops" if "count_field p" for p b
    using count_field.run_counts [OF that ok0 assms(2) ordered, of b n] zero assms(4)
    by (simp add: counted_def waiting_def tree_sum_def)
  obtain bs where bs: "buckets_spanning since until = Some (Inr bs)" "\<forall>b \<in> set bs. b \<noteq> AllTime"
    "\<And>p. sum_list (map (\<lambda>b. inserted p (rollup_of_bucket b) n ops) bs) = inserted_span p since until n ops"
    by (rule buckets_share [OF assms(5,6), of n ops]) blast
  note sums = creates.total_counts_sum [OF bs(2)] updates.total_counts_sum [OF bs(2)] deletes.total_counts_sum [OF bs(2)]
  obtain cv where cv: "total_counts sk db n bs (cv_default sk) = Inr cv" using sums(1) by blast
  have "cnt_creates (fst cv) = inserted_span cnt_creates since until n ops"
    "cnt_updates (fst cv) = inserted_span cnt_updates since until n ops"
    "cnt_deletes (fst cv) = inserted_span cnt_deletes since until n ops"
    using sums [of sk db n "cv_default sk"] cv rolled [OF creates.count_field_axioms]
      rolled [OF updates.count_field_axioms] rolled [OF deletes.count_field_axioms] bs(3) by auto
  then show ?thesis by (simp add: get_collection_counts_def spanning_def bs(1) cv just_count_from_def)
qed

definition drained_ops :: "string list StoreOp list" where
  "drained_ops = [OpInsert (sample_batch 10), OpInsert (sample_batch 7200000001)]"

theorem span_counts_exact_witness:
  "\<exists>k db jc. fold_res (store_op ex_sketch) (drained_ops @ replicate k OpRollup) (db_fresh ex_sketch ''ep'' 1 ''s'') = Inr db \<and>
     get_collection_counts ex_sketch 5 ''a.b.c'' 0 (Some 3600000000) db = Some (Inr jc) \<and> jc_creates jc = 2"
proof -
  obtain r where r: "fjall_init ''ep'' False 1 (Some ''s'') db_empty = (Inr r, db_fresh ex_sketch ''ep'' 1 ''s'')"
    using sample_opened by blast
  let ?db0 = "db_fresh ex_sketch ''ep'' 1 ''s''"
  have ord: "ops_ordered cursor_from_start drained_ops" "ops_encodable drained_ops" by code_simp+
  obtain db where run: "fold_res (store_op ex_sketch) drained_ops ?db0 = Inr db"
    using run_returns [OF db_fresh_ok [of ex_sketch "''ep''" 1 "''s''"]] ord by auto
  have "db_ok ex_sketch db" by (rule run_ok [OF db_fresh_ok run]) (simp add: ord)
  then obtain k db' where k: "fold_res (store_op ex_sketch) (replicate k OpRollup) db = Inr db'" "pending db' = 0"
    using rollup_drains by blast
  have all: "fold_res (store_op ex_sketch) (drained_ops @ replicate k OpRollup) ?db0 = Inr db'"
    by (simp add: fold_res_append run k)
  have ord': "ops_ordered cursor_from_start (drained_ops @ replicate k OpRollup)"
    using ord(1) by (simp add: drained_ops_def)
  have none: "RBT.entries (db_live_counts db') = []" using k(2) by (simp add: pending_def tree_size_def)
  have "inserted_span cnt_creates 0 3600000000 ''a.b.c'' (replicate k OpRollup) = 0" by (induction k) simp_all
  then have "inserted_span cnt_creates 0 3600000000 ''a.b.c'' (drained_ops @ replicate k OpRollup) =
      inserted_span cnt_creates 0 3600000000 ''a.b.c'' drained_ops"
    by (simp add: drained_ops_def)
  moreover have "inserted_span cnt_creates 0 3600000000 ''a.b.c'' drained_ops = 2" by code_simp
  ultimately show ?thesis
    using span_counts_exact [OF r all ord' none, of 0 3600000000 5 "''a.b.c''"] all by auto
qed

section \<open>Restarting\<close>

text \<open>
  A database that was initialised but has not stored a batch yet has no jetstream cursor, so the next
  start takes it for a fresh one and \<open>init_static_neu\<close> refuses to overwrite the endpoint.
\<close>

lemma init_fresh_result:
  assumes "fjall_init endpoint force now random db_empty = (Inr r, db)"
  shows "db_js_cursor db = None \<and> db_js_endpoint db = Some endpoint"
  using assms by (auto simp: fjall_init_def init_fresh_def init_static_neu_def db_empty_def Let_def split: option.splits)

lemma restart_before_first_batch:
  assumes "fjall_init endpoint force now random db_empty = (Inr r, db)"
  shows "\<exists>msg. fjall_init endpoint' force' now' random' db = (Inl (InitError msg), db)"
  using init_fresh_result [OF assms] by (simp add: fjall_init_def init_fresh_def init_static_neu_def)

end
