(* ===== verification/Fjall_Feeds.thy ===== *)
theory Fjall_Feeds
  imports Fjall_Run Fjall_Read
begin

text \<open>
  Feeds and records: what trimming keeps, what account deletion removes, and what the record
  queries return.
\<close>

section \<open>Entries of a tree\<close>

lemma entries_unique:
  assumes "sorted (map fst xs)" "distinct (map fst xs)" "sorted (map fst ys)" "distinct (map fst ys)" "set xs = set ys"
  shows "xs = (ys :: ('k::linorder \<times> 'v) list)"
  using assms by (intro map_sorted_distinct_set_unique [of fst]) (auto simp: distinct_map)

lemma entries_filter:
  assumes "\<And>k. RBT.lookup t' k = (case RBT.lookup t k of None \<Rightarrow> None | Some v \<Rightarrow> if P (k, v) then Some v else None)"
  shows "RBT.entries t' = filter P (RBT.entries t)"
proof (rule entries_unique)
  show "sorted (map fst (filter P (RBT.entries t)))" by (intro sorted_filter RBT.sorted_entries)
  show "distinct (map fst (filter P (RBT.entries t)))" by (intro distinct_map_filter RBT.distinct_entries)
  show "set (RBT.entries t') = set (filter P (RBT.entries t))"
    by (auto simp: RBT.lookup_in_tree [symmetric] assms split: option.splits if_splits)
qed (simp_all add: RBT.sorted_entries RBT.distinct_entries)

lemma feed_from_sorted: "sorted (map fst (feed_from n c db))" "distinct (map fst (feed_from n c db))"
  unfolding feed_from_def
  by (intro sorted_filter RBT.sorted_entries, intro distinct_map_filter RBT.distinct_entries)

lemma feed_from_iff: "kv \<in> set (feed_from n c db) \<longleftrightarrow>
    fst (fst kv) = n \<and> c \<le> snd (fst kv) \<and> RBT.lookup (db_feeds db) (fst kv) = Some (snd kv)"
  by (cases kv rule: prod.exhaust) (auto simp: feed_from_def RBT.lookup_in_tree)

section \<open>Trimming\<close>

text \<open>One entry: only this entry of the feed and at most its own record change.\<close>

definition live :: "'sk FjallDb \<Rightarrow> NsidRecordFeedKey \<times> NsidRecordFeedVal \<Rightarrow> bool" where
  "live db kv \<longleftrightarrow> get_record db kv \<noteq> None"

lemma trim_one_other:
  assumes "fst kv \<noteq> fst e"
  shows "get_record (tr_db (trim_one limit e t)) kv = get_record (tr_db t) kv"
proof -
  obtain n c did rkey r where e: "e = ((n, c), (did, rkey, r))" by (metis prod.exhaust)
  obtain n' c' did' rkey' r' where kv: "kv = ((n', c'), (did', rkey', r'))" by (metis prod.exhaust)
  show ?thesis using assms
    by (cases "RBT.lookup (db_records (tr_db t)) (did, n, rkey)") (auto simp: e kv trim_one_def get_record_def Let_def)
qed

lemma trim_one_feeds:
  "RBT.lookup (db_feeds (tr_db (trim_one limit e t))) =
     (if live (tr_db t) e \<and> tr_live_found t < limit then RBT.lookup (db_feeds (tr_db t))
      else (RBT.lookup (db_feeds (tr_db t)))(fst e := None))"
proof -
  obtain n c did rkey r where e: "e = ((n, c), (did, rkey, r))" by (metis prod.exhaust)
  show ?thesis
    by (cases "RBT.lookup (db_records (tr_db t)) (did, n, rkey)") (auto simp: e trim_one_def live_def get_record_def Let_def)
qed

lemma trim_one_counts:
  "tr_live_found (trim_one limit e t) = tr_live_found t + (if live (tr_db t) e then 1 else 0)"
  "tr_dangling (trim_one limit e t) = tr_dangling t + (if live (tr_db t) e then 0 else 1)"
  "tr_deleted (trim_one limit e t) = tr_deleted t + (if live (tr_db t) e \<and> limit \<le> tr_live_found t then 1 else 0)"
  "tr_candidate (trim_one limit e t) =
     (if live (tr_db t) e \<and> limit \<le> tr_live_found t \<and> tr_candidate t = None then Some (snd (fst e)) else tr_candidate t)"
  "live (tr_db t) e \<Longrightarrow> tr_live_found t < limit \<Longrightarrow> tr_db (trim_one limit e t) = tr_db t"
proof -
  obtain n c did rkey r where e: "e = ((n, c), (did, rkey, r))" by (metis prod.exhaust)
  show "tr_live_found (trim_one limit e t) = tr_live_found t + (if live (tr_db t) e then 1 else 0)"
    "tr_dangling (trim_one limit e t) = tr_dangling t + (if live (tr_db t) e then 0 else 1)"
    "tr_deleted (trim_one limit e t) = tr_deleted t + (if live (tr_db t) e \<and> limit \<le> tr_live_found t then 1 else 0)"
    "tr_candidate (trim_one limit e t) =
       (if live (tr_db t) e \<and> limit \<le> tr_live_found t \<and> tr_candidate t = None then Some (snd (fst e)) else tr_candidate t)"
    "live (tr_db t) e \<Longrightarrow> tr_live_found t < limit \<Longrightarrow> tr_db (trim_one limit e t) = tr_db t"
    by (cases "RBT.lookup (db_records (tr_db t)) (did, n, rkey)";
        auto simp: e trim_one_def live_def get_record_def Let_def split: option.split)+
qed

lemma trim_loop_other:
  "fst kv \<notin> fst ` set es \<Longrightarrow> get_record (tr_db (fold (trim_one limit) es t)) kv = get_record (tr_db t) kv"
  by (induction es arbitrary: t) (auto simp: trim_one_other)

text \<open>The whole loop keeps the first live entries it meets, as many as the limit still allows.\<close>

definition kept_by :: "nat \<Rightarrow> 'sk Trim \<Rightarrow> (NsidRecordFeedKey \<times> NsidRecordFeedVal) list \<Rightarrow>
    (NsidRecordFeedKey \<times> NsidRecordFeedVal) list" where
  "kept_by limit t es = take (limit - tr_live_found t) (filter (live (tr_db t)) es)"

lemma distinct_fst_Cons: "distinct (map fst (e # es)) \<Longrightarrow> kv \<in> set es \<Longrightarrow> fst kv \<noteq> fst e"
  by (metis distinct.simps(2) image_eqI list.set_map list.simps(9))

lemma trim_one_live:
  assumes "distinct (map fst (e # es))"
  shows "filter (live (tr_db (trim_one limit e t))) es = filter (live (tr_db t)) es"
    "filter (\<lambda>x. \<not> live (tr_db (trim_one limit e t)) x) es = filter (\<lambda>x. \<not> live (tr_db t) x) es"
proof -
  have "live (tr_db (trim_one limit e t)) kv = live (tr_db t) kv" if "kv \<in> set es" for kv
    using trim_one_other [OF distinct_fst_Cons [OF assms that], of limit t] by (simp add: live_def)
  then show "filter (live (tr_db (trim_one limit e t))) es = filter (live (tr_db t)) es"
    "filter (\<lambda>x. \<not> live (tr_db (trim_one limit e t)) x) es = filter (\<lambda>x. \<not> live (tr_db t) x) es"
    by (auto intro: filter_cong)
qed

lemma kept_by_Cons:
  assumes "distinct (map fst (e # es))"
  shows "kept_by limit t (e # es) =
    (if live (tr_db t) e \<and> tr_live_found t < limit then [e] else []) @ kept_by limit (trim_one limit e t) es"
proof (cases "live (tr_db t) e \<and> tr_live_found t < limit")
  case True
  then have "limit - tr_live_found t = Suc (limit - Suc (tr_live_found t))" by (simp add: Suc_diff_Suc)
  with True show ?thesis unfolding kept_by_def by (simp add: trim_one_live [OF assms] trim_one_counts(1))
next
  case False
  then show ?thesis by (auto simp: kept_by_def trim_one_live [OF assms] trim_one_counts(1))
qed

lemma kept_by_subset: "set (kept_by limit t es) \<subseteq> set es"
  unfolding kept_by_def by (auto dest: in_set_takeD)

lemma trim_loop_feeds:
  "distinct (map fst es) \<Longrightarrow>
   RBT.lookup (db_feeds (tr_db (fold (trim_one limit) es t))) k =
     (if k \<in> fst ` set es \<and> k \<notin> fst ` set (kept_by limit t es) then None else RBT.lookup (db_feeds (tr_db t)) k)"
proof (induction es arbitrary: t)
  case (Cons e es)
  have new: "fst e \<notin> fst ` set (kept_by limit u es)" for u
    using Cons.prems kept_by_subset [of limit u es] by auto
  show ?case
    using Cons new by (auto simp: kept_by_Cons [OF Cons.prems] trim_one_feeds)
qed simp

lemma trim_loop_records:
  "distinct (map fst es) \<Longrightarrow> kv \<in> set (kept_by limit t es) \<Longrightarrow>
   get_record (tr_db (fold (trim_one limit) es t)) kv = get_record (tr_db t) kv"
proof (induction es arbitrary: t)
  case (Cons e es)
  show ?case
  proof (cases "kv \<in> set (kept_by limit (trim_one limit e t) es)")
    case True
    then have "kv \<in> set es" using kept_by_subset by blast
    then have "fst kv \<noteq> fst e" by (rule distinct_fst_Cons [OF Cons.prems(1)])
    with True Cons show ?thesis by (simp add: trim_one_other)
  next
    case False
    with Cons.prems(2) have "kv = e" "live (tr_db t) e" "tr_live_found t < limit"
      by (auto simp: kept_by_Cons [OF Cons.prems(1)] split: if_splits)
    with Cons.prems(1) trim_loop_other [of e es limit "trim_one limit e t"] show ?thesis by (simp add: trim_one_counts(5))
  qed
qed (simp add: kept_by_def)

lemma trim_loop_counts:
  assumes "distinct (map fst es)"
  shows "tr_dangling (fold (trim_one limit) es t) = tr_dangling t + length (filter (\<lambda>e. \<not> live (tr_db t) e) es)"
    and "tr_deleted (fold (trim_one limit) es t) + length (kept_by limit t es) =
       tr_deleted t + length (filter (live (tr_db t)) es)"
  using assms
proof (induction es arbitrary: t)
  case (Cons e es)
  {
    case 1
    then show ?case using Cons.IH(1) [of "trim_one limit e t"] trim_one_live [OF 1, of limit t] by (simp add: trim_one_counts)
  next
    case 2
    then show ?case using Cons.IH(2) [of "trim_one limit e t"] trim_one_live [OF 2, of limit t]
      by (auto simp: kept_by_Cons [OF 2] trim_one_counts)
  }
qed (simp_all add: kept_by_def)

text \<open>The candidate for the trim cursor is the newest live entry that was not kept.\<close>

lemma trim_loop_candidate_keep: "tr_candidate t = Some c \<Longrightarrow> tr_candidate (fold (trim_one limit) es t) = Some c"
  by (induction es arbitrary: t) (auto simp: trim_one_counts)

lemma trim_loop_candidate:
  "distinct (map fst es) \<Longrightarrow> tr_candidate t = None \<Longrightarrow>
   tr_candidate (fold (trim_one limit) es t) =
     (case drop (limit - tr_live_found t) (filter (live (tr_db t)) es) of [] \<Rightarrow> None | e # _ \<Rightarrow> Some (snd (fst e)))"
proof (induction es arbitrary: t)
  case (Cons e es)
  note rest = trim_one_live(1) [OF Cons.prems(1), of limit t]
  consider "live (tr_db t) e \<and> limit \<le> tr_live_found t" | "live (tr_db t) e \<and> tr_live_found t < limit" | "\<not> live (tr_db t) e"
    by linarith
  then show ?case
  proof cases
    case 1
    then have "tr_candidate (trim_one limit e t) = Some (snd (fst e))" using Cons.prems by (simp add: trim_one_counts)
    with 1 show ?thesis by (simp add: trim_loop_candidate_keep)
  next
    case 2
    then have "limit - tr_live_found t = Suc (limit - Suc (tr_live_found t))" by (simp add: Suc_diff_Suc)
    with 2 Cons.IH [of "trim_one limit e t"] Cons.prems show ?thesis by (simp add: trim_one_counts rest)
  next
    case 3
    with Cons.IH [of "trim_one limit e t"] Cons.prems show ?thesis by (simp add: trim_one_counts rest)
  qed
qed simp

definition trim_cursor_of :: "string \<Rightarrow> 'sk FjallDb \<Rightarrow> Cursor" where
  "trim_cursor_of n db = (case RBT.lookup (db_trim_cursors db) n of None \<Rightarrow> cursor_from_start | Some c \<Rightarrow> c)"

text \<open>Nothing of the collection is left below its trim cursor.\<close>

definition trim_ok :: "string \<Rightarrow> 'sk FjallDb \<Rightarrow> bool" where
  "trim_ok n db \<longleftrightarrow> list_all (\<lambda>kv. fst (fst kv) = n \<longrightarrow> trim_cursor_of n db \<le> snd (fst kv)) (RBT.entries (db_feeds db))"

lemma trim_ok_range: "trim_ok n db \<Longrightarrow> feed_from n (trim_cursor_of n db) db = feed_from n cursor_from_start db"
  unfolding feed_from_def trim_ok_def list_all_iff cursor_from_start_def by (intro filter_cong) (auto simp: split_def)

lemma trim_collection_loop:
  assumes "full_scan \<or> trim_ok n db" "trim_collection n limit full_scan db = ((dangling, deleted, early), db')"
  obtains t where "t = fold (trim_one limit) (rev (feed_from n cursor_from_start db))
      \<lparr>tr_db = db, tr_dangling = 0, tr_deleted = 0, tr_live_found = 0, tr_candidate = None\<rparr>"
    "dangling = tr_dangling t" "deleted = tr_deleted t" "\<not> early"
    "db' = (case tr_candidate t of None \<Rightarrow> tr_db t
       | Some c \<Rightarrow> (tr_db t)\<lparr>db_trim_cursors := RBT.insert n c (db_trim_cursors (tr_db t))\<rparr>)"
proof -
  have range: "(if full_scan then feed_from n cursor_from_start db
      else feed_from n (case RBT.lookup (db_trim_cursors db) n of None \<Rightarrow> cursor_from_start | Some c \<Rightarrow> c) db) =
      feed_from n cursor_from_start db" using assms(1) trim_ok_range [of n db] by (auto simp: trim_cursor_of_def)
  show thesis
    by (rule that [OF refl]) (use assms(2) in \<open>simp_all add: trim_collection_def Let_def range\<close>)
qed

lemma trim_loop_cursors: "db_trim_cursors (tr_db (fold (trim_one limit) es t)) = db_trim_cursors (tr_db t)"
proof (induction es arbitrary: t)
  case (Cons e es)
  obtain n c did rkey r where e: "e = ((n, c), (did, rkey, r))" by (metis prod.exhaust)
  have "db_trim_cursors (tr_db (trim_one limit e t)) = db_trim_cursors (tr_db t)"
    by (cases "RBT.lookup (db_records (tr_db t)) (did, n, rkey)") (simp_all add: e trim_one_def Let_def)
  with Cons.IH show ?case by simp
qed simp

text \<open>Everything kept is at or after the candidate.\<close>

lemma candidate_below:
  assumes "sorted (map fst L)" "drop k (rev L) = e # rest" "kv \<in> set (take k (rev L))"
  shows "fst e \<le> fst kv"
proof -
  have "sorted_wrt (\<lambda>x y. fst y \<le> fst x) (rev L)" using assms(1) by (simp add: sorted_wrt_rev sorted_map)
  then have "sorted_wrt (\<lambda>x y. fst y \<le> fst x) (take k (rev L) @ drop k (rev L))" by simp
  then show ?thesis using assms(2,3) by (auto simp: sorted_wrt_append simp del: append_take_drop_id)
qed

text \<open>
  C24. Trimming keeps exactly the newest records.  After \<open>trim_collection\<close> the feed of the
  collection is its newest \<open>limit\<close> live entries and nothing else, each still leads to its record,
  the two counts are the live records dropped and the dangling entries cleaned, other collections
  are untouched, and a scan that starts at the stored trim cursor finds the same as a full scan.
\<close>

theorem trim_keeps_newest:
  assumes "full_scan \<or> trim_ok n db" "trim_collection n limit full_scan db = ((dangling, deleted, early), db')"
  shows "feed_from n 0 db' = drop (length (filter (live db) (feed_from n 0 db)) - limit) (filter (live db) (feed_from n 0 db)) \<and>
    (\<forall>kv \<in> set (feed_from n 0 db'). get_record db' kv = get_record db kv) \<and>
    deleted = length (filter (live db) (feed_from n 0 db)) - limit \<and>
    dangling + length (filter (live db) (feed_from n 0 db)) = length (feed_from n 0 db) \<and>
    (\<forall>kv. fst (fst kv) \<noteq> n \<longrightarrow> get_record db' kv = get_record db kv \<and>
       RBT.lookup (db_feeds db') (fst kv) = RBT.lookup (db_feeds db) (fst kv)) \<and>
    (trim_ok n db \<longrightarrow> trim_ok n db')"
proof -
  let ?F = "feed_from n 0 db"
  let ?L = "filter (live db) ?F"
  let ?t0 = "\<lparr>tr_db = db, tr_dangling = 0, tr_deleted = 0, tr_live_found = 0, tr_candidate = None\<rparr>"
  let ?K = "drop (length ?L - limit) ?L"
  obtain t where t: "t = fold (trim_one limit) (rev ?F) ?t0" and counts: "dangling = tr_dangling t" "deleted = tr_deleted t"
    and db': "db' = (case tr_candidate t of None \<Rightarrow> tr_db t
       | Some c \<Rightarrow> (tr_db t)\<lparr>db_trim_cursors := RBT.insert n c (db_trim_cursors (tr_db t))\<rparr>)"
    using trim_collection_loop [OF assms] unfolding cursor_from_start_def by blast
  have d: "distinct (map fst (rev ?F))" using feed_from_sorted(2) [of n 0 db] by (simp add: rev_map [symmetric])
  have kept: "kept_by limit ?t0 (rev ?F) = rev ?K" by (simp add: kept_by_def rev_filter [symmetric] take_rev)
  have same: "db_feeds db' = db_feeds (tr_db t)" "get_record db' kv = get_record (tr_db t) kv" for kv
    by (auto simp: db' get_record_def split: option.split)
  have keys: "k \<in> fst ` set ?F \<Longrightarrow> fst k = n" for k by (auto simp: feed_from_iff)
  have feeds: "RBT.lookup (db_feeds db') k =
      (if k \<in> fst ` set ?F \<and> k \<notin> fst ` set ?K then None else RBT.lookup (db_feeds db) k)" for k
    unfolding same t trim_loop_feeds [OF d] kept by simp
  have sub: "set ?K \<subseteq> set ?F" by (auto dest: in_set_dropD)
  have uniq: "kv \<in> set ?F \<Longrightarrow> kv' \<in> set ?F \<Longrightarrow> fst kv = fst kv' \<Longrightarrow> kv = kv'" for kv kv'
    by (auto simp: feed_from_iff prod_eq_iff)
  have set_eq: "set (feed_from n 0 db') = set ?K"
  proof
    show "set (feed_from n 0 db') \<subseteq> set ?K"
    proof
      fix kv assume kv: "kv \<in> set (feed_from n 0 db')"
      then have F: "kv \<in> set ?F" by (auto simp: feed_from_iff feeds split: if_splits)
      with kv obtain kv' where "kv' \<in> set ?K" "fst kv' = fst kv" by (auto simp: feed_from_iff feeds split: if_splits)
      with sub uniq [of kv' kv] F show "kv \<in> set ?K" by blast
    qed
    show "set ?K \<subseteq> set (feed_from n 0 db')"
    proof
      fix kv assume kv: "kv \<in> set ?K"
      with sub have "kv \<in> set ?F" by blast
      with kv show "kv \<in> set (feed_from n 0 db')" by (simp add: feed_from_iff feeds)
    qed
  qed
  have feed: "feed_from n 0 db' = ?K"
  proof (rule entries_unique [OF feed_from_sorted _ _ set_eq])
    have "sorted (map fst ?L)" "distinct (map fst ?L)"
      using feed_from_sorted [of n 0 db] by (auto intro: sorted_filter distinct_map_filter)
    then show "sorted (map fst ?K)" "distinct (map fst ?K)" by (simp_all add: drop_map [symmetric] sorted_wrt_drop)
  qed
  have rec: "get_record db' kv = get_record db kv" if "kv \<in> set (feed_from n 0 db')" for kv
    using trim_loop_records [OF d, of kv limit ?t0] that unfolding same t set_eq kept by simp
  have other: "get_record db' kv = get_record db kv" if "fst (fst kv) \<noteq> n" for kv
    unfolding same t using that by (subst trim_loop_other) (auto simp: feed_from_iff)
  have len: "length (filter (\<lambda>e. \<not> live db e) (rev ?F)) + length ?L = length ?F"
    using sum_length_filter_compl [of "live db" ?F] by (simp add: rev_filter [symmetric])
  have del: "deleted + length ?K = length ?L"
    using trim_loop_counts(2) [OF d, of limit ?t0] unfolding counts t kept by (simp add: rev_filter [symmetric])
  have dang: "dangling + length ?L = length ?F"
    using trim_loop_counts(1) [OF d, of limit ?t0] len unfolding counts t by simp
  have "trim_ok n db'" if ok: "trim_ok n db"
  proof -
    have "trim_cursor_of n db' \<le> snd (fst kv)" if kv: "kv \<in> set ?K" for kv
    proof (cases "drop limit (rev ?L)")
      case Nil
      then have "db' = tr_db t" using trim_loop_candidate [OF d, of ?t0 limit] by (simp add: db' t rev_filter [symmetric])
      then have "trim_cursor_of n db' = trim_cursor_of n db" by (simp add: trim_cursor_of_def t trim_loop_cursors)
      moreover have "trim_cursor_of n db \<le> snd (fst kv)"
        using ok sub kv RBT.lookup_in_tree [of "db_feeds db" "fst kv" "snd kv"]
        by (auto simp: trim_ok_def list_all_iff feed_from_iff)
      ultimately show ?thesis by simp
    next
      case (Cons e rest)
      then have "tr_candidate t = Some (snd (fst e))"
        using trim_loop_candidate [OF d, of ?t0 limit] by (simp add: t rev_filter [symmetric])
      then have "trim_cursor_of n db' = snd (fst e)" by (simp add: db' trim_cursor_of_def)
      moreover have "fst e \<le> fst kv"
        by (rule candidate_below [OF _ Cons]) (use kv feed_from_sorted(1) [of n 0 db] in \<open>simp_all add: take_rev sorted_filter\<close>)
      moreover have "e \<in> set ?F" using Cons in_set_dropD [of e limit "rev ?L"] by simp
      then have "fst (fst e) = n" "fst (fst kv) = n" using sub kv by (auto simp: feed_from_iff)
      ultimately show ?thesis by (auto simp: less_eq_prod_def)
    qed
    moreover have "kv \<in> set ?K" if "kv \<in> set (RBT.entries (db_feeds db'))" "fst (fst kv) = n" for kv
      using that RBT.lookup_in_tree [of "db_feeds db'" "fst kv" "snd kv"] unfolding set_eq [symmetric] feed_from_iff by simp
    ultimately show ?thesis unfolding trim_ok_def list_all_iff by blast
  qed
  moreover have "RBT.lookup (db_feeds db') k = RBT.lookup (db_feeds db) k" if "fst k \<noteq> n" for k
    using feeds [of k] keys [of k] that by auto
  moreover have "deleted = length ?L - limit" using del by simp
  ultimately show ?thesis using feed rec other dang by blast
qed

definition feed_db :: "unit FjallDb" where
  "feed_db = db_empty
     \<lparr>db_feeds := RBT.insert (''a.b.c'', 1) (''d'', ''x'', ''r'') (RBT.insert (''a.b.c'', 2) (''d'', ''y'', ''r'')
        (RBT.insert (''a.b.c'', 3) (''d'', ''x'', ''s'') RBT.empty)),
      db_records := RBT.insert (''d'', ''a.b.c'', ''x'') (location_val 3 ''s'' ''{}'' True)
        (RBT.insert (''d'', ''a.b.c'', ''y'') (location_val 2 ''r'' ''{}'' False) RBT.empty)\<rparr>"

theorem trim_keeps_newest_witness:
  "\<exists>db'. trim_collection ''a.b.c'' 1 False feed_db = ((1, 1, False), db') \<and>
     feed_from ''a.b.c'' 0 db' = [((''a.b.c'', 3), (''d'', ''x'', ''s''))]"
proof -
  have ok: "trim_ok ''a.b.c'' feed_db" by code_simp
  obtain db' where run: "trim_collection ''a.b.c'' 1 False feed_db = ((1, 1, False), db')"
  proof -
    have "fst (trim_collection ''a.b.c'' 1 False feed_db) = (1, 1, False)" by code_simp
    with that show thesis by (metis prod.collapse)
  qed
  have "drop (length (filter (live feed_db) (feed_from ''a.b.c'' 0 feed_db)) - 1) (filter (live feed_db) (feed_from ''a.b.c'' 0 feed_db)) =
      [((''a.b.c'', 3), (''d'', ''x'', ''s''))]" by code_simp
  with trim_keeps_newest [OF disjI2 [OF ok] run] run show ?thesis by auto
qed

section \<open>Account deletion\<close>

text \<open>
  C25. Account deletion is exact.  \<open>delete_account\<close> removes every record of the account and no
  other record, whatever number of partial commits that takes, reports how many there were, and
  changes nothing else; afterwards no feed entry of the account leads to a record.
\<close>

theorem delete_account_exact:
  "RBT.lookup (db_records (snd (delete_account did db))) (d, n, rkey) =
     (if d = did then None else RBT.lookup (db_records db) (d, n, rkey)) \<and>
   fst (delete_account did db) = length (filter (\<lambda>(d, _). d = did) (RBT.keys (db_records db))) \<and>
   snd (delete_account did db) = db\<lparr>db_records := db_records (snd (delete_account did db))\<rparr> \<and>
   get_record (snd (delete_account did db)) ((n, c), (did, rkey, r)) = None"
proof -
  let ?ks = "filter (\<lambda>(d, _). d = did) (RBT.keys (db_records db))"
  have look: "RBT.lookup (db_records (snd (delete_account did db))) (d, n, rkey) =
     (if d = did then None else RBT.lookup (db_records db) (d, n, rkey))" for d
  proof -
    have "(d, n, rkey) \<in> set ?ks \<longleftrightarrow> d = did \<and> RBT.lookup (db_records db) (d, n, rkey) \<noteq> None"
      by (auto simp flip: RBT.lookup_keys)
    then show ?thesis by (auto simp: delete_account_effect lookup_delete_keys restrict_map_def)
  qed
  then have "get_record (snd (delete_account did db)) ((n, c), (did, rkey, r)) = None"
    by (simp add: get_record_def)
  with look show ?thesis by (simp add: delete_account_effect)
qed

section \<open>Record queries\<close>

text \<open>What an iterator still has to give.\<close>

definition yields :: "'sk FjallDb \<Rightarrow> nat \<Rightarrow> RecordIterator \<Rightarrow> UFOsRecord list" where
  "yields db limit it = take (limit - snd it) (List.map_filter (get_record db) (fst it))"

lemma skip_dead_map_filter:
  "List.map_filter (get_record db) kvs = (case skip_dead db kvs of None \<Rightarrow> [] | Some (r, kvs') \<Rightarrow> r # List.map_filter (get_record db) kvs')"
  by (induction kvs) (auto simp: List.map_filter_simps split: option.split)

lemma iter_next_yields:
  assumes "snd it \<le> limit"
  shows "case iter_next db limit it of
      (Some (Some r), it') \<Rightarrow> yields db limit it = r # yields db limit it' \<and> snd it' \<le> limit
    | _ \<Rightarrow> yields db limit it = []"
proof -
  obtain kvs f where it: "it = (kvs, f)" by (rule prod.exhaust)
  show ?thesis
  proof (cases "f = limit")
    case False
    with assms it have "limit - f = Suc (limit - Suc f)" by simp
    with False assms it show ?thesis
      using skip_dead_map_filter [of db kvs] by (auto simp: iter_next_def yields_def split: option.splits)
  qed (simp add: it iter_next_def yields_def)
qed

lemma peek_yields:
  assumes "snd it \<le> limit"
  shows "fst (iter_next db limit it) = Some (Some r) \<Longrightarrow> \<exists>rest. yields db limit it = r # rest"
    and "\<forall>r. fst (iter_next db limit it) \<noteq> Some (Some r) \<Longrightarrow> yields db limit it = []"
  using iter_next_yields [OF assms, of db] by (auto split: prod.splits option.splits)

text \<open>The scan finds a head with the greatest cursor among those it looked at.\<close>

lemma scan_latest_Some:
  "scan_latest expand i peeks latest = Some (c, idx) \<Longrightarrow>
   latest = Some (c, idx) \<or>
   (\<exists>r. i \<le> idx \<and> idx < i + length peeks \<and> peeks ! (idx - i) = Some (Some r) \<and> ur_cursor r = c)"
proof (induction expand i peeks latest rule: scan_latest.induct)
  case (2 expand i peeks latest)
  then show ?case by (force simp: nth_Cons' Suc_diff_le)
next
  case (3 expand i peeks latest)
  then show ?case by (force simp: nth_Cons' Suc_diff_le split: if_splits)
next
  case (4 expand i r peeks latest)
  then consider "(case latest of Some (cursor, _) \<Rightarrow> if ur_cursor r > cursor then Some (ur_cursor r, i) else latest
      | None \<Rightarrow> Some (ur_cursor r, i)) = Some (c, idx)"
    | r' where "Suc i \<le> idx" "idx < Suc i + length peeks" "peeks ! (idx - Suc i) = Some (Some r')" "ur_cursor r' = c"
    by auto
  then show ?case
  proof cases
    case 1
    then show ?thesis by (auto split: option.splits if_splits)
  next
    case 2
    then show ?thesis by (auto simp: nth_Cons' Suc_diff_le)
  qed
qed simp

lemma scan_latest_max:
  "scan_latest True i peeks latest = res \<Longrightarrow>
   (\<forall>r. Some (Some r) \<in> set peeks \<longrightarrow> (\<exists>c idx. res = Some (c, idx) \<and> ur_cursor r \<le> c)) \<and>
   (\<forall>c0 i0. latest = Some (c0, i0) \<longrightarrow> (\<exists>c idx. res = Some (c, idx) \<and> c0 \<le> c))"
proof (induction True i peeks latest rule: scan_latest.induct)
  case (4 i r peeks latest)
  let ?l = "case latest of Some (cursor, _) \<Rightarrow> if ur_cursor r > cursor then Some (ur_cursor r, i) else latest
      | None \<Rightarrow> Some (ur_cursor r, i)"
  have IH: "(\<forall>r. Some (Some r) \<in> set peeks \<longrightarrow> (\<exists>c idx. res = Some (c, idx) \<and> ur_cursor r \<le> c)) \<and>
     (\<forall>c0 i0. ?l = Some (c0, i0) \<longrightarrow> (\<exists>c idx. res = Some (c, idx) \<and> c0 \<le> c))"
    using 4 by simp
  obtain c0 i0 where l: "?l = Some (c0, i0)" and ge: "ur_cursor r \<le> c0" "\<forall>c1 i1. latest = Some (c1, i1) \<longrightarrow> c1 \<le> c0"
    by (cases latest; cases "fst (the latest) < ur_cursor r") (auto simp: split_def)
  from IH l obtain c idx where "res = Some (c, idx)" "c0 \<le> c" by blast
  with IH ge show ?case by fastforce
qed auto

lemma merge_records_returns:
  assumes "\<forall>it \<in> set iters. snd it \<le> limit"
  shows "\<exists>out. merge_records db limit expand iters = Inr out"
  using assms
proof (induction db limit expand iters rule: merge_records.induct)
  case (1 db limit expand iters)
  let ?scan = "scan_latest expand 0 (map (fst \<circ> iter_next db limit) iters) None"
  show ?case
  proof (cases ?scan)
    case None
    then show ?thesis by (simp add: merge_records.simps)
  next
    case (Some ci)
    obtain c idx where ci: "ci = (c, idx)" by (rule prod.exhaust)
    from scan_latest_Some [OF Some [unfolded ci]] obtain r where idx: "idx < length iters"
      and r: "fst (iter_next db limit (iters ! idx)) = Some (Some r)" by auto
    then obtain it where it: "iter_next db limit (iters ! idx) = (Some (Some r), it)" by (metis prod.collapse)
    have "snd (iters ! idx) \<le> limit" using "1.prems" idx by simp
    from iter_next_yields [OF this, of db] it have "snd it \<le> limit" by simp
    then have "\<forall>x \<in> set (iters[idx := it]). snd x \<le> limit" using "1.prems" by (auto dest!: set_update_subset_insert [THEN subsetD])
    from "1.IH" [OF Some ci [symmetric] idx it [symmetric] refl refl this] obtain out where
      "merge_records db limit expand (iters[idx := it]) = Inr out" by blast
    then show ?thesis using Some ci idx it by (simp add: merge_records.simps [of db limit expand iters])
  qed
qed

abbreviation newest_first :: "UFOsRecord list \<Rightarrow> bool" where
  "newest_first \<equiv> sorted_wrt (\<lambda>a b. ur_cursor b \<le> ur_cursor a)"

lemma sum_list_mset_update:
  "i < length xs \<Longrightarrow> sum_list (map (\<lambda>x. mset (f x)) (xs[i := y])) + mset (f (xs ! i)) = sum_list (map (\<lambda>x. mset (f x)) xs) + mset (f y)"
proof (induction xs arbitrary: i)
  case (Cons x xs)
  then show ?case by (cases i) (auto simp: ac_simps)
qed simp

lemma merge_records_expand:
  assumes "\<forall>it \<in> set iters. snd it \<le> limit \<and> newest_first (yields db limit it)"
    and "merge_records db limit True iters = Inr out"
  shows "mset out = sum_list (map (\<lambda>it. mset (yields db limit it)) iters) \<and> newest_first out"
  using assms
proof (induction db limit "True" iters arbitrary: out rule: merge_records.induct)
  case (1 db limit iters)
  let ?peeks = "map (fst \<circ> iter_next db limit) iters"
  let ?scan = "scan_latest True 0 ?peeks None"
  note max = scan_latest_max [where i = 0 and peeks = ?peeks and latest = None, OF refl]
  show ?case
  proof (cases ?scan)
    case None
    have "yields db limit it = []" if "it \<in> set iters" for it
    proof (rule peek_yields(2))
      show "snd it \<le> limit" using "1.prems"(1) that by simp
      show "\<forall>r. fst (iter_next db limit it) \<noteq> Some (Some r)"
        using max that unfolding None by (auto simp: image_iff) (metis fst_conv)
    qed
    then have "sum_list (map (\<lambda>it. mset (yields db limit it)) iters) = {#}" by (induction iters) simp_all
    moreover have "out = []" using "1.prems"(2) None by (simp add: merge_records.simps)
    ultimately show ?thesis by simp
  next
    case (Some ci)
    obtain c idx where ci: "ci = (c, idx)" by (rule prod.exhaust)
    from scan_latest_Some [OF Some [unfolded ci]] obtain r where idx: "idx < length iters"
      and r: "fst (iter_next db limit (iters ! idx)) = Some (Some r)" "ur_cursor r = c" by auto
    then obtain it where it: "iter_next db limit (iters ! idx) = (Some (Some r), it)" by (metis prod.collapse)
    have "snd (iters ! idx) \<le> limit" using "1.prems" idx by simp
    from iter_next_yields [OF this, of db] it
    have y: "yields db limit (iters ! idx) = r # yields db limit it" and le: "snd it \<le> limit" by simp_all
    have sorted: "newest_first (yields db limit it)" using "1.prems"(1) idx y by (metis nth_mem sorted_wrt.simps(2))
    have prem: "\<forall>x \<in> set (iters[idx := it]). snd x \<le> limit \<and> newest_first (yields db limit x)"
      using "1.prems"(1) le sorted by (auto dest!: set_update_subset_insert [THEN subsetD])
    obtain out' where out: "merge_records db limit True (iters[idx := it]) = Inr out'" "out = r # out'"
      using "1.prems"(2) Some ci idx it
      by (cases "merge_records db limit True (iters[idx := it])") (auto simp: merge_records.simps [of db limit True iters])
    from "1.hyps" [OF Some ci [symmetric] idx it [symmetric] refl refl prem out(1)]
    have IH: "mset out' = sum_list (map (\<lambda>it. mset (yields db limit it)) (iters[idx := it]))" "newest_first out'" by simp_all
    have "ur_cursor x \<le> c" if x: "x \<in> set out'" for x
    proof -
      have "x \<in># sum_list (map (\<lambda>it. mset (yields db limit it)) (iters[idx := it]))" using x IH(1) by (metis set_mset_mset)
      then obtain j where j: "j \<in> set (iters[idx := it])" "x \<in> set (yields db limit j)"
        by (auto simp: set_mset_sum_list)
      have "\<exists>k \<in> set iters. x \<in> set (yields db limit k)"
      proof (cases "j = it")
        case True
        with j y idx show ?thesis by (intro bexI [of _ "iters ! idx"]) auto
      next
        case False
        with j show ?thesis using set_update_subset_insert [of iters idx it] by auto
      qed
      then obtain k where k: "k \<in> set iters" "x \<in> set (yields db limit k)" by blast
      have k1: "snd k \<le> limit" "newest_first (yields db limit k)" using "1.prems"(1) k by simp_all
      then obtain r' rest where h: "fst (iter_next db limit k) = Some (Some r')" "yields db limit k = r' # rest"
        using peek_yields [OF k1(1), of db] k(2) by (metis empty_iff empty_set)
      then have "ur_cursor x \<le> ur_cursor r'" using k1(2) k(2) by auto
      also have "Some (Some r') \<in> set ?peeks" using h(1) k(1) by (force simp: image_iff)
      then have "ur_cursor r' \<le> c" using max Some ci by auto
      finally show ?thesis .
    qed
    moreover have "mset out = sum_list (map (\<lambda>it. mset (yields db limit it)) iters)"
      using sum_list_mset_update [OF idx, of "yields db limit" it] IH(1) y out(2) by simp
    ultimately show ?thesis using IH(2) out(2) r(2) by simp
  qed
qed

text \<open>The records of a collection that are still there, newest first.\<close>

definition live_records :: "'sk FjallDb \<Rightarrow> string \<Rightarrow> UFOsRecord list" where
  "live_records db n = List.map_filter (get_record db) (rev (feed_from n 0 db))"

lemma get_record_cursor: "get_record db kv = Some r \<Longrightarrow> ur_cursor r = snd (fst kv)"
  by (auto simp: get_record_def Let_def split: prod.splits option.splits if_splits)

lemma map_filter_newest_first:
  "sorted_wrt (\<lambda>a b. snd (fst b) \<le> snd (fst a)) kvs \<Longrightarrow> newest_first (List.map_filter (get_record db) kvs)"
proof (induction kvs)
  case (Cons kv kvs)
  then show ?case
    by (auto simp: List.map_filter_simps List.map_filter_def get_record_cursor split: option.split)
qed (simp add: List.map_filter_simps)

lemma live_records_newest_first: "newest_first (live_records db n)"
proof -
  have "sorted_wrt (\<lambda>a b. snd (fst b) \<le> snd (fst a)) (rev (feed_from n 0 db))"
  proof -
    have "sorted_wrt (\<lambda>a b. fst a \<le> fst b) (feed_from n 0 db)"
      using feed_from_sorted(1) [of n 0 db] by (simp add: sorted_map)
    then have "sorted_wrt (\<lambda>a b. snd (fst a) \<le> snd (fst b)) (feed_from n 0 db)"
      by (rule sorted_wrt_mono_rel [rotated]) (auto simp: feed_from_iff less_eq_prod_def)
    then show ?thesis by (simp add: sorted_wrt_rev)
  qed
  then show ?thesis unfolding live_records_def by (rule map_filter_newest_first)
qed

lemma get_records_returns: "\<exists>out. get_records_by_collections cs limit expand db = Inr out"
  using merge_records_returns [of "map (record_iterator_new db) cs" limit db expand]
  by (auto simp: get_records_by_collections_def record_iterator_new_def)

text \<open>
  C26. Record queries merge exactly.  With \<open>expand_each_collection\<close>, \<open>get_records_by_collections\<close>
  always returns, and returns the newest \<open>limit\<close> records of each collection that are still there,
  each once, from newest to oldest over all collections.
\<close>

theorem records_merged:
  "\<exists>out. get_records_by_collections cs limit True db = Inr out \<and> newest_first out \<and>
     mset out = sum_list (map (\<lambda>n. mset (take limit (live_records db n))) cs)"
proof -
  have y: "yields db limit (record_iterator_new db n) = take limit (live_records db n)" for n
    by (simp add: yields_def record_iterator_new_def live_records_def cursor_from_start_def)
  have prem: "\<forall>it \<in> set (map (record_iterator_new db) cs). snd it \<le> limit \<and> newest_first (yields db limit it)"
  proof -
    have "snd (record_iterator_new db n) = 0" for n by (simp add: record_iterator_new_def)
    moreover have "newest_first (take limit (live_records db n))" for n
      by (rule sorted_wrt_take [OF live_records_newest_first])
    ultimately show ?thesis by (simp add: y)
  qed
  obtain out where out: "get_records_by_collections cs limit True db = Inr out" using get_records_returns by blast
  show ?thesis
  proof (cases "cs = []")
    case False
    with out have "merge_records db limit True (map (record_iterator_new db) cs) = Inr out"
      by (simp add: get_records_by_collections_def)
    from merge_records_expand [OF prem this] out show ?thesis by (simp add: y comp_def)
  qed (simp add: get_records_by_collections_def)
qed

text \<open>Three collections with one record each.\<close>

definition three_feeds :: "unit FjallDb" where
  "three_feeds = db_empty
     \<lparr>db_feeds := RBT.insert (''a.a.a'', 3) (''d'', ''x'', ''r'') (RBT.insert (''b.b.b'', 9) (''d'', ''x'', ''r'')
        (RBT.insert (''c.c.c'', 8) (''d'', ''x'', ''r'') RBT.empty)),
      db_records := RBT.insert (''d'', ''a.a.a'', ''x'') (location_val 3 ''r'' ''{}'' False)
        (RBT.insert (''d'', ''b.b.b'', ''x'') (location_val 9 ''r'' ''{}'' False)
          (RBT.insert (''d'', ''c.c.c'', ''x'') (location_val 8 ''r'' ''{}'' False) RBT.empty))\<rparr>"

text \<open>
  Without \<open>expand_each_collection\<close> a newer record can be skipped for an older one: when one
  iterator reaches the limit the scan stops looking at the iterators after it, but the loop goes on
  with those before it.  Here three collections hold records at 3, 9 and 8; the query with limit 1
  returns the ones at 9 and 3.
\<close>

theorem records_skip_newer:
  "map_sum id (map ur_cursor) (get_records_by_collections [''a.a.a'', ''b.b.b'', ''c.c.c''] 1 False three_feeds) = Inr [9, 3]"
  by code_simp

end
