(* ===== verification/Fjall_Lexi.thy ===== *)
theory Fjall_Lexi
  imports Fjall_Props Fjall_Feeds
begin

text \<open>
  The lexicographic listing of collections: a merge of one sorted iterator per bucket, cut into
  pages.  The reference is the sorted list of all collections with counts in one of the buckets.
\<close>

section \<open>The merge\<close>

definition names :: "(string \<times> 'v) list list \<Rightarrow> string set" where
  "names iters = (\<Union>it \<in> set iters. fst ` set it)"

abbreviation sorted_iter :: "(string \<times> 'v) list \<Rightarrow> bool" where
  "sorted_iter it \<equiv> sorted_wrt (<) (map fst it)"

lemma names_simps [simp]:
  "names [] = {}" "names (it # iters) = fst ` set it \<union> names iters"
  by (simp_all add: names_def)

lemma finite_names [simp]: "finite (names iters)"
  by (simp add: names_def)

lemma lowest_nsid_Some:
  "lowest_nsid iters low = Some m \<Longrightarrow> (\<forall>it \<in> set iters. sorted_iter it) \<Longrightarrow>
   (m \<in> names iters \<or> low = Some m) \<and> (\<forall>n \<in> names iters. m \<le> n) \<and> (\<forall>x. low = Some x \<longrightarrow> m \<le> x)"
proof (induction iters low rule: lowest_nsid.induct)
  case (3 nsid v it iters low)
  let ?low = "case low of Some current \<Rightarrow> if nsid > current then low else Some nsid | None \<Rightarrow> Some nsid"
  have IH: "(m \<in> names iters \<or> ?low = Some m) \<and> (\<forall>n \<in> names iters. m \<le> n) \<and> (\<forall>x. ?low = Some x \<longrightarrow> m \<le> x)"
    using "3.IH" "3.prems" by simp
  obtain x where x: "?low = Some x" "x \<le> nsid" "\<forall>y. low = Some y \<longrightarrow> x \<le> y" "x = nsid \<or> low = Some x"
  proof (cases "\<exists>a. low = Some a \<and> a < nsid")
    case False
    then have "?low = Some nsid" by (auto split: option.split)
    with False that show thesis by (auto simp: not_less)
  qed (auto intro: that)
  with IH have m: "m \<le> nsid" "\<forall>y. low = Some y \<longrightarrow> m \<le> y" by (auto intro: order_trans)
  have "\<forall>n \<in> fst ` set it. nsid < n" using "3.prems"(2) by auto
  with m(1) have "\<forall>n \<in> fst ` set it. m \<le> n" by (metis less_imp_le order_trans)
  with IH m x show ?case by auto
qed auto

lemma lowest_nsid_None: "lowest_nsid iters low = None \<longleftrightarrow> low = None \<and> names iters = {}"
proof (induction iters low rule: lowest_nsid.induct)
  case (3 nsid v it iters low)
  then show ?case by (cases low) auto
qed auto

definition advance :: "string \<Rightarrow> (string \<times> 'v) list \<Rightarrow> (string \<times> 'v) list" where
  "advance m it = (case it of (n, _) # rest \<Rightarrow> if n = m then rest else it | [] \<Rightarrow> [])"

definition head_count :: "(CommitCounts \<Rightarrow> u64) \<Rightarrow> string \<Rightarrow> (string \<times> 'sk CountsValue) list \<Rightarrow> u64" where
  "head_count p m it = (case it of (n, v) # _ \<Rightarrow> if n = m then p (fst v) else 0 | [] \<Rightarrow> 0)"

lemma take_nsid_iters: "snd (take_nsid sk m iters acc) = map (advance m) iters"
  by (induction iters arbitrary: acc) (auto simp: advance_def split: list.split)

context count_field
begin

lemma take_nsid_count:
  "p (fst (fst (take_nsid sk m iters acc))) = p (fst acc) + sum_list (map (head_count p m) iters)"
proof (induction iters arbitrary: acc)
  case (Cons it iters)
  show ?case
  proof (cases it)
    case (Cons x rest)
    obtain n v where x: "x = (n, v)" by (rule prod.exhaust)
    have "head_count p m it = (if n = m then p (fst v) else 0)" by (simp add: head_count_def Cons x)
    then show ?thesis by (simp add: Cons x Cons.IH add.assoc)
  qed (simp add: Cons.IH head_count_def)
qed simp

end

text \<open>Advancing past the least collection removes it and nothing else.\<close>

lemma advance_least:
  assumes "sorted_iter it" "\<forall>n \<in> fst ` set it. m \<le> n"
  shows "fst ` set (advance m it) = fst ` set it - {m}" "sorted_iter (advance m it)"
    "n \<noteq> m \<Longrightarrow> map_of (advance m it) n = map_of it n" "head_count p m it = opt_count p (map_of it m)"
proof -
  have "fst ` set (advance m it) = fst ` set it - {m} \<and> head_count p m it = opt_count p (map_of it m)"
  proof (cases it)
    case (Cons x rest)
    obtain k v where x: "x = (k, v)" by (rule prod.exhaust)
    have k: "\<forall>n \<in> fst ` set rest. k < n" "m \<le> k" using assms Cons x by auto
    show ?thesis
    proof (cases "k = m")
      case True
      then have "m \<notin> fst ` set rest" using k(1) by blast
      with True show ?thesis by (simp add: Cons x advance_def head_count_def opt_count_def)
    next
      case False
      then have "m \<notin> fst ` set rest" using k by (metis order.strict_trans1 less_irrefl)
      then have "map_of rest m = None" by (simp add: map_of_eq_None_iff)
      with False \<open>m \<notin> fst ` set rest\<close> show ?thesis by (simp add: Cons x advance_def head_count_def opt_count_def)
    qed
  qed (simp add: advance_def head_count_def opt_count_def)
  then show "fst ` set (advance m it) = fst ` set it - {m}" "head_count p m it = opt_count p (map_of it m)" by simp_all
  show "sorted_iter (advance m it)" using assms by (cases it) (auto simp: advance_def)
  show "n \<noteq> m \<Longrightarrow> map_of (advance m it) n = map_of it n" by (cases it) (auto simp: advance_def)
qed

lemma names_advance:
  fixes iters :: "(string \<times> 'sk CountsValue) list list"
  assumes "\<forall>it \<in> set iters. sorted_iter it" "\<forall>n \<in> names iters. m \<le> n"
  shows "names (map (advance m) iters) = names iters - {m}"
  using assms
proof (induction iters)
  case (Cons it iters)
  have "fst ` set (advance m it) = fst ` set it - {m}" by (rule advance_least(1)) (use Cons.prems in auto)
  then show ?case using Cons by (simp add: Un_Diff)
qed simp

lemma lexi_loop_names:
  fixes iters :: "(string \<times> 'sk CountsValue) list list"
  assumes "\<forall>it \<in> set iters. sorted_iter it"
  shows "map fst (fst (lexi_loop sk limit iters cur)) = take limit (sorted_list_of_set (names iters)) \<and>
    snd (lexi_loop sk limit iters cur) =
      (if limit = 0 then cur else if card (names iters) < limit then None
       else Some (sorted_list_of_set (names iters) ! (limit - 1)))"
  using assms
proof (induction limit arbitrary: iters cur)
  case (Suc limit)
  show ?case
  proof (cases "lowest_nsid iters None")
    case None
    then have "names iters = {}" by (simp add: lowest_nsid_None)
    with None show ?thesis by simp
  next
    case (Some m)
    from lowest_nsid_Some [OF Some Suc.prems] have m: "m \<in> names iters" "\<forall>n \<in> names iters. m \<le> n" by auto
    then have min: "Min (names iters) = m" by (intro Min_eqI) auto
    let ?next = "map (advance m) iters"
    have rest: "names ?next = names iters - {m}" by (rule names_advance [OF Suc.prems m(2)])
    have sorted: "\<forall>it \<in> set ?next. sorted_iter it"
    proof
      fix it' assume "it' \<in> set ?next"
      then obtain it where "it \<in> set iters" "it' = advance m it" by auto
      then show "sorted_iter it'" using Suc.prems m(2) by (auto intro!: advance_least(2) simp: names_def)
    qed
    obtain merged where take: "take_nsid sk m iters (cv_default sk) = (merged, ?next)"
      using take_nsid_iters [of sk m iters "cv_default sk"] by (metis prod.collapse)
    have list: "sorted_list_of_set (names iters) = m # sorted_list_of_set (names ?next)"
      using sorted_list_of_set_nonempty [of "names iters"] m(1) unfolding rest min by auto
    have card: "card (names iters) = Suc (card (names ?next))"
      using card_Suc_Diff1 [OF finite_names m(1)] by (simp only: rest)
    show ?thesis
      using Suc.IH [OF sorted, of "Some m"] unfolding list card by (cases limit) (simp_all add: Some take)
  qed
qed simp

context count_field
begin

lemma lexi_loop_counts:
  assumes "\<forall>it \<in> set iters. sorted_iter it" "(n, cv) \<in> set (fst (lexi_loop sk limit iters cur))"
  shows "p (fst cv) = sum_list (map (\<lambda>it. opt_count p (map_of it n)) iters)"
  using assms
proof (induction limit arbitrary: iters cur)
  case (Suc limit)
  show ?case
  proof (cases "lowest_nsid iters None")
    case None
    with Suc.prems show ?thesis by simp
  next
    case (Some m)
    from lowest_nsid_Some [OF Some Suc.prems(1)] have m: "\<forall>k \<in> names iters. m \<le> k" by auto
    let ?next = "map (advance m) iters"
    have least: "sorted_iter it" "\<forall>k \<in> fst ` set it. m \<le> k" if "it \<in> set iters" for it
      using that Suc.prems(1) m by (auto simp: names_def)
    obtain merged where take: "take_nsid sk m iters (cv_default sk) = (merged, ?next)"
      using take_nsid_iters [of sk m iters "cv_default sk"] by (metis prod.collapse)
    have "p (fst merged) = sum_list (map (head_count p m) iters)"
      using take_nsid_count [of sk m iters "cv_default sk"] by (simp add: take)
    also have "map (head_count p m) iters = map (\<lambda>it. opt_count p (map_of it m)) iters"
      by (intro map_cong refl advance_least(4)) (use least in auto)
    finally have merged: "p (fst merged) = sum_list (map (\<lambda>it. opt_count p (map_of it m)) iters)" .
    have sorted: "\<forall>it \<in> set ?next. sorted_iter it" using least by (auto intro!: advance_least(2))
    have notin: "m \<notin> names ?next" using names_advance [OF Suc.prems(1) m] by simp
    have "fst ` set (fst (lexi_loop sk limit ?next (Some m))) \<subseteq> names ?next"
      using lexi_loop_names [OF sorted, of sk limit "Some m"] set_take_subset [of limit "sorted_list_of_set (names ?next)"]
      by (metis finite_names list.set_map set_sorted_list_of_set)
    then have new: "(m, v) \<notin> set (fst (lexi_loop sk limit ?next (Some m)))" for v using notin by force
    from Suc.prems(2) consider "n = m" "cv = merged" | "(n, cv) \<in> set (fst (lexi_loop sk limit ?next (Some m)))" "n \<noteq> m"
    proof -
      have "(n, cv) = (m, merged) \<or> (n, cv) \<in> set (fst (lexi_loop sk limit ?next (Some m)))"
        using Suc.prems(2) by (simp add: Some take)
      with new [of cv] that show thesis by fastforce
    qed
    then show ?thesis
    proof cases
      case 1
      then show ?thesis using merged by simp
    next
      case 2
      from Suc.IH [OF sorted 2(1)] have "p (fst cv) = sum_list (map (\<lambda>it. opt_count p (map_of (advance m it) n)) iters)"
        by (simp add: comp_def)
      also have "map (\<lambda>it. opt_count p (map_of (advance m it) n)) iters = map (\<lambda>it. opt_count p (map_of it n)) iters"
        using 2(2) least by (intro map_cong refl) (simp add: advance_least(3))
      finally show ?thesis .
    qed
  qed
qed simp

end

section \<open>Pages\<close>

text \<open>The collections with counts in one of the buckets.\<close>

definition listed :: "CursorBucket list \<Rightarrow> 'sk FjallDb \<Rightarrow> string set" where
  "listed buckets db = {n. \<exists>b \<in> set buckets. RBT.lookup (db_rollups db) (rollup_of_bucket b, n) \<noteq> None}"

lemma lexi_iter_sorted: "sorted_iter (get_lexi_iter db b P)"
proof -
  let ?es = "filter (\<lambda>((b', n), _). b' = b \<and> P n) (RBT.entries (db_rollups db))"
  have "sorted_wrt (<) (map fst ?es)"
    using RBT.sorted_entries [of "db_rollups db"] RBT.distinct_entries [of "db_rollups db"]
    by (simp add: strict_sorted_iff sorted_filter distinct_map_filter)
  then have "sorted_wrt (\<lambda>x y. fst x < fst y) ?es" by (simp add: sorted_wrt_map)
  then have "sorted_wrt (\<lambda>x y. snd (fst x) < snd (fst y)) ?es"
    by (rule sorted_wrt_mono_rel [rotated]) (auto simp: less_prod_def)
  then show ?thesis by (simp add: get_lexi_iter_def sorted_wrt_map split_def)
qed

lemma lexi_iter_entry:
  "(n, v) \<in> set (get_lexi_iter db b P) \<longleftrightarrow> P n \<and> RBT.lookup (db_rollups db) (b, n) = Some v"
  by (force simp: get_lexi_iter_def RBT.lookup_in_tree)

lemma lexi_iter_map_of:
  "map_of (get_lexi_iter db b P) n = (if P n then RBT.lookup (db_rollups db) (b, n) else None)"
proof -
  have "distinct (map fst (get_lexi_iter db b P))" using lexi_iter_sorted [of db b P] by (simp add: strict_sorted_iff)
  then have "map_of (get_lexi_iter db b P) n = Some v \<longleftrightarrow> P n \<and> RBT.lookup (db_rollups db) (b, n) = Some v" for v
    by (simp add: lexi_iter_entry)
  then show ?thesis by (metis option.exhaust)
qed

lemma listed_names:
  "names (map (\<lambda>b. get_lexi_iter db (rollup_of_bucket b) P) buckets) = {n \<in> listed buckets db. P n}"
proof -
  have "fst ` set (get_lexi_iter db b P) = {n. P n \<and> RBT.lookup (db_rollups db) (b, n) \<noteq> None}" for b
  proof (intro set_eqI iffI)
    fix n assume "n \<in> {n. P n \<and> RBT.lookup (db_rollups db) (b, n) \<noteq> None}"
    then obtain v where "(n, v) \<in> set (get_lexi_iter db b P)" unfolding lexi_iter_entry by blast
    then show "n \<in> fst ` set (get_lexi_iter db b P)" by (rule image_eqI [rotated]) simp
  qed (clarsimp simp: lexi_iter_entry)
  then show ?thesis by (auto simp: names_def listed_def)
qed

lemma finite_listed: "finite (listed buckets db)"
  using finite_names [of "map (\<lambda>b. get_lexi_iter db (rollup_of_bucket b) (\<lambda>_. True)) buckets"]
  unfolding listed_names by simp

lemma sorted_list_filter: "finite A \<Longrightarrow> sorted_list_of_set {n \<in> A. P n} = filter P (sorted_list_of_set (A :: 'a::linorder set))"
  by (rule sorted_distinct_set_unique) (simp_all add: sorted_wrt_filter)

lemma filter_after_nth:
  assumes "sorted_wrt (<) (L :: 'a::linorder list)" "k < length L"
  shows "filter (\<lambda>n. L ! k < n) L = drop (Suc k) L"
proof -
  have s: "sorted_wrt (<) (take (Suc k) L @ drop (Suc k) L)" using assms(1) by simp
  have mem: "L ! k \<in> set (take (Suc k) L)" using assms(2) by (simp add: take_Suc_conv_app_nth)
  have "x \<le> L ! k" if "x \<in> set (take (Suc k) L)" for x
    using that assms by (auto simp: in_set_conv_nth) (metis less_Suc_eq_le order.order_iff_strict sorted_wrt_nth_less)
  then have "filter (\<lambda>n. L ! k < n) (take (Suc k) L) = []" by (auto simp: filter_empty_conv not_less)
  moreover have "filter (\<lambda>n. L ! k < n) (drop (Suc k) L) = drop (Suc k) L"
    using s mem by (auto simp: sorted_wrt_append filter_id_conv simp del: append_take_drop_id)
  ultimately show ?thesis by (metis append_Nil append_take_drop_id filter_append)
qed

text \<open>One page, from a cursor that is a collection or the start.\<close>

definition cursor_bytes :: "string option \<Rightarrow> bytes option" where
  "cursor_bytes c = map_option (\<lambda>n. n @ [NUL]) c"

definition after :: "string option \<Rightarrow> string \<Rightarrow> bool" where
  "after c n = (case c of Some x \<Rightarrow> x < n | None \<Rightarrow> True)"

lemma decode_cursor:
  "\<forall>n. c = Some n \<longrightarrow> str_ok n \<and> nsid_new n \<Longrightarrow>
   opt_res (\<lambda>bs. db_result (db_complete (nsid_from_db_bytes nsid_new) bs)) (cursor_bytes c) = Inr c"
proof (cases c)
  case (Some n)
  assume "\<forall>n. c = Some n \<longrightarrow> str_ok n \<and> nsid_new n"
  with Some have ok: "str_ok n" "nsid_new n" by simp_all
  then have "nsid_from_db_bytes nsid_new (n @ [NUL]) = Inr (n, length n + 1)"
    by (simp add: nsid_from_db_bytes_def string_from_db_bytes_def split_once_first str_ok_def)
  then show ?thesis by (simp add: Some cursor_bytes_def db_complete_def db_result_def)
qed (simp add: cursor_bytes_def)

lemma page_spec:
  assumes ok: "\<forall>n \<in> listed buckets db. str_ok n \<and> nsid_new n" "\<forall>n. c = Some n \<longrightarrow> n \<in> listed buckets db" "0 < limit"
  defines "L \<equiv> filter (after c) (sorted_list_of_set (listed buckets db))"
  shows "\<exists>out. get_lexi_collections sk nsid_new limit (cursor_bytes c) buckets db =
      Inr (out, cursor_bytes (if length L < limit then None else Some (L ! (limit - 1)))) \<and>
    map nc_nsid out = take limit L \<and>
    (\<forall>x \<in> set out. nc_creates x = sum_list (map (\<lambda>b. rolled cnt_creates db (rollup_of_bucket b) (nc_nsid x)) buckets) \<and>
       nc_updates x = sum_list (map (\<lambda>b. rolled cnt_updates db (rollup_of_bucket b) (nc_nsid x)) buckets) \<and>
       nc_deletes x = sum_list (map (\<lambda>b. rolled cnt_deletes db (rollup_of_bucket b) (nc_nsid x)) buckets))"
proof -
  let ?iters = "map (\<lambda>b. get_lexi_iter db (rollup_of_bucket b) (after c)) buckets"
  have sorted: "\<forall>it \<in> set ?iters. sorted_iter it" by (simp add: lexi_iter_sorted)
  have L: "sorted_list_of_set (names ?iters) = L" unfolding listed_names L_def by (rule sorted_list_filter [OF finite_listed])
  have card: "card (names ?iters) = length L" by (metis L length_sorted_list_of_set)
  obtain out cur where loop: "lexi_loop sk limit ?iters None = (out, cur)" by (rule prod.exhaust)
  have out: "map fst out = take limit L" and cur: "cur = (if length L < limit then None else Some (L ! (limit - 1)))"
    using lexi_loop_names [OF sorted, of sk limit None] assms(3) unfolding L card loop by simp_all
  have ok_L: "str_ok n" if "n \<in> set L" for n using that ok(1) finite_listed [of buckets db] by (auto simp: L_def)
  have "NUL \<notin> set n" if "cur = Some n" for n
  proof -
    from that cur assms(3) have "n \<in> set L" by (auto split: if_splits intro!: nth_mem)
    then show ?thesis using ok_L by (simp add: str_ok_def)
  qed
  then have enc: "opt_res (\<lambda>n. db_result (nsid_to_db_bytes n)) cur = Inr (cursor_bytes cur)"
    by (cases cur) (simp_all add: cursor_bytes_def nsid_to_db_bytes_def string_to_db_bytes_def db_result_def)
  have dec: "opt_res (\<lambda>bs. db_result (db_complete (nsid_from_db_bytes nsid_new) bs)) (cursor_bytes c) = Inr c"
    using ok(1,2) by (intro decode_cursor) auto
  have page: "get_lexi_collections sk nsid_new limit (cursor_bytes c) buckets db =
      Inr (map (\<lambda>(n, v). nsid_count_new sk n v) out, cursor_bytes cur)"
    using loop enc unfolding get_lexi_collections_def dec by (simp add: after_def [abs_def] Let_def)
  have count: "p (fst v) = sum_list (map (\<lambda>b. rolled p db (rollup_of_bucket b) n) buckets)"
    if "(n, v) \<in> set out" "count_field p" for n v p
  proof -
    have "n \<in> set L" using that(1) out set_take_subset [of limit L] by (metis fst_conv image_eqI list.set_map subsetD)
    then have "after c n" by (simp add: L_def)
    then show ?thesis
      using count_field.lexi_loop_counts [OF that(2) sorted, of n v sk limit None] that(1)
      by (simp add: loop comp_def lexi_iter_map_of rolled_def)
  qed
  show ?thesis
  proof (intro exI conjI ballI)
    show "get_lexi_collections sk nsid_new limit (cursor_bytes c) buckets db =
        Inr (map (\<lambda>(n, v). nsid_count_new sk n v) out, cursor_bytes (if length L < limit then None else Some (L ! (limit - 1))))"
      using page cur by simp
    show "map nc_nsid (map (\<lambda>(n, v). nsid_count_new sk n v) out) = take limit L"
      unfolding out [symmetric] by (simp add: nsid_count_new_def split_def comp_def)
    fix x assume "x \<in> set (map (\<lambda>(n, v). nsid_count_new sk n v) out)"
    then obtain n v where nv: "(n, v) \<in> set out" "x = nsid_count_new sk n v" by auto
    show "nc_creates x = sum_list (map (\<lambda>b. rolled cnt_creates db (rollup_of_bucket b) (nc_nsid x)) buckets)"
      "nc_updates x = sum_list (map (\<lambda>b. rolled cnt_updates db (rollup_of_bucket b) (nc_nsid x)) buckets)"
      "nc_deletes x = sum_list (map (\<lambda>b. rolled cnt_deletes db (rollup_of_bucket b) (nc_nsid x)) buckets)"
      using count [OF nv(1) creates.count_field_axioms] count [OF nv(1) updates.count_field_axioms]
        count [OF nv(1) deletes.count_field_axioms] by (simp_all add: nv(2) nsid_count_new_def)
  qed
qed

section \<open>All pages\<close>

text \<open>A client that follows the cursors until there is none, with fuel for the number of requests.\<close>

fun lexi_pages :: "'sk SketchOps \<Rightarrow> (string \<Rightarrow> bool) \<Rightarrow> nat \<Rightarrow> CursorBucket list \<Rightarrow> 'sk FjallDb \<Rightarrow> nat \<Rightarrow> bytes option \<Rightarrow>
    NsidCount list option" where
  "lexi_pages sk nsid_new limit buckets db 0 c = None"
| "lexi_pages sk nsid_new limit buckets db (Suc fuel) c =
    (case get_lexi_collections sk nsid_new limit c buckets db of
      Inl _ \<Rightarrow> None
    | Inr (page, None) \<Rightarrow> Some page
    | Inr (page, Some c') \<Rightarrow> map_option ((@) page) (lexi_pages sk nsid_new limit buckets db fuel (Some c')))"

definition lexi_counted :: "CursorBucket list \<Rightarrow> 'sk FjallDb \<Rightarrow> NsidCount \<Rightarrow> bool" where
  "lexi_counted buckets db x \<longleftrightarrow>
    nc_creates x = sum_list (map (\<lambda>b. rolled cnt_creates db (rollup_of_bucket b) (nc_nsid x)) buckets) \<and>
    nc_updates x = sum_list (map (\<lambda>b. rolled cnt_updates db (rollup_of_bucket b) (nc_nsid x)) buckets) \<and>
    nc_deletes x = sum_list (map (\<lambda>b. rolled cnt_deletes db (rollup_of_bucket b) (nc_nsid x)) buckets)"

lemma filter_after_page:
  assumes "sorted_wrt (<) (M :: string list)" "filter (after c) M = L" "k < length L"
  shows "filter (after (Some (L ! k))) M = drop (Suc k) L"
proof -
  have "after c (L ! k)" using nth_mem [OF assms(3)] assms(2) by auto
  then have less: "after c n" if "L ! k < n" for n using that by (auto simp: after_def split: option.splits)
  have "filter (after (Some (L ! k))) M = filter (\<lambda>n. after c n \<and> L ! k < n) M"
    by (rule filter_cong) (use less in \<open>auto simp: after_def\<close>)
  also have "\<dots> = filter (\<lambda>n. L ! k < n) (filter (after c) M)" by simp
  also have "\<dots> = drop (Suc k) L"
    unfolding assms(2) using assms(1,3) by (intro filter_after_nth) (auto simp: assms(2) [symmetric] sorted_wrt_filter)
  finally show ?thesis .
qed

lemma lexi_pages_from:
  assumes "\<forall>n \<in> listed buckets db. str_ok n \<and> nsid_new n" "0 < limit" "\<forall>n. c = Some n \<longrightarrow> n \<in> listed buckets db"
    "length (filter (after c) (sorted_list_of_set (listed buckets db))) < fuel"
  shows "\<exists>out. lexi_pages sk nsid_new limit buckets db fuel (cursor_bytes c) = Some out \<and>
    map nc_nsid out = filter (after c) (sorted_list_of_set (listed buckets db)) \<and> (\<forall>x \<in> set out. lexi_counted buckets db x)"
  using assms
proof (induction fuel arbitrary: c)
  case (Suc fuel)
  let ?M = "sorted_list_of_set (listed buckets db)"
  let ?L = "filter (after c) ?M"
  obtain page where page: "get_lexi_collections sk nsid_new limit (cursor_bytes c) buckets db =
      Inr (page, cursor_bytes (if length ?L < limit then None else Some (?L ! (limit - 1))))"
    "map nc_nsid page = take limit ?L" "\<forall>x \<in> set page. lexi_counted buckets db x"
    using page_spec [OF Suc.prems(1,3,2), of sk] unfolding lexi_counted_def by blast
  show ?case
  proof (cases "length ?L < limit")
    case True
    then show ?thesis using page by (simp add: cursor_bytes_def)
  next
    case False
    let ?c = "Some (?L ! (limit - 1))"
    have k: "limit - 1 < length ?L" using False Suc.prems(2) by simp
    have rest: "filter (after ?c) ?M = drop limit ?L"
      using filter_after_page [of ?M c ?L, OF _ refl k] Suc.prems(2) by simp
    have "?L ! (limit - 1) \<in> set ?L" by (rule nth_mem [OF k])
    then have mem: "?L ! (limit - 1) \<in> listed buckets db" using finite_listed [of buckets db] by simp
    have "length (filter (after ?c) ?M) < fuel" unfolding rest using Suc.prems(2,4) k by simp
    then obtain out where out: "lexi_pages sk nsid_new limit buckets db fuel (cursor_bytes ?c) = Some out"
      "map nc_nsid out = drop limit ?L" "\<forall>x \<in> set out. lexi_counted buckets db x"
      using Suc.IH [OF Suc.prems(1,2), of ?c] mem unfolding rest by blast
    have "lexi_pages sk nsid_new limit buckets db (Suc fuel) (cursor_bytes c) = Some (page @ out)"
      using page(1) out(1) False by (simp add: cursor_bytes_def)
    moreover have "map nc_nsid (page @ out) = ?L" using page(2) out(2) by simp
    moreover have "\<forall>x \<in> set (page @ out). lexi_counted buckets db x" using page(3) out(3) by auto
    ultimately show ?thesis by blast
  qed
qed simp

text \<open>
  Following the cursors of \<open>get_lexi_collections\<close> from the start visits every collection with
  counts in one of the buckets exactly once, in order, for every positive page size; the requests
  needed are at most the number of collections plus one, and the counts of each entry are the sums
  over the buckets.
\<close>

theorem lexi_pagination_complete:
  assumes "0 < limit" "\<forall>n \<in> listed buckets db. str_ok n \<and> nsid_new n" "card (listed buckets db) < fuel"
  shows "\<exists>out. lexi_pages sk nsid_new limit buckets db fuel None = Some out \<and>
    map nc_nsid out = sorted_list_of_set (listed buckets db) \<and>
    (\<forall>x \<in> set out.
      nc_creates x = sum_list (map (\<lambda>b. rolled cnt_creates db (rollup_of_bucket b) (nc_nsid x)) buckets) \<and>
      nc_updates x = sum_list (map (\<lambda>b. rolled cnt_updates db (rollup_of_bucket b) (nc_nsid x)) buckets) \<and>
      nc_deletes x = sum_list (map (\<lambda>b. rolled cnt_deletes db (rollup_of_bucket b) (nc_nsid x)) buckets))"
proof -
  have all: "filter (after None) xs = xs" for xs by (simp add: after_def)
  show ?thesis
    using lexi_pages_from [OF assms(2,1), of None fuel sk] assms(3)
    unfolding all lexi_counted_def by (simp add: cursor_bytes_def)
qed

definition lexi_db :: "string list FjallDb" where
  "lexi_db = db_empty\<lparr>db_rollups :=
     RBT.insert (Ever, ''a.b.c'') (\<lparr>cnt_creates = 2, cnt_updates = 1, cnt_deletes = 0\<rparr>, [])
       (RBT.insert (Ever, ''x.y.z'') (\<lparr>cnt_creates = 1, cnt_updates = 0, cnt_deletes = 1\<rparr>, []) RBT.empty)\<rparr>"

lemma lexi_db_lookup:
  "RBT.lookup (db_rollups lexi_db) (Ever, n) =
    (if n = ''a.b.c'' then Some (\<lparr>cnt_creates = 2, cnt_updates = 1, cnt_deletes = 0\<rparr>, [])
     else if n = ''x.y.z'' then Some (\<lparr>cnt_creates = 1, cnt_updates = 0, cnt_deletes = 1\<rparr>, []) else None)"
  by (simp add: lexi_db_def)

lemma lexi_db_listed: "listed [AllTime] lexi_db = {''a.b.c'', ''x.y.z''}"
  by (auto simp: listed_def lexi_db_lookup)

theorem lexi_pagination_complete_witness:
  "\<exists>out. lexi_pages ex_sketch (\<lambda>_. True) 1 [AllTime] lexi_db 3 None = Some out \<and>
     map nc_nsid out = [''a.b.c'', ''x.y.z''] \<and> map nc_creates out = [2, 1]"
proof -
  have ok: "\<forall>n \<in> listed [AllTime] lexi_db. str_ok n \<and> True" unfolding lexi_db_listed by code_simp
  have sorted: "sorted_list_of_set (listed [AllTime] lexi_db) = [''a.b.c'', ''x.y.z'']" unfolding lexi_db_listed by code_simp
  obtain out where out: "lexi_pages ex_sketch (\<lambda>_. True) 1 [AllTime] lexi_db 3 None = Some out"
    "map nc_nsid out = [''a.b.c'', ''x.y.z'']" "\<forall>x \<in> set out. nc_creates x = rolled cnt_creates lexi_db Ever (nc_nsid x)"
    using lexi_pagination_complete [of 1 "[AllTime]" lexi_db "\<lambda>_. True" 3 ex_sketch, OF _ ok] unfolding sorted
    by (auto simp: lexi_db_listed)
  have "map nc_creates out = map (rolled cnt_creates lexi_db Ever) (map nc_nsid out)" using out(3) by simp
  then have "map nc_creates out = [2, 1]" unfolding out(2) by (simp add: rolled_def opt_count_def lexi_db_lookup)
  with out(1,2) show ?thesis by (intro exI [of _ out]) simp
qed

end
