(* ===== verification/Fjall_Prefix.thy ===== *)
theory Fjall_Prefix
  imports Fjall_Lexi
begin

text \<open>
  The listing of the children of an NSID prefix.  Every collection under the prefix falls into one
  child, so the counts of the children add up to the counts of the prefix.
\<close>

section \<open>Children\<close>

text \<open>What atrium's \<open>Nsid::domain_authority\<close> returns: everything before the last dot.\<close>

definition before_last_dot :: "string \<Rightarrow> string" where
  "before_last_dot n = rev (tl (dropWhile (\<lambda>c. c \<noteq> CHR ''.'') (rev n)))"

lemma before_last_dot_append: "CHR ''.'' \<notin> set s \<Longrightarrow> before_last_dot (p @ CHR ''.'' # s) = p"
  by (simp add: before_last_dot_def dropWhile_append)

text \<open>The child of a prefix that a collection below it belongs to.\<close>

definition child_of :: "string \<Rightarrow> string \<Rightarrow> Child" where
  "child_of prefix n =
     (let suffix = drop (length prefix + 1) n
      in if CHR ''.'' \<in> set suffix then ChildPrefix (prefix @ ''.'' @ takeWhile (\<lambda>c. c \<noteq> CHR ''.'') suffix) else FullNsid n)"

lemma starts_with_append: "starts_with s p \<longleftrightarrow> (\<exists>t. s = p @ t)"
  by (auto simp: starts_with_def) (metis append_take_drop_id)

lemma child_from_prefix_below:
  assumes "starts_with n (terminated prefix)" "da n = before_last_dot n"
  shows "child_from_prefix da n prefix = Inr (Some (child_of prefix n))"
proof -
  obtain s where n: "n = prefix @ CHR ''.'' # s" using assms(1) by (auto simp: starts_with_append terminated_def)
  have group: "is_group_of da prefix n = Inr (prefix = da n)" by (simp add: is_group_of_def n starts_with_def)
  have suffix: "strip_prefix (prefix @ ''.'') n = Some s" by (simp add: strip_prefix_Some n)
  show ?thesis
  proof (cases "CHR ''.'' \<in> set s")
    case False
    then have "da n = prefix" unfolding assms(2) unfolding n by (simp add: before_last_dot_append)
    moreover have "child_of prefix n = FullNsid n" using False by (simp add: child_of_def n)
    ultimately show ?thesis by (simp add: child_from_prefix_def group)
  next
    case True
    then obtain a b where split: "s = a @ CHR ''.'' # b" "CHR ''.'' \<notin> set a" by (metis split_list_first)
    obtain c d where last: "s = c @ CHR ''.'' # d" "CHR ''.'' \<notin> set d" using True by (metis split_list_last)
    have "da n = prefix @ CHR ''.'' # c"
      using before_last_dot_append [OF last(2), of "prefix @ CHR ''.'' # c"] unfolding assms(2) by (simp add: n last(1))
    then have "prefix \<noteq> da n" by auto
    moreover have "takeWhile (\<lambda>c. c \<noteq> CHR ''.'') s = a"
      using split by (auto simp: takeWhile_tail takeWhile_eq_all_conv)
    with True have "child_of prefix n = ChildPrefix (prefix @ ''.'' @ a)" by (simp add: child_of_def n)
    moreover have "split_once CHR ''.'' s = Some (a, b)" using split by (simp add: split_once_Some)
    ultimately show ?thesis by (simp add: child_from_prefix_def group suffix)
  qed
qed

lemma child_iter_below:
  assumes "\<forall>kv \<in> set kvs. starts_with (fst kv) (terminated prefix) \<and> da (fst kv) = before_last_dot (fst kv)"
  shows "child_iter da prefix kvs = Inr (map (\<lambda>kv. (child_of prefix (fst kv), snd kv)) kvs)"
  using assms by (induction kvs) (simp_all add: child_from_prefix_below)

section \<open>The merge of children\<close>

definition heads :: "('c \<times> 'v) list list \<Rightarrow> 'c set" where
  "heads iters = (\<lambda>it. fst (hd it)) ` {it \<in> set iters. it \<noteq> []}"

definition childs :: "('c \<times> 'v) list list \<Rightarrow> 'c set" where
  "childs iters = (\<Union>it \<in> set iters. fst ` set it)"

abbreviation entries_left :: "('c \<times> 'v) list list \<Rightarrow> nat" where
  "entries_left iters \<equiv> sum_list (map length iters)"

lemma heads_simps [simp]:
  "heads [] = {}" "heads ([] # iters) = heads iters" "heads ((kv # it) # iters) = insert (fst kv) (heads iters)"
  by (auto simp: heads_def Collect_conj_eq Collect_disj_eq image_iff)

lemma childs_simps [simp]: "childs [] = {}" "childs (it # iters) = fst ` set it \<union> childs iters"
  by (simp_all add: childs_def)

lemma lowest_child_Some: "lowest_child iters low = Some m \<Longrightarrow> m \<in> heads iters \<or> low = Some m"
proof (induction iters low rule: lowest_child.induct)
  case (3 child v it iters low)
  then show ?case by (cases low) (auto split: if_splits)
qed auto

lemma lowest_child_None: "lowest_child iters low = None \<longleftrightarrow> low = None \<and> entries_left iters = 0"
proof (induction iters low rule: lowest_child.induct)
  case (3 child v it iters low)
  then show ?case by (cases low) auto
qed auto

lemma heads_childs: "m \<in> heads iters \<Longrightarrow> m \<in> childs iters"
  by (auto simp: heads_def childs_def intro!: bexI imageI hd_in_set)

lemma childs_None: "entries_left iters = 0 \<Longrightarrow> childs iters = {}"
  by (auto simp: childs_def)

text \<open>The counts still in the iterators.\<close>

definition weight :: "(CommitCounts \<Rightarrow> u64) \<Rightarrow> ('c \<times> 'sk CountsValue) list list \<Rightarrow> u64" where
  "weight p iters = sum_list (map (\<lambda>it. sum_list (map (\<lambda>kv. p (fst (snd kv))) it)) iters)"

lemma weight_simps [simp]:
  "weight p [] = 0" "weight p (it # iters) = sum_list (map (\<lambda>kv. p (fst (snd kv))) it) + weight p iters"
  by (simp_all add: weight_def)

abbreviation is_child :: "'c \<Rightarrow> 'c \<times> 'v \<Rightarrow> bool" where
  "is_child m \<equiv> (\<lambda>(c, _). c = m)"

lemma take_child_iters: "snd (take_child sk m iters acc) = map (dropWhile (is_child m)) iters"
  by (induction iters arbitrary: acc) (simp_all add: Let_def)

lemma childs_advance:
  "childs (map (dropWhile (is_child m)) iters) \<subseteq> childs iters"
  "childs iters \<subseteq> insert m (childs (map (dropWhile (is_child m)) iters))"
proof -
  have "fst ` set it \<subseteq> insert m (fst ` set (dropWhile (is_child m) it))" for it :: "('a \<times> 'b) list"
    by (induction it) auto
  then show "childs iters \<subseteq> insert m (childs (map (dropWhile (is_child m)) iters))" by (fastforce simp: childs_def)
  show "childs (map (dropWhile (is_child m)) iters) \<subseteq> childs iters"
    by (auto simp: childs_def dest!: set_dropWhileD intro: rev_image_eqI)
qed

lemma advance_shorter:
  "entries_left (map (dropWhile (is_child m)) iters) \<le> entries_left iters"
  "m \<in> heads iters \<Longrightarrow> entries_left (map (dropWhile (is_child m)) iters) < entries_left iters"
proof -
  show le: "entries_left (map (dropWhile (is_child m)) iters) \<le> entries_left iters" for iters :: "('a \<times> 'b) list list"
    by (simp add: comp_def sum_list_mono length_dropWhile_le)
  assume "m \<in> heads iters"
  then obtain it where "it \<in> set iters" "it \<noteq> []" "fst (hd it) = m" by (auto simp: heads_def)
  then obtain v rest xs ys where split: "iters = xs @ ((m, v) # rest) # ys" by (metis list.collapse prod.collapse split_list)
  have "length (dropWhile (is_child m) ((m, v) # rest)) < length ((m, v) # rest)"
    by (simp add: le_imp_less_Suc length_dropWhile_le)
  with le [of xs] le [of ys] show "entries_left (map (dropWhile (is_child m)) iters) < entries_left iters"
    unfolding split by simp
qed

lemma weight_None: "entries_left iters = 0 \<Longrightarrow> weight p iters = 0"
  by (induction iters) simp_all

text \<open>The item that is listed for a child, and what it says.\<close>

definition child_item :: "'sk SketchOps \<Rightarrow> Child \<Rightarrow> 'sk CountsValue \<Rightarrow> PrefixChild" where
  "child_item sk child merged =
     (case child of FullNsid n \<Rightarrow> Collection (nsid_count_new sk n merged) | ChildPrefix p \<Rightarrow> PrefixItem (prefix_count_new sk p merged))"

fun item_counts :: "PrefixChild \<Rightarrow> CommitCounts" where
  "item_counts (Collection c) = \<lparr>cnt_creates = nc_creates c, cnt_updates = nc_updates c, cnt_deletes = nc_deletes c\<rparr>"
| "item_counts (PrefixItem c) = \<lparr>cnt_creates = pc_creates c, cnt_updates = pc_updates c, cnt_deletes = pc_deletes c\<rparr>"

fun item_child :: "PrefixChild \<Rightarrow> Child" where
  "item_child (Collection c) = FullNsid (nc_nsid c)"
| "item_child (PrefixItem c) = ChildPrefix (pc_prefix c)"

lemma child_item_says [simp]:
  "item_counts (child_item sk m merged) = fst merged" "item_child (child_item sk m merged) = m"
  by (simp_all add: child_item_def nsid_count_new_def prefix_count_new_def split: Child.split)

lemma prefix_loop_step:
  assumes "lowest_child iters None = Some m" "prefix_loop sk (Suc limit) iters acc cur = (tot, items, cur')"
  obtains pc merged items' where "items = child_item sk m merged # items'"
    "prefix_loop sk limit (map (dropWhile (is_child m)) iters) pc (Some m) = (tot, items', cur')"
    "take_child sk m iters (acc, cv_default sk) = ((pc, merged), map (dropWhile (is_child m)) iters)"
proof -
  obtain pc merged where take: "take_child sk m iters (acc, cv_default sk) = ((pc, merged), map (dropWhile (is_child m)) iters)"
    using take_child_iters [of sk m iters "(acc, cv_default sk)"] by (metis prod.collapse)
  obtain t its c where rest: "prefix_loop sk limit (map (dropWhile (is_child m)) iters) pc (Some m) = (t, its, c)"
    by (metis prod.exhaust)
  have "items = child_item sk m merged # its" "t = tot" "c = cur'"
    using assms(2) by (simp_all add: assms(1) take rest child_item_def)
  with that [of merged its pc] rest take show thesis by simp
qed

context count_field
begin

lemma fold_merge_both:
  "p (fst (fst (fold (\<lambda>(_, counts) (a, b). (cv_merge sk a counts, cv_merge sk b counts)) kvs acc))) =
     p (fst (fst acc)) + sum_list (map (\<lambda>kv. p (fst (snd kv))) kvs)"
  "p (fst (snd (fold (\<lambda>(_, counts) (a, b). (cv_merge sk a counts, cv_merge sk b counts)) kvs acc))) =
     p (fst (snd acc)) + sum_list (map (\<lambda>kv. p (fst (snd kv))) kvs)"
  by (induction kvs arbitrary: acc) (auto simp: add.assoc split: prod.split)

lemma take_child_counts:
  "p (fst (fst (fst (take_child sk m iters acc)))) = p (fst (fst acc)) + weight p (map (takeWhile (is_child m)) iters)"
  "p (fst (snd (fst (take_child sk m iters acc)))) = p (fst (snd acc)) + weight p (map (takeWhile (is_child m)) iters)"
proof (induction iters arbitrary: acc)
  case (Cons it iters)
  {
    case 1
    show ?case using Cons.IH(1) by (simp add: Let_def fold_merge_both)
  next
    case 2
    show ?case using Cons.IH(2) by (simp add: Let_def fold_merge_both)
  }
qed simp_all

lemma weight_split:
  fixes iters :: "('a \<times> 'b CountsValue) list list"
  shows "weight p (map (takeWhile (is_child m)) iters) + weight p (map (dropWhile (is_child m)) iters) = weight p iters"
proof (induction iters)
  case (Cons it iters)
  have "sum_list (map (\<lambda>kv. p (fst (snd kv))) (takeWhile (is_child m) it)) +
      sum_list (map (\<lambda>kv. p (fst (snd kv))) (dropWhile (is_child m) it)) =
      sum_list (map (\<lambda>kv. p (fst (snd kv))) (takeWhile (is_child m) it @ dropWhile (is_child m) it))"
    by (simp only: map_append sum_list_append)
  then show ?case unfolding list.map weight_simps Cons.IH [symmetric] takeWhile_dropWhile_id by (simp only: ac_simps)
qed simp

lemma prefix_loop_counts:
  assumes "entries_left iters < limit" "prefix_loop sk limit iters acc cur = (tot, items, cur')"
  shows "p (fst tot) = p (fst acc) + weight p iters \<and> sum_list (map (\<lambda>i. p (item_counts i)) items) = weight p iters"
  using assms
proof (induction limit arbitrary: iters acc cur items)
  case (Suc limit)
  show ?case
  proof (cases "lowest_child iters None")
    case None
    with Suc.prems have "tot = acc" "items = []" by auto
    with None show ?thesis by (simp add: lowest_child_None weight_None)
  next
    case (Some m)
    then obtain pc merged items' where step: "items = child_item sk m merged # items'"
      "prefix_loop sk limit (map (dropWhile (is_child m)) iters) pc (Some m) = (tot, items', cur')"
      "take_child sk m iters (acc, cv_default sk) = ((pc, merged), map (dropWhile (is_child m)) iters)"
      using prefix_loop_step [OF Some Suc.prems(2)] by blast
    have "entries_left (map (dropWhile (is_child m)) iters) < limit"
      using advance_shorter(2) [of m iters] lowest_child_Some [OF Some] Suc.prems(1) by simp
    note IH = Suc.IH [OF this step(2)]
    have "p (fst pc) = p (fst acc) + weight p (map (takeWhile (is_child m)) iters)"
      "p (fst merged) = weight p (map (takeWhile (is_child m)) iters)"
      using take_child_counts [of sk m iters "(acc, cv_default sk)"] by (simp_all add: step(3))
    with IH show ?thesis using weight_split [of m iters] by (simp add: step(1) add.assoc)
  qed
qed simp

end

lemma prefix_loop_children:
  assumes "entries_left iters < limit" "prefix_loop sk limit iters acc cur = (tot, items, cur')"
  shows "item_child ` set items = childs iters \<and> cur' = None"
  using assms
proof (induction limit arbitrary: iters acc cur items)
  case (Suc limit)
  show ?case
  proof (cases "lowest_child iters None")
    case None
    with Suc.prems show ?thesis by (simp add: lowest_child_None childs_None)
  next
    case (Some m)
    then obtain pc merged items' where step: "items = child_item sk m merged # items'"
      "prefix_loop sk limit (map (dropWhile (is_child m)) iters) pc (Some m) = (tot, items', cur')"
      using prefix_loop_step [OF Some Suc.prems(2)] by blast
    have m: "m \<in> heads iters" using lowest_child_Some [OF Some] by simp
    have "entries_left (map (dropWhile (is_child m)) iters) < limit" using advance_shorter(2) [where m = m, OF m] Suc.prems(1) by simp
    from Suc.IH [OF this step(2)] show ?thesis
      using childs_advance [where m = m and iters = iters] heads_childs [OF m] by (auto simp: step(1))
  qed
qed simp

section \<open>Listing a prefix\<close>

definition below :: "string \<Rightarrow> CursorBucket list \<Rightarrow> 'sk FjallDb \<Rightarrow> string set" where
  "below prefix buckets db = {n \<in> listed buckets db. starts_with n (terminated prefix)}"

lemma concat_res_singletons: "concat_res (\<lambda>x. Inr [f x]) xs = Inr (map f xs)"
  by (induction xs) simp_all

lemma concat_res_cong: "(\<And>x. x \<in> set xs \<Longrightarrow> f x = g x) \<Longrightarrow> concat_res f xs = concat_res g xs"
  by (induction xs) simp_all

lemma lexi_iter_fst: "fst ` set (get_lexi_iter db b P) = {n. P n \<and> RBT.lookup (db_rollups db) (b, n) \<noteq> None}"
proof (intro set_eqI iffI)
  fix n assume "n \<in> {n. P n \<and> RBT.lookup (db_rollups db) (b, n) \<noteq> None}"
  then obtain v where "(n, v) \<in> set (get_lexi_iter db b P)" unfolding lexi_iter_entry by blast
  then show "n \<in> fst ` set (get_lexi_iter db b P)" by (rule image_eqI [rotated]) simp
qed (clarsimp simp: lexi_iter_entry)

lemma lexi_iter_sum:
  assumes "finite A" "{n. P n \<and> RBT.lookup (db_rollups db) (b, n) \<noteq> None} \<subseteq> A" "\<forall>n \<in> A. P n"
  shows "sum_list (map (\<lambda>kv. p (fst (snd kv))) (get_lexi_iter db b P)) = (\<Sum>n\<in>A. rolled p db b n)"
proof -
  let ?it = "get_lexi_iter db b P"
  have "map (\<lambda>kv. p (fst (snd kv))) ?it = map (rolled p db b) (map fst ?it)"
    by (auto simp: rolled_def opt_count_def lexi_iter_entry)
  moreover have "distinct (map fst ?it)" using lexi_iter_sorted [of db b P] by (simp add: strict_sorted_iff)
  ultimately have "sum_list (map (\<lambda>kv. p (fst (snd kv))) ?it) = sum (rolled p db b) (fst ` set ?it)"
    by (metis list.set_map sum_list_distinct_conv_sum_set)
  also have "\<dots> = (\<Sum>n\<in>A. rolled p db b n)"
    unfolding lexi_iter_fst using assms by (intro sum.mono_neutral_left) (auto simp: rolled_def opt_count_def split: option.splits)
  finally show ?thesis .
qed

lemma lexi_iter_card: "length (get_lexi_iter db b P) = card {n. P n \<and> RBT.lookup (db_rollups db) (b, n) \<noteq> None}"
proof -
  have "distinct (map fst (get_lexi_iter db b P))" using lexi_iter_sorted [of db b P] by (simp add: strict_sorted_iff)
  from distinct_card [OF this] show ?thesis by (simp add: lexi_iter_fst)
qed

lemma sum_list_sum: "sum_list (map (\<lambda>b. \<Sum>n\<in>A. f b n) bs) = (\<Sum>n\<in>A. sum_list (map (\<lambda>b. f b n) bs))"
  by (induction bs) (simp_all add: sum.distrib)

lemma listed_bucket: "b \<in> set buckets \<Longrightarrow> {n. P n \<and> RBT.lookup (db_rollups db) (rollup_of_bucket b, n) \<noteq> None} \<subseteq> {n \<in> listed buckets db. P n}"
  by (auto simp: listed_def)

text \<open>The iterators of a prefix listing.\<close>

definition prefix_iters :: "string \<Rightarrow> CursorBucket list \<Rightarrow> 'sk FjallDb \<Rightarrow> (Child \<times> 'sk CountsValue) list list" where
  "prefix_iters prefix buckets db =
     map (\<lambda>b. map (\<lambda>kv. (child_of prefix (fst kv), snd kv))
       (get_lexi_iter db (rollup_of_bucket b) (\<lambda>n. starts_with n (terminated prefix)))) buckets"

lemma prefix_iters_weight:
  "weight p (prefix_iters prefix buckets db) =
     (\<Sum>n\<in>below prefix buckets db. sum_list (map (\<lambda>b. rolled p db (rollup_of_bucket b) n) buckets))"
proof -
  have "sum_list (map (\<lambda>kv. p (fst (snd kv))) (get_lexi_iter db (rollup_of_bucket b) (\<lambda>n. starts_with n (terminated prefix)))) =
      (\<Sum>n\<in>below prefix buckets db. rolled p db (rollup_of_bucket b) n)" if "b \<in> set buckets" for b
    unfolding below_def by (rule lexi_iter_sum) (use listed_bucket [OF that] finite_listed [of buckets db] in simp_all)
  then show ?thesis
    by (simp add: weight_def prefix_iters_def comp_def sum_list_sum [symmetric] cong: map_cong)
qed

lemma prefix_iters_left: "entries_left (prefix_iters prefix buckets db) \<le> length buckets * card (listed buckets db)"
proof -
  have "length (get_lexi_iter db (rollup_of_bucket b) P) \<le> card (listed buckets db)" if "b \<in> set buckets" for b P
    unfolding lexi_iter_card using listed_bucket [OF that, of P db] by (intro card_mono finite_listed) auto
  then have "entries_left (prefix_iters prefix buckets db) \<le> sum_list (map (\<lambda>_. card (listed buckets db)) buckets)"
    by (simp add: prefix_iters_def comp_def sum_list_mono del: sum_list_triv)
  then show ?thesis by (simp add: sum_list_triv)
qed

lemma prefix_iters_childs: "childs (prefix_iters prefix buckets db) = child_of prefix ` below prefix buckets db"
proof -
  have "childs (prefix_iters prefix buckets db) =
      (\<Union>b \<in> set buckets. child_of prefix ` fst ` set (get_lexi_iter db (rollup_of_bucket b) (\<lambda>n. starts_with n (terminated prefix))))"
    by (simp add: childs_def prefix_iters_def image_image)
  then show ?thesis unfolding lexi_iter_fst by (auto simp: below_def listed_def)
qed

lemma get_lexi_prefix_first:
  assumes "NUL \<notin> set prefix" "\<forall>n \<in> listed buckets db. da n = before_last_dot n"
  shows "get_lexi_prefix sk da prefix limit None buckets db =
    (let (prefix_count, items, current_child) = prefix_loop sk limit (prefix_iters prefix buckets db) (cv_default sk) None
     in and_then (opt_res (\<lambda>c. db_result (string_to_db_bytes (child_into_inner c))) current_child) (\<lambda>next_cursor.
          Inr (just_count_from sk prefix_count, items, next_cursor)))"
proof -
  let ?P = "\<lambda>n. starts_with n (terminated prefix)"
  have sub: "string_sub_prefix (terminated prefix) = Inr (terminated prefix)"
    using assms(1) by (simp add: string_sub_prefix_def terminated_def)
  have "child_iter da prefix (get_lexi_iter db (rollup_of_bucket b) ?P) =
      Inr (map (\<lambda>kv. (child_of prefix (fst kv), snd kv)) (get_lexi_iter db (rollup_of_bucket b) ?P))" if "b \<in> set buckets" for b
  proof (rule child_iter_below, intro ballI conjI)
    fix kv assume "kv \<in> set (get_lexi_iter db (rollup_of_bucket b) ?P)"
    then have "fst kv \<in> fst ` set (get_lexi_iter db (rollup_of_bucket b) ?P)" by (rule imageI)
    then have "fst kv \<in> {n \<in> listed buckets db. ?P n}" unfolding lexi_iter_fst using listed_bucket [OF that] by blast
    then show "?P (fst kv)" "da (fst kv) = before_last_dot (fst kv)" using assms(2) by simp_all
  qed
  then have "map_sum id (\<lambda>it. [it]) (child_iter da prefix (get_lexi_iter db (rollup_of_bucket b) ?P)) =
      Inr [map (\<lambda>kv. (child_of prefix (fst kv), snd kv)) (get_lexi_iter db (rollup_of_bucket b) ?P)]" if "b \<in> set buckets" for b
    using that by simp
  then have "concat_res (\<lambda>b. map_sum id (\<lambda>it. [it]) (child_iter da prefix (get_lexi_iter db (rollup_of_bucket b) ?P))) buckets =
      Inr (prefix_iters prefix buckets db)"
    unfolding prefix_iters_def by (rule trans [OF concat_res_cong concat_res_singletons])
  then show ?thesis by (simp add: get_lexi_prefix_def sub db_result_def)
qed


text \<open>Two collections below a prefix, one of them two levels down.\<close>

definition prefix_db :: "string list FjallDb" where
  "prefix_db = db_empty\<lparr>db_rollups :=
     RBT.insert (Ever, ''a.b.c'') (\<lparr>cnt_creates = 2, cnt_updates = 1, cnt_deletes = 0\<rparr>, [])
       (RBT.insert (Ever, ''a.b.d.e'') (\<lparr>cnt_creates = 1, cnt_updates = 0, cnt_deletes = 1\<rparr>, []) RBT.empty)\<rparr>"

lemma prefix_db_lookup:
  "RBT.lookup (db_rollups prefix_db) (Ever, n) =
    (if n = ''a.b.c'' then Some (\<lparr>cnt_creates = 2, cnt_updates = 1, cnt_deletes = 0\<rparr>, [])
     else if n = ''a.b.d.e'' then Some (\<lparr>cnt_creates = 1, cnt_updates = 0, cnt_deletes = 1\<rparr>, []) else None)"
  by (simp add: prefix_db_def)

lemma prefix_db_listed: "listed [AllTime] prefix_db = {''a.b.c'', ''a.b.d.e''}"
  by (auto simp: listed_def prefix_db_lookup)


definition hyphen_db :: "unit FjallDb" where
  "hyphen_db = (let v = (\<lparr>cnt_creates = 1, cnt_updates = 0, cnt_deletes = 0\<rparr>, ()) in db_empty\<lparr>db_rollups :=
     RBT.insert (Hourly 0, ''a.b.c.x'') v (RBT.insert (Hourly 0, ''a.b.c-d.x'') v
       (RBT.insert (Weekly 0, ''a.b.c.x'') v RBT.empty))\<rparr>)"

definition unit_sketch :: "unit SketchOps" where
  "unit_sketch = \<lparr>sk_default = (), sk_insert_did = (\<lambda>_ _. ()), sk_merge = (\<lambda>_ _. ()), sk_estimate = (\<lambda>_. 0)\<rparr>"

text \<open>
  A child can be listed twice.  Children are ordered by their names, \<open>a.b.c < a.b.c-d\<close>, but the
  collections below them are ordered the other way, \<open>a.b.c-d.x < a.b.c.x\<close>, since the hyphen sorts
  before the dot.  With two buckets, where one holds both children and the other the second only, the
  page lists the child \<open>a.b.c\<close> twice, each time with a part of its counts.
\<close>

theorem prefix_child_listed_twice:
  "map_sum id (\<lambda>(jc, items, cur). map item_child items)
      (get_lexi_prefix unit_sketch before_last_dot ''a.b'' 9 None [Hour 0, Week 0] hyphen_db) =
    Inr [ChildPrefix ''a.b.c'', ChildPrefix ''a.b.c-d'', ChildPrefix ''a.b.c'']"
  by code_simp

end
