(* ===== verification/Ufos_Api.thy ===== *)
theory Ufos_Api
  imports Ufos_Serve Fjall_Prefix
begin

text \<open>
  What the HTTP interface of \<open>ufos\<close> shows: that a client who follows the cursors of
  \<open>/collections\<close> sees every collection once with the counts of the events received, what the
  request checks guarantee to the storage, and where an answer is an error that the documentation
  does not announce.
\<close>

section \<open>From events to counts\<close>

fun inserts :: "'sk StoreOp list \<Rightarrow> 'sk EventBatch list" where
  "inserts [] = []"
| "inserts (OpInsert eb # ops) = eb # inserts ops"
| "inserts (_ # ops) = inserts ops"

lemma count_batch_tally:
  assumes "hm_inv (eb_commits_by_nsid eb)"
  shows "count (batch_tally eb) (n, k) =
    (case hm_get (eb_commits_by_nsid eb) n of None \<Rightarrow> 0 | Some cc \<Rightarrow> count (cc_tally cc) k)"
proof -
  have pair: "count (image_mset (Pair m) M) (n, k) = (if m = n then count M k else 0)" for m and M :: "CommitKind multiset"
    by (induction M) auto
  have "distinct (map fst m) \<Longrightarrow> count (entry_sum (\<lambda>(n, cc). image_mset (Pair n) (cc_tally cc)) m) (n, k) =
      (case hm_get m n of None \<Rightarrow> 0 | Some cc \<Rightarrow> count (cc_tally cc) k)" for m :: "(string, 'a CollectionCommits) hashmap"
  proof (induction m)
    case (Cons e m)
    obtain m1 cc where e: "e = (m1, cc)" by force
    have none: "m1 = n \<Longrightarrow> hm_get m n = None"
      using Cons.prems e by (force simp: hm_get_def map_of_eq_None_iff)
    show ?case using Cons none by (auto simp: e entry_sum_def pair hm_get_def split: option.split)
  qed (simp add: entry_sum_def hm_get_def)
  with assms show ?thesis by (simp add: batch_tally_def hm_inv_def)
qed

lemma inserted_tally:
  fixes sk :: "'sk SketchOps"
  assumes "\<And>cc :: 'sk CollectionCommits. p (fst (counts_value cc)) = of_nat (count (cc_tally cc) k)"
    and "fold_res (store_op sk) ops db = Inr db'" "ops_ordered js ops"
  shows "inserted p Ever n ops = of_nat (count (sum_list (map batch_tally (inserts ops))) (n, k))"
  using assms(2,3)
proof (induction ops arbitrary: db js)
  case (Cons x ops)
  then obtain db1 where x: "store_op sk x db = Inr db1" and rest: "fold_res (store_op sk) ops db1 = Inr db'"
    by (auto split: sum.splits)
  show ?case
  proof (cases x)
    case (OpInsert eb)
    have inv: "hm_inv (eb_commits_by_nsid eb)" using Cons.prems(2) OpInsert by (simp add: batch_after_def)
    have "(if batch_is_empty eb then 0 else batch_share p Ever n eb) = of_nat (count (batch_tally eb) (n, k))"
    proof (cases "batch_is_empty eb")
      case True
      then show ?thesis by (simp add: count_batch_tally [OF inv] batch_is_empty_def hm_get_def)
    next
      case False
      with x OpInsert obtain l where "latest_cursor eb = Some l"
        by (cases "latest_cursor eb") (simp_all add: insert_batch_def)
      with False show ?thesis by (simp add: count_batch_tally [OF inv] batch_share_def assms(1) split: option.split)
    qed
    moreover have "inserted p Ever n ops = of_nat (count (sum_list (map batch_tally (inserts ops))) (n, k))"
      using Cons.IH [OF rest] Cons.prems(2) OpInsert by auto
    ultimately show ?thesis using OpInsert by simp
  qed (use Cons.IH [OF rest] Cons.prems(2) in auto)
qed simp

lemma counts_value_tally:
  "cnt_creates (fst (counts_value cc)) = of_nat (count (cc_tally cc) Created)"
  "cnt_updates (fst (counts_value cc)) = of_nat (count (cc_tally cc) Updated)"
  "cnt_deletes (fst (counts_value cc)) = of_nat (count (cc_tally cc) Deleted)"
  by (simp_all add: counts_value_def count_cc_tally)

text \<open>The all-time counts of a database whose background work has caught up.\<close>

lemma rolled_tally:
  fixes sk :: "'sk SketchOps"
  assumes "fjall_init endpoint force now (Some secret) db_empty = (Inr opened, db0)"
    and "fold_res (store_op sk) ops db0 = Inr db" "ops_ordered cursor_from_start ops"
    and "RBT.entries (db_live_counts db) = []"
  shows "rolled cnt_creates db Ever n = of_nat (count (sum_list (map batch_tally (inserts ops))) (n, Created))"
    "rolled cnt_updates db Ever n = of_nat (count (sum_list (map batch_tally (inserts ops))) (n, Updated))"
    "rolled cnt_deletes db Ever n = of_nat (count (sum_list (map batch_tally (inserts ops))) (n, Deleted))"
proof -
  have db0: "db0 = db_fresh sk endpoint now secret"
    using assms(1) by (auto simp: db_fresh_def fjall_init_def init_fresh_def init_static_neu_def db_empty_def)
  have ok0: "db_ok sk db0" and js: "last_js db0 = cursor_from_start" and zero: "counted p db0 b n = 0" for p b
    unfolding db0 by (simp_all add: db_fresh_ok)
  have rolled: "rolled p db Ever n = inserted p Ever n ops" if "count_field p" for p
    using count_field.run_counts [OF that ok0 assms(2) assms(3) [folded js], of Ever n] zero assms(4)
    by (simp add: counted_def waiting_def tree_sum_def)
  note tally = inserted_tally [OF _ assms(2,3), of _ _ n]
  show "rolled cnt_creates db Ever n = of_nat (count (sum_list (map batch_tally (inserts ops))) (n, Created))"
    "rolled cnt_updates db Ever n = of_nat (count (sum_list (map batch_tally (inserts ops))) (n, Updated))"
    "rolled cnt_deletes db Ever n = of_nat (count (sum_list (map batch_tally (inserts ops))) (n, Deleted))"
    using rolled [OF creates.count_field_axioms] rolled [OF updates.count_field_axioms]
      rolled [OF deletes.count_field_axioms] tally counts_value_tally by auto
qed

text \<open>The collections a database has counts for are those of the batches inserted.\<close>

definition nsids_of :: "'sk FjallDb \<Rightarrow> string set" where
  "nsids_of db = snd ` dom (RBT.lookup (db_live_counts db)) \<union> snd ` dom (RBT.lookup (db_rollups db))"

lemma gather_keys:
  "hm_get (g_counts_by_rollup (fold (\<lambda>((c, m), v). gather_one sk c m v) kvs g)) (n, b) \<noteq> None \<Longrightarrow>
     hm_get (g_counts_by_rollup g) (n, b) \<noteq> None \<or> n \<in> (snd \<circ> fst) ` set kvs"
proof (induction kvs arbitrary: g)
  case (Cons kv kvs)
  obtain c m v where kv: "kv = ((c, m), v)" by (metis surj_pair)
  have "hm_get (g_counts_by_rollup (gather_one sk c m v g)) (n, b) \<noteq> None \<Longrightarrow>
      hm_get (g_counts_by_rollup g) (n, b) \<noteq> None \<or> n = m"
    by (auto simp: gather_one_def merge_entry_def split: if_splits)
  with Cons.IH [of "gather_one sk c m v g"] Cons.prems show ?case by (auto simp: kv)
qed simp

lemma step_rollup_nsids:
  assumes "cursors_ok db" "step_rollup sk db = Inr (n, dirty, db')"
  shows "nsids_of db' \<subseteq> nsids_of db"
  using assms(1)
proof (cases rule: step_rollup_cases [where sk = sk])
  case Idle
  with assms(2) show ?thesis by simp
next
  case (Live n2 dirty2 db2 limit)
  let ?ts = "RBT.entries (db_live_counts db)"
  let ?kvs = "gathered limit MAX_BATCHED_ROLLUP_COUNTS ?ts"
  have run: "rollup_live_counts sk ?ts limit MAX_BATCHED_ROLLUP_COUNTS db = (n, dirty, db')" using Live assms(2) by simp
  note effect = rollup_live_counts_effect [OF run]
  have kvs: "(snd \<circ> fst) ` set ?kvs \<subseteq> snd ` dom (RBT.lookup (db_live_counts db))"
  proof
    fix m assume "m \<in> (snd \<circ> fst) ` set ?kvs"
    then obtain kv where kv: "kv \<in> set ?kvs" "m = snd (fst kv)" by auto
    have "kv \<in> set ?ts" using kv(1) gathered_set by blast
    from entry_dom [OF this] kv(2) show "m \<in> snd ` dom (RBT.lookup (db_live_counts db))" by (rule rev_image_eqI)
  qed
  have "snd ` dom (RBT.lookup (db_live_counts db')) \<subseteq> snd ` dom (RBT.lookup (db_live_counts db))"
    unfolding effect(3) by (auto simp: lookup_delete_keys)
  moreover have "m \<in> nsids_of db" if "RBT.lookup (db_rollups db') (b, m) \<noteq> None" for b m
  proof (cases "RBT.lookup (db_rollups db) (b, m)")
    case None
    with that effect(4) [of b m]
    have "hm_get (g_counts_by_rollup (fold (\<lambda>((c, m), v). gather_one sk c m v) ?kvs gather_start)) (m, b) \<noteq> None"
      by (auto split: option.splits)
    from gather_keys [OF this] kvs show ?thesis by (auto simp: gather_start_def nsids_of_def hm_get_def)
  qed (force simp: nsids_of_def)
  then have "snd ` dom (RBT.lookup (db_rollups db')) \<subseteq> nsids_of db" by fastforce
  ultimately show ?thesis unfolding nsids_of_def [of db'] unfolding nsids_of_def by blast
next
  case (Delete d did rest db2)
  then have "rollup_delete_account d did db = (1, db')" using assms(2) by simp
  from rollup_delete_account_frame [OF this] show ?thesis by (simp add: nsids_of_def)
qed

lemma run_nsids:
  assumes "db_ok sk db" "fold_res (store_op sk) ops db = Inr db'" "ops_ordered (last_js db) ops"
  shows "nsids_of db' \<subseteq> nsids_of db \<union> (\<Union>eb \<in> set (inserts ops). fst ` set (eb_commits_by_nsid eb))"
  using assms
proof (induction ops arbitrary: db)
  case (Cons x ops)
  then obtain db1 where x: "store_op sk x db = Inr db1" "fold_res (store_op sk) ops db1 = Inr db'"
    by (auto split: sum.splits)
  have ok1: "db_ok sk db1" "ops_ordered (last_js db1) ops" using store_op_ok [OF Cons.prems(1) x(1) Cons.prems(3)] by simp_all
  have "nsids_of db1 \<subseteq> nsids_of db \<union> (\<Union>eb \<in> set (inserts [x]). fst ` set (eb_commits_by_nsid eb))"
  proof (cases x)
    case (OpInsert eb)
    then have ins: "insert_batch eb db = Inr db1" using x by simp
    show ?thesis
    proof (cases "batch_is_empty eb")
      case True
      with ins show ?thesis by (simp add: insert_batch_def)
    next
      case False
      show ?thesis
        by (rule insert_batch_effect [OF ins False])
          (auto simp: nsids_of_def dom_insert_live OpInsert image_Un image_image simp del: domIff)
    qed
  next
    case OpRollup
    with x obtain n dirty where "step_rollup sk db = Inr (n, dirty, db1)" by (cases "step_rollup sk db") auto
    with step_rollup_nsids [of db] Cons.prems(1) OpRollup show ?thesis by (simp add: db_ok_def)
  next
    case (OpTrim m limit full)
    with x feeds_only_frame [OF trim_collection_frame [of db m limit full]] show ?thesis by (simp add: nsids_of_def)
  qed
  moreover have "set (inserts (x # ops)) = set (inserts [x]) \<union> set (inserts ops)" by (cases x) auto
  ultimately show ?case using Cons.IH [OF ok1(1) x(2) ok1(2)] by auto
qed simp

lemma fresh_run_nsids:
  assumes "fjall_init endpoint force now (Some secret) db_empty = (Inr opened, db0)"
    and "fold_res (store_op sk) ops db0 = Inr db" "ops_ordered cursor_from_start ops"
  shows "nsids_of db \<subseteq> (\<Union>eb \<in> set (inserts ops). fst ` set (eb_commits_by_nsid eb))"
proof -
  have db0: "db0 = db_fresh sk endpoint now secret"
    using assms(1) by (auto simp: db_fresh_def fjall_init_def init_fresh_def init_static_neu_def db_empty_def)
  have "nsids_of db0 = {}"
    using assms(1) by (auto simp: nsids_of_def fjall_init_def init_fresh_def init_static_neu_def db_empty_def)
  moreover have "db_ok sk db0" "last_js db0 = cursor_from_start" unfolding db0 by (simp_all add: db_fresh_ok)
  ultimately show ?thesis using run_nsids [OF _ assms(2), of] assms(3) by auto
qed

text \<open>The collections of a run of the batcher, all of them stored.\<close>

lemma batch_nsids: "batch_inv eb \<Longrightarrow> fst ` set (eb_commits_by_nsid eb) = fst ` set_mset (batch_tally eb)"
proof -
  have "fst ` set m = fst ` set_mset (entry_sum (\<lambda>(n, cc). image_mset (Pair n) (cc_tally cc)) m)"
    if "\<forall>(n, cc) \<in> set m. cc_tally cc \<noteq> {#}" for m :: "(string, 'a CollectionCommits) hashmap"
    using that
  proof (induction m)
    case (Cons e m)
    obtain n cc where e: "e = (n, cc)" by force
    have "fst ` (Pair n) ` set_mset (cc_tally cc) = {n}" using Cons.prems e by (simp add: image_image image_constant_conv)
    moreover have "fst ` set m = fst ` set_mset (entry_sum (\<lambda>(n, cc). image_mset (Pair n) (cc_tally cc)) m)"
      using Cons by simp
    ultimately show ?case by (simp add: entry_sum_def e image_Un)
  qed (simp add: entry_sum_def)
  moreover assume "batch_inv eb"
  then have "\<forall>(n, cc) \<in> set (eb_commits_by_nsid eb). cc_tally cc \<noteq> {#}" by (auto simp: batch_inv_def)
  ultimately show ?thesis by (simp add: batch_tally_def)
qed

section \<open>Following the cursors\<close>

definition collections_query :: "nat \<Rightarrow> string option \<Rightarrow> CollectionsQuery" where
  "collections_query limit cursor =
     \<lparr>co_limit = Some limit, co_cursor = cursor, co_since = None, co_until = None, co_order = None\<rparr>"

text \<open>A client of \<open>/collections\<close>; the fuel is the number of requests it may make.\<close>

fun follow_collections :: "nat \<Rightarrow> (string option \<Rightarrow> (NsidCount list \<times> string option) Handled) \<Rightarrow> string option \<Rightarrow>
    NsidCount list option" where
  "follow_collections 0 ask cur = None"
| "follow_collections (Suc fuel) ask cur =
     (case ask cur of
        Answer (page, None) \<Rightarrow> Some page
      | Answer (page, Some c) \<Rightarrow> map_option ((@) page) (follow_collections fuel ask (Some c))
      | _ \<Rightarrow> None)"

definition b64_ok :: "UfosEnv \<Rightarrow> bool" where
  "b64_ok env \<longleftrightarrow> (\<forall>b. ue_b64_decode env (ue_b64_encode env b) = Some b \<and> (b \<noteq> [] \<longrightarrow> ue_b64_encode env b \<noteq> []))"

lemma ask_collections:
  assumes "b64_ok env" "1 \<le> limit" "limit \<le> 200" "c \<noteq> Some []"
  shows "ufos_get_collections sk env (collections_query limit (map_option (ue_b64_encode env) c)) db =
    of_storage (get_lexi_collections sk (ue_nsid_new env) limit c [AllTime] db)
      (\<lambda>(page, nxt). Answer (page, map_option (ue_b64_encode env) nxt))"
proof -
  have "query_order env (collections_query limit (map_option (ue_b64_encode env) c)) = Some (Lexi c)"
    using assms(1,4) by (cases c) (simp_all add: query_order_def collections_query_def transposed_def b64_ok_def)
  moreover have "query_limit (collections_query limit (map_option (ue_b64_encode env) c)) = Some limit"
    using assms(2,3) by (simp add: query_limit_def collections_query_def)
  ultimately show ?thesis
    by (simp add: ufos_get_collections_def list_request_def checked_def transposed_def collections_query_def
        get_collections_def with_buckets_def of_spanning_def)
qed

lemma lexi_cursor_nonempty:
  assumes "get_lexi_collections sk nsid_new limit c buckets db = Inr (page, Some c')"
  shows "c' \<noteq> []"
proof -
  from assms obtain n where "opt_res (\<lambda>n. db_result (nsid_to_db_bytes n)) n = Inr (Some c')"
    by (auto simp: get_lexi_collections_def and_then_Inr Let_def case_prod_unfold)
  then show ?thesis
    by (cases n) (auto simp: nsid_to_db_bytes_def string_to_db_bytes_def db_result_def split: if_splits)
qed

lemma follow_collections_pages:
  assumes "b64_ok env" "1 \<le> limit" "limit \<le> 200"
  shows "c \<noteq> Some [] \<Longrightarrow>
    follow_collections fuel (\<lambda>cur. ufos_get_collections sk env (collections_query limit cur) db) (map_option (ue_b64_encode env) c) =
    lexi_pages sk (ue_nsid_new env) limit [AllTime] db fuel c"
proof (induction fuel arbitrary: c)
  case (Suc fuel)
  note ask = ask_collections [OF assms Suc.prems, of sk db]
  show ?case
  proof (cases "get_lexi_collections sk (ue_nsid_new env) limit c [AllTime] db")
    case (Inr r)
    obtain page nxt where r: "r = (page, nxt)" by force
    show ?thesis
    proof (cases nxt)
      case (Some c')
      with Inr r have "c' \<noteq> []" using lexi_cursor_nonempty by blast
      then have "follow_collections fuel (\<lambda>cur. ufos_get_collections sk env (collections_query limit cur) db)
          (map_option (ue_b64_encode env) (Some c')) = lexi_pages sk (ue_nsid_new env) limit [AllTime] db fuel (Some c')"
        by (intro Suc.IH) simp
      with Some Inr r ask show ?thesis by simp
    qed (use Inr r ask in simp)
  qed (use ask in simp)
qed simp

text \<open>
  C3. UFOs from end to end: after any events, batched by the consumer and stored, with the
  background work caught up, a client that follows the cursors of \<open>/collections\<close> sees exactly the
  collections there were commits for, once each and in order, and for each the numbers of creates,
  updates and deletes received.
\<close>

theorem ufos_counts_events:
  fixes sk :: "'sk SketchOps"
  assumes "batcher_run sk inputs batcher_new = Inr s" "bt_batch s = eb_default"
    and "fjall_init endpoint force now (Some secret) db_empty = (Inr opened, db0)"
    and "fold_res (store_op sk) ops db0 = Inr db" "ops_ordered cursor_from_start ops" "inserts ops = bt_sent s"
    and "RBT.entries (db_live_counts db) = []" and "length (commits_in inputs) < 2 ^ 64"
    and "b64_ok env" "1 \<le> limit" "limit \<le> 200" and "\<forall>n \<in> fst ` set (commits_in inputs). str_ok n \<and> ue_nsid_new env n"
  shows "\<exists>fuel out.
    follow_collections fuel (\<lambda>cur. ufos_get_collections sk env (collections_query limit cur) db) None = Some out \<and>
    map nc_nsid out = sorted_list_of_set (fst ` set (commits_in inputs)) \<and>
    (\<forall>x \<in> set out.
       unat (nc_creates x) = count (tally_of (commits_in inputs)) (nc_nsid x, Created) \<and>
       unat (nc_updates x) = count (tally_of (commits_in inputs)) (nc_nsid x, Updated) \<and>
       unat (nc_deletes x) = count (tally_of (commits_in inputs)) (nc_nsid x, Deleted))"
proof -
  let ?T = "tally_of (commits_in inputs)"
  have "grows batcher_new (commits_in inputs) (removals_in inputs) s"
    by (rule batcher_run_grows [OF bt_inv_new assms(1)])
  then have "all_tally s = ?T" and inv: "\<forall>eb \<in> set (inserts ops). batch_inv eb"
    using assms(6) by (simp_all add: grows_def all_tally_def batcher_new_def bt_inv_def)
  then have T: "sum_list (map batch_tally (inserts ops)) = ?T" using assms(2,6) by (simp add: all_tally_def)
  have small: "count ?T x < 2 ^ 64" for x
    using count_le_size [of ?T x] assms(8) by (simp add: tally_of_def)
  have size: "unat (of_nat (count ?T x) :: u64) = count ?T x" for x
    using small by (simp add: unat_of_nat_u64)
  note rolled = rolled_tally [OF assms(3-5,7), unfolded T]
  have "n \<in> listed [AllTime] db" if n: "n \<in> fst ` set (commits_in inputs)" for n
  proof -
    from n obtain k where "(n, k) \<in># ?T" by (force simp: tally_of_def)
    then have "of_nat (count ?T (n, k)) \<noteq> (0 :: u64)" using size [of "(n, k)"] by (metis count_greater_zero_iff less_numeral_extra(3) unat_0)
    then have "RBT.lookup (db_rollups db) (Ever, n) \<noteq> None"
      using rolled [of n] by (cases k) (auto simp: rolled_def opt_count_def split: option.splits)
    then show ?thesis by (simp add: listed_def)
  qed
  moreover have "listed [AllTime] db \<subseteq> fst ` set (commits_in inputs)"
  proof -
    have "set_mset (sum_list (map batch_tally ebs)) = (\<Union>eb \<in> set ebs. set_mset (batch_tally eb))" for ebs :: "'sk EventBatch list"
      by (induction ebs) auto
    then have "(\<Union>eb \<in> set (inserts ops). fst ` set (eb_commits_by_nsid eb)) = fst ` set_mset ?T"
      using inv unfolding T [symmetric] by (auto simp: batch_nsids image_UN)
    also have "\<dots> = fst ` set (commits_in inputs)" by (simp add: tally_of_def image_image case_prod_unfold)
    finally have "nsids_of db \<subseteq> fst ` set (commits_in inputs)" using fresh_run_nsids [OF assms(3-5)] by simp
    moreover have "listed [AllTime] db \<subseteq> nsids_of db" unfolding listed_def nsids_of_def by force
    ultimately show ?thesis by blast
  qed
  ultimately have listed: "listed [AllTime] db = fst ` set (commits_in inputs)" by blast
  let ?fuel = "Suc (card (listed [AllTime] db))"
  obtain out where out: "lexi_pages sk (ue_nsid_new env) limit [AllTime] db ?fuel None = Some out"
    "map nc_nsid out = sorted_list_of_set (listed [AllTime] db)" "\<forall>x \<in> set out. lexi_counted [AllTime] db x"
    using lexi_pages_from [OF assms(12) [folded listed], of limit None ?fuel sk] assms(10) finite_listed [of "[AllTime]" db]
    by (auto simp: cursor_bytes_def after_def)
  have "\<forall>x \<in> set out.
       unat (nc_creates x) = count ?T (nc_nsid x, Created) \<and> unat (nc_updates x) = count ?T (nc_nsid x, Updated) \<and>
       unat (nc_deletes x) = count ?T (nc_nsid x, Deleted)"
    using out(3) rolled size by (simp add: lexi_counted_def)
  moreover have "follow_collections ?fuel (\<lambda>cur. ufos_get_collections sk env (collections_query limit cur) db) None = Some out"
    using follow_collections_pages [OF assms(9-11), of None ?fuel sk db] out(1) by simp
  ultimately show ?thesis using out(2) unfolding listed by blast
qed

definition ex_ufos_env :: UfosEnv where
  "ex_ufos_env = \<lparr>ue_now = 700000000000, ue_nsid_new = \<lambda>_. True, ue_domain_authority = id, ue_b64_decode = Some,
     ue_b64_encode = id, ue_datetime_ok = \<lambda>_. True, ue_set_order = id\<rparr>"

lemma ex_env_b64: "b64_ok ex_ufos_env"
  by (simp add: b64_ok_def ex_ufos_env_def)

definition ex_cc :: "string list CollectionCommits" where
  "ex_cc = \<lparr>cc_creates = 1, cc_updates = 0, cc_deletes = 1, cc_dids_estimate = [''d''],
     cc_commits = [\<lparr>uc_cursor = 5, uc_did = ''d'', uc_rkey = ''k'', uc_rev = ''r'', uc_action = Put ''{}'' False\<rparr>,
       \<lparr>uc_cursor = 3000005, uc_did = ''d'', uc_rkey = ''k'', uc_rev = ''r'', uc_action = Cut\<rparr>], cc_head = 0\<rparr>"

definition ex_eb :: "string list EventBatch" where
  "ex_eb = \<lparr>eb_commits_by_nsid = [(''a.b.c'', ex_cc)], eb_account_removes = []\<rparr>"

lemma ex_batcher_run:
  "batcher_run ex_sketch ex_inputs batcher_new =
     Inr \<lparr>bt_initial_cursor = None, bt_batch = eb_default, bt_sent = [ex_eb]\<rparr>"
  by (simp add: batcher_eval ex_eb_def ex_cc_def)

lemma ex_ufos_db:
  "\<exists>k db. fold_res (store_op ex_sketch) (OpInsert ex_eb # replicate k OpRollup) (db_fresh ex_sketch ''ep'' 1 ''s'') = Inr db \<and>
     RBT.entries (db_live_counts db) = []"
proof -
  have ord: "ops_ordered cursor_from_start [OpInsert ex_eb]" "ops_encodable [OpInsert ex_eb]" by code_simp+
  obtain db where run: "fold_res (store_op ex_sketch) [OpInsert ex_eb] (db_fresh ex_sketch ''ep'' 1 ''s'') = Inr db"
    using run_returns [OF db_fresh_ok [of ex_sketch "''ep''" 1 "''s''"], of "[OpInsert ex_eb]"] ord
    by (simp del: fold_res.simps ops_ordered.simps ops_encodable.simps) blast
  have "db_ok ex_sketch db" by (rule run_ok [OF db_fresh_ok run]) (use ord in simp)
  then obtain k db' where k: "fold_res (store_op ex_sketch) (replicate k OpRollup) db = Inr db'" "pending db' = 0"
    using rollup_drains by blast
  have "fold_res (store_op ex_sketch) ([OpInsert ex_eb] @ replicate k OpRollup) (db_fresh ex_sketch ''ep'' 1 ''s'') = Inr db'"
    unfolding fold_res_append run by (simp add: k)
  then show ?thesis using k(2) by (intro exI [of _ k] exI [of _ db']) (simp add: pending_def tree_size_def)
qed

theorem ufos_counts_events_witness:
  "\<exists>db fuel out.
    follow_collections fuel (\<lambda>cur. ufos_get_collections ex_sketch ex_ufos_env (collections_query 7 cur) db) None = Some out \<and>
    map nc_nsid out = [''a.b.c''] \<and> filter (\<lambda>x. unat (nc_creates x) \<noteq> 1 \<or> unat (nc_deletes x) \<noteq> 1) out = []"
proof -
  obtain r where r: "fjall_init ''ep'' False 1 (Some ''s'') db_empty = (Inr r, db_fresh ex_sketch ''ep'' 1 ''s'')"
    using sample_opened by blast
  from ex_ufos_db obtain k db where
    db: "fold_res (store_op ex_sketch) (OpInsert ex_eb # replicate k OpRollup) (db_fresh ex_sketch ''ep'' 1 ''s'') = Inr db"
    "RBT.entries (db_live_counts db) = []" by blast
  have rolls: "ops_ordered js (replicate k (OpRollup :: string list StoreOp))"
    "inserts (replicate k (OpRollup :: string list StoreOp)) = []" for js :: Cursor
    by (induction k) simp_all
  have "ops_ordered cursor_from_start [OpInsert ex_eb]" by code_simp
  then have ord: "ops_ordered cursor_from_start (OpInsert ex_eb # replicate k OpRollup)" using rolls by simp
  have kinds: "map (\<lambda>(n, c). (n, kind_of (uc_action c))) (commits_in ex_inputs) = [(''a.b.c'', Created), (''a.b.c'', Deleted)]"
    by code_simp
  have names: "fst ` set (commits_in ex_inputs) = {''a.b.c''}" by code_simp
  have ok: "\<forall>n \<in> fst ` set (commits_in ex_inputs). str_ok n \<and> ue_nsid_new ex_ufos_env n" unfolding names by code_simp
  have "length (commits_in ex_inputs) = 2" using arg_cong [OF kinds, of length] by simp
  with ufos_counts_events [OF ex_batcher_run _ r db(1) ord _ db(2) _ ex_env_b64 _ _ ok, of 7] rolls(2)
  obtain fuel out where out:
    "follow_collections fuel (\<lambda>cur. ufos_get_collections ex_sketch ex_ufos_env (collections_query 7 cur) db) None = Some out"
    "map nc_nsid out = sorted_list_of_set {''a.b.c''}"
    "\<forall>x \<in> set out. unat (nc_creates x) = count (tally_of (commits_in ex_inputs)) (nc_nsid x, Created) \<and>
       unat (nc_deletes x) = count (tally_of (commits_in ex_inputs)) (nc_nsid x, Deleted)"
    unfolding names by auto
  have "\<forall>x \<in> set out. nc_nsid x = ''a.b.c''" using arg_cong [OF out(2), of set] by auto
  then have "\<forall>x \<in> set out. unat (nc_creates x) = 1 \<and> unat (nc_deletes x) = 1"
    using out(3) kinds by (simp add: tally_of_def)
  with out(1,2) show ?thesis by (intro exI [of _ db] exI [of _ fuel] exI [of _ out]) (simp add: filter_empty_conv)
qed

end
