(* ===== verification/Ufos_Queries.thy ===== *)
theory Ufos_Queries
  imports Ufos_Api
begin

text \<open>
  The other queries of the HTTP interface of \<open>ufos\<close>: the points of a time series and their sums,
  which requests the checks let through, and the documented parameters that are not honoured.
\<close>

section \<open>Time series\<close>

lemma chunks_nth: "i < length (chunks k xs) \<Longrightarrow> chunks k xs ! i = take k (drop (i * k) xs)"
proof (induction k xs arbitrary: i rule: chunks.induct)
  case (1 k xs)
  show ?case
  proof (cases "xs = [] \<or> k = 0")
    case True
    with 1(2) show ?thesis by (simp add: chunks.simps [of k xs])
  next
    case False
    with 1 show ?thesis by (cases i) (auto simp: chunks.simps [of k xs] add.commute)
  qed
qed

lemma chunks_length: "0 < k \<Longrightarrow> length (chunks k xs) = (length xs + k - 1) div k"
proof (induction k xs rule: chunks.induct)
  case (1 k xs)
  show ?case
  proof (cases "xs = []")
    case True
    with 1 show ?thesis by (simp add: chunks.simps [of k "[]"])
  next
    case False
    have "(length xs + k - 1) div k = Suc ((length xs - k + k - 1) div k)"
    proof (cases "length xs \<le> k")
      case True
      obtain m where "length xs = Suc m" using False by (cases xs) auto
      then have "(length xs + k - 1) div k = 1" using True 1(2) by (intro div_nat_eqI) simp_all
      moreover have "(k - 1) div k = 0" using 1(2) by simp
      ultimately show ?thesis using True by simp
    next
      case False
      then have "length xs + k - 1 = (length xs - k + k - 1) + k" by simp
      then show ?thesis using div_add_self2 [of k "length xs - k + k - 1"] 1(2) by (simp only: Suc_eq_plus1)
    qed
    moreover have "length (chunks k (drop k xs)) = (length xs - k + k - 1) div k"
      using 1(1) False 1(2) by simp
    moreover have "chunks k xs = take k xs # chunks k (drop k xs)" using False 1(2) by (simp add: chunks.simps [of k xs])
    ultimately show ?thesis by simp
  qed
qed

context count_field
begin

lemma merge_all_sum: "p (fst (merge_all sk cs)) = sum_list (map (p \<circ> fst) cs)"
proof -
  have "p (fst (fold (\<lambda>c acc. cv_merge sk acc c) cs acc)) = p (fst acc) + sum_list (map (p \<circ> fst) cs)" for acc
    by (induction cs arbitrary: acc) (auto simp: cv_merge_def add.assoc)
  then show ?thesis by (simp add: merge_all_def cv_default_def)
qed

lemma lookup_counts_rolled: "p (fst (lookup_counts sk db b n)) = rolled p db b n"
  by (simp add: lookup_counts_def rolled_def opt_count_def cv_default_def split: option.split)

end

lemma series_fold:
  "fold (series_push sk [c]) cs [(c, vs)] = [(c, vs @ map (\<lambda>chunk. merge_all sk (map (\<lambda>(_, counts). counts ! 0) chunk)) cs)]"
  by (induction cs arbitrary: vs) (simp_all add: series_push_def hm_entry_def hm_get_def hm_insert_def)

text \<open>The counts of one point: those of the hours from it to the next point, or to the end.\<close>

definition point_sum :: "(CommitCounts \<Rightarrow> u64) \<Rightarrow> 'sk FjallDb \<Rightarrow> string \<Rightarrow> u64 \<Rightarrow> nat \<Rightarrow> nat \<Rightarrow> nat \<Rightarrow> u64" where
  "point_sum p db c since k n i =
     sum_list (map (\<lambda>j. rolled p db (Hourly (since + of_nat j * HOUR_IN_MICROS)) c) [i * k ..< min n (i * k + k)])"

lemma get_timeseries_points:
  assumes "step \<le> WEEK_IN_MICROS" "3600 \<le> step" "since \<le> until"
  defines "n \<equiv> (unat until - unat since) div 3600000000" and "k \<equiv> unat (step div 3600)"
  shows "\<exists>vs. get_timeseries sk now [c] since (Some until) step db =
      Inr (map (\<lambda>i. since + of_nat (i * k) * HOUR_IN_MICROS) [0 ..< (n + k - 1) div k], [(c, vs)]) \<and>
    length vs = (n + k - 1) div k \<and>
    (\<forall>i < length vs. \<forall>p. count_field p \<longrightarrow> p (fst (vs ! i)) = point_sum p db c since k n i)"
proof -
  let ?f = "\<lambda>i. (since + of_nat i * HOUR_IN_MICROS, [lookup_counts sk db (Hourly (since + of_nat i * HOUR_IN_MICROS)) c])"
  define cs where "cs = chunks k (map ?f [0..<n])"
  let ?v = "\<lambda>chunk. merge_all sk (map (\<lambda>(_, counts). counts ! 0) chunk)"
  have k: "0 < k" using assms(2) by (simp add: k_def unat_div word_le_nat_alt div_greater_zero_iff)
  have len: "length cs = (n + k - 1) div k" by (simp add: cs_def chunks_length [OF k])
  have nth: "cs ! i = map ?f [i * k ..< min n (i * k + k)]" if "i < length cs" for i
    using chunks_nth [of i k "map ?f [0..<n]"] that
    by (simp add: cs_def take_map drop_map min_def take_upt del: upt.simps)
  have inside: "i * k < n" if "i < length cs" for i
  proof -
    have "i < (n + k - 1) div k" using that len by simp
    then have "Suc i * k \<le> n + k - 1" by (metis Suc_leI k less_eq_div_iff_mult_less_eq)
    then show ?thesis using k by simp
  qed
  have heads: "map (\<lambda>chunk. fst (hd chunk)) cs = map (\<lambda>i. since + of_nat (i * k) * HOUR_IN_MICROS) [0 ..< (n + k - 1) div k]"
  proof (rule nth_equalityI)
    fix i assume "i < length (map (\<lambda>chunk. fst (hd chunk)) cs)"
    then have i: "i < length cs" by simp
    then have "[i * k ..< min n (i * k + k)] = i * k # [Suc (i * k) ..< min n (i * k + k)]"
      using inside k by (intro upt_conv_Cons) simp
    with i nth [OF i] show "map (\<lambda>chunk. fst (hd chunk)) cs ! i =
        map (\<lambda>i. since + of_nat (i * k) * HOUR_IN_MICROS) [0 ..< (n + k - 1) div k] ! i"
      unfolding len [symmetric] by simp
  qed (simp add: len)
  have "unat (step div (HOUR_IN_MICROS div 1000000)) = k" by (simp add: k_def)
  then have "get_timeseries sk now [c] since (Some until) step db =
      Inr (map (\<lambda>chunk. fst (hd chunk)) cs, fold (series_push sk [c]) cs [(c, [])])"
    using assms(1,3) k
    by (simp add: get_timeseries_def duration_since_def nth_next_def cs_def n_def hm_insert_def Let_def not_less)
  moreover have "p (fst (map ?v cs ! i)) = point_sum p db c since k n i" if "i < length cs" "count_field p" for i p
    using that(1) nth [OF that(1)]
    by (simp add: point_sum_def comp_def count_field.merge_all_sum [OF that(2)] count_field.lookup_counts_rolled [OF that(2)])
  ultimately show ?thesis unfolding heads series_fold using len by (intro exI [of _ "map ?v cs"]) auto
qed

lemma unat_lt_u64: "unat (w :: u64) < 2 ^ 64"
  using unsigned_less [of w] by simp


definition ex_series_query :: TimeseriesQuery where
  "ex_series_query = \<lparr>ti_collection = ''a.b.c'', ti_since = Some 0, ti_until = Some 10800000000, ti_step = Some 7300\<rparr>"


section \<open>Listings\<close>

definition bad_time :: "UfosEnv \<Rightarrow> int option \<Rightarrow> bool" where
  "bad_time env t \<longleftrightarrow> (\<exists>x. t = Some x \<and> dt_to_cursor env x = None)"

definition bad_listing :: "UfosEnv \<Rightarrow> CollectionsQuery \<Rightarrow> bool" where
  "bad_listing env q \<longleftrightarrow>
     co_order q \<noteq> None \<and> co_cursor q \<noteq> None \<or>
     co_order q = None \<and> (\<exists>c. co_cursor q = Some c \<and> c \<noteq> [] \<and> ue_b64_decode env c = None) \<or>
     (\<exists>l. co_limit q = Some l \<and> (l < 1 \<or> 200 < l)) \<or> bad_time env (co_since q) \<or> bad_time env (co_until q)"

definition limit_of :: "CollectionsQuery \<Rightarrow> nat" where
  "limit_of q = (case co_limit q of Some l \<Rightarrow> l | None \<Rightarrow> if co_order q = None then 100 else 32)"

lemma query_checks:
  "query_order env q = None \<longleftrightarrow> co_order q \<noteq> None \<and> co_cursor q \<noteq> None \<or>
     co_order q = None \<and> (\<exists>c. co_cursor q = Some c \<and> c \<noteq> [] \<and> ue_b64_decode env c = None)"
  "query_limit q = (if 1 \<le> limit_of q \<and> limit_of q \<le> 200 then Some (limit_of q) else None)"
  "transposed (dt_to_cursor env) t = None \<longleftrightarrow> bad_time env t"
  by (auto simp: query_order_def query_limit_def limit_of_def transposed_def bad_time_def split: option.splits if_splits)

lemma list_request_cases:
  "bad_listing env q \<and> list_request env q k = BadRequest \<or>
   \<not> bad_listing env q \<and> (\<exists>order since until. list_request env q k = k (limit_of q) order since until \<and>
     1 \<le> limit_of q \<and> limit_of q \<le> 200)"
proof -
  have "(\<exists>l. co_limit q = Some l \<and> (l < 1 \<or> 200 < l)) \<longleftrightarrow> query_limit q = None"
    by (auto simp: query_checks(2) limit_of_def split: option.splits)
  then have "bad_listing env q \<longleftrightarrow> query_order env q = None \<or> query_limit q = None \<or>
      transposed (dt_to_cursor env) (co_since q) = None \<or> transposed (dt_to_cursor env) (co_until q) = None"
    unfolding bad_listing_def query_checks(1,3) by blast
  then show ?thesis
    by (auto simp: list_request_def checked_def query_checks(2) split: option.splits if_splits)
qed

lemma lexi_loop_length: "length (fst (lexi_loop sk limit iters cur)) \<le> limit"
  by (induction limit arbitrary: iters cur) (auto simp: case_prod_unfold Let_def split: option.split)

lemma get_collections_length:
  assumes "get_collections sk nsid_new now limit order since until db = Some (Inr (cs, nxt))"
  shows "length cs \<le> limit"
proof -
  have lexi: "length cs \<le> limit" if "get_lexi_collections sk nsid_new limit cursor buckets db = Inr (cs, nxt)" for cursor buckets
    using that lexi_loop_length by (auto simp: get_lexi_collections_def and_then_Inr Let_def case_prod_unfold)
  have ordered: "length cs \<le> limit" if "get_ordered_collections sk limit order buckets db = Inr cs" for order buckets
    using that by (auto simp: get_ordered_collections_def and_then_Inr Let_def split: OrderCollectionsBy.splits if_splits)
  from assms obtain buckets where "(case order of Lexi cursor \<Rightarrow> get_lexi_collections sk nsid_new limit cursor buckets db
       | _ \<Rightarrow> map_sum id (\<lambda>counts. (counts, None)) (get_ordered_collections sk limit order buckets db)) = Inr (cs, nxt)"
    by (auto simp: get_collections_def with_buckets_def spanning_def Let_def split: if_splits option.splits sum.splits panic.splits)
  then show ?thesis
    using lexi [of _ buckets] ordered [of order buckets]
    by (cases order; cases "get_ordered_collections sk limit order buckets db") auto
qed



text \<open>
  A documented parameter that never works: every request for the children of a prefix in some
  order that passes the checks is answered with an internal error, whatever the database holds.
\<close>

theorem prefix_order_fails:
  assumes "nsid_prefix_new (ue_nsid_new env) prefix = Inr pre" "\<not> bad_listing env q" "co_order q = Some order"
    and "co_since q = None" "co_until q = None"
  shows "ufos_get_prefix sk env prefix q db = InternalError"
proof -
  have "query_order env q = Some (order_from order)" using assms(2,3) by (auto simp: query_order_def bad_listing_def)
  moreover have "get_prefix sk (ue_domain_authority env) (ue_now env) pre l (order_from order) None None db =
      Some (Inl (StoragePanic ''not yet implemented''))" for l
    by (cases order) (simp_all add: get_prefix_def with_buckets_def)
  moreover have "query_limit q \<noteq> None"
    using assms(2) by (auto simp: query_checks(2) limit_of_def bad_listing_def split: option.splits)
  ultimately show ?thesis
    using assms(1,4,5) by (auto simp: ufos_get_prefix_def list_request_def checked_def transposed_def of_spanning_def)
qed

theorem prefix_order_fails_witness:
  "ufos_get_prefix ex_sketch ex_ufos_env ''a.b''
     \<lparr>co_limit = None, co_cursor = None, co_since = None, co_until = None, co_order = Some OrderRecordsCreated\<rparr> lexi_db = InternalError"
  by (rule prefix_order_fails [where pre = "''a.b''" and order = OrderRecordsCreated])
    (simp_all add: nsid_prefix_new_def ex_ufos_env_def bad_listing_def bad_time_def)


lemma contains_empty [simp]: "contains_str s []"
  by (cases s) (simp_all add: starts_with_def)

lemma search_loop_all:
  assumes "[] \<in> set terms"
  shows "length matches < 16 \<Longrightarrow>
    search_loop sk terms kvs matches = matches @ map (\<lambda>(n, c). nsid_count_new sk n c) (take (16 - length matches) kvs)"
proof (induction kvs arbitrary: matches)
  case (Cons kv kvs)
  obtain n c where kv: "kv = (n, c)" by (cases kv)
  have "list_ex (contains_str n) terms" using assms contains_empty [of n] unfolding list_ex_iff by blast
  moreover have "16 - length matches = Suc (15 - length matches)" using Cons.prems by simp
  ultimately show ?case
    using Cons.IH [of "matches @ [nsid_count_new sk n c]"] Cons.prems
    by (cases "length matches = 15") (simp_all add: kv Let_def)
qed simp

text \<open>
  The search does not check its terms: an empty query, or one with two spaces in a row, lists
  the first sixteen collections, whatever they are called.
\<close>

theorem search_unchecked:
  assumes "[] \<in> set (split_on CHR '' '' q)"
  shows "ufos_search sk q db =
    Answer (map (\<lambda>(n, c). nsid_count_new sk n c) (take 16 (get_lexi_iter db Ever (\<lambda>_. True))))"
  using search_loop_all [OF assms, of "[]"] by (simp add: ufos_search_def search_collections_def)

theorem search_unchecked_witness:
  "ufos_search ex_sketch ''zzz  yyy'' lexi_db =
    Answer (map (\<lambda>(n, c). nsid_count_new ex_sketch n c) (take 16 (get_lexi_iter lexi_db Ever (\<lambda>_. True))))"
  by (rule search_unchecked) simp

end
