(* ===== verification/Ufos_File.thy ===== *)
theory Ufos_File
  imports Ufos_Api
begin

text \<open>
  The ends of the pipeline of \<open>ufos\<close>: the fixture reader that stands in for the firehose
  (\<open>ufos/src/file_consumer.rs\<close>) and the loop that takes batches from the batcher to the storage
  (\<open>receive_batches\<close> of \<open>storage.rs\<close>).  The lines of the file are given as \<open>serde_json\<close> parses them,
  \<open>None\<close> for a line that is not an event; errors of the file system are left out.
\<close>

section \<open>file_consumer.rs\<close>

datatype FixtureError = CursorNotFound Cursor | ReceiverClosed

text \<open>The lines after the event of the database's cursor; a later event before it is an error.\<close>

fun skip_to_cursor :: "Cursor \<Rightarrow> JetstreamEvent option list \<Rightarrow> FixtureError + JetstreamEvent option list" where
  "skip_to_cursor db_cursor [] = Inr []"
| "skip_to_cursor db_cursor (line # lines) =
     (case line of
        None \<Rightarrow> skip_to_cursor db_cursor lines
      | Some event \<Rightarrow>
          if je_cursor event < db_cursor then skip_to_cursor db_cursor lines
          else if je_cursor event = db_cursor then Inr lines
          else Inl (CursorNotFound (je_cursor event)))"

text \<open>At the end of the file the code waits for ever.  \<open>taken\<close>: how many events the receiver takes before it is dropped.\<close>

fun send_lines :: "nat \<Rightarrow> JetstreamEvent option list \<Rightarrow> JetstreamEvent list \<Rightarrow> (FixtureError + unit) \<times> JetstreamEvent list" where
  "send_lines taken [] sent = (Inr (), sent)"
| "send_lines taken (line # lines) sent =
     (case line of
        None \<Rightarrow> send_lines taken lines sent
      | Some event \<Rightarrow>
          (case taken of
             0 \<Rightarrow> (Inl ReceiverClosed, sent)
           | Suc n \<Rightarrow> send_lines n lines (sent @ [event])))"

definition read_jsonl :: "nat \<Rightarrow> JetstreamEvent option list \<Rightarrow> Cursor option \<Rightarrow> (FixtureError + unit) \<times> JetstreamEvent list" where
  "read_jsonl taken lines cursor =
     (case (case cursor of None \<Rightarrow> Inr lines | Some c \<Rightarrow> skip_to_cursor c lines) of
        Inl e \<Rightarrow> (Inl e, [])
      | Inr lines \<Rightarrow> send_lines taken lines [])"

section \<open>storage.rs\<close>

text \<open>What the loop ends with, and the database then; a batch that fails leaves it as it was.\<close>

fun receive_batches :: "'sk EventBatch list \<Rightarrow> 'sk FjallDb \<Rightarrow> StorageError \<times> 'sk FjallDb" where
  "receive_batches [] db = (BatchSenderExited, db)"
| "receive_batches (event_batch # ebs) db =
     (case insert_batch event_batch db of
        Inl e \<Rightarrow> (e, db)
      | Inr db \<Rightarrow> receive_batches ebs db)"

section \<open>Restarts\<close>

definition parsed :: "JetstreamEvent option list \<Rightarrow> JetstreamEvent list" where
  "parsed lines = flatten_opts lines"

lemma send_lines_take:
  "send_lines n lines sent =
     (if length (parsed lines) \<le> n then Inr () else Inl ReceiverClosed, sent @ take n (parsed lines))"
proof (induction lines arbitrary: n sent)
  case (Cons line lines)
  then show ?case by (cases line; cases n) (simp_all add: parsed_def)
qed (simp add: parsed_def)

lemma skip_to_cursor_found:
  assumes "sorted_wrt (<) (map je_cursor (parsed lines))" "parsed lines = before @ event # later"
  shows "\<exists>rest. skip_to_cursor (je_cursor event) lines = Inr rest \<and> parsed rest = later"
  using assms
proof (induction lines arbitrary: before)
  case (Cons line lines)
  show ?case
  proof (cases line)
    case None
    then show ?thesis using Cons.IH [of before] Cons.prems by (simp add: parsed_def)
  next
    case (Some e)
    show ?thesis
    proof (cases before)
      case Nil
      then show ?thesis using Some Cons.prems by (simp add: parsed_def)
    next
      case (Cons b bs)
      then have "e = b" "parsed lines = bs @ event # later" using Some Cons.prems(2) by (simp_all add: parsed_def)
      moreover from this have "je_cursor e < je_cursor event" using Cons.prems(1) Some by (simp add: parsed_def)
      ultimately show ?thesis using Cons.IH [of bs] Cons.prems(1) Some by (simp add: parsed_def)
    qed
  qed
qed (simp add: parsed_def)

text \<open>
  A restart loses no event and repeats none: what a run took from a file in cursor order, up to an
  event whose cursor the database kept, and what the next run takes from that cursor on, are the
  events of the file once each.
\<close>

theorem fixture_resumes:
  assumes "sorted_wrt (<) (map je_cursor (parsed lines))" and "n < length (parsed lines)"
    and "read_jsonl (Suc n) lines None = (r, first_run)" and "length (parsed lines) \<le> k"
  shows "\<exists>second_run. read_jsonl k lines (Some (je_cursor (last first_run))) = (Inr (), second_run) \<and>
    first_run @ second_run = parsed lines"
proof -
  have run: "first_run = take (Suc n) (parsed lines)"
    using assms(3) by (simp add: read_jsonl_def send_lines_take)
  then have l: "last first_run = parsed lines ! n" using assms(2) by (simp add: take_Suc_conv_app_nth)
  have "parsed lines = take n (parsed lines) @ parsed lines ! n # drop (Suc n) (parsed lines)"
    using assms(2) by (simp add: id_take_nth_drop)
  from skip_to_cursor_found [OF assms(1) this] obtain rest where
    rest: "skip_to_cursor (je_cursor (parsed lines ! n)) lines = Inr rest" "parsed rest = drop (Suc n) (parsed lines)"
    by blast
  then show ?thesis using assms(4) run l by (simp add: read_jsonl_def send_lines_take)
qed

text \<open>The loop that stores batches is a run of inserts, up to the first that fails.\<close>

lemma receive_batches_run:
  "fold_res (store_op sk) (map OpInsert ebs) db = Inr db' \<Longrightarrow> receive_batches ebs db = (BatchSenderExited, db')"
  by (induction ebs arbitrary: db) (auto split: sum.splits simp: and_then_Inr)

end
