(* ===== verification/Spacedust.thy ===== *)
theory Spacedust
  imports Links Ufos_Batch Db_Types "HOL-Library.RBT" "HOL-Library.Product_Lexorder" "HOL-Library.List_Lexorder" "HOL-Library.Char_ord" "HOL-Library.FSet"
begin

text \<open>
  The link firehose \<open>spacedust\<close>: the removable delay queue (\<open>removable_delay_queue.rs\<close>), the client
  messages (\<open>lib.rs\<close>), the consumer that turns commits into messages (\<open>consumer.rs\<close>), the task that
  empties the queue (\<open>delay.rs\<close>) and the subscribers (\<open>subscriber.rs\<close>).

  Instants and durations are microseconds.  Parsing and printing of JSON are arguments; a broadcast
  channel is the list of what was sent on it.
\<close>

section \<open>removable_delay_queue.rs\<close>

datatype 'a EnqueueError = OutputDropped 'a

text \<open>The ordered map of the items is a parameter of the record; here it is a red-black tree.\<close>

record ('k, 'items) Queue =
  dq_queue :: "(nat \<times> 'k) list"
  dq_items :: 'items

type_synonym ('k, 'a) DelayQueue = "('k, ('k, 'a) rbt) Queue"

definition removable_delay_queue :: "('k :: linorder, 'a) DelayQueue" where
  "removable_delay_queue = \<lparr>dq_queue = [], dq_items = RBT.empty\<rparr>"

text \<open>\<open>output_alive\<close>: the other half still holds the shared queue.\<close>

definition enqueue ::
  "bool \<Rightarrow> nat \<Rightarrow> 'k :: linorder \<Rightarrow> 'a \<Rightarrow> ('k, 'a) DelayQueue \<Rightarrow> 'a EnqueueError + ('k, 'a) DelayQueue" where
  "enqueue output_alive now key item q =
     (if \<not> output_alive then Inl (OutputDropped item)
      else Inr (q\<lparr>dq_queue := dq_queue q @ [(now, key)], dq_items := RBT.insert key item (dq_items q)\<rparr>))"

definition remove_range :: "'k :: linorder \<Rightarrow> 'k \<Rightarrow> ('k, 'a) DelayQueue \<Rightarrow> ('k, 'a) DelayQueue" where
  "remove_range lo hi q =
     (let keys = filter (\<lambda>k. lo \<le> k \<and> k \<le> hi) (RBT.keys (dq_items q))
      in q\<lparr>dq_items := fold RBT.delete keys (dq_items q)\<rparr>)"

text \<open>The closure \<open>get\<close> of \<open>next\<close>: skip the queued keys whose items are gone.\<close>

fun get_loop ::
  "(nat \<times> 'k :: linorder) list \<Rightarrow> ('k, 'a) rbt \<Rightarrow> (nat \<times> 'a) option \<times> (nat \<times> 'k) list \<times> ('k, 'a) rbt" where
  "get_loop [] items = (None, [], items)"
| "get_loop ((t, k) # queue) items =
     (case RBT.lookup items k of
        Some item \<Rightarrow> (Some (t, item), queue, RBT.delete k items)
      | None \<Rightarrow> get_loop queue items)"

definition dq_get :: "('k :: linorder, 'a) DelayQueue \<Rightarrow> (nat \<times> 'a) option \<times> ('k, 'a) DelayQueue" where
  "dq_get q = (let (r, queue, items) = get_loop (dq_queue q) (dq_items q) in (r, q\<lparr>dq_queue := queue, dq_items := items\<rparr>))"

text \<open>
  One turn of the loop in \<open>next\<close> at a time: the item and when it is released, the end of the queue,
  or a sleep until the given time.
\<close>

datatype 'a NextTurn = Release 'a nat | Ended | SleepUntil nat

definition dq_next :: "nat \<Rightarrow> bool \<Rightarrow> nat \<Rightarrow> ('k :: linorder, 'a) DelayQueue \<Rightarrow> 'a NextTurn \<times> ('k, 'a) DelayQueue" where
  "dq_next delay input_alive now q =
     (case dq_get q of
        (Some (t, item), q') \<Rightarrow>
          (let expected_release = t + delay
           in (Release item (if expected_release - now > 1000 then expected_release else now), q'))
      | (None, q') \<Rightarrow> (if \<not> input_alive then Ended else SleepUntil (now + delay), q'))"

section \<open>lib.rs\<close>

record FilterableProperties =
  fp_subject :: string
  fp_subject_did :: "string option"
  fp_source :: string

record ClientMessage =
  cm_message :: string
  cm_properties :: FilterableProperties

record ClientLinkEvent =
  cle_operation :: string
  cle_source :: string
  cle_source_record :: string
  cle_source_rev :: string
  cle_subject :: string

record ClientEvent =
  cev_kind :: string
  cev_origin :: string
  cev_link :: ClientLinkEvent

definition new_link :: "(ClientEvent \<Rightarrow> string option) \<Rightarrow> CollectedLink \<Rightarrow> string \<Rightarrow> CommitEvent \<Rightarrow> ClientMessage option" where
  "new_link to_json link at_uri commit =
     (let subject_did = link_did (cl_target link);
          subject = into_string (cl_target link);
          undotted = (case strip_prefix ''.'' (cl_path link) of Some p \<Rightarrow> p | None \<Rightarrow> '''');
          source = ce_collection commit @ '':'' @ undotted;
          event = \<lparr>cev_kind = ''link'', cev_origin = ''live'',
            cev_link = \<lparr>cle_operation = ''create'', cle_source = source, cle_source_record = at_uri,
              cle_source_rev = ce_rev commit, cle_subject = subject\<rparr>\<rparr>
      in map_option (\<lambda>json. \<lparr>cm_message = json,
           cm_properties = \<lparr>fp_subject = subject, fp_subject_did = subject_did, fp_source = source\<rparr>\<rparr>) (to_json event))"

section \<open>consumer.rs\<close>

abbreviation MAX_LINKS_PER_EVENT :: nat where "MAX_LINKS_PER_EVENT \<equiv> 100"

datatype ConsumerError = JetstreamEnded | DelayQueueOutputDropped

type_synonym LinkQueue = "(string \<times> nat, ClientMessage) DelayQueue"

record Dust =
  sd_live :: "ClientMessage list"
  sd_queue :: LinkQueue
  sd_delayed :: "ClientMessage list"

definition dust_start :: Dust where
  "dust_start = \<lparr>sd_live = [], sd_queue = removable_delay_queue, sd_delayed = []\<rparr>"

definition event_uri :: "JetstreamEvent \<Rightarrow> CommitEvent \<Rightarrow> string" where
  "event_uri event commit = ''at://'' @ je_did event @ ''/'' @ ce_collection commit @ ''/'' @ ce_rkey commit"

text \<open>The loop over the links of a record; \<open>now i\<close> is the time of the \<open>i\<close>-th enqueue.\<close>

fun link_loop ::
  "(ClientEvent \<Rightarrow> string option) \<Rightarrow> bool \<Rightarrow> (nat \<Rightarrow> nat) \<Rightarrow> string \<Rightarrow> CommitEvent \<Rightarrow> nat \<Rightarrow> CollectedLink list \<Rightarrow> Dust \<Rightarrow>
     (ConsumerError + unit) \<times> Dust"
where
  "link_loop to_json alive now at_uri commit i [] s = (Inr (), s)"
| "link_loop to_json alive now at_uri commit i (link # links) s =
     (if MAX_LINKS_PER_EVENT \<le> i then (Inr (), s)
      else (case new_link to_json link at_uri commit of
         None \<Rightarrow> link_loop to_json alive now at_uri commit (i + 1) links s
       | Some message \<Rightarrow>
           let s = s\<lparr>sd_live := sd_live s @ [message]\<rparr>
           in (case enqueue alive (now i) (at_uri, i) message (sd_queue s) of
                 Inl _ \<Rightarrow> (Inl DelayQueueOutputDropped, s)
               | Inr q \<Rightarrow> link_loop to_json alive now at_uri commit (i + 1) links (s\<lparr>sd_queue := q\<rparr>))))"

definition consume_event ::
  "(string \<Rightarrow> Link option) \<Rightarrow> (string \<Rightarrow> JsonValue option) \<Rightarrow> (ClientEvent \<Rightarrow> string option) \<Rightarrow> bool \<Rightarrow> (nat \<Rightarrow> nat) \<Rightarrow>
     JetstreamEvent \<Rightarrow> Dust \<Rightarrow> (ConsumerError + unit) \<times> Dust"
where
  "consume_event parse parse_json to_json alive now event s =
     (if je_kind event \<noteq> Commit then (Inr (), s)
      else (case je_commit event of
         None \<Rightarrow> (Inr (), s)
       | Some commit \<Rightarrow>
           let at_uri = event_uri event commit in
           if ce_operation commit = Delete then
             (Inr (), s\<lparr>sd_queue := remove_range (at_uri, 0) (at_uri, MAX_LINKS_PER_EVENT) (sd_queue s)\<rparr>)
           else (case ce_record commit of
              None \<Rightarrow> (Inr (), s)
            | Some record \<Rightarrow>
                (case parse_json record of
                   None \<Rightarrow> (Inr (), s)
                 | Some jv \<Rightarrow> link_loop to_json alive now at_uri commit 0 (collect_links parse jv) s))))"

section \<open>delay.rs\<close>

datatype DelayError = DelayEnded

definition broadcast_turn :: "nat \<Rightarrow> bool \<Rightarrow> nat \<Rightarrow> Dust \<Rightarrow> (DelayError + unit) \<times> Dust" where
  "broadcast_turn delay input_alive now s =
     (case dq_next delay input_alive now (sd_queue s) of
        (Release message _, q) \<Rightarrow> (Inr (), s\<lparr>sd_queue := q, sd_delayed := sd_delayed s @ [message]\<rparr>)
      | (Ended, q) \<Rightarrow> (Inl DelayEnded, s\<lparr>sd_queue := q\<rparr>)
      | (SleepUntil _, q) \<Rightarrow> (Inr (), s\<lparr>sd_queue := q\<rparr>))"

section \<open>subscriber.rs\<close>

record MultiSubscribeQuery =
  wanted_subjects :: "string fset"
  wanted_subject_dids :: "string fset"
  wanted_sources :: "string fset"

datatype SubscriberUpdateError = FailedToParseMessage | TooManySourcesWanted | TooManyDidsWanted | TooManySubjectsWanted

definition subscriber_filter :: "MultiSubscribeQuery \<Rightarrow> FilterableProperties \<Rightarrow> bool" where
  "subscriber_filter query properties =
     (if \<not> (wanted_subjects query = {||} \<and> wanted_subject_dids query = {||}
             \<or> fp_subject properties |\<in>| wanted_subjects query
             \<or> (case fp_subject_did properties of Some did \<Rightarrow> did |\<in>| wanted_subject_dids query | None \<Rightarrow> False))
      then False
      else if \<not> (wanted_sources query = {||} \<or> fp_source properties |\<in>| wanted_sources query) then False
      else True)"

definition update_from_raw ::
  "(string \<Rightarrow> MultiSubscribeQuery option) \<Rightarrow> string \<Rightarrow> MultiSubscribeQuery \<Rightarrow> SubscriberUpdateError + MultiSubscribeQuery" where
  "update_from_raw parse_opts s query =
     (case parse_opts s of
        None \<Rightarrow> Inl FailedToParseMessage
      | Some opts \<Rightarrow>
          if fcard (wanted_sources opts) > 1000 then Inl TooManySourcesWanted
          else if fcard (wanted_subject_dids opts) > 10000 then Inl TooManyDidsWanted
          else if fcard (wanted_subjects opts) > 50000 then Inl TooManySubjectsWanted
          else Inr opts)"

text \<open>What the \<open>select!\<close> of \<open>Subscriber::start\<close> can wake up with; a tick carries the random state it draws.\<close>

datatype SubscriberInput =
    RecvLink ClientMessage
  | RecvClosed
  | RecvLagged nat
  | WsPing bytes
  | WsPong bytes
  | WsText string
  | WsOther
  | WsErr
  | WsEnd
  | PingTick bytes
  | ShutdownCancelled

datatype WsMessage = Text string | Ping bytes | Pong bytes | Close

record Subscriber =
  sb_query :: MultiSubscribeQuery
  sb_ping_state :: "bytes option"
  sb_cancelled :: bool
  sb_done :: bool
  sb_sent :: "WsMessage list"

definition subscriber_new :: "MultiSubscribeQuery \<Rightarrow> Subscriber" where
  "subscriber_new query = \<lparr>sb_query = query, sb_ping_state = None, sb_cancelled = False, sb_done = False, sb_sent = []\<rparr>"

definition ws_send :: "bool \<Rightarrow> WsMessage \<Rightarrow> (Subscriber \<Rightarrow> Subscriber) \<Rightarrow> Subscriber \<Rightarrow> Subscriber" where
  "ws_send sent m on_error s = (if sent then s\<lparr>sb_sent := sb_sent s @ [m]\<rparr> else on_error s)"

abbreviation sb_cancel :: "Subscriber \<Rightarrow> Subscriber" where "sb_cancel s \<equiv> s\<lparr>sb_cancelled := True\<rparr>"
abbreviation sb_break :: "Subscriber \<Rightarrow> Subscriber" where "sb_break s \<equiv> s\<lparr>sb_done := True\<rparr>"

text \<open>One turn of the loop; \<open>sent\<close> says whether a websocket send in it succeeds.\<close>

fun subscriber_step ::
  "(string \<Rightarrow> MultiSubscribeQuery option) \<Rightarrow> bool \<Rightarrow> SubscriberInput \<Rightarrow> Subscriber \<Rightarrow> Subscriber" where
  "subscriber_step parse_opts sent (RecvLink link) s =
     (if subscriber_filter (sb_query s) (cm_properties link) then ws_send sent (Text (cm_message link)) sb_break s else s)"
| "subscriber_step parse_opts sent RecvClosed s = sb_cancel s"
| "subscriber_step parse_opts sent (RecvLagged _) s = sb_cancel s"
| "subscriber_step parse_opts sent (WsPing state) s = ws_send sent (Pong state) sb_break s"
| "subscriber_step parse_opts sent (WsPong state) s =
     (case sb_ping_state s of
        Some expected_state \<Rightarrow> if state = expected_state then s\<lparr>sb_ping_state := None\<rparr> else sb_cancel s
      | None \<Rightarrow> sb_cancel s)"
| "subscriber_step parse_opts sent (WsText raw) s =
     (case update_from_raw parse_opts raw (sb_query s) of
        Inl _ \<Rightarrow> sb_cancel s
      | Inr query \<Rightarrow> s\<lparr>sb_query := query\<rparr>)"
| "subscriber_step parse_opts sent WsOther s = s"
| "subscriber_step parse_opts sent WsErr s = sb_break s"
| "subscriber_step parse_opts sent WsEnd s = sb_break s"
| "subscriber_step parse_opts sent (PingTick new_state) s =
     (if sb_ping_state s \<noteq> None then sb_cancel s
      else ws_send sent (Ping new_state) sb_cancel (s\<lparr>sb_ping_state := Some new_state\<rparr>))"
| "subscriber_step parse_opts sent ShutdownCancelled s = sb_break (ws_send sent Close id s)"

text \<open>
  A subscriber runs until it breaks out of the loop.  The branch for the shutdown is only ready
  after a cancellation, which may also come from outside.
\<close>

fun subscriber_run :: "(string \<Rightarrow> MultiSubscribeQuery option) \<Rightarrow> (bool \<times> SubscriberInput) list \<Rightarrow> Subscriber \<Rightarrow> Subscriber" where
  "subscriber_run parse_opts [] s = s"
| "subscriber_run parse_opts ((sent, i) # is) s =
     (if sb_done s then s else subscriber_run parse_opts is (subscriber_step parse_opts sent i s))"

end
