(* ===== verification/Spacedust_Props.thy ===== *)
theory Spacedust_Props
  imports Spacedust
begin

text \<open>
  Correctness of \<open>spacedust\<close>.  The delay queue is used through an interface, the locale
  \<open>removable_queue\<close>: what is pending after each operation.  Its lemmas (nothing pending is lost,
  nothing removed is released) are proved once there and carried over to the queue by an
  interpretation.
\<close>

section \<open>The interface of the queue\<close>

locale removable_queue =
  fixes ok :: "'q \<Rightarrow> bool"
    and pending :: "'q \<Rightarrow> ('k :: linorder) \<Rightarrow> 'a option"
    and enq :: "nat \<Rightarrow> 'k \<Rightarrow> 'a \<Rightarrow> 'q \<Rightarrow> 'q"
    and rem :: "'k \<Rightarrow> 'k \<Rightarrow> 'q \<Rightarrow> 'q"
    and get :: "'q \<Rightarrow> (nat \<times> 'a) option \<times> 'q"
  assumes ok_enq: "ok q \<Longrightarrow> ok (enq t k a q)"
    and ok_rem: "ok q \<Longrightarrow> ok (rem lo hi q)"
    and ok_get: "ok q \<Longrightarrow> ok (snd (get q))"
    and finite_pending: "finite (dom (pending q))"
    and pending_enq: "pending (enq t k a q) = (pending q)(k \<mapsto> a)"
    and pending_rem: "pending (rem lo hi q) = (\<lambda>k. if lo \<le> k \<and> k \<le> hi then None else pending q k)"
    and get_Some: "get q = (Some (t, a), q') \<Longrightarrow> \<exists>k. pending q k = Some a \<and> pending q' = (pending q)(k := None)"
    and get_None: "ok q \<Longrightarrow> get q = (None, q') \<Longrightarrow> pending q = Map.empty \<and> pending q' = Map.empty"
begin

fun gets :: "nat \<Rightarrow> 'q \<Rightarrow> 'a list \<times> 'q" where
  "gets 0 q = ([], q)"
| "gets (Suc n) q = (case get q of (None, q') \<Rightarrow> ([], q') | (Some (_, a), q') \<Rightarrow> apfst (Cons a) (gets n q'))"

lemma gets_deliver:
  assumes "ok q"
  shows "\<exists>ks. distinct ks \<and> set ks = dom (pending q) \<and>
    fst (gets (card (dom (pending q))) q) = map (\<lambda>k. the (pending q k)) ks \<and>
    ok (snd (gets (card (dom (pending q))) q)) \<and> pending (snd (gets (card (dom (pending q))) q)) = Map.empty"
  using assms
proof (induction "card (dom (pending q))" arbitrary: q)
  case 0
  then have "pending q = Map.empty" using finite_pending [of q] by simp
  with 0 show ?case by simp
next
  case (Suc n)
  then have nonempty: "pending q \<noteq> Map.empty" by auto
  obtain t a q' where got: "get q = (Some (t, a), q')"
    using get_None [OF Suc.prems] nonempty by (metis option.exhaust prod.exhaust)
  from get_Some [OF got] obtain k where k: "pending q k = Some a" "pending q' = (pending q)(k := None)" by blast
  have dom: "dom (pending q') = dom (pending q) - {k}" "k \<in> dom (pending q)" using k by auto
  then have n: "n = card (dom (pending q'))" using Suc.hyps(2) finite_pending [of q] by simp
  have ok': "ok q'" using ok_get [OF Suc.prems] by (simp add: got)
  from Suc.hyps(1) [OF n ok'] obtain ks where ks: "distinct ks" "set ks = dom (pending q')"
    "fst (gets n q') = map (\<lambda>k. the (pending q' k)) ks" "ok (snd (gets n q'))" "pending (snd (gets n q')) = Map.empty"
    unfolding n by blast
  have "map (\<lambda>k. the (pending q' k)) ks = map (\<lambda>k. the (pending q k)) ks"
    using ks(2) dom by (auto simp: k(2))
  then show ?case
    unfolding Suc.hyps(2) [symmetric] using ks dom k(1)
    by (intro exI [of _ "k # ks"]) (auto simp: got)
qed

end

section \<open>The delay queue\<close>

definition keys_in :: "(nat \<times> 'k) list \<Rightarrow> 'k set" where
  "keys_in queue = snd ` set queue"

lemma keys_in_simps [simp]:
  "keys_in [] = {}" "keys_in ((t, k) # queue) = insert k (keys_in queue)" "keys_in (queue @ queue') = keys_in queue \<union> keys_in queue'"
  by (auto simp: keys_in_def)

definition dq_ok :: "('k :: linorder, 'a) DelayQueue \<Rightarrow> bool" where
  "dq_ok q \<longleftrightarrow> (\<forall>k. RBT.lookup (dq_items q) k \<noteq> None \<longrightarrow> k \<in> keys_in (dq_queue q))"

definition dq_enq :: "nat \<Rightarrow> 'k :: linorder \<Rightarrow> 'a \<Rightarrow> ('k, 'a) DelayQueue \<Rightarrow> ('k, 'a) DelayQueue" where
  "dq_enq now key item q = (case enqueue True now key item q of Inr q' \<Rightarrow> q' | Inl _ \<Rightarrow> q)"

lemma lookup_fold_delete:
  "RBT.lookup (fold RBT.delete ks t) k = (if k \<in> set ks then None else RBT.lookup t k)"
  by (induction ks arbitrary: t) auto

lemma lookup_remove_range:
  "RBT.lookup (dq_items (remove_range lo hi q)) k = (if lo \<le> k \<and> k \<le> hi then None else RBT.lookup (dq_items q) k)"
proof -
  have "k \<in> set (RBT.keys (dq_items q)) \<longleftrightarrow> RBT.lookup (dq_items q) k \<noteq> None"
    by (simp add: RBT.lookup_keys [symmetric] dom_def)
  then show ?thesis by (auto simp: remove_range_def lookup_fold_delete)
qed

lemma remove_range_queue [simp]: "dq_queue (remove_range lo hi q) = dq_queue q"
  by (simp add: remove_range_def Let_def)

lemma get_loop_Some:
  "get_loop queue items = (Some (t, a), queue', items') \<Longrightarrow>
   \<exists>k. RBT.lookup items k = Some a \<and> items' = RBT.delete k items \<and> (t, k) \<in> set queue \<and> set queue' \<subseteq> set queue \<and>
     (\<forall>x \<in> keys_in queue. RBT.lookup items x \<noteq> None \<and> x \<noteq> k \<longrightarrow> x \<in> keys_in queue')"
  by (induction queue items rule: get_loop.induct) (auto split: option.splits)

lemma get_loop_None:
  "get_loop queue items = (None, queue', items') \<Longrightarrow>
   queue' = [] \<and> items' = items \<and> (\<forall>x \<in> keys_in queue. RBT.lookup items x = None)"
  by (induction queue items rule: get_loop.induct) (auto split: option.splits)

lemma dq_get_cases:
  obtains (empty) "dq_get q = (None, q\<lparr>dq_queue := []\<rparr>)" "\<forall>x \<in> keys_in (dq_queue q). RBT.lookup (dq_items q) x = None"
  | (item) t a k queue' where "dq_get q = (Some (t, a), q\<lparr>dq_queue := queue', dq_items := RBT.delete k (dq_items q)\<rparr>)"
    "RBT.lookup (dq_items q) k = Some a" "(t, k) \<in> set (dq_queue q)" "set queue' \<subseteq> set (dq_queue q)"
    "\<forall>x \<in> keys_in (dq_queue q). RBT.lookup (dq_items q) x \<noteq> None \<and> x \<noteq> k \<longrightarrow> x \<in> keys_in queue'"
proof -
  obtain r queue' items' where loop: "get_loop (dq_queue q) (dq_items q) = (r, queue', items')" by (metis prod.exhaust)
  show thesis
  proof (cases r)
    case None
    from get_loop_None [OF loop [unfolded None]] show thesis
      using empty loop None by (simp add: dq_get_def)
  next
    case (Some ta)
    obtain t a where "ta = (t, a)" by (rule prod.exhaust)
    with Some loop have loop': "get_loop (dq_queue q) (dq_items q) = (Some (t, a), queue', items')" by simp
    from get_loop_Some [OF this] show thesis using item loop' by (auto simp: dq_get_def)
  qed
qed

lemma dq_ok_steps:
  "dq_ok q \<Longrightarrow> dq_ok (dq_enq t k a q)" "dq_ok q \<Longrightarrow> dq_ok (remove_range lo hi q)" "dq_ok q \<Longrightarrow> dq_ok (snd (dq_get q))"
proof -
  show "dq_ok q \<Longrightarrow> dq_ok (dq_enq t k a q)" by (auto simp: dq_ok_def dq_enq_def enqueue_def)
  show "dq_ok q \<Longrightarrow> dq_ok (remove_range lo hi q)" by (auto simp: dq_ok_def lookup_remove_range split: if_splits)
  show "dq_ok q \<Longrightarrow> dq_ok (snd (dq_get q))"
    by (cases q rule: dq_get_cases) (auto simp: dq_ok_def split: if_splits)
qed

lemma dq_get_Some:
  "dq_get q = (Some (t, a), q') \<Longrightarrow>
   \<exists>k. RBT.lookup (dq_items q) k = Some a \<and> RBT.lookup (dq_items q') = (RBT.lookup (dq_items q))(k := None)"
  by (cases q rule: dq_get_cases) (auto simp: fun_eq_iff)

lemma dq_get_None:
  "dq_ok q \<Longrightarrow> dq_get q = (None, q') \<Longrightarrow> RBT.lookup (dq_items q) = Map.empty \<and> RBT.lookup (dq_items q') = Map.empty"
  by (cases q rule: dq_get_cases) (auto simp: dq_ok_def fun_eq_iff)

lemma dq_pending_enq: "RBT.lookup (dq_items (dq_enq t k a q)) = (RBT.lookup (dq_items q))(k \<mapsto> a)"
  by (simp add: dq_enq_def enqueue_def fun_eq_iff)

lemma dq_pending_rem:
  "RBT.lookup (dq_items (remove_range lo hi q)) = (\<lambda>k. if lo \<le> k \<and> k \<le> hi then None else RBT.lookup (dq_items q) k)"
  by (simp add: lookup_remove_range fun_eq_iff)

interpretation dq: removable_queue dq_ok "\<lambda>q. RBT.lookup (dq_items q)" dq_enq remove_range dq_get
  by unfold_locales
    (assumption | rule dq_ok_steps dq_get_Some dq_get_None dq_pending_enq dq_pending_rem | simp)+

section \<open>Nothing is lost\<close>

datatype ('k, 'a) QueueOp = Enq nat 'k 'a | Rem 'k 'k | Get

fun queue_op :: "('k :: linorder, 'a) QueueOp \<Rightarrow> ('k, 'a) DelayQueue \<Rightarrow> ('k, 'a) DelayQueue" where
  "queue_op (Enq now k a) q = dq_enq now k a q"
| "queue_op (Rem lo hi) q = remove_range lo hi q"
| "queue_op Get q = snd (dq_get q)"

text \<open>The items that \<open>n\<close> calls of \<open>get\<close> give out, and the queue they leave.\<close>

fun dq_gets :: "nat \<Rightarrow> ('k :: linorder, 'a) DelayQueue \<Rightarrow> 'a list \<times> ('k, 'a) DelayQueue" where
  "dq_gets 0 q = ([], q)"
| "dq_gets (Suc n) q = (case dq_get q of (None, q') \<Rightarrow> ([], q') | (Some (_, a), q') \<Rightarrow> apfst (Cons a) (dq_gets n q'))"

lemma dq_gets_eq: "dq_gets n q = dq.gets n q"
  by (induction n arbitrary: q) (simp_all split: option.split prod.split)

lemma queue_ops_ok: "dq_ok q \<Longrightarrow> dq_ok (fold queue_op ops q)"
proof (induction ops arbitrary: q)
  case (Cons p ops)
  have "dq_ok (queue_op p q)" using Cons.prems by (cases p) (simp_all add: dq_ok_steps)
  with Cons.IH show ?case by simp
qed simp

lemma dq_ok_start: "dq_ok removable_delay_queue"
  by (simp add: dq_ok_def removable_delay_queue_def)

text \<open>
  C8. Nothing pending is lost.  After any sequence of enqueues, removals and releases, calling \<open>get\<close>
  as often as there are items pending gives out every pending item exactly once, whatever stale
  keys the queue holds, and leaves nothing pending.
\<close>

theorem delay_queue_delivers:
  "\<exists>ks. distinct ks \<and> set ks = dom (RBT.lookup (dq_items (fold queue_op ops removable_delay_queue))) \<and>
     fst (dq_gets (length ks) (fold queue_op ops removable_delay_queue)) =
       map (\<lambda>k. the (RBT.lookup (dq_items (fold queue_op ops removable_delay_queue)) k)) ks \<and>
     RBT.lookup (dq_items (snd (dq_gets (length ks) (fold queue_op ops removable_delay_queue)))) = Map.empty"
proof -
  let ?q = "fold queue_op ops removable_delay_queue"
  have "dq_ok ?q" by (rule queue_ops_ok [OF dq_ok_start])
  from dq.gets_deliver [OF this] obtain ks where "distinct ks" "set ks = dom (RBT.lookup (dq_items ?q))"
    "fst (dq.gets (card (dom (RBT.lookup (dq_items ?q)))) ?q) = map (\<lambda>k. the (RBT.lookup (dq_items ?q) k)) ks"
    "RBT.lookup (dq_items (snd (dq.gets (card (dom (RBT.lookup (dq_items ?q)))) ?q))) = Map.empty" by blast
  moreover from this have "card (dom (RBT.lookup (dq_items ?q))) = length ks" by (metis distinct_card)
  ultimately show ?thesis unfolding dq_gets_eq by auto
qed

text \<open>
  The delay is not always kept.  A key that is removed and enqueued again within the delay finds
  its old entry still in the queue: the new item is released when the old one would have been, here
  one second after it was enqueued instead of 21.
\<close>

theorem delay_cut_short:
  "fst (dq_next 21000000 True 21000000
     (fold queue_op [Enq 0 (''at://d/c/r'', 0 :: nat) ''old'', Rem (''at://d/c/r'', 0) (''at://d/c/r'', 100),
                     Enq 20000000 (''at://d/c/r'', 0) ''new''] removable_delay_queue)) =
   Release ''new'' 21000000"
  by (simp add: dq_next_def dq_get_def dq_enq_def enqueue_def removable_delay_queue_def)

section \<open>Deleted records\<close>

text \<open>
  A run of the consumer and of the delay task, in any interleaving.  Both halves of the queue are
  held by their tasks.
\<close>

datatype DustStep = Ev "nat \<Rightarrow> nat" JetstreamEvent | Turn nat

fun dust_step ::
  "(string \<Rightarrow> Link option) \<Rightarrow> (string \<Rightarrow> JsonValue option) \<Rightarrow> (ClientEvent \<Rightarrow> string option) \<Rightarrow> nat \<Rightarrow> DustStep \<Rightarrow> Dust \<Rightarrow> Dust" where
  "dust_step parse parse_json to_json delay (Ev now event) s = snd (consume_event parse parse_json to_json True now event s)"
| "dust_step parse parse_json to_json delay (Turn now) s = snd (broadcast_turn delay True now s)"

abbreviation pending :: "Dust \<Rightarrow> string \<times> nat \<Rightarrow> ClientMessage option" where
  "pending s \<equiv> RBT.lookup (dq_items (sd_queue s))"

text \<open>Every pending message is filed under the record it is about, with an index below the limit.\<close>

definition dust_ok :: "(string \<Rightarrow> string) \<Rightarrow> Dust \<Rightarrow> bool" where
  "dust_ok source_of s \<longleftrightarrow>
     (\<forall>uri i m. pending s (uri, i) = Some m \<longrightarrow> i < MAX_LINKS_PER_EVENT \<and> source_of (cm_message m) = uri)"

text \<open>The events that file messages under a record: its creation and its updates.\<close>

fun writes_record :: "string \<Rightarrow> DustStep \<Rightarrow> bool" where
  "writes_record uri (Ev now event) \<longleftrightarrow>
     (\<exists>commit. je_kind event = Commit \<and> je_commit event = Some commit \<and> ce_operation commit \<noteq> Delete \<and> event_uri event commit = uri)"
| "writes_record uri (Turn now) \<longleftrightarrow> False"

definition reads_back :: "(ClientEvent \<Rightarrow> string option) \<Rightarrow> (string \<Rightarrow> string) \<Rightarrow> bool" where
  "reads_back to_json source_of \<longleftrightarrow> (\<forall>e json. to_json e = Some json \<longrightarrow> source_of json = cle_source_record (cev_link e))"

lemma new_link_source:
  "reads_back to_json source_of \<Longrightarrow> new_link to_json link at_uri commit = Some m \<Longrightarrow> source_of (cm_message m) = at_uri"
  by (auto simp: new_link_def Let_def reads_back_def)

lemma link_loop_keeps:
  "sd_delayed (snd (link_loop to_json True now at_uri commit i links s)) = sd_delayed s"
  "fst (link_loop to_json True now at_uri commit i links s) = Inr ()"
  by (induction links arbitrary: i s) (auto simp: enqueue_def Let_def split: option.split)

lemma link_loop_pending:
  assumes "reads_back to_json source_of"
    "pending (snd (link_loop to_json True now at_uri commit i links s)) (uri, j) = Some m"
  shows "pending s (uri, j) = Some m \<or> uri = at_uri \<and> j < MAX_LINKS_PER_EVENT \<and> source_of (cm_message m) = at_uri"
  using assms(2)
proof (induction links arbitrary: i s)
  case (Cons link links)
  show ?case
  proof (cases "MAX_LINKS_PER_EVENT \<le> i")
    case False
    show ?thesis
    proof (cases "new_link to_json link at_uri commit")
      case None
      with False Cons.prems have "pending (snd (link_loop to_json True now at_uri commit (i + 1) links s)) (uri, j) = Some m" by simp
      then show ?thesis by (rule Cons.IH)
    next
      case (Some message)
      let ?s = "s\<lparr>sd_live := sd_live s @ [message],
        sd_queue := (sd_queue s)\<lparr>dq_queue := dq_queue (sd_queue s) @ [(now i, at_uri, i)],
          dq_items := RBT.insert (at_uri, i) message (dq_items (sd_queue s))\<rparr>\<rparr>"
      have "pending (snd (link_loop to_json True now at_uri commit (i + 1) links ?s)) (uri, j) = Some m"
        using Cons.prems False Some by (simp add: enqueue_def Let_def)
      then have "pending ?s (uri, j) = Some m \<or> uri = at_uri \<and> j < MAX_LINKS_PER_EVENT \<and> source_of (cm_message m) = at_uri"
        by (rule Cons.IH)
      then show ?thesis using new_link_source [OF assms(1) Some] False by (auto split: if_splits)
    qed
  qed (use Cons.prems in simp)
qed simp

text \<open>What an event can make pending, and that it sends nothing on the delayed channel.\<close>

lemma consume_event_pending:
  assumes "reads_back to_json source_of" "s' = dust_step parse parse_json to_json delay (Ev now event) s"
    "pending s' (uri, j) = Some m"
  shows "pending s (uri, j) = Some m \<or>
    writes_record uri (Ev now event) \<and> j < MAX_LINKS_PER_EVENT \<and> source_of (cm_message m) = uri"
  using assms(2,3)
  by (auto simp: consume_event_def Let_def lookup_remove_range split: if_splits option.splits
      dest!: link_loop_pending [OF assms(1)])

lemma consume_event_delayed: "sd_delayed (snd (consume_event parse parse_json to_json True now event s)) = sd_delayed s"
  by (auto simp: consume_event_def Let_def link_loop_keeps split: option.split)

lemma broadcast_turn_cases:
  obtains (idle) q where "snd (broadcast_turn delay True now s) = s\<lparr>sd_queue := q\<rparr>" "dq_items q = dq_items (sd_queue s)"
  | (released) m k q where
    "snd (broadcast_turn delay True now s) = s\<lparr>sd_queue := q, sd_delayed := sd_delayed s @ [m]\<rparr>"
    "pending s k = Some m" "dq_items q = RBT.delete k (dq_items (sd_queue s))"
proof (cases "sd_queue s" rule: dq_get_cases)
  case empty
  then show thesis using idle by (simp add: broadcast_turn_def dq_next_def)
next
  case (item t a k queue')
  then show thesis using released by (simp add: broadcast_turn_def dq_next_def Let_def)
qed

lemma dust_ok_step:
  assumes "reads_back to_json source_of" "dust_ok source_of s"
  shows "dust_ok source_of (dust_step parse parse_json to_json delay st s)"
proof (cases st)
  case (Ev now event)
  then show ?thesis
    using consume_event_pending [OF assms(1) refl, where s = s and now = now and event = event and parse = parse and parse_json = parse_json and delay = delay]
      assms(2) unfolding dust_ok_def by blast
next
  case (Turn now)
  show ?thesis
  proof (cases rule: broadcast_turn_cases [of delay now s])
    case (idle q)
    then show ?thesis using assms(2) by (simp add: Turn dust_ok_def)
  next
    case (released m k q)
    then show ?thesis using assms(2) by (simp add: Turn dust_ok_def)
  qed
qed

lemma dust_ok_run:
  "reads_back to_json source_of \<Longrightarrow> dust_ok source_of s \<Longrightarrow>
   dust_ok source_of (fold (dust_step parse parse_json to_json delay) steps s)"
  by (induction steps arbitrary: s) (simp_all add: dust_ok_step)

lemma dust_ok_start: "dust_ok source_of dust_start"
  by (simp add: dust_ok_def dust_start_def removable_delay_queue_def)

text \<open>A record with nothing pending stays so until it is written again, and meanwhile nothing about it is released.\<close>

lemma nothing_released:
  assumes "reads_back to_json source_of" "dust_ok source_of s" "\<forall>i. pending s (uri, i) = None"
    "\<forall>st \<in> set steps. \<not> writes_record uri st"
  shows "\<exists>out. sd_delayed (fold (dust_step parse parse_json to_json delay) steps s) = sd_delayed s @ out \<and>
    (\<forall>m \<in> set out. source_of (cm_message m) \<noteq> uri)"
  using assms(2-)
proof (induction steps arbitrary: s)
  case (Cons st steps)
  let ?s = "dust_step parse parse_json to_json delay st s"
  have ok: "dust_ok source_of ?s" by (rule dust_ok_step [OF assms(1) Cons.prems(1)])
  have one: "(\<forall>i. pending ?s (uri, i) = None) \<and>
    (\<exists>out. sd_delayed ?s = sd_delayed s @ out \<and> (\<forall>m \<in> set out. source_of (cm_message m) \<noteq> uri))"
  proof (cases st)
    case (Ev now event)
    have "pending ?s (uri, i) = None" for i
      using consume_event_pending [OF assms(1) refl, where s = s and now = now and event = event and parse = parse
          and parse_json = parse_json and delay = delay and uri = uri and j = i] Cons.prems Ev
      by (metis list.set_intros(1) not_None_eq)
    moreover have "sd_delayed ?s = sd_delayed s" by (simp add: Ev consume_event_delayed)
    ultimately show ?thesis by auto
  next
    case (Turn now)
    show ?thesis
    proof (cases rule: broadcast_turn_cases [of delay now s])
      case (idle q)
      then show ?thesis using Cons.prems(2) by (simp add: Turn)
    next
      case (released m k q)
      obtain u i where k: "k = (u, i)" by (rule prod.exhaust)
      have "u \<noteq> uri" using released(2) Cons.prems(2) by (auto simp: k)
      moreover have "source_of (cm_message m) = u" using released(2) Cons.prems(1) by (auto simp: k dust_ok_def)
      ultimately show ?thesis using released Cons.prems(2) by (auto simp: Turn)
    qed
  qed
  then obtain out where out: "sd_delayed ?s = sd_delayed s @ out" "\<forall>m \<in> set out. source_of (cm_message m) \<noteq> uri" by blast
  obtain out' where "sd_delayed (fold (dust_step parse parse_json to_json delay) steps ?s) = sd_delayed ?s @ out'"
    "\<forall>m \<in> set out'. source_of (cm_message m) \<noteq> uri"
    using Cons.IH [OF ok conjunct1 [OF one]] Cons.prems(3) by auto
  with out show ?case by (intro exI [of _ "out @ out'"]) auto
qed simp

lemma delete_event_clears:
  assumes "dust_ok source_of s" "je_kind event = Commit" "je_commit event = Some commit" "ce_operation commit = Delete"
  shows "pending (dust_step parse parse_json to_json delay (Ev now event) s) (event_uri event commit, i) = None"
  using assms by (cases "pending s (event_uri event commit, i)")
    (auto simp: consume_event_def Let_def lookup_remove_range dust_ok_def intro: less_imp_le)

text \<open>
  Deleted records stay silent.  Once the consumer has seen the deletion of a record, none of its
  links is released by the delay queue any more, in any interleaving of later events and releases,
  until the record is written again.  The assumption on JSON is that the field \<open>source_record\<close> of a
  printed event can be read back.
\<close>

theorem deleted_links_not_released:
  assumes "reads_back to_json source_of"
    and "je_kind event = Commit" "je_commit event = Some commit" "ce_operation commit = Delete"
    and "\<forall>st \<in> set after. \<not> writes_record (event_uri event commit) st"
  shows "\<exists>out. sd_delayed (fold (dust_step parse parse_json to_json delay) (before @ [Ev now event] @ after) dust_start) =
      sd_delayed (fold (dust_step parse parse_json to_json delay) before dust_start) @ out \<and>
    (\<forall>m \<in> set out. source_of (cm_message m) \<noteq> event_uri event commit)"
proof -
  let ?run = "fold (dust_step parse parse_json to_json delay)"
  let ?s = "dust_step parse parse_json to_json delay (Ev now event) (?run before dust_start)"
  have ok: "dust_ok source_of (?run before dust_start)" by (rule dust_ok_run [OF assms(1) dust_ok_start])
  then have ok': "dust_ok source_of ?s" by (rule dust_ok_step [OF assms(1)])
  have gone: "\<forall>i. pending ?s (event_uri event commit, i) = None"
    using delete_event_clears [OF ok assms(2-4)] by blast
  have "sd_delayed ?s = sd_delayed (?run before dust_start)" by (simp add: consume_event_delayed)
  with nothing_released [OF assms(1) ok' gone assms(5), of parse parse_json delay] show ?thesis by simp
qed

text \<open>A like that is created and deleted before the delay is over: the release turn sends nothing.\<close>

definition like_commit :: "CommitOp \<Rightarrow> CommitEvent" where
  "like_commit op = \<lparr>ce_collection = ''app.like'', ce_rkey = ''r'', ce_rev = ''v'', ce_operation = op,
     ce_record = Some ''did:plc:x'', ce_cid = None\<rparr>"

definition like_event :: "CommitOp \<Rightarrow> JetstreamEvent" where
  "like_event op = \<lparr>je_cursor = 1, je_did = ''did:plc:me'', je_kind = Commit, je_commit = Some (like_commit op),
     je_identity = None, je_account = None\<rparr>"

theorem deleted_links_not_released_witness:
  "filter (\<lambda>m. cm_message m = ''at://did:plc:me/app.like/r'')
     (sd_delayed (fold (dust_step (\<lambda>s. Some (LDid s)) (\<lambda>s. Some (JString s)) (\<lambda>e. Some (cle_source_record (cev_link e))) 5)
        ([Ev (\<lambda>_. 0) (like_event Create)] @ [Ev (\<lambda>_. 1) (like_event Delete)] @ [Turn 9]) dust_start)) = []"
proof -
  have "reads_back (\<lambda>e. Some (cle_source_record (cev_link e))) (\<lambda>s. s)" by (simp add: reads_back_def)
  moreover have "event_uri (like_event Delete) (like_commit Delete) = ''at://did:plc:me/app.like/r''"
    by (simp add: event_uri_def like_event_def like_commit_def)
  moreover have "sd_delayed (fold (dust_step (\<lambda>s. Some (LDid s)) (\<lambda>s. Some (JString s)) (\<lambda>e. Some (cle_source_record (cev_link e))) 5)
      [Ev (\<lambda>_. 0) (like_event Create)] dust_start) = []" by (simp add: consume_event_delayed dust_start_def)
  ultimately show ?thesis
    using deleted_links_not_released [of "\<lambda>e. Some (cle_source_record (cev_link e))" "\<lambda>s. s" "like_event Delete" "like_commit Delete"
        "[Turn 9]" "\<lambda>s. Some (LDid s)" "\<lambda>s. Some (JString s)" 5 "[Ev (\<lambda>_. 0) (like_event Create)]" "\<lambda>_. 1"]
    by (auto simp: filter_empty_conv like_event_def like_commit_def)
qed

section \<open>Subscribers\<close>

definition query_within :: "MultiSubscribeQuery \<Rightarrow> bool" where
  "query_within q \<longleftrightarrow> fcard (wanted_sources q) \<le> 1000 \<and> fcard (wanted_subject_dids q) \<le> 10000 \<and> fcard (wanted_subjects q) \<le> 50000"

fun is_ping :: "WsMessage \<Rightarrow> bool" where
  "is_ping (Ping _) \<longleftrightarrow> True"
| "is_ping _ \<longleftrightarrow> False"

fun is_pong :: "bool \<times> SubscriberInput \<Rightarrow> bool" where
  "is_pong (_, WsPong _) \<longleftrightarrow> True"
| "is_pong _ \<longleftrightarrow> False"

text \<open>Pings sent so far, less the one that is unanswered.\<close>

definition pings_owed :: "Subscriber \<Rightarrow> nat" where
  "pings_owed s = length (filter is_ping (sb_sent s)) - (if sb_ping_state s = None then 0 else 1)"

lemma update_within: "update_from_raw parse_opts raw q = Inr q' \<Longrightarrow> query_within q'"
  by (auto simp: update_from_raw_def query_within_def split: option.splits if_splits)

lemma subscriber_step_within:
  "query_within (sb_query s) \<Longrightarrow> query_within (sb_query (subscriber_step parse_opts sent i s))"
  by (cases i) (auto simp: ws_send_def update_within split: option.split sum.split)

lemma subscriber_step_pings:
  "pings_owed (subscriber_step parse_opts sent i s) \<le> pings_owed s + (if is_pong (sent, i) then 1 else 0)"
  by (cases i) (auto simp: ws_send_def pings_owed_def split: option.split sum.split)

lemma subscriber_run_invariant:
  "query_within (sb_query s) \<Longrightarrow>
   query_within (sb_query (subscriber_run parse_opts is s)) \<and>
   pings_owed (subscriber_run parse_opts is s) \<le> pings_owed s + length (filter is_pong is)"
proof (induction parse_opts "is" s rule: subscriber_run.induct)
  case (2 parse_opts sent i rest s)
  show ?case
  proof (cases "sb_done s")
    case False
    with "2.IH" "2.prems" subscriber_step_within
    have "query_within (sb_query (subscriber_run parse_opts rest (subscriber_step parse_opts sent i s)))"
      "pings_owed (subscriber_run parse_opts rest (subscriber_step parse_opts sent i s)) \<le>
        pings_owed (subscriber_step parse_opts sent i s) + length (filter is_pong rest)" by blast+
    with False subscriber_step_pings [of parse_opts sent i s] show ?thesis by (cases "is_pong (sent, i)") auto
  qed (use "2.prems" in auto)
qed simp

text \<open>
  C37. A subscriber stays within its limits.  If the query it starts with is within the limits of
  \<open>update_from_raw\<close>, its query always is, whatever the client sends; and it never sends more than one
  ping beyond the pongs it received, since an unanswered ping ends the subscription at the next tick.
\<close>

theorem subscriber_bounded:
  assumes "query_within query"
  shows "query_within (sb_query (subscriber_run parse_opts is (subscriber_new query))) \<and>
    length (filter is_ping (sb_sent (subscriber_run parse_opts is (subscriber_new query)))) \<le> length (filter is_pong is) + 1 \<and>
    (sb_ping_state s \<noteq> None \<longrightarrow> sb_cancelled (subscriber_step parse_opts sent (PingTick state) s))"
proof -
  let ?s = "subscriber_run parse_opts is (subscriber_new query)"
  have start: "sb_query (subscriber_new query) = query" "pings_owed (subscriber_new query) = 0"
    by (simp_all add: subscriber_new_def pings_owed_def)
  from subscriber_run_invariant [of "subscriber_new query" parse_opts "is"] assms
  have inv: "query_within (sb_query ?s)" "pings_owed ?s \<le> length (filter is_pong is)" by (simp_all add: start)
  have "length (filter is_ping (sb_sent ?s)) \<le> pings_owed ?s + 1"
    by (cases "sb_ping_state ?s") (simp_all add: pings_owed_def)
  with inv show ?thesis by auto
qed

definition one_source :: MultiSubscribeQuery where
  "one_source = \<lparr>wanted_subjects = {||}, wanted_subject_dids = {||}, wanted_sources = {|''a.b.c:x''|}\<rparr>"

definition ping_inputs :: "(bool \<times> SubscriberInput) list" where
  "ping_inputs = [(True, PingTick ''a''), (True, WsPong ''a''), (True, PingTick ''b''), (True, PingTick ''c'')]"

theorem subscriber_bounded_witness:
  "length (filter is_ping (sb_sent (subscriber_run (\<lambda>_. None) ping_inputs (subscriber_new one_source)))) \<le> 2"
proof -
  have within: "query_within one_source" by (simp add: query_within_def one_source_def fcard.rep_eq)
  have "length (filter is_pong ping_inputs) = 1" by (simp add: ping_inputs_def)
  with subscriber_bounded [OF within, of "\<lambda>_. None" ping_inputs] show ?thesis by simp
qed

end
