(* ===== verification/Spacedust_Serve.thy ===== *)
theory Spacedust_Serve
  imports Spacedust_Props
begin

text \<open>
  The websocket endpoint of \<open>spacedust\<close> (\<open>spacedust/src/server.rs\<close>): how a request becomes a
  subscriber, on the instant or on the delayed channel, and what that subscriber is sent, from the
  events of the firehose on.  The parser of query strings (\<open>serde_qs\<close>) and the one for the flag are
  arguments.
\<close>

section \<open>server.rs\<close>

datatype HttpError = BadRequest string

record ScalarSubscribeQuery =
  ssq_instant :: bool

definition multi_from_request ::
  "(string \<Rightarrow> string + MultiSubscribeQuery) \<Rightarrow> string option \<Rightarrow> HttpError + MultiSubscribeQuery" where
  "multi_from_request from_str query =
     (let raw_query = (case query of Some q \<Rightarrow> q | None \<Rightarrow> '''')
      in case from_str raw_query of
           Inl e \<Rightarrow> Inl (BadRequest (''unable to parse query string: '' @ e))
         | Inr q \<Rightarrow> Inr q)"

text \<open>The two broadcast channels of the \<open>Context\<close>; a receiver sees what is sent after it subscribed.\<close>

definition channel :: "bool \<Rightarrow> Dust \<Rightarrow> ClientMessage list" where
  "channel instant s = (if instant then sd_live s else sd_delayed s)"

record Subscription =
  sub_instant :: bool
  sub_from :: nat
  sub_subscriber :: Subscriber

definition subscribe :: "MultiSubscribeQuery \<Rightarrow> ScalarSubscribeQuery \<Rightarrow> Dust \<Rightarrow> Subscription" where
  "subscribe query scalar_query s =
     (let instant = ssq_instant scalar_query
      in \<lparr>sub_instant = instant, sub_from = length (channel instant s), sub_subscriber = subscriber_new query\<rparr>)"

definition received :: "Subscription \<Rightarrow> Dust \<Rightarrow> ClientMessage list" where
  "received sub s = drop (sub_from sub) (channel (sub_instant sub) s)"

definition subscribe_request ::
  "(string \<Rightarrow> string + MultiSubscribeQuery) \<Rightarrow> (string option \<Rightarrow> HttpError + ScalarSubscribeQuery) \<Rightarrow> string option \<Rightarrow> Dust \<Rightarrow>
     HttpError + Subscription" where
  "subscribe_request from_str scalar query s =
     and_then (multi_from_request from_str query) (\<lambda>q.
       and_then (scalar query) (\<lambda>sq. Inr (subscribe q sq s)))"

section \<open>What a subscriber is sent\<close>

fun recv_link :: "bool \<times> SubscriberInput \<Rightarrow> ClientMessage option" where
  "recv_link (_, RecvLink m) = Some m"
| "recv_link _ = None"

definition recv_links :: "(bool \<times> SubscriberInput) list \<Rightarrow> ClientMessage list" where
  "recv_links is = List.map_filter recv_link is"

fun text_of :: "WsMessage \<Rightarrow> string option" where
  "text_of (Text t) = Some t"
| "text_of _ = None"

definition texts :: "Subscriber \<Rightarrow> string list" where
  "texts s = List.map_filter text_of (sb_sent s)"

text \<open>An input after which the subscriber goes on with the query it has.\<close>

fun carries_on :: "bool \<times> SubscriberInput \<Rightarrow> bool" where
  "carries_on (sent, i) \<longleftrightarrow> sent \<and> (case i of WsText _ \<Rightarrow> False | WsErr \<Rightarrow> False | WsEnd \<Rightarrow> False | ShutdownCancelled \<Rightarrow> False | _ \<Rightarrow> True)"

lemma recv_links_Cons [simp]:
  "recv_links [] = []" "recv_links (i # is) = (case recv_link i of Some m \<Rightarrow> m # recv_links is | None \<Rightarrow> recv_links is)"
  by (simp_all add: recv_links_def List.map_filter_simps split: option.split)

lemma texts_append: "texts (s\<lparr>sb_sent := sb_sent s @ [m]\<rparr>) = texts s @ (case text_of m of Some t \<Rightarrow> [t] | None \<Rightarrow> [])"
  by (simp add: texts_def List.map_filter_def split: option.split)

lemma step_carries_on:
  assumes "carries_on (True, i)" "\<not> sb_done s"
  shows "\<not> sb_done (subscriber_step parse_opts True i s)" "sb_query (subscriber_step parse_opts True i s) = sb_query s"
    "texts (subscriber_step parse_opts True i s) = texts s @
       (case recv_link (True, i) of
          Some m \<Rightarrow> if subscriber_filter (sb_query s) (cm_properties m) then [cm_message m] else []
        | None \<Rightarrow> [])"
  using assms by (cases i; auto simp: ws_send_def texts_def List.map_filter_def split: option.split)+

text \<open>
  Every link that matches the query is sent on, once, in the order of the channel, and no other, for as
  long as the connection holds and the client does not change its query.
\<close>

theorem subscriber_gets_matching:
  assumes "list_all carries_on is"
  shows "texts (subscriber_run parse_opts is (subscriber_new query)) =
    map cm_message (filter (\<lambda>m. subscriber_filter query (cm_properties m)) (recv_links is))"
proof -
  have "texts (subscriber_run parse_opts is s) =
      texts s @ map cm_message (filter (\<lambda>m. subscriber_filter (sb_query s) (cm_properties m)) (recv_links is))"
    if "\<not> sb_done s" for s
    using assms that
  proof (induction "is" arbitrary: s)
    case (Cons i "is")
    then obtain j where i: "i = (True, j)" and j: "carries_on (True, j)" by (cases i) auto
    note step = step_carries_on [OF j Cons.prems(2), of parse_opts]
    have "list_all carries_on is" using Cons.prems(1) by simp
    from Cons.IH [OF this step(1)] Cons.prems(2) show ?case
      by (simp add: i step split: option.split)
  qed (simp add: texts_def)
  from this [of "subscriber_new query"] show ?thesis by (simp add: subscriber_new_def texts_def List.map_filter_def)
qed

text \<open>Whatever happens on the connection, a text that is sent was received.\<close>

lemma step_texts_received:
  "set (texts (subscriber_step parse_opts sent i s)) \<subseteq>
     set (texts s) \<union> (case recv_link (sent, i) of Some m \<Rightarrow> {cm_message m} | None \<Rightarrow> {})"
  by (cases i) (auto simp: ws_send_def texts_def List.map_filter_def split: option.split sum.split)

lemma run_texts_received:
  "set (texts (subscriber_run parse_opts is s)) \<subseteq> set (texts s) \<union> cm_message ` set (recv_links is)"
proof (induction parse_opts "is" s rule: subscriber_run.induct)
  case (2 parse_opts sent i rest s)
  then show ?case using step_texts_received [of parse_opts sent i s] by (auto split: option.splits if_splits)
qed simp

section \<open>From the firehose to the client\<close>


text \<open>A like that is released, then liked again and deleted in time: the client hears of the first one only.\<close>

definition quick_like :: "DustStep list" where
  "quick_like = [Ev (\<lambda>_. 0) (like_event Create), Turn 9, Ev (\<lambda>_. 10) (like_event Create)]"

definition whole_query :: MultiSubscribeQuery where
  "whole_query = \<lparr>wanted_subjects = {||}, wanted_subject_dids = {||}, wanted_sources = {||}\<rparr>"

abbreviation source_json :: "ClientEvent \<Rightarrow> string option" where
  "source_json e \<equiv> Some (cle_source_record (cev_link e))"

definition quick_message :: ClientMessage where
  "quick_message = \<lparr>cm_message = ''at://did:plc:me/app.like/r'',
     cm_properties = \<lparr>fp_subject = ''did:plc:x'', fp_subject_did = Some ''did:plc:x'', fp_source = ''app.like:''\<rparr>\<rparr>"


end
