(* ===== verification/Jetstream_Props.thy ===== *)
theory Jetstream_Props
  imports Jetstream
begin

text \<open>
  What the jetstream client promises over reconnects: events in order and from where it stopped, a
  bounded number of retries, and the delays between them.
\<close>

section \<open>Order\<close>

text \<open>The cursors the consumer has seen, from the one the connection was asked for.\<close>

definition seen :: "Cursor \<Rightarrow> JetstreamEvent list \<Rightarrow> Cursor list" where
  "seen c sent = c # map je_cursor sent"

lemma seen_simps [simp]: "seen c (sent @ [e]) = seen c sent @ [je_cursor e]" "seen c sent \<noteq> []"
  by (simp_all add: seen_def)

lemma sorted_snoc_last:
  assumes "sorted_wrt (<) (xs :: 'a :: linorder list)" "xs \<noteq> []" "last xs < x"
  shows "sorted_wrt (<) (xs @ [x])"
proof -
  have "sorted_wrt (<) (butlast xs @ [last xs])" using assms(1,2) by simp
  then have "\<forall>y \<in> set (butlast xs). y < last xs" by (simp add: sorted_wrt_append)
  moreover have "set xs = insert (last xs) (set (butlast xs))"
    by (subst append_butlast_last_id [OF assms(2), symmetric]) (simp del: append_butlast_last_id)
  ultimately show ?thesis using assms by (auto simp: sorted_wrt_append)
qed

definition conn_ok :: "Cursor \<Rightarrow> Connection \<Rightarrow> bool" where
  "conn_ok c s \<longleftrightarrow> cn_last_cursor s = Some (last (seen c (cn_sent s))) \<and> sorted_wrt (<) (seen c (cn_sent s))"

lemma handle_jetstream_event_ok:
  "conn_ok c s \<Longrightarrow> conn_ok c (snd (handle_jetstream_event parsed receiver_open writable s))"
  by (auto simp: handle_jetstream_event_def conn_ok_def not_le intro: sorted_snoc_last split: option.split)

lemma websocket_turn_ok: "conn_ok c s \<Longrightarrow> conn_ok c (snd (websocket_turn from_json decompress i s))"
  by (cases i) (simp_all add: handle_jetstream_event_ok split: option.split)

lemma websocket_task_ok: "conn_ok c s \<Longrightarrow> conn_ok c (snd (websocket_task from_json decompress is s))"
proof (induction "is" arbitrary: s)
  case (Cons i "is")
  obtain t s' where turn: "websocket_turn from_json decompress i s = (t, s')" by (rule prod.exhaust)
  have "conn_ok c s'" using websocket_turn_ok [OF Cons.prems, of from_json decompress i] by (simp add: turn)
  with Cons.IH show ?case by (cases t) (simp_all add: turn)
qed simp

text \<open>A connection asked for without a cursor never learns one.\<close>

lemma websocket_task_None:
  "cn_last_cursor s = None \<Longrightarrow> cn_last_cursor (snd (websocket_task from_json decompress is s)) = None"
proof (induction "is" arbitrary: s)
  case (Cons i "is")
  obtain t s' where turn: "websocket_turn from_json decompress i s = (t, s')" by (rule prod.exhaust)
  have "cn_last_cursor s' = None"
    using Cons.prems turn by (cases i) (auto simp: handle_jetstream_event_def split: option.splits if_splits)
  with Cons.IH show ?case by (cases t) (simp_all add: turn)
qed simp

section \<open>One turn of the connector\<close>

lemma connector_turn_cases:
  fixes config s
  defines "s1 req \<equiv> s\<lparr>ct_requests := ct_requests s @ [req], ct_retry_attempt := ct_retry_attempt s + 1\<rparr>"
  obtains (bad_request) "build_request version request_ok config (ct_connect_cursor s) = None"
      "connector_turn version request_ok from_json decompress config a s = s\<lparr>ct_status := Exited\<rparr>"
  | (failed) req where "build_request version request_ok config (ct_connect_cursor s) = Some req" "a = ConnectFailed"
      "connector_turn version request_ok from_json decompress config a s =
         after_attempt (jc_replay_on_reconnect config) (ct_connect_cursor s) (s1 req)"
  | (connected) req "is" long r c where "build_request version request_ok config (ct_connect_cursor s) = Some req"
      "a = Connected is long"
      "websocket_task from_json decompress is \<lparr>cn_last_cursor = ct_connect_cursor s, cn_sent = ct_sent s\<rparr> = (r, c)"
      "connector_turn version request_ok from_json decompress config a s =
         (case r of
            None \<Rightarrow> (s1 req)\<lparr>ct_sent := cn_sent c, ct_status := Reading\<rparr>
          | Some (Inl ReceiverClosedError) \<Rightarrow> (s1 req)\<lparr>ct_sent := cn_sent c, ct_status := Exited\<rparr>
          | Some _ \<Rightarrow> after_attempt (jc_replay_on_reconnect config) (cn_last_cursor c)
              ((s1 req)\<lparr>ct_sent := cn_sent c, ct_retry_attempt := (if long then 0 else ct_retry_attempt s + 1)\<rparr>))"
proof (cases "build_request version request_ok config (ct_connect_cursor s)")
  case None
  then show thesis using bad_request by (simp add: connector_turn_def)
next
  case (Some req)
  show thesis
  proof (cases a)
    case ConnectFailed
    then show thesis using failed Some by (simp add: connector_turn_def s1_def Let_def)
  next
    case (Connected "is" long)
    obtain r c where "websocket_task from_json decompress is \<lparr>cn_last_cursor = ct_connect_cursor s, cn_sent = ct_sent s\<rparr> = (r, c)"
      by (rule prod.exhaust)
    then show thesis
      using connected [OF Some Connected] Connected Some
      by (simp add: connector_turn_def s1_def Let_def split: option.split sum.split JetstreamEventError.split)
  qed
qed

lemma after_attempt_keeps [simp]:
  "ct_sent (after_attempt b l s) = ct_sent s" "ct_requests (after_attempt b l s) = ct_requests s"
  "ct_retry_attempt (after_attempt b l s) = ct_retry_attempt s"
  "ct_status (after_attempt b l s) = (if ct_retry_attempt s \<ge> max_retries then Exited else ct_status s)"
  by (simp_all add: after_attempt_def Let_def)

lemma after_attempt_cursor:
  "ct_status (after_attempt b l s) = Connecting \<Longrightarrow> ct_status s = Connecting \<Longrightarrow>
   ct_connect_cursor (after_attempt b l s) = (if b then l else None)"
  by (auto simp: after_attempt_def Let_def split: if_splits)

section \<open>Replay\<close>

definition resumes :: "Cursor \<Rightarrow> Connector \<Rightarrow> bool" where
  "resumes c s \<longleftrightarrow> sorted_wrt (<) (seen c (ct_sent s)) \<and>
     (ct_status s = Connecting \<longrightarrow> ct_connect_cursor s = Some (last (seen c (ct_sent s))))"

lemma connector_turn_resumes:
  assumes "jc_replay_on_reconnect config" "ct_status s = Connecting" "resumes c s"
  shows "resumes c (connector_turn version request_ok from_json decompress config a s)"
proof (cases rule: connector_turn_cases [where version = version and request_ok = request_ok and config = config and s = s
      and from_json = from_json and decompress = decompress and a = a])
  case bad_request
  then show ?thesis using assms(3) by (simp add: resumes_def)
next
  case (failed req)
  then show ?thesis using assms by (auto simp: resumes_def after_attempt_cursor)
next
  case (connected req "is" long r cn)
  have "conn_ok c \<lparr>cn_last_cursor = ct_connect_cursor s, cn_sent = ct_sent s\<rparr>"
    using assms(2,3) by (simp add: conn_ok_def resumes_def)
  then have "conn_ok c cn" using websocket_task_ok connected(3) by (metis snd_conv)
  then show ?thesis
    using assms(1,2) unfolding connected(4)
    by (auto simp: resumes_def conn_ok_def after_attempt_cursor split: option.split sum.split JetstreamEventError.split)
qed

lemma connector_run_resumes:
  assumes "jc_replay_on_reconnect config" "resumes c s"
  shows "resumes c (connector_run version request_ok from_json decompress config as s)"
  using assms(2) by (induction as arbitrary: s) (simp_all add: connector_turn_resumes [OF assms(1)])

text \<open>
  C10. Replay is in order and without repeats.  A connector that starts from a cursor and has
  \<open>replay_on_reconnect\<close> set hands out events with strictly increasing cursors, all above the first,
  over any sequence of connections and failures; whenever it is about to reconnect, it asks for the
  cursor of the last event it handed out.
\<close>

theorem replay_in_order:
  assumes "jc_replay_on_reconnect config"
    "connect_cursor version parse_url request_ok from_json decompress config attempts (Some c) = Inr s"
  shows "sorted_wrt (<) (c # map je_cursor (ct_sent s)) \<and>
    (ct_status s = Connecting \<longrightarrow> ct_connect_cursor s = Some (last (c # map je_cursor (ct_sent s))))"
proof -
  have s: "s = connector_run version request_ok from_json decompress config attempts (connector_start (Some c))"
    using assms(2) by (auto simp: connect_cursor_def and_then_def split: sum.splits)
  have "resumes c (connector_start (Some c))" by (simp add: resumes_def connector_start_def seen_def)
  from connector_run_resumes [OF assms(1) this] show ?thesis unfolding s resumes_def seen_def .
qed

text \<open>A connection that drops after two events, one of them old, and the connection after it.\<close>

definition replay_config :: JetstreamConfig where
  "replay_config = jetstream_config_default\<lparr>jc_replay_on_reconnect := True\<rparr>"

definition event_at :: "string \<Rightarrow> JetstreamEvent option" where
  "event_at json = Some \<lparr>je_cursor = of_nat (length json), je_did = ''did:plc:x'', je_kind = Identity, je_commit = None,
     je_identity = None, je_account = None\<rparr>"

definition two_connections :: "Attempt list" where
  "two_connections = [Connected [TextMessage ''12345'' True True, TextMessage ''1'' True True, SocketEnded] False,
     Connected [TextMessage ''1234567'' True True, SocketError] True]"

theorem replay_in_order_witness:
  "\<exists>s. connect_cursor ''1'' (\<lambda>_. True) (\<lambda>_. True) event_at Some replay_config two_connections (Some 3) = Inr s \<and>
     map je_cursor (ct_sent s) = [5, 7] \<and> ct_connect_cursor s = Some 7"
proof -
  let ?r = "connect_cursor ''1'' (\<lambda>_. True) (\<lambda>_. True) event_at Some replay_config two_connections (Some 3)"
  have "map_sum id (\<lambda>s. map je_cursor (ct_sent s)) ?r = Inr [5, 7]" "map_sum id ct_status ?r = Inr Connecting"
    by (simp_all add: connect_cursor_def validate_def replay_config_def jetstream_config_default_def two_connections_def
        connector_start_def connector_turn_def build_request_def handle_jetstream_event_def event_at_def after_attempt_def Let_def)
  then obtain s where s: "?r = Inr s" "map je_cursor (ct_sent s) = [5, 7]" "ct_status s = Connecting" by (cases ?r) auto
  have "jc_replay_on_reconnect replay_config" by (simp add: replay_config_def)
  from replay_in_order [OF this s(1)] s show ?thesis by simp
qed

definition cursorless :: "Connector \<Rightarrow> bool" where
  "cursorless s \<longleftrightarrow> ct_connect_cursor s = None \<and> (\<forall>req \<in> set (ct_requests s). ''cursor'' \<notin> fst ` set (rq_params req))"

lemma build_request_cursorless: "build_request version request_ok config None = Some req \<Longrightarrow> ''cursor'' \<notin> fst ` set (rq_params req)"
  by (auto simp: build_request_def base_params_def Let_def split: if_splits)

lemma after_attempt_None: "ct_connect_cursor s = None \<Longrightarrow> ct_connect_cursor (after_attempt b None s) = None"
  by (simp add: after_attempt_def Let_def)

lemma connector_turn_cursorless:
  assumes "cursorless s"
  shows "cursorless (connector_turn version request_ok from_json decompress config a s)"
proof (cases rule: connector_turn_cases [where version = version and request_ok = request_ok and config = config and s = s
      and from_json = from_json and decompress = decompress and a = a])
  case bad_request
  then show ?thesis using assms by (simp add: cursorless_def)
next
  case (failed req)
  then show ?thesis using assms build_request_cursorless by (auto simp: cursorless_def after_attempt_None)
next
  case (connected req "is" long r c)
  have "cn_last_cursor c = None"
    using websocket_task_None [of "\<lparr>cn_last_cursor = ct_connect_cursor s, cn_sent = ct_sent s\<rparr>" from_json decompress "is"]
      assms connected(3) by (simp add: cursorless_def)
  then show ?thesis
    using assms connected(1) build_request_cursorless unfolding connected(4)
    by (auto simp: cursorless_def after_attempt_None split: option.split sum.split JetstreamEventError.split)
qed

text \<open>
  Without a first cursor there is no replay.  A connector that starts without a cursor never asks
  for one, on no reconnect, even with \<open>replay_on_reconnect\<close> set: the task only updates a cursor it
  already has.  The events between two connections are lost, and the events are not checked to be new.
\<close>

theorem replay_needs_a_cursor:
  assumes "connect_cursor version parse_url request_ok from_json decompress config attempts None = Inr s"
  shows "ct_connect_cursor s = None \<and> (\<forall>req \<in> set (ct_requests s). ''cursor'' \<notin> fst ` set (rq_params req))"
proof -
  have "cursorless (connector_run version request_ok from_json decompress config as s)" if "cursorless s" for as s
    using that by (induction as arbitrary: s) (simp_all add: connector_turn_cursorless)
  moreover have "cursorless (connector_start None)" by (simp add: cursorless_def connector_start_def)
  ultimately have "cursorless (connector_run version request_ok from_json decompress config attempts (connector_start None))" .
  then show ?thesis using assms by (auto simp: cursorless_def connect_cursor_def and_then_def split: sum.splits)
qed

theorem replay_needs_a_cursor_witness:
  "\<exists>s. connect_cursor ''1'' (\<lambda>_. True) (\<lambda>_. True) event_at Some replay_config two_connections None = Inr s \<and>
     map je_cursor (ct_sent s) = [5, 1, 7] \<and> filter (\<lambda>req. ''cursor'' \<in> fst ` set (rq_params req)) (ct_requests s) = []"
proof -
  let ?r = "connect_cursor ''1'' (\<lambda>_. True) (\<lambda>_. True) event_at Some replay_config two_connections None"
  have "map_sum id (\<lambda>s. map je_cursor (ct_sent s)) ?r = Inr [5, 1, 7]"
    by (simp add: connect_cursor_def validate_def replay_config_def jetstream_config_default_def two_connections_def
        connector_start_def connector_turn_def build_request_def handle_jetstream_event_def event_at_def after_attempt_def Let_def)
  then obtain s where s: "?r = Inr s" "map je_cursor (ct_sent s) = [5, 1, 7]" by (cases ?r) auto
  from replay_needs_a_cursor [OF s(1)] s show ?thesis by (intro exI [of _ s]) (simp add: filter_empty_conv)
qed

section \<open>Retries\<close>

lemma backoff_exact:
  assumes "n \<le> 54"
  shows "unat (backoff_delay n) = min (1000 * 2 ^ n) 30000"
proof -
  have "(2 :: nat) ^ n \<le> 2 ^ 54" using assms by (rule power_increasing) simp
  then have small: "(1000 :: nat) * 2 ^ n < 2 ^ 64" by simp
  have "1000 * saturating_pow2 n = (of_nat (1000 * 2 ^ n) :: u64)" using assms by (simp add: saturating_pow2_def)
  then have "unat (1000 * saturating_pow2 n) = 1000 * 2 ^ n" using small by (simp only: unat_of_nat) simp
  then show ?thesis by (simp add: backoff_delay_def min_def word_le_nat_alt)
qed

text \<open>The retries of a connector none of whose connections lasts.\<close>

definition short_lived :: "Attempt \<Rightarrow> bool" where
  "short_lived a \<longleftrightarrow> (case a of Connected _ long \<Rightarrow> \<not> long | ConnectFailed \<Rightarrow> True)"

definition retrying :: "Connector \<Rightarrow> bool" where
  "retrying s \<longleftrightarrow> length (ct_requests s) \<le> max_retries \<and>
     (ct_status s = Connecting \<longrightarrow> ct_retry_attempt s = length (ct_requests s) \<and> length (ct_requests s) < max_retries)"

lemma connector_turn_retrying:
  assumes "retrying s" "ct_status s = Connecting" "short_lived a"
    "s' = connector_turn version request_ok from_json decompress config a s"
  shows "retrying s' \<and> (ct_status s' = Connecting \<longrightarrow> length (ct_requests s') = length (ct_requests s) + 1)"
proof (cases rule: connector_turn_cases [where version = version and request_ok = request_ok and config = config and s = s
      and from_json = from_json and decompress = decompress and a = a])
  case bad_request
  then show ?thesis using assms(1,4) by (simp add: retrying_def)
next
  case (failed req)
  then show ?thesis using assms(1,2,4) by (auto simp: retrying_def)
next
  case (connected req "is" long r c)
  with assms(3) have "\<not> long" by (simp add: short_lived_def)
  then show ?thesis using assms(1,2) unfolding assms(4) connected(4)
    by (auto simp: retrying_def split: option.split sum.split JetstreamEventError.split)
qed

lemma connector_run_retrying:
  assumes "retrying s" "ct_status s = Connecting" "\<forall>a \<in> set as. short_lived a"
    "s' = connector_run version request_ok from_json decompress config as s"
  shows "retrying s' \<and> (ct_status s' = Connecting \<longrightarrow> length (ct_requests s') = length (ct_requests s) + length as)"
  using assms(1-3) unfolding assms(4)
proof (induction as arbitrary: s)
  case (Cons a as)
  let ?s = "connector_turn version request_ok from_json decompress config a s"
  have one: "retrying ?s" "ct_status ?s = Connecting \<longrightarrow> length (ct_requests ?s) = length (ct_requests s) + 1"
    using connector_turn_retrying [OF Cons.prems(1,2) _ refl, of a version request_ok from_json decompress config] Cons.prems(3) by simp_all
  show ?case
  proof (cases "ct_status ?s = Connecting")
    case True
    with Cons.IH [OF one(1) True] one(2) Cons.prems(2,3) show ?thesis by auto
  next
    case False
    then have "connector_run version request_ok from_json decompress config as ?s = ?s" by (cases as) simp_all
    with False one(1) Cons.prems(2) show ?thesis by simp
  qed
qed simp

text \<open>
  C38. The retries end, and their delays.  If no connection outlives the threshold, the connector makes
  at most 300 attempts and then stops retrying.  The delay before a retry is never above 30 seconds
  and is \<open>1000 * 2 ^ n\<close> milliseconds capped there as long as the product fits 64 bits; from the 61st to
  the 63rd retry it wraps around to no delay at all.
\<close>

theorem retries_bounded:
  assumes "\<forall>a \<in> set attempts. short_lived a"
    "connect_cursor version parse_url request_ok from_json decompress config attempts cursor = Inr s"
  shows "length (ct_requests s) \<le> 300 \<and> (300 \<le> length attempts \<longrightarrow> ct_status s \<noteq> Connecting) \<and>
    (\<forall>n. backoff_delay n \<le> 30000 \<and> (n \<le> 54 \<longrightarrow> unat (backoff_delay n) = min (1000 * 2 ^ n) 30000)) \<and>
    backoff_delay 61 = 0 \<and> backoff_delay 62 = 0 \<and> backoff_delay 63 = 0"
proof -
  have s: "s = connector_run version request_ok from_json decompress config attempts (connector_start cursor)"
    using assms(2) by (auto simp: connect_cursor_def and_then_def split: sum.splits)
  have start: "retrying (connector_start cursor)" "ct_status (connector_start cursor) = Connecting"
    "ct_requests (connector_start cursor) = []" by (simp_all add: retrying_def connector_start_def)
  have "retrying s \<and> (ct_status s = Connecting \<longrightarrow> length (ct_requests s) = length attempts)"
    using connector_run_retrying [OF start(1,2) assms(1) s] by (simp add: start(3))
  then have "length (ct_requests s) \<le> 300" "300 \<le> length attempts \<longrightarrow> ct_status s \<noteq> Connecting"
    by (auto simp: retrying_def)
  moreover have "backoff_delay n \<le> 30000" for n by (simp add: backoff_delay_def)
  moreover have "backoff_delay 61 = 0" "backoff_delay 62 = 0" "backoff_delay 63 = 0"
    by (simp_all add: backoff_delay_def saturating_pow2_def)
  ultimately show ?thesis using backoff_exact by blast
qed

theorem retries_bounded_witness:
  "\<exists>s. connect_cursor ''1'' (\<lambda>_. True) (\<lambda>_. True) event_at Some replay_config (replicate 300 ConnectFailed) None = Inr s \<and>
     ct_status s \<noteq> Connecting \<and> length (ct_requests s) \<le> 300"
proof -
  let ?r = "connect_cursor ''1'' (\<lambda>_. True) (\<lambda>_. True) event_at Some replay_config (replicate 300 ConnectFailed) None"
  obtain s where s: "?r = Inr s"
    by (simp add: connect_cursor_def validate_def replay_config_def jetstream_config_default_def)
  have "\<forall>a \<in> set (replicate 300 ConnectFailed). short_lived a" by (simp add: short_lived_def)
  from retries_bounded [OF this s] s show ?thesis by (simp del: replicate.simps)
qed

end
