(* ===== verification/Jetstream_Time.thy ===== *)
theory Jetstream_Time
  imports Ufos_Batch
begin

text \<open>
  Cursors as times (\<open>jetstream/src/events.rs\<close>).  A \<open>SystemTime\<close> is the number of nanoseconds since
  the unix epoch, negative before it; a \<open>Duration\<close> is a number of nanoseconds.  The local clock is
  the argument \<open>now\<close>, and so is what a conversion to \<open>f64\<close> makes of a number.
\<close>

section \<open>Conversions\<close>

type_synonym SystemTime = int

definition cursor_at :: "SystemTime \<Rightarrow> panic + Cursor" where
  "cursor_at t =
     (if t < 0 then Inl (Panic ''cannot set jetstream cursor earlier than unix epoch'')
      else Inr (of_nat (nat t div 1000)))"

definition back_by :: "SystemTime \<Rightarrow> nat \<Rightarrow> panic + Cursor" where
  "back_by now d = cursor_at (now - int d)"

definition cursor_time :: "Cursor \<Rightarrow> SystemTime" where
  "cursor_time c = int (unat c) * 1000"

text \<open>\<open>SystemTime::duration_since\<close>: the error holds by how much the other time is later.\<close>

definition time_since :: "SystemTime \<Rightarrow> SystemTime \<Rightarrow> nat + nat" where
  "time_since t earlier = (if earlier \<le> t then Inr (nat (t - earlier)) else Inl (nat (earlier - t)))"

definition cursor_duration_since :: "Cursor \<Rightarrow> SystemTime \<Rightarrow> nat + nat" where
  "cursor_duration_since c earlier = time_since (cursor_time c) earlier"

definition cursor_elapsed :: "SystemTime \<Rightarrow> Cursor \<Rightarrow> nat + nat" where
  "cursor_elapsed now c = time_since now (cursor_time c)"

definition elapsed_micros_f64 :: "(nat \<Rightarrow> 'f) \<Rightarrow> ('f \<Rightarrow> 'f) \<Rightarrow> SystemTime \<Rightarrow> Cursor \<Rightarrow> 'f" where
  "elapsed_micros_f64 as_f64 neg now c =
     (case cursor_elapsed now c of
        Inr d \<Rightarrow> as_f64 (d div 1000)
      | Inl d \<Rightarrow> neg (as_f64 (d div 1000)))"

section \<open>Cursors and times\<close>

lemma cursor_time_nonneg: "0 \<le> cursor_time c"
  by (simp add: cursor_time_def)

text \<open>A cursor is the time it stands for, to the microsecond, in both directions.\<close>

lemma cursor_at_time: "cursor_at (cursor_time c) = Inr c"
  by (simp add: cursor_at_def cursor_time_def nat_mult_distrib)

lemma cursor_at_bounds:
  assumes "0 \<le> t" "t < 1000 * 2 ^ 64"
  obtains c where "cursor_at t = Inr c" "cursor_time c \<le> t" "t < cursor_time c + 1000"
proof -
  have "nat t < 2 ^ 64 * 1000" using assms by (simp add: nat_less_iff)
  then have "nat t div 1000 < 2 ^ 64" by (rule less_mult_imp_div_less)
  then have "unat (of_nat (nat t div 1000) :: u64) = nat t div 1000" by (rule unat_of_nat_u64)
  then have "cursor_time (of_nat (nat t div 1000)) = t div 1000 * 1000"
    using assms(1) by (simp add: cursor_time_def zdiv_int)
  moreover have "cursor_at t = Inr (of_nat (nat t div 1000))" using assms(1) by (simp add: cursor_at_def)
  moreover have "t div 1000 * 1000 \<le> t" "t < t div 1000 * 1000 + 1000" by presburger+
  ultimately show thesis using that by metis
qed

lemma cursor_at_panics: "(\<exists>e. cursor_at t = Inl e) \<longleftrightarrow> t < 0"
  by (simp add: cursor_at_def)

lemma back_by_panics: "(\<exists>e. back_by now d = Inl e) \<longleftrightarrow> now < int d"
  by (simp add: back_by_def cursor_at_panics)

text \<open>The difference of two cursors, as the statistics of \<open>ufos\<close> use it.\<close>

lemma cursor_duration_since_micros:
  "cursor_duration_since c (cursor_time c') =
     (case duration_since c c' of Some us \<Rightarrow> Inr (us * 1000) | None \<Rightarrow> Inl ((unat c' - unat c) * 1000))"
proof (cases "c' \<le> c")
  case True
  then have le: "unat c' \<le> unat c" by (simp add: word_le_nat_alt)
  then have "int (unat c) * 1000 - int (unat c') * 1000 = int ((unat c - unat c') * 1000)"
    by (simp add: of_nat_diff algebra_simps)
  then have "nat (int (unat c) * 1000 - int (unat c') * 1000) = (unat c - unat c') * 1000" by (simp only: nat_int)
  with True le show ?thesis
    by (simp add: cursor_duration_since_def time_since_def cursor_time_def duration_since_def word_le_def)
next
  case False
  then have less: "unat c < unat c'" by (simp add: word_le_nat_alt)
  then have "int (unat c') * 1000 - int (unat c) * 1000 = int ((unat c' - unat c) * 1000)"
    by (simp add: of_nat_diff algebra_simps)
  then have "nat (int (unat c') * 1000 - int (unat c) * 1000) = (unat c' - unat c) * 1000" by (simp only: nat_int)
  with False less show ?thesis
    by (simp add: cursor_duration_since_def time_since_def cursor_time_def duration_since_def word_le_def)
qed

text \<open>The age of a cursor is signed: negative exactly when the event is ahead of the local clock by a microsecond or more.\<close>

lemma elapsed_micros_signed:
  "elapsed_micros_f64 of_nat uminus now c =
     (if cursor_time c \<le> now then (now - cursor_time c) div 1000 else - ((cursor_time c - now) div 1000))"
  by (simp add: elapsed_micros_f64_def cursor_elapsed_def time_since_def zdiv_int)

end
