(* ===== verification/Slingshot_Identity.thy ===== *)
theory Slingshot_Identity
  imports Prelude
begin

text \<open>
  The identities of \<open>slingshot\<close> (\<open>slingshot/src/identity.rs\<close>): resolving handles to DIDs and DIDs to
  a part of their documents, with a cache in front of the network and a queue of entries to refresh.

  Third-party code enters through records of functions.  \<open>HybridCache\<close> is foyer's cache, of which
  \<open>cache_laws\<close> says what its documentation does: a fetch gives what is held or runs the closure, and
  what is held was inserted and not replaced since, though it may be gone at any time.  \<open>Atrium\<close> has
  the validators of atproto strings and \<open>get_pds_endpoint\<close>.  \<open>World\<close> is what the resolvers and the
  clock say while an operation runs; operations that ask twice are given two.  Instants are
  nanoseconds.  Logging is left out.
\<close>

section \<open>foyer\<close>

datatype 'e FoyerError = FoyerInternal | FoyerOther 'e

record ('k, 'v, 'e, 's, 'c) HybridCache =
  hc_holds :: "'c \<Rightarrow> 'k \<Rightarrow> 'v option"
  hc_insert :: "'k \<Rightarrow> 'v \<Rightarrow> 'c \<Rightarrow> 'c"
  hc_fetch :: "'k \<Rightarrow> ('s \<Rightarrow> ('e FoyerError + 'v) \<times> 's) \<Rightarrow> 'c \<times> 's \<Rightarrow> ('e FoyerError + 'v) \<times> 'c \<times> 's"

definition insert_law :: "('k, 'v, 'e, 's, 'c) HybridCache \<Rightarrow> bool" where
  "insert_law hc \<longleftrightarrow>
     (\<forall>k v c k' v'. hc_holds hc (hc_insert hc k v c) k' = Some v' \<longrightarrow>
        (if k' = k then v' = v else hc_holds hc c k' = Some v'))"

definition fetch_law :: "('k, 'v, 'e, 's, 'c) HybridCache \<Rightarrow> bool" where
  "fetch_law hc \<longleftrightarrow>
     (\<forall>k f c s r c' s'. hc_fetch hc k f (c, s) = (r, c', s') \<longrightarrow>
        (s' = s \<and> (case r of Inr v \<Rightarrow> hc_holds hc c k = Some v | Inl e \<Rightarrow> e = FoyerInternal) \<or>
         s' = snd (f s) \<and> (r = fst (f s) \<or> r = Inl FoyerInternal)) \<and>
        (\<forall>k' v'. hc_holds hc c' k' = Some v' \<longrightarrow>
           hc_holds hc c k' = Some v' \<or> k' = k \<and> fst (f s) = Inr v' \<and> s' = snd (f s)))"

definition cache_laws :: "('k, 'v, 'e, 's, 'c) HybridCache \<Rightarrow> bool" where
  "cache_laws hc \<longleftrightarrow> insert_law hc \<and> fetch_law hc"

section \<open>Types\<close>

datatype ResolveError = ResolveNotFound | ResolveOther

datatype IdentityError =
    WhateverError string
  | BadDid string
  | IdentityValTypeMixup string
  | FoyerError "IdentityError FoyerError"
  | ResolutionFailed ResolveError
  | InvalidHandle string string
  | BadDidDoc string
  | RefreshQueueKeyError string

datatype IdentityKey = HandleKey string | DidKey string

record PartialMiniDoc =
  pm_unverified_handle :: string
  pm_pds :: string
  pm_signing_key :: string

datatype IdentityData = NotFoundData | DidData string | DocData PartialMiniDoc

datatype IdentityVal = IdentityVal (iv_last_fetch: int) (iv_data: IdentityData)

text \<open>The fields of atrium's \<open>DidDocument\<close> that the code reads, its services left abstract.\<close>

record VerificationMethod =
  vm_id :: string
  vm_type :: string
  vm_controller :: string
  vm_public_key_multibase :: "string option"

record DidDocument =
  dd_id :: string
  dd_also_known_as :: "string list option"
  dd_verification_method :: "VerificationMethod list option"
  dd_services :: "(string \<times> string) list"

record Atrium =
  at_handle_new :: "string \<Rightarrow> bool"
  at_did_new :: "string \<Rightarrow> bool"
  at_nsid_new :: "string \<Rightarrow> bool"
  at_rkey_new :: "string \<Rightarrow> bool"
  at_cid :: "string \<Rightarrow> string option"
  at_pds_endpoint :: "DidDocument \<Rightarrow> string option"

record World =
  wd_resolved_at :: int
  wd_now :: int
  wd_handle :: "string \<Rightarrow> ResolveError + string"
  wd_did :: "string \<Rightarrow> ResolveError + DidDocument"

definition MIN_TTL :: int where "MIN_TTL = 4 * 3600 * 10 ^ 9"

definition MIN_NOT_FOUND_TTL :: int where "MIN_NOT_FOUND_TTL = 60 * 10 ^ 9"

section \<open>PartialMiniDoc::try_from\<close>

fun first_handle :: "Atrium \<Rightarrow> string list \<Rightarrow> string option" where
  "first_handle atr [] = None"
| "first_handle atr (aka # akas) =
     (case strip_prefix ''at://'' aka of
        None \<Rightarrow> first_handle atr akas
      | Some h \<Rightarrow> if at_handle_new atr h then Some h else first_handle atr akas)"

fun first_signing_key :: "string \<Rightarrow> VerificationMethod list \<Rightarrow> string option" where
  "first_signing_key did [] = None"
| "first_signing_key did (method # methods) =
     (if vm_id method \<noteq> did @ ''#atproto'' then first_signing_key did methods
      else if vm_type method \<noteq> ''Multikey'' then first_signing_key did methods
      else if vm_controller method \<noteq> did then first_signing_key did methods
      else case vm_public_key_multibase method of
             None \<Rightarrow> first_signing_key did methods
           | Some key \<Rightarrow> Some key)"

definition mini_doc_try_from :: "Atrium \<Rightarrow> DidDocument \<Rightarrow> string + PartialMiniDoc" where
  "mini_doc_try_from atr doc =
     (case dd_also_known_as doc of
        None \<Rightarrow> Inl ''did doc missing `also_known_as`''
      | Some akas \<Rightarrow>
     (case first_handle atr akas of
        None \<Rightarrow> Inl ''no valid atproto handles in `also_known_as`''
      | Some handle \<Rightarrow>
     (case at_pds_endpoint atr doc of
        None \<Rightarrow> Inl ''no valid pds service found''
      | Some pds \<Rightarrow>
     (case dd_verification_method doc of
        None \<Rightarrow> Inl ''no verification methods found''
      | Some methods \<Rightarrow>
     (case first_signing_key (dd_id doc) methods of
        None \<Rightarrow> Inl ''no valid atproto signing key found in verification methods''
      | Some key \<Rightarrow> Inr \<lparr>pm_unverified_handle = handle, pm_pds = pds, pm_signing_key = key\<rparr>)))))"

section \<open>Identity\<close>

record 'c Identities =
  id_cache :: 'c
  id_queue :: "IdentityKey list"
  id_items :: "IdentityKey set"

type_synonym 'c IdentityCache = "(IdentityKey, IdentityVal, IdentityError, unit, 'c) HybridCache"

definition identity_new :: "'c \<Rightarrow> 'c Identities" where
  "identity_new cache = \<lparr>id_cache = cache, id_queue = [], id_items = {}\<rparr>"

definition queue_refresh :: "IdentityKey \<Rightarrow> 'c Identities \<Rightarrow> 'c Identities" where
  "queue_refresh key s =
     (if key \<in> id_items s then s
      else s\<lparr>id_items := insert key (id_items s), id_queue := id_queue s @ [key]\<rparr>)"

text \<open>What the closures of the two fetches return.\<close>

definition resolve_handle_entry :: "World \<Rightarrow> string \<Rightarrow> IdentityError FoyerError + IdentityVal" where
  "resolve_handle_entry w handle =
     (case wd_handle w handle of
        Inr did \<Rightarrow> Inr (IdentityVal (wd_resolved_at w) (DidData did))
      | Inl ResolveNotFound \<Rightarrow> Inr (IdentityVal (wd_resolved_at w) NotFoundData)
      | Inl e \<Rightarrow> Inl (FoyerOther (ResolutionFailed e)))"

definition resolve_did_entry :: "Atrium \<Rightarrow> World \<Rightarrow> string \<Rightarrow> IdentityError FoyerError + IdentityVal" where
  "resolve_did_entry atr w did =
     (case wd_did w did of
        Inr doc \<Rightarrow>
          if dd_id doc \<noteq> did then Inl (FoyerOther (BadDidDoc ''did doc's id did not match did''))
          else (case mini_doc_try_from atr doc of
                  Inl e \<Rightarrow> Inl (FoyerOther (BadDidDoc e))
                | Inr mini_doc \<Rightarrow> Inr (IdentityVal (wd_resolved_at w) (DocData mini_doc)))
      | Inl ResolveNotFound \<Rightarrow> Inr (IdentityVal (wd_resolved_at w) NotFoundData)
      | Inl e \<Rightarrow> Inl (FoyerOther (ResolutionFailed e)))"

definition fetch_identity ::
  "'c IdentityCache \<Rightarrow> IdentityKey \<Rightarrow> IdentityError FoyerError + IdentityVal \<Rightarrow> 'c Identities \<Rightarrow>
     (IdentityError + IdentityVal) \<times> 'c Identities" where
  "fetch_identity hc key entry s =
     (case hc_fetch hc key (\<lambda>u. (entry, u)) (id_cache s, ()) of
        (r, c, _) \<Rightarrow> (map_sum FoyerError id r, s\<lparr>id_cache := c\<rparr>))"

definition refresh_if :: "bool \<Rightarrow> IdentityKey \<Rightarrow> 'c Identities \<Rightarrow> 'c Identities" where
  "refresh_if stale key s = (if stale then queue_refresh key s else s)"

definition handle_to_unverified_did ::
  "'c IdentityCache \<Rightarrow> World \<Rightarrow> string \<Rightarrow> 'c Identities \<Rightarrow> (IdentityError + string option) \<times> 'c Identities" where
  "handle_to_unverified_did hc w handle s =
     (let key = HandleKey handle in
      case fetch_identity hc key (resolve_handle_entry w handle) s of
        (Inl e, s) \<Rightarrow> (Inl e, s)
      | (Inr (IdentityVal last_fetch data), s) \<Rightarrow>
          (case data of
             DocData _ \<Rightarrow> (Inl (IdentityValTypeMixup handle), s)
           | NotFoundData \<Rightarrow> (Inr None, refresh_if (wd_now w - last_fetch \<ge> MIN_NOT_FOUND_TTL) key s)
           | DidData did \<Rightarrow> (Inr (Some did), refresh_if (wd_now w - last_fetch \<ge> MIN_TTL) key s)))"

definition did_to_partial_mini_doc ::
  "Atrium \<Rightarrow> 'c IdentityCache \<Rightarrow> World \<Rightarrow> string \<Rightarrow> 'c Identities \<Rightarrow>
     (IdentityError + PartialMiniDoc option) \<times> 'c Identities" where
  "did_to_partial_mini_doc atr hc w did s =
     (let key = DidKey did in
      case fetch_identity hc key (resolve_did_entry atr w did) s of
        (Inl e, s) \<Rightarrow> (Inl e, s)
      | (Inr (IdentityVal last_fetch data), s) \<Rightarrow>
          (case data of
             DidData _ \<Rightarrow> (Inl (IdentityValTypeMixup did), s)
           | NotFoundData \<Rightarrow> (Inr None, refresh_if (wd_now w - last_fetch \<ge> MIN_NOT_FOUND_TTL) key s)
           | DocData mini_doc \<Rightarrow> (Inr (Some mini_doc), refresh_if (wd_now w - last_fetch \<ge> MIN_TTL) key s)))"

definition handle_to_did ::
  "Atrium \<Rightarrow> 'c IdentityCache \<Rightarrow> World \<Rightarrow> World \<Rightarrow> string \<Rightarrow> 'c Identities \<Rightarrow>
     (IdentityError + string option) \<times> 'c Identities" where
  "handle_to_did atr hc w1 w2 handle s =
     (case handle_to_unverified_did hc w1 handle s of
        (Inl e, s) \<Rightarrow> (Inl e, s)
      | (Inr None, s) \<Rightarrow> (Inr None, s)
      | (Inr (Some did), s) \<Rightarrow>
          (case did_to_partial_mini_doc atr hc w2 did s of
             (Inl e, s) \<Rightarrow> (Inl e, s)
           | (Inr None, s) \<Rightarrow> (Inr None, s)
           | (Inr (Some doc), s) \<Rightarrow>
               (Inr (if pm_unverified_handle doc \<noteq> handle then None else Some did), s)))"

definition did_to_pds ::
  "Atrium \<Rightarrow> 'c IdentityCache \<Rightarrow> World \<Rightarrow> string \<Rightarrow> 'c Identities \<Rightarrow> (IdentityError + string option) \<times> 'c Identities" where
  "did_to_pds atr hc w did s = apfst (map_sum id (map_option pm_pds)) (did_to_partial_mini_doc atr hc w did s)"

section \<open>The refresher\<close>

definition peek_refresh :: "'c Identities \<Rightarrow> IdentityKey option" where
  "peek_refresh s = (case id_queue s of [] \<Rightarrow> None | key # _ \<Rightarrow> Some key)"

definition complete_refresh :: "IdentityKey \<Rightarrow> 'c Identities \<Rightarrow> (IdentityError + unit) \<times> 'c Identities" where
  "complete_refresh key s =
     (case id_queue s of
        [] \<Rightarrow> (Inl (RefreshQueueKeyError ''no key in queue''), s\<lparr>id_items := id_items s - {key}\<rparr>)
      | queue_key # queue \<Rightarrow>
          if queue_key \<noteq> key
          then (Inl (RefreshQueueKeyError ''wrong key at front of queue''),
                s\<lparr>id_queue := queue, id_items := id_items s - {queue_key}\<rparr>)
          else (if key \<in> id_items s then Inr () else Inl (RefreshQueueKeyError ''key not in items''),
                s\<lparr>id_queue := queue, id_items := id_items s - {key}\<rparr>))"

definition cache_entry :: "'c IdentityCache \<Rightarrow> IdentityKey \<Rightarrow> IdentityVal \<Rightarrow> 'c Identities \<Rightarrow> 'c Identities" where
  "cache_entry hc key v s = s\<lparr>id_cache := hc_insert hc key v (id_cache s)\<rparr>"

text \<open>One turn of the loop, up to its \<open>continue\<close>; the sum is what \<open>complete_refresh\<close> said.\<close>

definition refresh_key ::
  "Atrium \<Rightarrow> 'c IdentityCache \<Rightarrow> World \<Rightarrow> IdentityKey \<Rightarrow> 'c Identities \<Rightarrow> (IdentityError + unit) \<times> 'c Identities" where
  "refresh_key atr hc w task_key s =
     (case task_key of
        HandleKey handle \<Rightarrow>
          complete_refresh task_key
            (case wd_handle w handle of
               Inr did \<Rightarrow> cache_entry hc task_key (IdentityVal (wd_resolved_at w) (DidData did)) s
             | Inl ResolveNotFound \<Rightarrow> cache_entry hc task_key (IdentityVal (wd_resolved_at w) NotFoundData) s
             | Inl ResolveOther \<Rightarrow> s)
      | DidKey did \<Rightarrow>
          (case wd_did w did of
             Inr doc \<Rightarrow>
               if dd_id doc \<noteq> did then (Inr (), s)
               else (case mini_doc_try_from atr doc of
                       Inl _ \<Rightarrow> (Inr (), s)
                     | Inr mini_doc \<Rightarrow>
                         complete_refresh task_key
                           (cache_entry hc task_key (IdentityVal (wd_resolved_at w) (DocData mini_doc)) s))
           | Inl ResolveNotFound \<Rightarrow>
               complete_refresh task_key (cache_entry hc task_key (IdentityVal (wd_resolved_at w) NotFoundData) s)
           | Inl ResolveOther \<Rightarrow> complete_refresh task_key s))"

definition refresher_turn ::
  "Atrium \<Rightarrow> 'c IdentityCache \<Rightarrow> World \<Rightarrow> 'c Identities \<Rightarrow> (IdentityError + unit) \<times> 'c Identities" where
  "refresher_turn atr hc w s =
     (case peek_refresh s of None \<Rightarrow> (Inr (), s) | Some key \<Rightarrow> refresh_key atr hc w key s)"

text \<open>The loop over the turns until it fails; \<open>shutdown\<close> ends it after the last world of the list.\<close>

fun run_refresher ::
  "Atrium \<Rightarrow> 'c IdentityCache \<Rightarrow> World list \<Rightarrow> 'c Identities \<Rightarrow> (IdentityError + unit) \<times> 'c Identities" where
  "run_refresher atr hc [] s = (Inr (), s)"
| "run_refresher atr hc (w # ws) s =
     (case refresher_turn atr hc w s of
        (Inl e, s) \<Rightarrow> (Inl e, s)
      | (Inr _, s) \<Rightarrow> run_refresher atr hc ws s)"

end
