(* ===== verification/Slingshot.thy ===== *)
theory Slingshot
  imports Slingshot_Identity Jetstream Links
begin

text \<open>
  The record cache of \<open>slingshot\<close>: records and their fetching from a PDS (\<open>slingshot/src/record.rs\<close>),
  the consumer that fills the cache from the firehose (\<open>consumer.rs\<close>) and the XRPC handlers
  (\<open>server.rs\<close>).

  \<open>Http\<close> stands for the crates \<open>url\<close>, \<open>reqwest\<close> and \<open>serde_json\<close>: the URL of a request, the answer to
  the n-th request of a fetch, and which stored strings are JSON.  A handler that asks the network
  several times is given one world per question.  A record is the text of its JSON.
\<close>

section \<open>record.rs\<close>

record RawRecord =
  rr_cid :: string
  rr_record :: string

datatype CachedRecord = FoundRecord RawRecord | DeletedRecord

record ErrorResponseObject =
  er_error :: string
  er_message :: string

record RecordResponseObject =
  ro_uri :: string
  ro_cid :: "string option"
  ro_value :: string

text \<open>An answer over HTTP: its status and its body read as either of the two objects.\<close>

record HttpResponse =
  hr_status :: nat
  hr_error :: "ErrorResponseObject option"
  hr_record :: "RecordResponseObject option"

record Http =
  ht_url :: "string \<Rightarrow> (string \<times> string) list \<Rightarrow> string option"
  ht_send :: "nat \<Rightarrow> string \<Rightarrow> HttpResponse option"
  ht_json_ok :: "string \<Rightarrow> bool"

datatype RecordError =
    RecordIdentityError IdentityError
  | BadRepo
  | RecordNotFound string
  | UrlParseError
  | SendError
  | StatusError
  | ParseJsonError
  | MissingUpstreamCid
  | BadUpstreamCid
  | UpstreamBadRequest ErrorResponseObject
  | UpstreamBadBadNotGoodRequest

text \<open>One request of the loop, for a version of the record or for any.\<close>

definition send_request ::
  "Http \<Rightarrow> string \<Rightarrow> string \<Rightarrow> string \<Rightarrow> string \<Rightarrow> nat \<Rightarrow> string option \<Rightarrow> RecordError + HttpResponse" where
  "send_request ht pds did collection rkey n cid =
     (let params = [(''repo'', did), (''collection'', collection), (''rkey'', rkey)] @
            (case cid of Some c \<Rightarrow> [(''cid'', c)] | None \<Rightarrow> [])
      in case ht_url ht pds params of
           None \<Rightarrow> Inl UrlParseError
         | Some url \<Rightarrow> (case ht_send ht n url of None \<Rightarrow> Inl SendError | Some res \<Rightarrow> Inr res))"

function request_loop :: "(nat \<Rightarrow> string option \<Rightarrow> RecordError + HttpResponse) \<Rightarrow> nat \<Rightarrow> string option \<Rightarrow> RecordError + HttpResponse" where
  "request_loop send n cid =
     (case send n cid of
        Inl e \<Rightarrow> Inl e
      | Inr res \<Rightarrow>
          if hr_status res = 400
          then (case hr_error res of
                  None \<Rightarrow> Inl UpstreamBadBadNotGoodRequest
                | Some err \<Rightarrow>
                    if er_error err = ''NotFound'' \<and> cid \<noteq> None then request_loop send (n + 1) None
                    else Inl (UpstreamBadRequest err))
          else Inr res)"
  by pat_completeness auto

termination
  by (relation "measure (\<lambda>(_, _, cid). case cid of None \<Rightarrow> 0 | Some _ \<Rightarrow> 1)") auto

declare request_loop.simps [simp del]

definition upstream_record :: "Atrium \<Rightarrow> HttpResponse \<Rightarrow> RecordError + CachedRecord" where
  "upstream_record atr res =
     (if 400 \<le> hr_status res \<and> hr_status res < 600 then Inl StatusError
      else case hr_record res of
             None \<Rightarrow> Inl ParseJsonError
           | Some data \<Rightarrow>
               (case ro_cid data of
                  None \<Rightarrow> Inl MissingUpstreamCid
                | Some c \<Rightarrow>
                    (case at_cid atr c of
                       None \<Rightarrow> Inl BadUpstreamCid
                     | Some cid \<Rightarrow> Inr (FoundRecord \<lparr>rr_cid = cid, rr_record = ro_value data\<rparr>))))"

definition repo_get_record ::
  "Atrium \<Rightarrow> 'c IdentityCache \<Rightarrow> Http \<Rightarrow> World \<Rightarrow> string \<Rightarrow> string \<Rightarrow> string \<Rightarrow> string option \<Rightarrow>
     'c Identities \<Rightarrow> (RecordError + CachedRecord) \<times> 'c Identities" where
  "repo_get_record atr hc ht w did collection rkey cid ids =
     (case did_to_pds atr hc w did ids of
        (Inl e, ids) \<Rightarrow> (Inl (RecordIdentityError e), ids)
      | (Inr None, ids) \<Rightarrow> (Inl (RecordNotFound ''could not get pds for DID''), ids)
      | (Inr (Some pds), ids) \<Rightarrow>
          (and_then (request_loop (send_request ht pds did collection rkey) 0 cid) (upstream_record atr), ids))"

section \<open>consumer.rs\<close>

type_synonym ('c, 'r) RecordCache = "(string, CachedRecord, RecordError, 'c Identities, 'r) HybridCache"

definition record_uri :: "string \<Rightarrow> string \<Rightarrow> string \<Rightarrow> string" where
  "record_uri did collection rkey = ''at://'' @ did @ ''/'' @ collection @ ''/'' @ rkey"

definition slingshot_config :: "string \<Rightarrow> bool \<Rightarrow> JetstreamConfig" where
  "slingshot_config jetstream_endpoint no_zstd =
     jetstream_config_default
       \<lparr>jc_endpoint := endpoint_or_shortcut jetstream_endpoint,
        jc_compression := (if no_zstd then NoCompression else Zstd),
        jc_replay_on_reconnect := True, jc_channel_size := 1024\<rparr>"

text \<open>What an event puts into the cache, if anything.\<close>

definition event_entry :: "JetstreamEvent \<Rightarrow> (string \<times> CachedRecord) option" where
  "event_entry event =
     (if je_kind event \<noteq> Commit then None
      else case je_commit event of
             None \<Rightarrow> None
           | Some commit \<Rightarrow>
               let at_uri = record_uri (je_did event) (ce_collection commit) (ce_rkey commit) in
               if ce_operation commit = Delete then Some (at_uri, DeletedRecord)
               else (case ce_record commit of
                       None \<Rightarrow> None
                     | Some r \<Rightarrow>
                         (case ce_cid commit of
                            None \<Rightarrow> None
                          | Some cid \<Rightarrow> Some (at_uri, FoundRecord \<lparr>rr_cid = cid, rr_record = r\<rparr>))))"

definition cache_event :: "('c, 'r) RecordCache \<Rightarrow> JetstreamEvent \<Rightarrow> 'r \<Rightarrow> 'r" where
  "cache_event rc event c =
     (case event_entry event of None \<Rightarrow> c | Some (at_uri, r) \<Rightarrow> hc_insert rc at_uri r c)"

datatype SlingshotConsumerError = JetstreamConfigValidationError ConfigValidationError | JetstreamEnded

text \<open>The turns of the loop: whether a shutdown was asked for, and what the channel gives.\<close>

fun receive_loop :: "('c, 'r) RecordCache \<Rightarrow> (bool \<times> JetstreamEvent option) list \<Rightarrow> 'r \<Rightarrow>
    (SlingshotConsumerError + unit) option \<times> 'r" where
  "receive_loop rc [] c = (None, c)"
| "receive_loop rc ((cancelled, received) # turns) c =
     (if cancelled then (Some (Inr ()), c)
      else case received of
             None \<Rightarrow> (Some (Inl JetstreamEnded), c)
           | Some event \<Rightarrow> receive_loop rc turns (cache_event rc event c))"

definition slingshot_consume ::
  "(string \<Rightarrow> bool) \<Rightarrow> ('c, 'r) RecordCache \<Rightarrow> string \<Rightarrow> bool \<Rightarrow> (bool \<times> JetstreamEvent option) list \<Rightarrow> 'r \<Rightarrow>
     (SlingshotConsumerError + unit) option \<times> 'r" where
  "slingshot_consume parse_url rc jetstream_endpoint no_zstd turns c =
     (case jetstream_connector_new parse_url (slingshot_config jetstream_endpoint no_zstd) of
        Inl e \<Rightarrow> (Some (Inl (JetstreamConfigValidationError e)), c)
      | Inr _ \<Rightarrow> receive_loop rc turns c)"

section \<open>server.rs\<close>

datatype 'a ApiResponse =
    ApiOk 'a
  | ApiBadRequest string string
  | ApiServerError string string
  | ApiPanics

record FoundRecordResponseObject =
  fr_uri :: string
  fr_cid :: "string option"
  fr_value :: string

record MiniDocResponseObject =
  md_did :: string
  md_handle :: string
  md_pds :: string
  md_signing_key :: string

record ('c, 'r) Xrpc =
  xr_cache :: 'r
  xr_identity :: "'c Identities"

text \<open>The outcome of the fetch in \<open>get_record_impl\<close>, as a response.\<close>

definition fetch_failed :: "RecordError FoyerError \<Rightarrow> 'a ApiResponse" where
  "fetch_failed e =
     (case e of
        FoyerOther (UpstreamBadRequest err) \<Rightarrow>
          ApiBadRequest (er_error err) (''Upstream bad request: '' @ er_message err)
      | _ \<Rightarrow> ApiServerError ''ServerError'' ''sorry, something went wrong'')"

definition found_record ::
  "Http \<Rightarrow> string \<Rightarrow> string option \<Rightarrow> CachedRecord \<Rightarrow> FoundRecordResponseObject ApiResponse" where
  "found_record ht at_uri cid entry =
     (case entry of
        FoundRecord raw \<Rightarrow>
          if \<not> ht_json_ok ht (rr_record raw) then ApiPanics
          else if (case cid of Some c \<Rightarrow> c \<noteq> rr_cid raw | None \<Rightarrow> False)
          then ApiBadRequest ''RecordNotFound'' ''A record was found but its CID did not match that requested''
          else ApiOk \<lparr>fr_uri = at_uri, fr_cid = Some (rr_cid raw), fr_value = rr_record raw\<rparr>
      | DeletedRecord \<Rightarrow> ApiBadRequest ''RecordNotFound'' ''This record was deleted'')"

text \<open>The part of \<open>get_record_impl\<close> after the DID is known.\<close>

definition get_record_of_did ::
  "Atrium \<Rightarrow> 'c IdentityCache \<Rightarrow> ('c, 'r) RecordCache \<Rightarrow> Http \<Rightarrow> World \<Rightarrow> string \<Rightarrow> string \<Rightarrow> string \<Rightarrow> string option \<Rightarrow>
     ('c, 'r) Xrpc \<Rightarrow> FoundRecordResponseObject ApiResponse \<times> ('c, 'r) Xrpc" where
  "get_record_of_did atr hc rc ht w did collection rkey cid x =
     (if \<not> at_nsid_new atr collection then (ApiBadRequest ''InvalidRequest'' ''invalid NSID for collection'', x)
      else if \<not> at_rkey_new atr rkey then (ApiBadRequest ''InvalidRequest'' ''invalid rkey'', x)
      else case (case cid of None \<Rightarrow> Some None | Some c \<Rightarrow> map_option Some (at_cid atr c)) of
             None \<Rightarrow> (ApiBadRequest ''InvalidRequest'' ''invalid CID'', x)
           | Some cid \<Rightarrow>
               let at_uri = record_uri did collection rkey in
               (case hc_fetch rc at_uri
                       (\<lambda>ids. apfst (map_sum FoyerOther id) (repo_get_record atr hc ht w did collection rkey cid ids))
                       (xr_cache x, xr_identity x) of
                  (fr, cache, ids) \<Rightarrow>
                    (case fr of Inl e \<Rightarrow> fetch_failed e | Inr entry \<Rightarrow> found_record ht at_uri cid entry,
                     \<lparr>xr_cache = cache, xr_identity = ids\<rparr>)))"

definition get_record_impl ::
  "Atrium \<Rightarrow> 'c IdentityCache \<Rightarrow> ('c, 'r) RecordCache \<Rightarrow> Http \<Rightarrow> (nat \<Rightarrow> World) \<Rightarrow> string \<Rightarrow> string \<Rightarrow> string \<Rightarrow> string option \<Rightarrow>
     ('c, 'r) Xrpc \<Rightarrow> FoundRecordResponseObject ApiResponse \<times> ('c, 'r) Xrpc" where
  "get_record_impl atr hc rc ht w repo collection rkey cid x =
     (if at_did_new atr repo then get_record_of_did atr hc rc ht (w 2) repo collection rkey cid x
      else if \<not> at_handle_new atr repo
      then (ApiBadRequest ''InvalidRequest'' ''repo was not a valid DID or handle'', x)
      else case handle_to_did atr hc (w 0) (w 1) repo (xr_identity x) of
             (Inl _, ids) \<Rightarrow>
               (ApiServerError ''ResolutionFailed'' ''errored while trying to resolve handle to DID'', x\<lparr>xr_identity := ids\<rparr>)
           | (Inr None, ids) \<Rightarrow>
               (ApiBadRequest ''InvalidRequest'' ''Could not resolve handle repo to a DID'', x\<lparr>xr_identity := ids\<rparr>)
           | (Inr (Some did), ids) \<Rightarrow>
               get_record_of_did atr hc rc ht (w 2) did collection rkey cid (x\<lparr>xr_identity := ids\<rparr>))"

text \<open>The parts of a normalised at-uri.\<close>

definition uri_parts :: "string \<Rightarrow> (string \<times> string \<times> string) option" where
  "uri_parts normalized =
     (case strip_prefix ''at://'' normalized of
        None \<Rightarrow> None
      | Some rest \<Rightarrow>
          (case split_once CHR ''/'' rest of
             None \<Rightarrow> None
           | Some (repo, rest) \<Rightarrow>
               (case split_once CHR ''/'' rest of
                  None \<Rightarrow> None
                | Some (collection, rest) \<Rightarrow>
                    Some (repo, collection, case split_once CHR ''?'' rest of Some (rkey, _) \<Rightarrow> rkey | None \<Rightarrow> rest))))"

definition get_uri_record ::
  "(string \<Rightarrow> string option) \<Rightarrow> Atrium \<Rightarrow> 'c IdentityCache \<Rightarrow> ('c, 'r) RecordCache \<Rightarrow> Http \<Rightarrow> (nat \<Rightarrow> World) \<Rightarrow>
     string \<Rightarrow> string option \<Rightarrow> ('c, 'r) Xrpc \<Rightarrow> FoundRecordResponseObject ApiResponse \<times> ('c, 'r) Xrpc" where
  "get_uri_record resolve_path atr hc rc ht w at_uri cid x =
     (case Option.bind (parse_at_uri resolve_path at_uri) uri_parts of
        None \<Rightarrow> (ApiBadRequest ''InvalidRequest'' ''at-uri does not appear to be valid'', x)
      | Some (repo, collection, rkey) \<Rightarrow> get_record_impl atr hc rc ht w repo collection rkey cid x)"

definition xrpc_resolve_handle ::
  "Atrium \<Rightarrow> 'c IdentityCache \<Rightarrow> (nat \<Rightarrow> World) \<Rightarrow> string \<Rightarrow> 'c Identities \<Rightarrow> string ApiResponse \<times> 'c Identities" where
  "xrpc_resolve_handle atr hc w handle ids =
     (if \<not> at_handle_new atr handle then (ApiBadRequest ''InvalidRequest'' ''not a valid handle'', ids)
      else case handle_to_did atr hc (w 0) (w 1) handle ids of
             (Inl _, ids) \<Rightarrow> (ApiServerError ''Failed'' ''Could not resolve handle'', ids)
           | (Inr None, ids) \<Rightarrow> (ApiBadRequest ''HandleNotFound'' ''Could not resolve handle to a DID'', ids)
           | (Inr (Some alleged_did), ids) \<Rightarrow>
               (case did_to_partial_mini_doc atr hc (w 2) alleged_did ids of
                  (Inl _, ids) \<Rightarrow> (ApiServerError ''Failed'' ''Could not fetch DID doc'', ids)
                | (Inr None, ids) \<Rightarrow>
                    (ApiBadRequest ''HandleNotFound'' ''Resolved handle but could not find DID doc for the DID'', ids)
                | (Inr (Some partial_doc), ids) \<Rightarrow>
                    (if pm_unverified_handle partial_doc \<noteq> handle
                     then ApiBadRequest ''HandleNotFound'' ''Resolved handle failed bi-directional validation''
                     else ApiOk alleged_did, ids)))"

definition invalid :: "string \<Rightarrow> 'a ApiResponse" where
  "invalid reason = ApiBadRequest ''InvalidRequest'' reason"

definition mini_doc_response :: "string \<Rightarrow> string \<Rightarrow> PartialMiniDoc \<Rightarrow> MiniDocResponseObject ApiResponse" where
  "mini_doc_response did handle doc =
     ApiOk \<lparr>md_did = did, md_handle = handle, md_pds = pm_pds doc, md_signing_key = pm_signing_key doc\<rparr>"

text \<open>\<open>resolve_mini_id\<close> once the DID is known; \<open>unverified_handle\<close> is the handle that was asked for.\<close>

definition resolve_mini_did ::
  "Atrium \<Rightarrow> 'c IdentityCache \<Rightarrow> (nat \<Rightarrow> World) \<Rightarrow> string \<Rightarrow> string option \<Rightarrow> 'c Identities \<Rightarrow>
     MiniDocResponseObject ApiResponse \<times> 'c Identities" where
  "resolve_mini_did atr hc w did unverified_handle ids =
     (case did_to_partial_mini_doc atr hc (w 2) did ids of
        (Inl _, ids) \<Rightarrow> (invalid ''failed to get DID doc'', ids)
      | (Inr None, ids) \<Rightarrow> (invalid ''failed to find DID doc'', ids)
      | (Inr (Some doc), ids) \<Rightarrow>
          (case unverified_handle of
             Some h \<Rightarrow>
               (mini_doc_response did (if h = pm_unverified_handle doc then h else ''handle.invalid'') doc, ids)
           | None \<Rightarrow>
               (case handle_to_did atr hc (w 3) (w 4) (pm_unverified_handle doc) ids of
                  (Inl _, ids) \<Rightarrow> (invalid ''failed to get did doc's handle'', ids)
                | (Inr None, ids) \<Rightarrow> (invalid ''failed to resolve did doc's handle'', ids)
                | (Inr (Some handle_did), ids) \<Rightarrow>
                    (mini_doc_response did
                       (if handle_did = did then pm_unverified_handle doc else ''handle.invalid'') doc, ids))))"

definition resolve_mini_id ::
  "Atrium \<Rightarrow> 'c IdentityCache \<Rightarrow> (nat \<Rightarrow> World) \<Rightarrow> string \<Rightarrow> 'c Identities \<Rightarrow>
     MiniDocResponseObject ApiResponse \<times> 'c Identities" where
  "resolve_mini_id atr hc w identifier ids =
     (if at_did_new atr identifier then resolve_mini_did atr hc w identifier None ids
      else if \<not> at_handle_new atr identifier then (invalid ''identifier was not a valid DID or handle'', ids)
      else case handle_to_did atr hc (w 0) (w 1) identifier ids of
             (Inl _, ids) \<Rightarrow> (invalid ''errored while trying to resolve handle to DID'', ids)
           | (Inr None, ids) \<Rightarrow> (invalid ''Could not resolve handle identifier to a DID'', ids)
           | (Inr (Some did), ids) \<Rightarrow> resolve_mini_did atr hc w did (Some identifier) ids)"

end
