(* ===== verification/Slingshot_Identity_Props.thy ===== *)
theory Slingshot_Identity_Props
  imports Slingshot_Identity
begin

text \<open>
  What \<open>slingshot\<close>'s identities promise, over any interleaving of lookups with the refresher: the
  types in the cache never mix, the queue and its set of items stay in step, a DID given for a handle
  was confirmed in both directions, and when the queue of refreshes empties and when it cannot.
\<close>

section \<open>Where cached entries come from\<close>

fun came_from :: "Atrium \<Rightarrow> World \<Rightarrow> IdentityKey \<Rightarrow> IdentityVal \<Rightarrow> bool" where
  "came_from atr w (HandleKey handle) v \<longleftrightarrow> resolve_handle_entry w handle = Inr v"
| "came_from atr w (DidKey did) v \<longleftrightarrow> resolve_did_entry atr w did = Inr v"

definition sourced :: "Atrium \<Rightarrow> 'c IdentityCache \<Rightarrow> World set \<Rightarrow> 'c \<Rightarrow> bool" where
  "sourced atr hc W c \<longleftrightarrow> (\<forall>k v. hc_holds hc c k = Some v \<longrightarrow> (\<exists>w \<in> W. came_from atr w k v))"

lemma sourced_mono: "sourced atr hc W c \<Longrightarrow> W \<subseteq> W' \<Longrightarrow> sourced atr hc W' c"
  unfolding sourced_def by blast

lemma sourced_insert:
  assumes "cache_laws hc" "sourced atr hc W c" "came_from atr w k v"
  shows "sourced atr hc (insert w W) (hc_insert hc k v c)"
proof -
  have "\<exists>w' \<in> insert w W. came_from atr w' k' v'" if "hc_holds hc (hc_insert hc k v c) k' = Some v'" for k' v'
  proof -
    from assms(1) that have "if k' = k then v' = v else hc_holds hc c k' = Some v'"
      unfolding cache_laws_def insert_law_def by blast
    with assms(2,3) show ?thesis unfolding sourced_def by (cases "k' = k") auto
  qed
  then show ?thesis unfolding sourced_def by blast
qed

text \<open>A fetch gives an entry with a source and adds none without.\<close>

lemma fetch_identity_sourced:
  assumes laws: "cache_laws hc" and src: "sourced atr hc W (id_cache s)"
    and entry: "\<And>v. entry = Inr v \<Longrightarrow> came_from atr w key v"
    and fetch: "fetch_identity hc key entry s = (r, s')"
  shows "sourced atr hc (insert w W) (id_cache s') \<and> id_queue s' = id_queue s \<and> id_items s' = id_items s \<and>
    (\<forall>v. r = Inr v \<longrightarrow> (\<exists>w' \<in> insert w W. came_from atr w' key v)) \<and> (\<forall>x. r \<noteq> Inl (IdentityValTypeMixup x))"
proof -
  obtain r0 c u where f: "hc_fetch hc key (\<lambda>u. (entry, u)) (id_cache s, ()) = (r0, c, u)" by (metis prod.exhaust)
  have r: "r = map_sum FoyerError id r0" "s' = s\<lparr>id_cache := c\<rparr>" using fetch f by (auto simp: fetch_identity_def)
  have hit: "(case r0 of Inr v \<Rightarrow> hc_holds hc (id_cache s) key = Some v | Inl e \<Rightarrow> e = FoyerInternal) \<or>
      r0 = entry \<or> r0 = Inl FoyerInternal"
    and held: "\<And>k v. hc_holds hc c k = Some v \<Longrightarrow> hc_holds hc (id_cache s) k = Some v \<or> k = key \<and> entry = Inr v"
    using laws f unfolding cache_laws_def fetch_law_def by (auto dest!: spec) 
  have "sourced atr hc (insert w W) c"
    unfolding sourced_def using held src entry unfolding sourced_def by blast
  moreover have "\<exists>w' \<in> insert w W. came_from atr w' key v" if "r0 = Inr v" for v
    using hit that src entry unfolding sourced_def by auto
  ultimately show ?thesis unfolding r by (cases r0) auto
qed

section \<open>Lookups\<close>

definition queue_ok :: "'c Identities \<Rightarrow> bool" where
  "queue_ok s \<longleftrightarrow> distinct (id_queue s) \<and> set (id_queue s) = id_items s"

definition identity_ok :: "Atrium \<Rightarrow> 'c IdentityCache \<Rightarrow> World set \<Rightarrow> 'c Identities \<Rightarrow> bool" where
  "identity_ok atr hc W s \<longleftrightarrow> sourced atr hc W (id_cache s) \<and> queue_ok s"

lemma queue_refresh_ok: "queue_ok s \<Longrightarrow> queue_ok (queue_refresh key s)"
  by (auto simp: queue_ok_def queue_refresh_def)

lemma refresh_if_ok [simp]:
  "identity_ok atr hc W s \<Longrightarrow> identity_ok atr hc W (refresh_if b key s)"
  by (auto simp: identity_ok_def refresh_if_def queue_refresh_ok) (simp add: queue_refresh_def)

text \<open>The queue only grows at its end during a lookup.\<close>

lemma refresh_if_queue: "id_queue s = q0 \<Longrightarrow> \<exists>q. id_queue (refresh_if b key s) = q0 @ q"
  by (simp add: refresh_if_def queue_refresh_def)

lemma handle_entry_data:
  "resolve_handle_entry w h = Inr (IdentityVal t x) \<Longrightarrow> x = NotFoundData \<or> (\<exists>did. x = DidData did \<and> wd_handle w h = Inr did)"
  by (auto simp: resolve_handle_entry_def split: sum.splits ResolveError.splits)

lemma did_entry_data:
  "resolve_did_entry atr w d = Inr (IdentityVal t x) \<Longrightarrow>
     x = NotFoundData \<or> (\<exists>doc m. x = DocData m \<and> wd_did w d = Inr doc \<and> dd_id doc = d \<and> mini_doc_try_from atr doc = Inr m)"
  by (auto simp: resolve_did_entry_def split: sum.splits ResolveError.splits if_splits)

lemma handle_lookup:
  assumes "cache_laws hc" "identity_ok atr hc W s" "handle_to_unverified_did hc w h s = (r, s')"
  shows "identity_ok atr hc (insert w W) s' \<and> (\<exists>q. id_queue s' = id_queue s @ q) \<and>
    (\<forall>x. r \<noteq> Inl (IdentityValTypeMixup x)) \<and>
    (\<forall>did. r = Inr (Some did) \<longrightarrow> (\<exists>w' \<in> insert w W. wd_handle w' h = Inr did))"
proof -
  obtain r0 s0 where f: "fetch_identity hc (HandleKey h) (resolve_handle_entry w h) s = (r0, s0)" by (metis prod.exhaust)
  have src: "sourced atr hc W (id_cache s)" using assms(2) by (simp add: identity_ok_def)
  note f1 = fetch_identity_sourced [OF assms(1) src _ f, of w, simplified]
  have ok: "identity_ok atr hc (insert w W) s0" "id_queue s0 = id_queue s"
    using f1 assms(2) by (auto simp: identity_ok_def queue_ok_def)
  show ?thesis
  proof (cases r0)
    case (Inr v)
    obtain t x where v: "v = IdentityVal t x" by (cases v)
    obtain w' where w': "w' \<in> insert w W" "resolve_handle_entry w' h = Inr (IdentityVal t x)"
      using f1 Inr v by auto
    from handle_entry_data [OF w'(2)] show ?thesis
    proof (elim disjE exE conjE)
      assume "x = NotFoundData"
      then show ?thesis using assms(3) f Inr v ok by (auto simp: handle_to_unverified_did_def intro: refresh_if_queue)
    next
      fix did assume "x = DidData did" "wd_handle w' h = Inr did"
      then show ?thesis using assms(3) f Inr v ok w'(1)
        by (auto simp: handle_to_unverified_did_def intro: refresh_if_queue)
    qed
  qed (use assms(3) f f1 ok in \<open>auto simp: handle_to_unverified_did_def\<close>)
qed

lemma did_lookup:
  assumes "cache_laws hc" "identity_ok atr hc W s" "did_to_partial_mini_doc atr hc w d s = (r, s')"
  shows "identity_ok atr hc (insert w W) s' \<and> (\<exists>q. id_queue s' = id_queue s @ q) \<and>
    (\<forall>x. r \<noteq> Inl (IdentityValTypeMixup x)) \<and>
    (\<forall>m. r = Inr (Some m) \<longrightarrow>
       (\<exists>w' \<in> insert w W. \<exists>doc. wd_did w' d = Inr doc \<and> dd_id doc = d \<and> mini_doc_try_from atr doc = Inr m))"
proof -
  obtain r0 s0 where f: "fetch_identity hc (DidKey d) (resolve_did_entry atr w d) s = (r0, s0)" by (metis prod.exhaust)
  have src: "sourced atr hc W (id_cache s)" using assms(2) by (simp add: identity_ok_def)
  note f1 = fetch_identity_sourced [OF assms(1) src _ f, of w, simplified]
  have ok: "identity_ok atr hc (insert w W) s0" "id_queue s0 = id_queue s"
    using f1 assms(2) by (auto simp: identity_ok_def queue_ok_def)
  show ?thesis
  proof (cases r0)
    case (Inr v)
    obtain t x where v: "v = IdentityVal t x" by (cases v)
    obtain w' where w': "w' \<in> insert w W" "resolve_did_entry atr w' d = Inr (IdentityVal t x)"
      using f1 Inr v by auto
    from did_entry_data [OF w'(2)] show ?thesis
    proof (elim disjE exE conjE)
      assume "x = NotFoundData"
      then show ?thesis using assms(3) f Inr v ok by (auto simp: did_to_partial_mini_doc_def intro: refresh_if_queue)
    next
      fix doc m assume "x = DocData m" "wd_did w' d = Inr doc" "dd_id doc = d" "mini_doc_try_from atr doc = Inr m"
      then show ?thesis using assms(3) f Inr v ok w'(1)
        by (auto simp: did_to_partial_mini_doc_def intro: refresh_if_queue)
    qed
  qed (use assms(3) f f1 ok in \<open>auto simp: did_to_partial_mini_doc_def\<close>)
qed

section \<open>Lookups and the refresher, interleaved\<close>

text \<open>
  The refresher holds a key while it waits for the network, and lookups go on meanwhile: a turn is
  two steps, taking a key and finishing it.
\<close>

datatype identity_op = AskHandle World string | AskDid World string | TakeTask | FinishTask World

fun op_worlds :: "identity_op \<Rightarrow> World set" where
  "op_worlds (AskHandle w _) = {w}"
| "op_worlds (AskDid w _) = {w}"
| "op_worlds TakeTask = {}"
| "op_worlds (FinishTask w) = {w}"

definition worlds_of :: "identity_op list \<Rightarrow> World set" where
  "worlds_of ops = \<Union> (op_worlds ` set ops)"

text \<open>A mix-up of types in a lookup and any failure of the refresher end the run.\<close>

fun identity_step ::
  "Atrium \<Rightarrow> 'c IdentityCache \<Rightarrow> identity_op \<Rightarrow> 'c Identities \<times> IdentityKey option \<Rightarrow>
     IdentityError + 'c Identities \<times> IdentityKey option" where
  "identity_step atr hc (AskHandle w h) (s, task) =
     (case handle_to_unverified_did hc w h s of
        (Inl (IdentityValTypeMixup x), _) \<Rightarrow> Inl (IdentityValTypeMixup x)
      | (_, s) \<Rightarrow> Inr (s, task))"
| "identity_step atr hc (AskDid w d) (s, task) =
     (case did_to_partial_mini_doc atr hc w d s of
        (Inl (IdentityValTypeMixup x), _) \<Rightarrow> Inl (IdentityValTypeMixup x)
      | (_, s) \<Rightarrow> Inr (s, task))"
| "identity_step atr hc TakeTask (s, task) = Inr (s, case task of None \<Rightarrow> peek_refresh s | Some k \<Rightarrow> Some k)"
| "identity_step atr hc (FinishTask w) (s, task) =
     (case task of
        None \<Rightarrow> Inr (s, None)
      | Some key \<Rightarrow>
          (case refresh_key atr hc w key s of (Inl e, _) \<Rightarrow> Inl e | (Inr _, s) \<Rightarrow> Inr (s, None)))"

text \<open>The key the refresher holds is at the front of the queue.\<close>

definition task_ok :: "'c Identities \<Rightarrow> IdentityKey option \<Rightarrow> bool" where
  "task_ok s task \<longleftrightarrow> (\<forall>k. task = Some k \<longrightarrow> (\<exists>q. id_queue s = k # q))"

lemma cache_entry_simps [simp]:
  "id_queue (cache_entry hc k v s) = id_queue s" "id_items (cache_entry hc k v s) = id_items s"
  "id_cache (cache_entry hc k v s) = hc_insert hc k v (id_cache s)"
  by (simp_all add: cache_entry_def)

lemma cache_entry_ok:
  "cache_laws hc \<Longrightarrow> identity_ok atr hc W s \<Longrightarrow> came_from atr w k v \<Longrightarrow> identity_ok atr hc (insert w W) (cache_entry hc k v s)"
  by (simp add: identity_ok_def sourced_insert queue_ok_def)

lemma complete_front:
  assumes "identity_ok atr hc W s" "id_queue s = k # q"
  shows "complete_refresh k s = (Inr (), s\<lparr>id_queue := q, id_items := id_items s - {k}\<rparr>)"
    "identity_ok atr hc W (s\<lparr>id_queue := q, id_items := id_items s - {k}\<rparr>)"
  using assms by (auto simp: complete_refresh_def identity_ok_def queue_ok_def)

text \<open>A turn either finishes the key at the front or, for a document it does not accept, changes nothing.\<close>

definition bad_doc :: "Atrium \<Rightarrow> World \<Rightarrow> IdentityKey \<Rightarrow> bool" where
  "bad_doc atr w key \<longleftrightarrow>
     (\<exists>did doc. key = DidKey did \<and> wd_did w did = Inr doc \<and>
        (dd_id doc \<noteq> did \<or> (\<exists>e. mini_doc_try_from atr doc = Inl e)))"

lemma refresh_key_bad: "bad_doc atr w key \<Longrightarrow> refresh_key atr hc w key s = (Inr (), s)"
  by (auto simp: bad_doc_def refresh_key_def split: sum.splits)

lemma refresh_key_good:
  assumes "\<not> bad_doc atr w key"
  shows "\<exists>s0. refresh_key atr hc w key s = complete_refresh key s0 \<and>
    (s0 = s \<or> (\<exists>v. s0 = cache_entry hc key v s \<and> came_from atr w key v))"
proof (cases key)
  case (HandleKey h)
  then show ?thesis
    by (cases "wd_handle w h") (auto simp: refresh_key_def resolve_handle_entry_def split: ResolveError.splits)
next
  case (DidKey d)
  show ?thesis
  proof (cases "wd_did w d")
    case (Inr doc)
    with assms DidKey obtain m where "dd_id doc = d" "mini_doc_try_from atr doc = Inr m"
      by (cases "mini_doc_try_from atr doc") (auto simp: bad_doc_def)
    then show ?thesis using DidKey Inr by (auto simp: refresh_key_def resolve_did_entry_def)
  qed (use DidKey in \<open>auto simp: refresh_key_def resolve_did_entry_def split: ResolveError.splits\<close>)
qed

lemma refresh_key_ok:
  assumes laws: "cache_laws hc" and ok: "identity_ok atr hc W s" and front: "id_queue s = key # q"
  shows "\<exists>s'. refresh_key atr hc w key s = (Inr (), s') \<and> identity_ok atr hc (insert w W) s' \<and>
    (\<not> bad_doc atr w key \<longrightarrow> id_queue s' = q)"
proof (cases "bad_doc atr w key")
  case True
  then show ?thesis using ok sourced_mono [of atr hc W _ "insert w W"]
    by (auto simp: refresh_key_bad identity_ok_def)
next
  case False
  from refresh_key_good [OF this, of hc s] obtain s0 where
    s0: "refresh_key atr hc w key s = complete_refresh key s0"
    "s0 = s \<or> (\<exists>v. s0 = cache_entry hc key v s \<and> came_from atr w key v)" by blast
  have "identity_ok atr hc (insert w W) s0"
    using s0(2) ok cache_entry_ok [OF laws ok] sourced_mono [of atr hc W _ "insert w W"]
    by (auto simp: identity_ok_def)
  moreover have "id_queue s0 = key # q" using s0(2) front by auto
  ultimately show ?thesis using complete_front [of atr hc "insert w W" s0 key q] s0(1) by auto
qed

lemma identity_step_ok:
  assumes laws: "cache_laws hc" and ok: "identity_ok atr hc W s" "task_ok s task"
  shows "\<exists>s' task'. identity_step atr hc op (s, task) = Inr (s', task') \<and>
    identity_ok atr hc (op_worlds op \<union> W) s' \<and> task_ok s' task'"
proof (cases op)
  case (AskHandle w h)
  obtain r s' where r: "handle_to_unverified_did hc w h s = (r, s')" by (metis prod.exhaust)
  have "identity_step atr hc op (s, task) = Inr (s', task)"
    using handle_lookup [OF laws ok(1) r] r AskHandle by (auto split: sum.splits IdentityError.splits)
  then show ?thesis using handle_lookup [OF laws ok(1) r] ok(2) AskHandle by (auto simp: task_ok_def)
next
  case (AskDid w d)
  obtain r s' where r: "did_to_partial_mini_doc atr hc w d s = (r, s')" by (metis prod.exhaust)
  have "identity_step atr hc op (s, task) = Inr (s', task)"
    using did_lookup [OF laws ok(1) r] r AskDid by (auto split: sum.splits IdentityError.splits)
  then show ?thesis using did_lookup [OF laws ok(1) r] ok(2) AskDid by (auto simp: task_ok_def)
next
  case TakeTask
  then show ?thesis using ok
    by (auto simp: task_ok_def peek_refresh_def split: option.splits list.splits)
next
  case (FinishTask w)
  show ?thesis
  proof (cases task)
    case None
    then show ?thesis using ok FinishTask sourced_mono [of atr hc W _ "insert w W"]
      by (auto simp: identity_ok_def task_ok_def)
  next
    case (Some key)
    with ok(2) obtain q where "id_queue s = key # q" by (auto simp: task_ok_def)
    from refresh_key_ok [OF laws ok(1) this, of w] show ?thesis using Some FinishTask
      by (auto simp: task_ok_def)
  qed
qed

lemma identity_run_ok:
  assumes laws: "cache_laws hc" and "identity_ok atr hc W s" "task_ok s task"
  shows "\<exists>s' task'. fold_res (identity_step atr hc) ops (s, task) = Inr (s', task') \<and>
    identity_ok atr hc (worlds_of ops \<union> W) s' \<and> task_ok s' task'"
  using assms(2,3)
proof (induction ops arbitrary: s task W)
  case (Cons op ops)
  from identity_step_ok [OF laws Cons.prems, of op] obtain s1 t1 where
    1: "identity_step atr hc op (s, task) = Inr (s1, t1)" "identity_ok atr hc (op_worlds op \<union> W) s1" "task_ok s1 t1"
    by blast
  from Cons.IH [OF 1(2,3)] show ?case using 1(1) by (simp add: worlds_of_def Un_assoc Un_left_commute Un_commute)
qed (simp add: worlds_of_def)

lemma identity_new_ok: "(\<And>k. hc_holds hc c k = None) \<Longrightarrow> identity_ok atr hc {} (identity_new c) \<and> task_ok (identity_new c) None"
  by (simp add: identity_ok_def identity_new_def sourced_def queue_ok_def task_ok_def)

lemma identity_run_new:
  assumes "cache_laws hc" "\<And>k. hc_holds hc c k = None"
  shows "\<exists>s task. fold_res (identity_step atr hc) ops (identity_new c, None) = Inr (s, task) \<and>
    identity_ok atr hc (worlds_of ops) s"
  using identity_run_ok [OF assms(1), of atr "{}" "identity_new c" None ops] identity_new_ok [of hc c atr] assms(2)
  by auto

section \<open>Properties\<close>

text \<open>
  C16. The identity cache is well typed and its queue consistent.  Whatever lookups, refreshes and
  answers of the network come in whatever order, no lookup finds an entry of the wrong type, no
  refresh fails on the queue, and the queue has no key twice and exactly the keys of its item set.
\<close>

theorem identity_well_typed:
  assumes "cache_laws hc" and "\<And>k. hc_holds hc c k = None"
  shows "\<exists>s task. fold_res (identity_step atr hc) ops (identity_new c, None) = Inr (s, task) \<and>
    distinct (id_queue s) \<and> set (id_queue s) = id_items s \<and>
    (\<forall>k v. hc_holds hc (id_cache s) k = Some v \<longrightarrow>
       (case k of HandleKey _ \<Rightarrow> \<not> (\<exists>m. iv_data v = DocData m) | DidKey _ \<Rightarrow> \<not> (\<exists>d. iv_data v = DidData d)))"
proof -
  obtain s task where s: "fold_res (identity_step atr hc) ops (identity_new c, None) = Inr (s, task)"
    "identity_ok atr hc (worlds_of ops) s"
    using identity_run_new [OF assms, of atr ops] by blast
  have "case k of HandleKey _ \<Rightarrow> \<not> (\<exists>m. iv_data v = DocData m) | DidKey _ \<Rightarrow> \<not> (\<exists>d. iv_data v = DidData d)"
    if "hc_holds hc (id_cache s) k = Some v" for k v
  proof -
    from s(2) that obtain w where "came_from atr w k v" by (auto simp: identity_ok_def sourced_def)
    then show ?thesis using handle_entry_data did_entry_data by (cases v; cases k) fastforce+
  qed
  with s show ?thesis by (auto simp: identity_ok_def queue_ok_def)
qed

text \<open>A confirmation of a handle: the document of the DID has it as its first valid one.\<close>

definition claims_handle :: "Atrium \<Rightarrow> World \<Rightarrow> string \<Rightarrow> string \<Rightarrow> bool" where
  "claims_handle atr w did h \<longleftrightarrow>
     (\<exists>doc akas. wd_did w did = Inr doc \<and> dd_id doc = did \<and>
        dd_also_known_as doc = Some akas \<and> first_handle atr akas = Some h)"

lemma mini_doc_claims:
  "mini_doc_try_from atr doc = Inr m \<Longrightarrow> wd_did w (dd_id doc) = Inr doc \<Longrightarrow>
     claims_handle atr w (dd_id doc) (pm_unverified_handle m)"
  by (auto simp: claims_handle_def mini_doc_try_from_def split: option.splits)

lemma did_lookup_claims:
  assumes "cache_laws hc" "identity_ok atr hc W s" "did_to_partial_mini_doc atr hc w d s = (Inr (Some m), s')"
  shows "\<exists>w' \<in> insert w W. claims_handle atr w' d (pm_unverified_handle m)"
  using did_lookup [OF assms] mini_doc_claims by blast

lemma identity_ok_mono: "identity_ok atr hc W s \<Longrightarrow> W \<subseteq> W' \<Longrightarrow> identity_ok atr hc W' s"
  using sourced_mono by (auto simp: identity_ok_def)

lemma handle_to_did_lookup:
  assumes laws: "cache_laws hc" and ok: "identity_ok atr hc W s" and res: "handle_to_did atr hc w1 w2 h s = (r, s')"
  shows "identity_ok atr hc (insert w2 (insert w1 W)) s' \<and>
    (\<forall>did. r = Inr (Some did) \<longrightarrow> (\<exists>w \<in> insert w1 W. wd_handle w h = Inr did) \<and>
       (\<exists>w \<in> insert w2 (insert w1 W). claims_handle atr w did h))"
proof -
  obtain r1 s1 where 1: "handle_to_unverified_did hc w1 h s = (r1, s1)" by (metis prod.exhaust)
  note l1 = handle_lookup [OF laws ok 1]
  show ?thesis
  proof (cases "\<exists>d. r1 = Inr (Some d)")
    case True
    then obtain d where d: "r1 = Inr (Some d)" by blast
    obtain r2 s2 where 2: "did_to_partial_mini_doc atr hc w2 d s1 = (r2, s2)" by (metis prod.exhaust)
    note l2 = did_lookup [OF laws conjunct1 [OF l1] 2]
    have "s' = s2" "\<And>did. r = Inr (Some did) \<Longrightarrow> did = d \<and> (\<exists>m. r2 = Inr (Some m) \<and> pm_unverified_handle m = h)"
      using res 1 2 d by (auto simp: handle_to_did_def split: sum.splits option.splits if_splits)
    moreover have "\<exists>w \<in> insert w2 (insert w1 W). claims_handle atr w d (pm_unverified_handle m)" if "r2 = Inr (Some m)" for m
      using did_lookup_claims [OF laws conjunct1 [OF l1]] 2 that by simp
    ultimately show ?thesis using conjunct1 [OF l2] l1 d by auto
  next
    case False
    then have "s' = s1" "\<not> (\<exists>did. r = Inr (Some did))"
      using res 1 by (auto simp: handle_to_did_def split: sum.splits option.splits)
    then show ?thesis using l1 identity_ok_mono [of atr hc "insert w1 W" s1 "insert w2 (insert w1 W)"] by auto
  qed
qed

text \<open>
  C14. A DID given for a handle was confirmed in both directions: the network once resolved the handle
  to this DID, and once gave a document of this DID whose first valid handle is this one.
\<close>

theorem handle_verified:
  assumes "cache_laws hc" and "\<And>k. hc_holds hc c k = None"
    and "fold_res (identity_step atr hc) ops (identity_new c, None) = Inr (s, task)"
    and "handle_to_did atr hc w1 w2 h s = (Inr (Some did), s')"
  shows "(\<exists>w \<in> insert w1 (worlds_of ops). wd_handle w h = Inr did) \<and>
    (\<exists>w \<in> insert w2 (insert w1 (worlds_of ops)). claims_handle atr w did h)"
  using handle_to_did_lookup [OF assms(1) _ assms(4)] identity_run_new [OF assms(1,2), of atr ops] assms(3) by auto

lemma refresher_turn_front:
  assumes "cache_laws hc" "identity_ok atr hc W s" "id_queue s = key # q" "\<not> bad_doc atr w key"
  shows "\<exists>s'. refresher_turn atr hc w s = (Inr (), s') \<and> identity_ok atr hc (insert w W) s' \<and> id_queue s' = q"
  using refresh_key_ok [OF assms(1-3), of w] assms(3,4) by (auto simp: refresher_turn_def peek_refresh_def)

lemma run_refresher_empty: "id_queue s = [] \<Longrightarrow> run_refresher atr hc ws s = (Inr (), s)"
  by (induction ws) (simp_all add: refresher_turn_def peek_refresh_def)

lemma run_refresher_drains:
  assumes laws: "cache_laws hc" and "identity_ok atr hc W s"
    and "\<forall>w \<in> set ws. \<forall>k \<in> set (id_queue s). \<not> bad_doc atr w k" and "length (id_queue s) \<le> length ws"
  shows "\<exists>s'. run_refresher atr hc ws s = (Inr (), s') \<and> id_queue s' = [] \<and> id_items s' = {}"
  using assms(2-4)
proof (induction ws arbitrary: s W)
  case Nil
  then show ?case by (auto simp: identity_ok_def queue_ok_def)
next
  case (Cons w ws)
  show ?case
  proof (cases "id_queue s")
    case Nil
    then show ?thesis using Cons.prems(1) run_refresher_empty [OF Nil, of atr hc "w # ws"]
      by (auto simp: identity_ok_def queue_ok_def)
  next
    case (Cons key q)
    obtain s1 where s1: "refresher_turn atr hc w s = (Inr (), s1)" "identity_ok atr hc (insert w W) s1" "id_queue s1 = q"
      using refresher_turn_front [OF laws Cons.prems(1) Cons, of w] Cons.prems(2) Cons by auto
    have "\<exists>s'. run_refresher atr hc ws s1 = (Inr (), s') \<and> id_queue s' = [] \<and> id_items s' = {}"
      using Cons.prems(2,3) Cons s1(3) by (intro Cons.IH [OF s1(2)]) auto
    then show ?thesis by (simp add: s1(1))
  qed
qed

text \<open>
  C39. The refresher catches up.  If every document the network gives for the queued keys is accepted,
  as many turns as there are keys empty the queue, without a failure.
\<close>

theorem refresher_drains:
  assumes "cache_laws hc" and "\<And>k. hc_holds hc c k = None"
    and "fold_res (identity_step atr hc) ops (identity_new c, None) = Inr (s, task)"
    and "\<forall>w \<in> set ws. \<forall>k \<in> set (id_queue s). \<not> bad_doc atr w k" and "length (id_queue s) \<le> length ws"
  shows "\<exists>s'. run_refresher atr hc ws s = (Inr (), s') \<and> id_queue s' = [] \<and> id_items s' = {}"
  using run_refresher_drains [OF assms(1) _ assms(4,5)] identity_run_new [OF assms(1,2), of atr ops] assms(3) by auto

text \<open>
  One bad document stops all refreshing.  A document with the wrong id, or without a handle, a PDS
  or a key, is logged as a dropped refresh, but its key stays at the front of the queue: as long as the
  network gives it, the refresher asks for it again at once, and nothing behind it is refreshed.
\<close>

theorem refresher_blocked:
  assumes "id_queue s = key # q" and "\<forall>w \<in> set ws. bad_doc atr w key"
  shows "run_refresher atr hc ws s = (Inr (), s)"
  using assms(2)
  by (induction ws) (simp_all add: refresher_turn_def peek_refresh_def assms(1) refresh_key_bad)

section \<open>Instances\<close>

text \<open>A cache that evicts nothing.\<close>

definition hm_cache :: "('k, 'v, 'e, 's, ('k, 'v) hashmap) HybridCache" where
  "hm_cache =
     \<lparr>hc_holds = hm_get,
      hc_insert = hm_insert,
      hc_fetch = \<lambda>k f (c, s).
        (case hm_get c k of
           Some v \<Rightarrow> (Inr v, c, s)
         | None \<Rightarrow>
             (case f s of
                (Inr v, s') \<Rightarrow> (Inr v, hm_insert k v c, s')
              | (Inl e, s') \<Rightarrow> (Inl e, c, s')))\<rparr>"

lemma hm_cache_laws: "cache_laws (hm_cache :: ('k, 'v, 'e, 's, ('k, 'v) hashmap) HybridCache)"
proof -
  have "insert_law (hm_cache :: ('k, 'v, 'e, 's, ('k, 'v) hashmap) HybridCache)"
    by (simp add: insert_law_def hm_cache_def)
  moreover have "fetch_law (hm_cache :: ('k, 'v, 'e, 's, ('k, 'v) hashmap) HybridCache)"
    by (auto simp: fetch_law_def hm_cache_def split: option.splits sum.splits prod.splits if_splits)
  ultimately show ?thesis by (simp add: cache_laws_def)
qed

lemma hm_cache_empty: "hc_holds hm_cache [] k = None"
  by (simp add: hm_cache_def)

definition ex_atrium :: Atrium where
  "ex_atrium = \<lparr>at_handle_new = \<lambda>s. CHR ''.'' \<in> set s, at_did_new = \<lambda>s. starts_with s ''did:'',
     at_nsid_new = \<lambda>s. CHR ''.'' \<in> set s, at_rkey_new = \<lambda>s. s \<noteq> [], at_cid = Some,
     at_pds_endpoint = \<lambda>doc. map_of (dd_services doc) ''#atproto_pds''\<rparr>"

definition ex_doc :: DidDocument where
  "ex_doc = \<lparr>dd_id = ''did:plc:a'', dd_also_known_as = Some [''at://a.b''],
     dd_verification_method = Some [\<lparr>vm_id = ''did:plc:a#atproto'', vm_type = ''Multikey'',
       vm_controller = ''did:plc:a'', vm_public_key_multibase = Some ''z1''\<rparr>],
     dd_services = [(''#atproto_pds'', ''https://p'')]\<rparr>"

text \<open>A world that knows one handle and one DID, as seen at a time.\<close>

definition ex_world :: "int \<Rightarrow> World" where
  "ex_world t = \<lparr>wd_resolved_at = t, wd_now = t,
     wd_handle = \<lambda>h. if h = ''a.b'' then Inr ''did:plc:a'' else Inl ResolveNotFound,
     wd_did = \<lambda>d. if d = ''did:plc:a'' then Inr ex_doc else Inl ResolveNotFound\<rparr>"

abbreviation ex_days :: "identity_op list" where
  "ex_days \<equiv> [AskHandle (ex_world 0) ''a.b'', AskDid (ex_world 0) ''did:plc:a'',
     AskHandle (ex_world (10 ^ 14)) ''a.b'', TakeTask, AskDid (ex_world (10 ^ 14)) ''did:plc:a'']"

lemmas identity_eval = hm_cache_def ex_world_def ex_atrium_def ex_doc_def identity_new_def Let_def
  handle_to_unverified_did_def did_to_partial_mini_doc_def fetch_identity_def resolve_handle_entry_def
  resolve_did_entry_def mini_doc_try_from_def strip_prefix_def starts_with_def refresh_if_def queue_refresh_def
  MIN_TTL_def MIN_NOT_FOUND_TTL_def peek_refresh_def hm_get_def hm_insert_def

definition ex_identities :: "(IdentityKey, IdentityVal) hashmap Identities" where
  "ex_identities =
     \<lparr>id_cache = [(HandleKey ''a.b'', IdentityVal 0 (DidData ''did:plc:a'')),
        (DidKey ''did:plc:a'', IdentityVal 0 (DocData \<lparr>pm_unverified_handle = ''a.b'', pm_pds = ''https://p'', pm_signing_key = ''z1''\<rparr>))],
      id_queue = [HandleKey ''a.b'', DidKey ''did:plc:a''], id_items = {DidKey ''did:plc:a'', HandleKey ''a.b''}\<rparr>"

lemma ex_days_run:
  "fold_res (identity_step ex_atrium hm_cache) ex_days (identity_new [], None) = Inr (ex_identities, Some (HandleKey ''a.b''))"
  by (simp add: identity_eval ex_identities_def)

theorem identity_well_typed_witness:
  "\<exists>s task. fold_res (identity_step ex_atrium hm_cache) ex_days (identity_new [], None) = Inr (s, task) \<and>
     distinct (id_queue s) \<and> set (id_queue s) = id_items s"
  using identity_well_typed [OF hm_cache_laws hm_cache_empty, of ex_atrium ex_days] by blast

lemma ex_handle_to_did:
  "\<exists>s. handle_to_did ex_atrium hm_cache (ex_world 5) (ex_world 6) ''a.b'' ex_identities = (Inr (Some ''did:plc:a''), s)"
  by (simp add: handle_to_did_def identity_eval ex_identities_def)

theorem handle_verified_witness:
  "\<exists>w1 w2. wd_handle (w1 :: World) ''a.b'' = Inr ''did:plc:a'' \<and> claims_handle ex_atrium w2 ''did:plc:a'' ''a.b''"
proof -
  obtain s where "handle_to_did ex_atrium hm_cache (ex_world 5) (ex_world 6) ''a.b'' ex_identities = (Inr (Some ''did:plc:a''), s)"
    using ex_handle_to_did by blast
  from handle_verified [OF hm_cache_laws hm_cache_empty ex_days_run this]
  show ?thesis by blast
qed

lemma ex_doc_good: "\<not> bad_doc ex_atrium (ex_world t) (HandleKey h)" "\<not> bad_doc ex_atrium (ex_world t) (DidKey ''did:plc:a'')"
  by (simp_all add: bad_doc_def identity_eval)

theorem refresher_drains_witness:
  "\<exists>s'. run_refresher ex_atrium hm_cache [ex_world 7, ex_world 8, ex_world 9] ex_identities = (Inr (), s') \<and>
     id_queue s' = [] \<and> id_items s' = {}"
proof -
  have "\<forall>w \<in> set [ex_world 7, ex_world 8, ex_world 9]. \<forall>k \<in> set (id_queue ex_identities). \<not> bad_doc ex_atrium w k"
    using ex_doc_good by (simp add: ex_identities_def)
  then show ?thesis by (rule refresher_drains [OF hm_cache_laws hm_cache_empty ex_days_run]) (simp add: ex_identities_def)
qed

text \<open>A world in which the account has lost its handle.\<close>

definition ex_bad_world :: World where
  "ex_bad_world = (ex_world 9)\<lparr>wd_did := \<lambda>_. Inr (ex_doc\<lparr>dd_also_known_as := Some []\<rparr>)\<rparr>"

theorem refresher_blocked_witness:
  "run_refresher ex_atrium hm_cache (replicate 1000 ex_bad_world)
     (ex_identities\<lparr>id_queue := [DidKey ''did:plc:a'', HandleKey ''a.b'']\<rparr>) =
   (Inr (), ex_identities\<lparr>id_queue := [DidKey ''did:plc:a'', HandleKey ''a.b'']\<rparr>)"
proof -
  have "bad_doc ex_atrium ex_bad_world (DidKey ''did:plc:a'')"
    by (simp add: bad_doc_def ex_bad_world_def mini_doc_try_from_def ex_doc_def)
  then show ?thesis using refresher_blocked [of "ex_identities\<lparr>id_queue := [DidKey ''did:plc:a'', HandleKey ''a.b'']\<rparr>"
      "DidKey ''did:plc:a''" "[HandleKey ''a.b'']" "replicate 1000 ex_bad_world" ex_atrium hm_cache] by simp
qed

end
