(* ===== verification/Slingshot_Props.thy ===== *)
theory Slingshot_Props
  imports Slingshot Slingshot_Identity_Props
begin

text \<open>
  What \<open>slingshot\<close> answers: records that the firehose or a PDS gave, never one that a later event of
  the firehose replaced or deleted, in the version asked for, and handles confirmed in both directions.
\<close>

section \<open>Fetching from a PDS\<close>

text \<open>Some request for the record, in whatever version, was answered with it.\<close>

definition upstream_says :: "Atrium \<Rightarrow> Http \<Rightarrow> string \<Rightarrow> string \<Rightarrow> string \<Rightarrow> CachedRecord \<Rightarrow> bool" where
  "upstream_says atr ht did collection rkey v \<longleftrightarrow>
     (\<exists>pds n cid res. send_request ht pds did collection rkey n cid = Inr res \<and> upstream_record atr res = Inr v)"

lemma request_loop_sent: "request_loop send n cid = Inr res \<Longrightarrow> \<exists>n cid. send n cid = Inr res"
proof (induction send n cid rule: request_loop.induct)
  case (1 send n cid)
  from "1.prems" obtain res' where r: "send n cid = Inr res'"
    by (subst (asm) request_loop.simps) (auto split: sum.splits)
  show ?case
  proof (cases "hr_status res' = 400")
    case True
    with "1.prems" r obtain err where err: "hr_error res' = Some err" "er_error err = ''NotFound''" "cid \<noteq> None"
      "request_loop send (n + 1) None = Inr res"
      by (subst (asm) request_loop.simps) (auto split: option.splits if_splits)
    from "1.IH" [OF r True err(1) conjI [OF err(2,3)] err(4)] show ?thesis .
  next
    case False
    with "1.prems" r show ?thesis by (subst (asm) request_loop.simps) auto
  qed
qed

text \<open>The loop asks at most twice, the second time without a version and only after a first with one.\<close>

lemma request_loop_twice:
  assumes "send 0 cid = send' 0 cid" "send 1 None = send' 1 None"
  shows "request_loop send 0 cid = request_loop send' 0 cid"
proof -
  have "request_loop send (Suc 0) None = request_loop send' (Suc 0) None"
    using assms(2) by (subst (1 2) request_loop.simps) (auto split: sum.splits option.splits)
  then show ?thesis using assms(1)
    by (subst (1 2) request_loop.simps) (auto split: sum.splits option.splits)
qed

lemma repo_get_record_says:
  assumes "repo_get_record atr hc ht w did collection rkey cid ids = (Inr v, ids')"
  shows "upstream_says atr ht did collection rkey v"
proof -
  from assms obtain pds where "and_then (request_loop (send_request ht pds did collection rkey) 0 cid) (upstream_record atr) = Inr v"
    by (auto simp: repo_get_record_def split: prod.splits sum.splits option.splits)
  then obtain res where "request_loop (send_request ht pds did collection rkey) 0 cid = Inr res" "upstream_record atr res = Inr v"
    by (auto simp: and_then_Inr)
  with request_loop_sent [OF this(1)] show ?thesis by (auto simp: upstream_says_def)
qed

section \<open>What the cache can hold\<close>

datatype 'c slingshot_op =
    Heard JetstreamEvent
  | Asked Http "nat \<Rightarrow> World" string string string "string option"
  | Resolved "'c Identities"

fun slingshot_step ::
  "Atrium \<Rightarrow> 'c IdentityCache \<Rightarrow> ('c, 'r) RecordCache \<Rightarrow> 'c slingshot_op \<Rightarrow> ('c, 'r) Xrpc \<Rightarrow> ('c, 'r) Xrpc" where
  "slingshot_step atr hc rc (Heard event) x = x\<lparr>xr_cache := cache_event rc event (xr_cache x)\<rparr>"
| "slingshot_step atr hc rc (Asked ht w repo collection rkey cid) x =
     snd (get_record_impl atr hc rc ht w repo collection rkey cid x)"
| "slingshot_step atr hc rc (Resolved ids) x = x\<lparr>xr_identity := ids\<rparr>"

text \<open>
  The versions of a record that may be served: the last the firehose gave, and whatever a PDS gave
  since.
\<close>

fun known_step :: "Atrium \<Rightarrow> 'c slingshot_op \<Rightarrow> (string \<Rightarrow> CachedRecord set) \<Rightarrow> string \<Rightarrow> CachedRecord set" where
  "known_step atr (Heard event) K =
     (case event_entry event of None \<Rightarrow> K | Some (uri, v) \<Rightarrow> K(uri := {v}))"
| "known_step atr (Asked ht w repo collection rkey cid) K =
     (\<lambda>uri. K uri \<union> {v. \<exists>did. uri = record_uri did collection rkey \<and> upstream_says atr ht did collection rkey v})"
| "known_step atr (Resolved ids) K = K"

definition known :: "Atrium \<Rightarrow> 'c slingshot_op list \<Rightarrow> string \<Rightarrow> CachedRecord set" where
  "known atr ops = fold (known_step atr) ops (\<lambda>_. {})"

definition holds_known :: "('c, 'r) RecordCache \<Rightarrow> (string \<Rightarrow> CachedRecord set) \<Rightarrow> 'r \<Rightarrow> bool" where
  "holds_known rc K c \<longleftrightarrow> (\<forall>uri v. hc_holds rc c uri = Some v \<longrightarrow> v \<in> K uri)"

lemma cache_event_known:
  assumes "cache_laws rc" "holds_known rc K c"
  shows "holds_known rc (known_step atr (Heard event) K) (cache_event rc event c)"
proof (cases "event_entry event")
  case (Some e)
  obtain u v where e: "e = (u, v)" by (cases e)
  have "if u' = u then v' = v else hc_holds rc c u' = Some v'" if "hc_holds rc (hc_insert rc u v c) u' = Some v'" for u' v'
    using assms(1) that unfolding cache_laws_def insert_law_def by blast
  then show ?thesis using assms(2) Some e by (fastforce simp: holds_known_def cache_event_def split: if_splits)
qed (use assms in \<open>simp add: cache_event_def\<close>)

text \<open>A request for a record of a DID: what is held after it, and what its answer can be.\<close>

lemma get_record_of_did_known:
  assumes laws: "cache_laws rc" and K: "holds_known rc K (xr_cache x)"
    and get: "get_record_of_did atr hc rc ht w did collection rkey cid x = (r, x')"
  shows "holds_known rc (\<lambda>uri. K uri \<union> {v. uri = record_uri did collection rkey \<and> upstream_says atr ht did collection rkey v}) (xr_cache x')
    \<and> (\<forall>a. r = ApiOk a \<longrightarrow> (\<exists>v. a = \<lparr>fr_uri = record_uri did collection rkey, fr_cid = Some (rr_cid v), fr_value = rr_record v\<rparr> \<and>
         (FoundRecord v \<in> K (record_uri did collection rkey) \<or> upstream_says atr ht did collection rkey (FoundRecord v)) \<and>
         (\<forall>c. cid = Some c \<longrightarrow> at_cid atr c = Some (rr_cid v))))"
proof (cases "at_nsid_new atr collection \<and> at_rkey_new atr rkey \<and>
    (case cid of None \<Rightarrow> True | Some c \<Rightarrow> at_cid atr c \<noteq> None)")
  case False
  then have "x' = x" "\<not> (\<exists>a. r = ApiOk a)"
    using get by (auto simp: get_record_of_did_def split: if_splits option.splits)
  then show ?thesis using K by (auto simp: holds_known_def)
next
  case True
  then obtain cid' where cid: "(case cid of None \<Rightarrow> Some None | Some c \<Rightarrow> map_option Some (at_cid atr c)) = Some cid'"
    by (auto split: option.splits)
  let ?u = "record_uri did collection rkey"
  let ?f = "\<lambda>ids. apfst (map_sum FoyerOther id) (repo_get_record atr hc ht w did collection rkey cid' ids)"
  obtain fr c ids where f: "hc_fetch rc ?u ?f (xr_cache x, xr_identity x) = (fr, c, ids)" by (metis prod.exhaust)
  have res: "r = (case fr of Inl e \<Rightarrow> fetch_failed e | Inr entry \<Rightarrow> found_record ht ?u cid' entry)" "xr_cache x' = c"
    using get True cid f by (auto simp: get_record_of_did_def Let_def)
  have says: "upstream_says atr ht did collection rkey v" if "fst (?f (xr_identity x)) = Inr v" for v
  proof -
    obtain r0 ids0 where r0: "repo_get_record atr hc ht w did collection rkey cid' (xr_identity x) = (r0, ids0)" by (metis prod.exhaust)
    with that have "r0 = Inr v" by (cases r0) auto
    with r0 repo_get_record_says show ?thesis by blast
  qed
  have law: "(case fr of Inr v \<Rightarrow> hc_holds rc (xr_cache x) ?u = Some v | Inl e \<Rightarrow> e = FoyerInternal) \<or>
      fr = fst (?f (xr_identity x)) \<or> fr = Inl FoyerInternal"
    and held: "\<And>k v. hc_holds rc c k = Some v \<Longrightarrow>
      hc_holds rc (xr_cache x) k = Some v \<or> k = ?u \<and> fst (?f (xr_identity x)) = Inr v"
    using laws f unfolding cache_laws_def fetch_law_def by blast+
  have "holds_known rc (\<lambda>uri. K uri \<union> {v. uri = ?u \<and> upstream_says atr ht did collection rkey v}) c"
    using K held says unfolding holds_known_def by blast
  moreover have "v \<in> K ?u \<or> upstream_says atr ht did collection rkey v" if "fr = Inr v" for v
    using law that K says unfolding holds_known_def by auto
  moreover have "fetch_failed e \<noteq> ApiOk a" for e and a :: FoundRecordResponseObject
    by (auto simp: fetch_failed_def split: FoyerError.splits RecordError.splits)
  ultimately show ?thesis using cid unfolding res
    by (auto simp: found_record_def split: sum.splits CachedRecord.splits if_splits option.splits)
qed

lemma get_record_impl_known:
  assumes laws: "cache_laws rc" and K: "holds_known rc K (xr_cache x)"
    and get: "get_record_impl atr hc rc ht w repo collection rkey cid x = (r, x')"
  shows "holds_known rc (known_step atr (Asked ht w repo collection rkey cid) K) (xr_cache x') \<and>
    (\<forall>a. r = ApiOk a \<longrightarrow> (\<exists>did v. a = \<lparr>fr_uri = record_uri did collection rkey, fr_cid = Some (rr_cid v), fr_value = rr_record v\<rparr> \<and>
       (at_did_new atr repo \<longrightarrow> did = repo) \<and>
       (FoundRecord v \<in> K (record_uri did collection rkey) \<or> upstream_says atr ht did collection rkey (FoundRecord v)) \<and>
       (\<forall>c. cid = Some c \<longrightarrow> at_cid atr c = Some (rr_cid v))))"
proof -
  consider (failed) "xr_cache x' = xr_cache x" "\<not> (\<exists>a. r = ApiOk a)"
    | (asked) did x0 where "xr_cache x0 = xr_cache x" "get_record_of_did atr hc rc ht (w 2) did collection rkey cid x0 = (r, x')"
      "at_did_new atr repo \<longrightarrow> did = repo"
  proof (cases "at_did_new atr repo")
    case True
    then show thesis using get asked [of x repo] by (simp add: get_record_impl_def)
  next
    case False
    obtain r1 ids where 1: "handle_to_did atr hc (w 0) (w 1) repo (xr_identity x) = (r1, ids)" by (metis prod.exhaust)
    show thesis
    proof (cases "at_handle_new atr repo \<and> (\<exists>did. r1 = Inr (Some did))")
      case True
      then obtain did where "r1 = Inr (Some did)" by blast
      then show thesis using get False True 1 asked [of "x\<lparr>xr_identity := ids\<rparr>" did] by (simp add: get_record_impl_def)
    next
      assume no: "\<not> (at_handle_new atr repo \<and> (\<exists>did. r1 = Inr (Some did)))"
      show thesis by (rule failed)
        (use get False no 1 in \<open>auto simp: get_record_impl_def split: if_splits sum.splits option.splits\<close>)
    qed
  qed
  then show ?thesis
  proof cases
    case failed
    then show ?thesis using K by (auto simp: holds_known_def)
  next
    case asked
    have "holds_known rc K (xr_cache x0)" using K asked(1) by simp
    note got = get_record_of_did_known [OF laws this asked(2)]
    from conjunct1 [OF got] have "holds_known rc (known_step atr (Asked ht w repo collection rkey cid) K) (xr_cache x')"
      by (auto simp: holds_known_def)
    with conjunct2 [OF got] asked(3) show ?thesis by blast
  qed
qed

lemma slingshot_run_known:
  assumes laws: "cache_laws rc" and "holds_known rc K (xr_cache x)"
  shows "holds_known rc (fold (known_step atr) ops K) (xr_cache (fold (slingshot_step atr hc rc) ops x))"
  using assms(2)
proof (induction ops arbitrary: K x)
  case (Cons op ops)
  have "holds_known rc (known_step atr op K) (xr_cache (slingshot_step atr hc rc op x))"
  proof (cases op)
    case (Heard event)
    then show ?thesis using cache_event_known [OF laws Cons.prems] by simp
  next
    case (Asked ht w repo collection rkey cid)
    obtain r x' where "get_record_impl atr hc rc ht w repo collection rkey cid x = (r, x')" by (metis prod.exhaust)
    with get_record_impl_known [OF laws Cons.prems this] Asked show ?thesis by simp
  qed (use Cons.prems in simp)
  from Cons.IH [OF this] show ?case by simp
qed simp

text \<open>The loop of the consumer is a run of heard events.\<close>

lemma receive_loop_heard:
  assumes "receive_loop rc turns c = (r, c')"
  shows "\<exists>events. xr_cache (fold (slingshot_step atr hc rc) (map Heard events) \<lparr>xr_cache = c, xr_identity = ids\<rparr>) = c' \<and>
    (r = None \<longrightarrow> map Some events = map snd turns)"
  using assms
proof (induction turns arbitrary: c)
  case (Cons t turns)
  obtain cancelled received where t: "t = (cancelled, received)" by (cases t)
  show ?case
  proof (cases "cancelled \<or> received = None")
    case True
    then show ?thesis using Cons.prems t by (intro exI [of _ "[]"]) (auto split: if_splits option.splits)
  next
    case False
    then obtain event where e: "received = Some event" by blast
    with False Cons.prems t have "receive_loop rc turns (cache_event rc event c) = (r, c')" by simp
    from Cons.IH [OF this] obtain events where
      "xr_cache (fold (slingshot_step atr hc rc) (map Heard events) \<lparr>xr_cache = cache_event rc event c, xr_identity = ids\<rparr>) = c'"
      "r = None \<longrightarrow> map Some events = map snd turns" by blast
    then show ?thesis using t e by (intro exI [of _ "event # events"]) simp
  qed
qed (auto intro: exI [of _ "[]"])

section \<open>Properties\<close>

text \<open>
  C15. A record that \<open>slingshot\<close> serves is one it was given: under the at-uri of the record asked for,
  it is the last the firehose gave, or one a PDS answered since or answers now, and it has the CID
  asked for.
\<close>

theorem record_served_known:
  assumes "cache_laws rc" and "\<And>uri. hc_holds rc c uri = None"
    and "get_record_impl atr hc rc ht w repo collection rkey cid
           (fold (slingshot_step atr hc rc) ops \<lparr>xr_cache = c, xr_identity = ids\<rparr>) = (ApiOk a, x')"
  shows "\<exists>did v. a = \<lparr>fr_uri = record_uri did collection rkey, fr_cid = Some (rr_cid v), fr_value = rr_record v\<rparr> \<and>
    (at_did_new atr repo \<longrightarrow> did = repo) \<and> (\<forall>c. cid = Some c \<longrightarrow> at_cid atr c = Some (rr_cid v)) \<and>
    (FoundRecord v \<in> known atr ops (record_uri did collection rkey) \<or>
     upstream_says atr ht did collection rkey (FoundRecord v))"
proof -
  have "holds_known rc (known atr ops) (xr_cache (fold (slingshot_step atr hc rc) ops \<lparr>xr_cache = c, xr_identity = ids\<rparr>))"
    unfolding known_def by (rule slingshot_run_known [OF assms(1)]) (simp add: holds_known_def assms(2))
  from get_record_impl_known [OF assms(1) this assms(3)] show ?thesis by blast
qed

text \<open>Operations that do not touch a record.\<close>

fun apart :: "string \<Rightarrow> 'c slingshot_op \<Rightarrow> bool" where
  "apart uri (Heard event) \<longleftrightarrow> (\<forall>v. event_entry event \<noteq> Some (uri, v))"
| "apart uri (Asked ht w repo collection rkey cid) \<longleftrightarrow> (\<forall>did. uri \<noteq> record_uri did collection rkey)"
| "apart uri (Resolved ids) \<longleftrightarrow> True"

lemma known_apart: "list_all (apart uri) ops \<Longrightarrow> fold (known_step atr) ops K uri = K uri"
proof (induction ops arbitrary: K)
  case (Cons op ops)
  have "known_step atr op K uri = K uri"
    using Cons.prems by (cases op) (auto split: option.splits)
  with Cons show ?case by simp
qed simp

text \<open>
  A deletion takes effect at once.  From the moment the firehose reports a record deleted, and
  until it reports it again or somebody asks for it, the record is not served from the cache: an answer
  that has it has it from its PDS.
\<close>

theorem deleted_record_not_cached:
  assumes "cache_laws rc" and "\<And>uri. hc_holds rc c uri = None"
    and "event_entry event = Some (record_uri did collection rkey, DeletedRecord)"
    and "list_all (apart (record_uri did collection rkey)) later" and "at_did_new atr did"
    and "get_record_impl atr hc rc ht w did collection rkey cid
           (fold (slingshot_step atr hc rc) (before @ Heard event # later) \<lparr>xr_cache = c, xr_identity = ids\<rparr>) = (ApiOk a, x')"
  shows "\<exists>v. fr_value a = rr_record v \<and> upstream_says atr ht did collection rkey (FoundRecord v)"
proof -
  have "known atr (before @ Heard event # later) (record_uri did collection rkey) = {DeletedRecord}"
    using assms(3) known_apart [OF assms(4)] by (simp add: known_def)
  with record_served_known [OF assms(1,2,6)] assms(5) show ?thesis by auto
qed

lemma resolve_mini_did_Ok:
  assumes "resolve_mini_did atr hc w did uh ids = (ApiOk d, s')"
  obtains m ids0 where "did_to_partial_mini_doc atr hc (w 2) did ids = (Inr (Some m), ids0)" "md_did d = did"
    "case uh of
       Some h \<Rightarrow> md_handle d = (if h = pm_unverified_handle m then h else ''handle.invalid'')
     | None \<Rightarrow> \<exists>hd ids1. handle_to_did atr hc (w 3) (w 4) (pm_unverified_handle m) ids0 = (Inr (Some hd), ids1) \<and>
         md_handle d = (if hd = did then pm_unverified_handle m else ''handle.invalid'')"
proof -
  obtain r0 ids0 where 0: "did_to_partial_mini_doc atr hc (w 2) did ids = (r0, ids0)" by (metis prod.exhaust)
  obtain m where m: "r0 = Inr (Some m)"
    using assms 0 by (cases r0; cases "projr r0") (auto simp: resolve_mini_did_def invalid_def)
  obtain r1 ids1 where 1: "handle_to_did atr hc (w 3) (w 4) (pm_unverified_handle m) ids0 = (r1, ids1)" by (metis prod.exhaust)
  show thesis
  proof (cases uh)
    case (Some h)
    then show thesis using that [of m ids0] assms 0 m by (simp add: resolve_mini_did_def mini_doc_response_def) force
  next
    case None
    obtain hd where "r1 = Inr (Some hd)"
      using assms 0 m None 1 by (cases r1; cases "projr r1") (auto simp: resolve_mini_did_def invalid_def)
    then show thesis using that [of m ids0] assms 0 m None 1 by (simp add: resolve_mini_did_def mini_doc_response_def) force
  qed
qed

text \<open>
  The handle of a mini doc is confirmed in both directions, or it is \<open>handle.invalid\<close>.
\<close>

theorem mini_doc_verified:
  assumes "cache_laws hc" and "\<And>k. hc_holds hc c k = None"
    and "fold_res (identity_step atr hc) ops (identity_new c, None) = Inr (s, task)"
    and "resolve_mini_id atr hc w identifier s = (ApiOk d, s')" and "md_handle d \<noteq> ''handle.invalid''"
  shows "(\<exists>w' \<in> worlds_of ops \<union> range w. wd_handle w' (md_handle d) = Inr (md_did d)) \<and>
    (\<exists>w' \<in> worlds_of ops \<union> range w. claims_handle atr w' (md_did d) (md_handle d))"
proof -
  let ?W = "worlds_of ops \<union> range w"
  have ok: "identity_ok atr hc ?W s"
    using identity_run_new [OF assms(1,2), of atr ops] assms(3) identity_ok_mono [of atr hc "worlds_of ops" s ?W] by auto
  have W: "insert (w i) (insert (w j) ?W) = ?W" "insert (w i) ?W = ?W" for i j by auto
  have asked: "identity_ok atr hc ?W s2 \<and> (\<forall>did. r = Inr (Some did) \<longrightarrow> (\<exists>w' \<in> ?W. wd_handle w' h = Inr did))"
    if "identity_ok atr hc ?W s1" "handle_to_did atr hc (w i) (w j) h s1 = (r, s2)" for i j h s1 r s2
    using handle_to_did_lookup [OF assms(1) that] unfolding W by blast
  have mini: "(\<exists>w' \<in> ?W. wd_handle w' (md_handle d) = Inr (md_did d)) \<and>
      (\<exists>w' \<in> ?W. claims_handle atr w' (md_did d) (md_handle d))"
    if ok: "identity_ok atr hc ?W ids" and r: "resolve_mini_did atr hc w did uh ids = (ApiOk d, s')"
      and uh: "\<forall>h. uh = Some h \<longrightarrow> (\<exists>w' \<in> ?W. wd_handle w' h = Inr did)" for did uh ids
  proof -
    from r obtain m ids0 where m: "did_to_partial_mini_doc atr hc (w 2) did ids = (Inr (Some m), ids0)" "md_did d = did"
      and h: "case uh of
         Some h \<Rightarrow> md_handle d = (if h = pm_unverified_handle m then h else ''handle.invalid'')
       | None \<Rightarrow> \<exists>hd ids1. handle_to_did atr hc (w 3) (w 4) (pm_unverified_handle m) ids0 = (Inr (Some hd), ids1) \<and>
           md_handle d = (if hd = did then pm_unverified_handle m else ''handle.invalid'')"
      by (rule resolve_mini_did_Ok)
    have ok0: "identity_ok atr hc ?W ids0" using did_lookup [OF assms(1) ok m(1)] by (simp add: W)
    have c: "\<exists>w' \<in> ?W. claims_handle atr w' did (pm_unverified_handle m)"
      using did_lookup_claims [OF assms(1) ok m(1)] by (simp add: W)
    have d: "md_handle d = pm_unverified_handle m" using h assms(5) by (cases uh) (auto split: if_splits)
    have "\<exists>w' \<in> ?W. wd_handle w' (md_handle d) = Inr did"
    proof (cases uh)
      case (Some h)
      then show ?thesis using h uh assms(5) by (auto split: if_splits)
    next
      case None
      then obtain hd ids1 where 1: "handle_to_did atr hc (w 3) (w 4) (pm_unverified_handle m) ids0 = (Inr (Some hd), ids1)"
        "hd = did" using h assms(5) by (auto split: if_splits)
      from asked [OF ok0 1(1)] show ?thesis using d 1(2) by simp
    qed
    then show ?thesis using c d m(2) by simp
  qed
  show ?thesis
  proof (cases "at_did_new atr identifier")
    case True
    then have "resolve_mini_did atr hc w identifier None s = (ApiOk d, s')" using assms(4) by (simp add: resolve_mini_id_def)
    then show ?thesis using mini [OF ok] by simp
  next
    case False
    obtain r1 ids1 where 1: "handle_to_did atr hc (w 0) (w 1) identifier s = (r1, ids1)" by (metis prod.exhaust)
    obtain did where did: "r1 = Inr (Some did)" "resolve_mini_did atr hc w did (Some identifier) ids1 = (ApiOk d, s')"
      using assms(4) False 1 by (auto simp: resolve_mini_id_def invalid_def split: if_splits sum.splits option.splits)
    then show ?thesis using mini [OF _ did(2)] asked [OF ok 1] by simp
  qed
qed

text \<open>
  A DID whose handle does not resolve has no mini doc: the answer is a bad request, where the
  documented answer has the handle \<open>handle.invalid\<close>.
\<close>

theorem mini_doc_unresolved:
  assumes laws: "cache_laws hc" "\<And>k. hc_holds hc c k = None" and "at_did_new atr did"
    and doc: "wd_did (w 2) did = Inr doc" "mini_doc_try_from atr doc = Inr m"
    and unresolved: "\<And>i. \<exists>e. wd_handle (w i) (pm_unverified_handle m) = Inl e"
  shows "\<exists>reason. fst (resolve_mini_id atr hc w did (identity_new c)) = ApiBadRequest ''InvalidRequest'' reason"
proof -
  have ok: "identity_ok atr hc {} (identity_new c)" using identity_new_ok [of hc c atr] laws(2) by simp
  obtain r0 ids0 where 0: "did_to_partial_mini_doc atr hc (w 2) did (identity_new c) = (r0, ids0)" by (metis prod.exhaust)
  note l0 = did_lookup [OF laws(1) ok 0]
  show ?thesis
  proof (cases "\<exists>m'. r0 = Inr (Some m')")
    case True
    then have r0: "r0 = Inr (Some m)" using l0 doc by auto
    obtain r1 ids1 where 1: "handle_to_did atr hc (w 3) (w 4) (pm_unverified_handle m) ids0 = (r1, ids1)" by (metis prod.exhaust)
    have "r1 \<noteq> Inr (Some d)" for d
      using handle_to_did_lookup [OF laws(1) conjunct1 [OF l0] 1] unresolved [of 2] unresolved [of 3] by auto
    then have "(\<exists>e. r1 = Inl e) \<or> r1 = Inr None" by (cases r1; cases "projr r1") auto
    then show ?thesis using assms(3) 0 1 r0 by (auto simp: resolve_mini_id_def resolve_mini_did_def invalid_def)
  next
    case False
    then have "(\<exists>e. r0 = Inl e) \<or> r0 = Inr None" by (cases r0; cases "projr r0") auto
    then show ?thesis using assms(3) 0 by (auto simp: resolve_mini_id_def resolve_mini_did_def invalid_def)
  qed
qed

section \<open>Instances\<close>

definition ex_commit :: "CommitOp \<Rightarrow> JetstreamEvent" where
  "ex_commit op = \<lparr>je_cursor = 1, je_did = ''did:plc:a'', je_kind = Commit,
     je_commit = Some \<lparr>ce_collection = ''c.d'', ce_rkey = ''k'', ce_rev = ''r'', ce_operation = op,
       ce_record = Some ''{}'', ce_cid = Some ''cid1''\<rparr>, je_identity = None, je_account = None\<rparr>"

text \<open>A PDS that has a newer version.\<close>

definition ex_http :: Http where
  "ex_http = \<lparr>ht_url = \<lambda>pds _. Some pds,
     ht_send = \<lambda>_ _. Some \<lparr>hr_status = 200, hr_error = None,
       hr_record = Some \<lparr>ro_uri = ''at://did:plc:a/c.d/k'', ro_cid = Some ''cid2'', ro_value = ''[]''\<rparr>\<rparr>,
     ht_json_ok = \<lambda>_. True\<rparr>"

abbreviation ex_xrpc :: "((IdentityKey, IdentityVal) hashmap, (string, CachedRecord) hashmap) Xrpc" where
  "ex_xrpc \<equiv> \<lparr>xr_cache = [], xr_identity = identity_new []\<rparr>"

lemmas slingshot_eval = identity_eval ex_commit_def ex_http_def get_record_impl_def get_record_of_did_def
  cache_event_def event_entry_def record_uri_def found_record_def repo_get_record_def did_to_pds_def
  upstream_record_def

lemma ex_request: "request_loop (send_request ex_http pds did collection rkey) 0 cid =
    Inr \<lparr>hr_status = 200, hr_error = None,
      hr_record = Some \<lparr>ro_uri = ''at://did:plc:a/c.d/k'', ro_cid = Some ''cid2'', ro_value = ''[]''\<rparr>\<rparr>"
  by (subst request_loop.simps) (simp add: send_request_def ex_http_def)

lemma ex_served:
  "get_record_impl ex_atrium hm_cache hm_cache ex_http (\<lambda>i. ex_world (int i)) ''did:plc:a'' ''c.d'' ''k'' (Some ''cid1'')
     (fold (slingshot_step ex_atrium hm_cache hm_cache) [Heard (ex_commit Create)] ex_xrpc) =
   (ApiOk \<lparr>fr_uri = ''at://did:plc:a/c.d/k'', fr_cid = Some ''cid1'', fr_value = ''{}''\<rparr>,
    \<lparr>xr_cache = [(''at://did:plc:a/c.d/k'', FoundRecord \<lparr>rr_cid = ''cid1'', rr_record = ''{}''\<rparr>)], xr_identity = identity_new []\<rparr>)"
  by (simp add: slingshot_eval)

theorem record_served_known_witness:
  "\<exists>did v. (\<lparr>fr_uri = ''at://did:plc:a/c.d/k'', fr_cid = Some ''cid1'', fr_value = ''{}''\<rparr> :: FoundRecordResponseObject) =
      \<lparr>fr_uri = record_uri did ''c.d'' ''k'', fr_cid = Some (rr_cid v), fr_value = rr_record v\<rparr> \<and>
    (FoundRecord v \<in> known ex_atrium [Heard (ex_commit Create) :: (IdentityKey, IdentityVal) hashmap slingshot_op] (record_uri did ''c.d'' ''k'') \<or>
     upstream_says ex_atrium ex_http did ''c.d'' ''k'' (FoundRecord v))"
  using record_served_known [OF hm_cache_laws hm_cache_empty ex_served] by blast

lemma ex_deleted_served:
  "\<exists>x. get_record_impl ex_atrium hm_cache (hm_cache\<lparr>hc_insert := \<lambda>k v c. []\<rparr>) ex_http (\<lambda>i. ex_world (int i)) ''did:plc:a'' ''c.d'' ''k'' None
     (fold (slingshot_step ex_atrium hm_cache (hm_cache\<lparr>hc_insert := \<lambda>k v c. []\<rparr>)) ([] @ Heard (ex_commit Delete) # []) ex_xrpc) =
   (ApiOk \<lparr>fr_uri = ''at://did:plc:a/c.d/k'', fr_cid = Some ''cid2'', fr_value = ''[]''\<rparr>, x)"
  using ex_request by (simp add: slingshot_eval)

text \<open>A cache too small for anything: it keeps what is fetched and nothing that is inserted.\<close>

lemma small_cache_laws: "cache_laws (hm_cache\<lparr>hc_insert := \<lambda>k v c. []\<rparr> :: ('k, 'v, 'e, 's, ('k, 'v) hashmap) HybridCache)"
proof -
  have "insert_law (hm_cache\<lparr>hc_insert := \<lambda>k v c. []\<rparr> :: ('k, 'v, 'e, 's, ('k, 'v) hashmap) HybridCache)"
    by (simp add: insert_law_def hm_cache_def)
  moreover have "fetch_law (hc\<lparr>hc_insert := i\<rparr>) = fetch_law hc" for hc :: "('k, 'v, 'e, 's, ('k, 'v) hashmap) HybridCache" and i
    by (cases hc) (simp only: fetch_law_def HybridCache.simps)
  ultimately show ?thesis using hm_cache_laws [where 'k = 'k and 'v = 'v and 'e = 'e and 's = 's] by (simp add: cache_laws_def)
qed

theorem deleted_record_not_cached_witness:
  "\<exists>v. ''[]'' = rr_record v \<and> upstream_says ex_atrium ex_http ''did:plc:a'' ''c.d'' ''k'' (FoundRecord v)"
proof -
  obtain x where x: "get_record_impl ex_atrium hm_cache (hm_cache\<lparr>hc_insert := \<lambda>k v c. []\<rparr>) ex_http (\<lambda>i. ex_world (int i)) ''did:plc:a'' ''c.d'' ''k'' None
     (fold (slingshot_step ex_atrium hm_cache (hm_cache\<lparr>hc_insert := \<lambda>k v c. []\<rparr>)) ([] @ Heard (ex_commit Delete) # []) ex_xrpc) =
   (ApiOk \<lparr>fr_uri = ''at://did:plc:a/c.d/k'', fr_cid = Some ''cid2'', fr_value = ''[]''\<rparr>, x)"
    using ex_deleted_served by blast
  have e: "event_entry (ex_commit Delete) = Some (record_uri ''did:plc:a'' ''c.d'' ''k'', DeletedRecord)"
    by (simp add: event_entry_def ex_commit_def)
  have "\<exists>v. fr_value \<lparr>fr_uri = ''at://did:plc:a/c.d/k'', fr_cid = Some ''cid2'', fr_value = ''[]''\<rparr> = rr_record v \<and>
      upstream_says ex_atrium ex_http ''did:plc:a'' ''c.d'' ''k'' (FoundRecord v)"
    by (rule deleted_record_not_cached [OF small_cache_laws _ e _ _ x]) (simp_all add: hm_cache_def ex_atrium_def starts_with_def)
  then show ?thesis by simp
qed

lemma ex_mini_doc:
  "\<exists>s. resolve_mini_id ex_atrium hm_cache (\<lambda>i. ex_world (int i)) ''did:plc:a'' ex_identities =
     (ApiOk \<lparr>md_did = ''did:plc:a'', md_handle = ''a.b'', md_pds = ''https://p'', md_signing_key = ''z1''\<rparr>, s)"
  by (simp add: resolve_mini_id_def resolve_mini_did_def mini_doc_response_def handle_to_did_def identity_eval ex_identities_def)

theorem mini_doc_verified_witness:
  "\<exists>w. claims_handle ex_atrium w ''did:plc:a'' ''a.b''"
proof -
  obtain s where "resolve_mini_id ex_atrium hm_cache (\<lambda>i. ex_world (int i)) ''did:plc:a'' ex_identities =
     (ApiOk \<lparr>md_did = ''did:plc:a'', md_handle = ''a.b'', md_pds = ''https://p'', md_signing_key = ''z1''\<rparr>, s)"
    using ex_mini_doc by blast
  from mini_doc_verified [OF hm_cache_laws hm_cache_empty ex_days_run this] show ?thesis by auto
qed

theorem mini_doc_unresolved_witness:
  "\<exists>reason. fst (resolve_mini_id ex_atrium hm_cache (\<lambda>i. (ex_world (int i))\<lparr>wd_handle := \<lambda>_. Inl ResolveNotFound\<rparr>) ''did:plc:a''
     (identity_new [])) = ApiBadRequest ''InvalidRequest'' reason"
  by (rule mini_doc_unresolved [OF hm_cache_laws hm_cache_empty, where doc = ex_doc and
        m = "\<lparr>pm_unverified_handle = ''a.b'', pm_pds = ''https://p'', pm_signing_key = ''z1''\<rparr>"])
    (simp_all add: ex_atrium_def ex_world_def starts_with_def ex_doc_def mini_doc_try_from_def strip_prefix_def)

end
