(* ===== verification/Whoami.thy ===== *)
theory Whoami
  imports Slingshot_Identity
begin

text \<open>
  The login service \<open>who-am-i\<close>: the map of expiring tasks (\<open>who-am-i/src/expiring_task_map.rs\<close>), the
  tokens (\<open>jwt.rs\<close>), the end of an OAuth flow (\<open>oauth.rs\<close>) and the handlers (\<open>server.rs\<close>).

  \<open>WhoEnv\<close> stands for the crates the handlers call: DIDs of atrium, the trimming of cookie values,
  header values, URLs and the encoding of tokens.  A signed cookie jar is what its \<open>get\<close> says, and what
  a handler does to it is the list of its changes in the response.  A task is its result, which is
  \<open>None\<close> when it cannot be joined.  Random keys, fresh cancellation tokens, the clock and the outcome
  of OAuth requests are inputs.  Templates, the attributes of cookies and metrics are left out.
\<close>

section \<open>expiring_task_map.rs\<close>

text \<open>
  An entry has the token its guard cancels when it is dropped.  A second task per entry sleeps until
  the expiration or until the token is cancelled.
\<close>

record 'a TaskMap =
  tm_map :: "(string, nat \<times> 'a) hashmap"
  tm_cancelled :: "nat set"
  tm_shutdown :: bool
  tm_sleeping :: "(string \<times> nat \<times> nat) list"
  tm_expiration :: nat

definition task_map_new :: "nat \<Rightarrow> 'a TaskMap" where
  "task_map_new expiration =
     \<lparr>tm_map = [], tm_cancelled = {}, tm_shutdown = False, tm_sleeping = [], tm_expiration = expiration\<rparr>"

definition is_cancelled :: "'a TaskMap \<Rightarrow> nat \<Rightarrow> bool" where
  "is_cancelled m token \<longleftrightarrow> tm_shutdown m \<or> token \<in> tm_cancelled m"

definition map_remove :: "string \<Rightarrow> 'a TaskMap \<Rightarrow> 'a option \<times> 'a TaskMap" where
  "map_remove key m =
     (case hm_get (tm_map m) key of
        None \<Rightarrow> (None, m)
      | Some (guard, task) \<Rightarrow>
          (Some task, m\<lparr>tm_map := hm_remove key (tm_map m), tm_cancelled := insert guard (tm_cancelled m)\<rparr>))"

definition dispatch :: "string \<Rightarrow> nat \<Rightarrow> nat \<Rightarrow> 'a \<Rightarrow> 'a TaskMap \<Rightarrow> 'a TaskMap" where
  "dispatch task_key cancel now task m =
     (let m = snd (map_remove task_key m)
      in m\<lparr>tm_map := hm_insert task_key (cancel, task) (tm_map m),
           tm_sleeping := tm_sleeping m @ [(task_key, cancel, now + tm_expiration m)]\<rparr>)"

definition take_task :: "string \<Rightarrow> 'a TaskMap \<Rightarrow> 'a option \<times> 'a TaskMap" where
  "take_task key m = map_remove key m"

text \<open>A sleeper whose time has come, and all of those.\<close>

fun wake :: "string \<times> nat \<times> nat \<Rightarrow> 'a TaskMap \<Rightarrow> 'a TaskMap" where
  "wake (key, cancel, _) m =
     (if is_cancelled m cancel then m
      else let m = snd (map_remove key m) in m\<lparr>tm_cancelled := insert cancel (tm_cancelled m)\<rparr>)"

definition pass_time :: "nat \<Rightarrow> 'a TaskMap \<Rightarrow> 'a TaskMap" where
  "pass_time now m =
     fold wake (filter (\<lambda>(_, _, wakes). wakes \<le> now) (tm_sleeping m))
       (m\<lparr>tm_sleeping := filter (\<lambda>(_, _, wakes). \<not> wakes \<le> now) (tm_sleeping m)\<rparr>)"

section \<open>jwt.rs\<close>

record Claims =
  clm_sub :: string
  clm_exp :: u64

text \<open>What is read of a URL: its host, and its origin in ASCII.\<close>

record ParsedUrl =
  pu_host :: "string option"
  pu_origin :: string

record WhoEnv =
  we_did_new :: "string \<Rightarrow> bool"
  we_value_trimmed :: "string \<Rightarrow> string"
  we_to_str :: "string \<Rightarrow> string option"
  we_url :: "string \<Rightarrow> ParsedUrl option"
  we_encode :: "string \<Rightarrow> Claims \<Rightarrow> string option"

text \<open>\<open>now\<close> is in nanoseconds since the epoch; the header names the key.\<close>

definition mint :: "WhoEnv \<Rightarrow> nat \<Rightarrow> string \<Rightarrow> string option" where
  "mint env now sub =
     we_encode env ''who-am-i-00'' \<lparr>clm_sub = sub, clm_exp = of_nat ((now + 30 * 86400 * 10 ^ 9) div 10 ^ 9)\<rparr>"

section \<open>oauth.rs\<close>

record CallbackErrorParams =
  cb_error :: string
  cb_error_description :: "string option"
  cb_iss :: "string option"

datatype 'p OAuthCallbackParams = Granted 'p | Failed CallbackErrorParams

datatype OAuthCompleteError =
    Denied "string option" "string option"
  | CompleteFailed string "string option" "string option"
  | CallbackFailed
  | NoDid

text \<open>\<open>callback\<close>: what the OAuth client makes of the parameters, the DID of the session or none.\<close>

definition oauth_complete :: "('p \<Rightarrow> string option option) \<Rightarrow> 'p OAuthCallbackParams \<Rightarrow> OAuthCompleteError + string" where
  "oauth_complete callback params =
     (case params of
        Failed p \<Rightarrow>
          if cb_error p = ''access_denied'' then Inl (Denied (cb_error_description p) (cb_iss p))
          else Inl (CompleteFailed (cb_error p) (cb_error_description p) (cb_iss p))
      | Granted p \<Rightarrow>
          (case callback p of
             None \<Rightarrow> Inl CallbackFailed
           | Some None \<Rightarrow> Inl NoDid
           | Some (Some did) \<Rightarrow> Inr did))"

datatype ResolveHandleError =
    HandleResolutionFailed ResolveError
  | NoHandle
  | InvalidHandleError string string

definition oauth_resolve_handle :: "(string \<Rightarrow> ResolveError + DidDocument) \<Rightarrow> string \<Rightarrow> ResolveHandleError + string" where
  "oauth_resolve_handle resolve did =
     (case resolve did of
        Inl e \<Rightarrow> Inl (HandleResolutionFailed e)
      | Inr doc \<Rightarrow>
          (case dd_also_known_as doc of
             None \<Rightarrow> Inl NoHandle
           | Some [] \<Rightarrow> Inl NoHandle
           | Some (at_uri_handle # _) \<Rightarrow>
               (case strip_prefix ''at://'' at_uri_handle of
                  None \<Rightarrow> Inl (InvalidHandleError at_uri_handle (''did not start with 'at://'' @ [CHR 0x27]))
                | Some bare_handle \<Rightarrow>
                    if bare_handle = [] then Inl (InvalidHandleError at_uri_handle ''empty handle'')
                    else Inr bare_handle)))"

section \<open>server.rs\<close>

definition HELLO_COOKIE_KEY :: string where "HELLO_COOKIE_KEY = ''hello-who-am-i''"

definition DID_COOKIE_KEY :: string where "DID_COOKIE_KEY = ''did''"

type_synonym HandleTask = "(ResolveHandleError + string) option"

datatype CookieOp = AddCookie string string | RemoveCookie string

datatype Info = IText string | IFlag bool | INull

datatype WhoBody =
    Page string "(string \<times> Info) list"
  | JsonInfo "(string \<times> Info) list"
  | RedirectTo string

record WhoResponse =
  wr_status :: nat
  wr_csp :: "string option"
  wr_cookies :: "CookieOp list"
  wr_body :: WhoBody

definition plain :: "nat \<Rightarrow> WhoBody \<Rightarrow> WhoResponse" where
  "plain status body = \<lparr>wr_status = status, wr_csp = None, wr_cookies = [], wr_body = body\<rparr>"

text \<open>The key, token and moment of a task that a handler starts, and what resolving the DID gives.\<close>

record NewTask =
  nt_key :: string
  nt_cancel :: nat
  nt_now :: nat
  nt_task :: HandleTask

definition dispatch_new :: "NewTask \<Rightarrow> HandleTask TaskMap \<Rightarrow> HandleTask TaskMap" where
  "dispatch_new t m = dispatch (nt_key t) (nt_cancel t) (nt_now t) (nt_task t) m"

definition who_hello :: "WhoEnv \<Rightarrow> (string \<Rightarrow> string option) \<Rightarrow> bool \<Rightarrow> bool \<Rightarrow> NewTask \<Rightarrow> HandleTask TaskMap \<Rightarrow>
    WhoResponse \<times> HandleTask TaskMap" where
  "who_hello env get is_auth_reload auth_failed t m =
     (let flags = [(''is_auth_reload'', IFlag is_auth_reload), (''auth_failed'', IFlag auth_failed),
            (''no_cookie'', IFlag (get HELLO_COOKIE_KEY = None))];
          respond = (\<lambda>cookies info. \<lparr>wr_status = 200, wr_csp = Some (''frame-ancestors 'none'' @ [CHR 0x27]),
            wr_cookies = AddCookie HELLO_COOKIE_KEY ''hiiii'' # cookies, wr_body = Page ''hello'' info\<rparr>)
      in case get DID_COOKIE_KEY of
           None \<Rightarrow> (respond [] flags, m)
         | Some c \<Rightarrow>
             let did = we_value_trimmed env c in
             if we_did_new env did
             then (respond [AddCookie DID_COOKIE_KEY did]
                     ([(''did'', IText did), (''fetch_key'', IText (nt_key t))] @ flags), dispatch_new t m)
             else (respond [RemoveCookie DID_COOKIE_KEY] flags, m))"

record PromptRequest =
  pr_app :: "string option"
  pr_origin :: "string option"
  pr_referer :: "string option"

definition prompt_error :: "string \<Rightarrow> bool \<Rightarrow> string option \<Rightarrow> WhoResponse" where
  "prompt_error reason check_frame detail =
     plain 400 (Page ''prompt-error''
       [(''reason'', IText reason), (''check_frame'', IFlag check_frame),
        (''detail'', case detail of Some d \<Rightarrow> IText d | None \<Rightarrow> INull)])"

text \<open>\<open>join\<close> of the allowed hosts as origins.\<close>

fun join_hosts :: "string list \<Rightarrow> string" where
  "join_hosts [] = []"
| "join_hosts [h] = ''https://'' @ h"
| "join_hosts (h # hs) = ''https://'' @ h @ '' '' @ join_hosts hs"

text \<open>The checks on the page that holds the prompt: its host and origin, or the error.\<close>

definition prompt_parent :: "WhoEnv \<Rightarrow> string list \<Rightarrow> PromptRequest \<Rightarrow> WhoResponse + string \<times> string" where
  "prompt_parent env allowed_hosts req =
     (case (case pr_origin req of Some v \<Rightarrow> Some v | None \<Rightarrow> pr_referer req) of
        None \<Rightarrow> Inl (prompt_error ''Missing origin and no referrer for fallback'' True None)
      | Some value \<Rightarrow>
     (case we_to_str env value of
        None \<Rightarrow> Inl (prompt_error ''Unreadable origin or referrer'' True None)
      | Some parent \<Rightarrow>
     (case we_url env parent of
        None \<Rightarrow> Inl (prompt_error ''Bad origin or referrer'' True None)
      | Some url \<Rightarrow>
     (case pu_host url of
        None \<Rightarrow> Inl (prompt_error ''Origin or referrer missing host'' True None)
      | Some parent_host \<Rightarrow>
          if parent_host \<notin> set allowed_hosts
          then Inl (prompt_error ''Login is not allowed on this page'' False (Some parent_host))
          else if (case pr_app req of Some app \<Rightarrow> app \<notin> set allowed_hosts | None \<Rightarrow> False)
          then Inl (prompt_error ''Login is not allowed for this app'' False (pr_app req))
          else if pu_origin url = ''null''
          then Inl (prompt_error ''Origin or referrer header value is opaque'' True None)
          else Inr (parent_host, pu_origin url)))))"

definition prompt ::
  "WhoEnv \<Rightarrow> string list \<Rightarrow> (string \<Rightarrow> string option) \<Rightarrow> PromptRequest \<Rightarrow> NewTask \<Rightarrow> HandleTask TaskMap \<Rightarrow>
     WhoResponse \<times> HandleTask TaskMap" where
  "prompt env allowed_hosts get req t m =
     (case prompt_parent env allowed_hosts req of
        Inl e \<Rightarrow> (e, m)
      | Inr (parent_host, parent_origin) \<Rightarrow>
          let csp = ''frame-ancestors 'self' '' @ parent_origin @ '' '' @ join_hosts allowed_hosts;
              parent = [(''parent_host'', IText parent_host), (''parent_origin'', IText parent_origin)]
          in (case get DID_COOKIE_KEY of
                None \<Rightarrow>
                  (\<lparr>wr_status = 200, wr_csp = Some csp, wr_cookies = [], wr_body = Page ''prompt'' parent\<rparr>, m)
              | Some c \<Rightarrow>
                  let did = we_value_trimmed env c in
                  if \<not> we_did_new env did then (prompt_error ''Bad cookie'' False None, m)
                  else (case mint env (nt_now t) did of
                          None \<Rightarrow> (prompt_error ''failed to create JWT'' False None, m)
                        | Some token \<Rightarrow>
                            (\<lparr>wr_status = 200, wr_csp = Some csp, wr_cookies = [AddCookie DID_COOKIE_KEY did],
                              wr_body = Page ''prompt''
                                ([(''did'', IText did), (''token'', IText token), (''fetch_key'', IText (nt_key t))] @ parent @
                                 [(''parent_target'', case pr_app req of Some h \<Rightarrow> IText (''https://'' @ h) | None \<Rightarrow> INull)])\<rparr>,
                             dispatch_new t m))))"

definition user_info :: "string \<Rightarrow> HandleTask TaskMap \<Rightarrow> WhoResponse \<times> HandleTask TaskMap" where
  "user_info fetch_key m =
     (let err = (\<lambda>status reason. plain status (JsonInfo [(''reason'', IText reason)])) in
      case take_task fetch_key m of
        (None, m) \<Rightarrow> (err 404 ''fetch key does not exist or expired'', m)
      | (Some task, m) \<Rightarrow>
          (case task of
             None \<Rightarrow> err 500 ''server errored''
           | Some (Inl (HandleResolutionFailed ResolveNotFound)) \<Rightarrow> err 404 ''handle not found''
           | Some (Inl (HandleResolutionFailed ResolveOther)) \<Rightarrow> err 500 ''handle resolution failed''
           | Some (Inl NoHandle) \<Rightarrow> err 500 ''resolved identity but did not find a handle''
           | Some (Inl (InvalidHandleError _ reason)) \<Rightarrow> err 500 (''handle appears invalid: '' @ reason)
           | Some (Inr handle) \<Rightarrow> plain 200 (JsonInfo [(''handle'', IText handle)]), m))"

datatype BeginError = HandleNotFound | AtIdentifier string | OtherBeginError

definition auth_fail :: "nat \<Rightarrow> string \<Rightarrow> string \<Rightarrow> WhoResponse" where
  "auth_fail code result reason =
     plain code (Page ''auth-fail'' [(''result'', IText result), (''reason'', IText reason)])"

text \<open>The cookie is removed from the jar of the redirect; the error pages are sent without a jar.\<close>

definition start_oauth :: "BeginError + string \<Rightarrow> WhoResponse" where
  "start_oauth begun =
     (case begun of
        Inl HandleNotFound \<Rightarrow> auth_fail 404 ''fail'' ''handle not found''
      | Inl (AtIdentifier r) \<Rightarrow> auth_fail 400 ''fail'' r
      | Inl OtherBeginError \<Rightarrow> auth_fail 500 ''fail'' ''unknown''
      | Inr auth_url \<Rightarrow>
          \<lparr>wr_status = 303, wr_csp = None, wr_cookies = [RemoveCookie DID_COOKIE_KEY], wr_body = RedirectTo auth_url\<rparr>)"

definition complete_oauth ::
  "WhoEnv \<Rightarrow> ('p \<Rightarrow> string option option) \<Rightarrow> 'p OAuthCallbackParams \<Rightarrow> NewTask \<Rightarrow> HandleTask TaskMap \<Rightarrow>
     WhoResponse \<times> HandleTask TaskMap" where
  "complete_oauth env callback params t m =
     (case oauth_complete callback params of
        Inl (Denied description _) \<Rightarrow>
          (auth_fail 403 ''deny'' (case description of Some d \<Rightarrow> d | None \<Rightarrow> ''permission to share was denied''), m)
      | Inl (CompleteFailed _ _ _) \<Rightarrow> (auth_fail 500 ''fail'' ''failed to complete'', m)
      | Inl CallbackFailed \<Rightarrow> (auth_fail 500 ''fail'' ''failed to complete callback'', m)
      | Inl NoDid \<Rightarrow> (auth_fail 400 ''fail'' ''no DID found'', m)
      | Inr did \<Rightarrow>
          (case mint env (nt_now t) did of
             None \<Rightarrow> (auth_fail 500 ''fail'' ''failed to create JWT'', m)
           | Some token \<Rightarrow>
               (\<lparr>wr_status = 200, wr_csp = None, wr_cookies = [AddCookie DID_COOKIE_KEY did],
                 wr_body = Page ''authorized''
                   [(''did'', IText did), (''token'', IText token), (''fetch_key'', IText (nt_key t))]\<rparr>,
                dispatch_new t m)))"

definition disconnect :: WhoResponse where
  "disconnect = \<lparr>wr_status = 200, wr_csp = None, wr_cookies = [RemoveCookie DID_COOKIE_KEY],
     wr_body = JsonInfo [(''ok'', IFlag True)]\<rparr>"

end
