(* ===== verification/Whoami_Props.thy ===== *)
theory Whoami_Props
  imports Whoami
begin

text \<open>
  What \<open>who-am-i\<close> promises: a task can be picked up once and until it expires, and a token is given to
  allowed pages only, for an account that logged in from the same browser and has not left since.
\<close>

section \<open>Tasks\<close>

datatype 'a task_op = Dispatch string nat nat 'a | Take string | Pass nat

fun task_step :: "'a task_op \<Rightarrow> 'a TaskMap \<Rightarrow> 'a TaskMap" where
  "task_step (Dispatch key cancel now task) m = dispatch key cancel now task m"
| "task_step (Take key) m = snd (take_task key m)"
| "task_step (Pass now) m = pass_time now m"

fun token_of :: "'a task_op \<Rightarrow> nat list" where
  "token_of (Dispatch _ cancel _ _) = [cancel]"
| "token_of _ = []"

definition tokens :: "'a task_op list \<Rightarrow> nat list" where
  "tokens ops = concat (map token_of ops)"

lemma tokens_simps [simp]: "tokens [] = []" "tokens (op # ops) = token_of op @ tokens ops"
  by (simp_all add: tokens_def)

text \<open>
  Every entry has a live token and a sleeper, every sleeper a cancelled token or its entry, and no two
  sleepers share a token.
\<close>

definition tasks_ok :: "nat set \<Rightarrow> 'a TaskMap \<Rightarrow> bool" where
  "tasks_ok used m \<longleftrightarrow> \<not> tm_shutdown m \<and> tm_cancelled m \<subseteq> used \<and> (\<forall>(k, c, w) \<in> set (tm_sleeping m). c \<in> used) \<and>
     (\<forall>k g x. hm_get (tm_map m) k = Some (g, x) \<longrightarrow> g \<notin> tm_cancelled m \<and> (\<exists>w. (k, g, w) \<in> set (tm_sleeping m))) \<and>
     (\<forall>k c w. (k, c, w) \<in> set (tm_sleeping m) \<longrightarrow> c \<in> tm_cancelled m \<or> (\<exists>x. hm_get (tm_map m) k = Some (c, x))) \<and>
     distinct (map (fst \<circ> snd) (tm_sleeping m))"

lemma tasks_ok_dest:
  assumes "tasks_ok used m"
  shows "\<not> tm_shutdown m" "tm_cancelled m \<subseteq> used" "(k, c, w) \<in> set (tm_sleeping m) \<Longrightarrow> c \<in> used"
    "hm_get (tm_map m) k = Some (g, x) \<Longrightarrow> g \<notin> tm_cancelled m"
    "hm_get (tm_map m) k = Some (g, x) \<Longrightarrow> \<exists>w. (k, g, w) \<in> set (tm_sleeping m)"
    "(k, c, w) \<in> set (tm_sleeping m) \<Longrightarrow> c \<notin> tm_cancelled m \<Longrightarrow> \<exists>x. hm_get (tm_map m) k = Some (c, x)"
    "distinct (map (fst \<circ> snd) (tm_sleeping m))"
  using assms unfolding tasks_ok_def by blast+

lemma token_unique:
  "distinct (map (fst \<circ> snd) xs) \<Longrightarrow> (k, c, w) \<in> set xs \<Longrightarrow> (k', c, w') \<in> set xs \<Longrightarrow> k' = k \<and> w' = w"
  by (induction xs) force+

lemma tasks_ok_new [simp]: "tasks_ok {} (task_map_new e)"
  by (simp add: tasks_ok_def task_map_new_def)

lemma map_remove_get [simp]:
  "hm_get (tm_map (snd (map_remove key m))) k = (if k = key then None else hm_get (tm_map m) k)"
  by (auto simp: map_remove_def split: option.splits)

lemma map_remove_simps [simp]:
  "tm_sleeping (snd (map_remove key m)) = tm_sleeping m" "tm_shutdown (snd (map_remove key m)) = tm_shutdown m"
  "tm_expiration (snd (map_remove key m)) = tm_expiration m"
  "tm_cancelled (snd (map_remove key m)) =
     (case hm_get (tm_map m) key of None \<Rightarrow> tm_cancelled m | Some (g, _) \<Rightarrow> insert g (tm_cancelled m))"
  by (auto simp: map_remove_def split: option.splits)

lemma map_remove_ok:
  assumes "tasks_ok used m"
  shows "tasks_ok used (snd (map_remove key m))"
proof (cases "hm_get (tm_map m) key")
  case None
  then have "snd (map_remove key m) = m" by (simp add: map_remove_def)
  then show ?thesis using assms by simp
next
  case (Some e)
  obtain g x where e: "hm_get (tm_map m) key = Some (g, x)" using Some by (cases e) auto
  note d = tasks_ok_dest [OF assms]
  obtain w where w: "(key, g, w) \<in> set (tm_sleeping m)" using d(5) [OF e] by blast
  have g: "g \<in> used" using d(3) [OF w] .
  have other: "g' \<noteq> g" if "hm_get (tm_map m) k = Some (g', y)" "k \<noteq> key" for k g' y
    using d(5) [OF that(1)] w token_unique [OF d(7)] that(2) by blast
  show ?thesis unfolding tasks_ok_def
  proof (intro conjI allI impI ballI, goal_cases)
    case (4 k h y)
    then show ?case using e d(4) [of k h y] other [of k h y] by (auto split: if_splits)
  next
    case (5 k h y)
    then show ?case using d(5) [of k h y] by (auto split: if_splits)
  next
    case (6 k c v)
    then have "(k, c, v) \<in> set (tm_sleeping m)" by simp
    then show ?case using d(6) [of k c v] e by (auto split: if_splits)
  qed (use d e g in \<open>auto\<close>)
qed

lemma dispatch_ok:
  assumes "tasks_ok used m" "cancel \<notin> used"
  shows "tasks_ok (insert cancel used) (dispatch key cancel now task m)"
proof -
  have ok: "tasks_ok used (snd (map_remove key m))" by (rule map_remove_ok [OF assms(1)])
  note d = tasks_ok_dest [OF ok]
  have fresh: "cancel \<notin> (fst \<circ> snd) ` set (tm_sleeping m)" using d(3) assms(2) by fastforce
  show ?thesis unfolding tasks_ok_def
  proof (intro conjI allI impI ballI, goal_cases)
    case (4 k h y)
    then show ?case using d(2) d(4) [of k h y] assms(2) by (auto simp: dispatch_def Let_def split: if_splits)
  next
    case (5 k h y)
    then show ?case using d(5) [of k h y] by (auto simp: dispatch_def Let_def split: if_splits)
  next
    case (6 k c v)
    show ?case
    proof (cases "(k, c, v) \<in> set (tm_sleeping m)")
      case True
      then have "c \<in> tm_cancelled (snd (map_remove key m)) \<or> (\<exists>x. hm_get (tm_map (snd (map_remove key m))) k = Some (c, x))"
        using d(6) [of k c v] unfolding map_remove_simps(1) by blast
      then show ?thesis by (auto simp: dispatch_def Let_def split: if_splits)
    next
      case False
      then show ?thesis using 6 by (simp add: dispatch_def Let_def)
    qed
  qed (use d fresh in \<open>auto simp: dispatch_def Let_def\<close>)
qed

text \<open>Waking sleepers: their tokens are cancelled, and the entries that hold them are gone.\<close>

definition wakeable :: "(string \<times> nat \<times> nat) list \<Rightarrow> 'a TaskMap \<Rightarrow> bool" where
  "wakeable L m \<longleftrightarrow> \<not> tm_shutdown m \<and>
     (\<forall>k g x. hm_get (tm_map m) k = Some (g, x) \<longrightarrow> g \<notin> tm_cancelled m) \<and>
     (\<forall>k k' g x y. hm_get (tm_map m) k = Some (g, x) \<longrightarrow> hm_get (tm_map m) k' = Some (g, y) \<longrightarrow> k' = k) \<and>
     (\<forall>(k, c, w) \<in> set L. c \<in> tm_cancelled m \<or> (\<exists>x. hm_get (tm_map m) k = Some (c, x)))"

lemma wake_one:
  assumes "wakeable ((k, c, w) # L) m"
  shows "wakeable L (wake (k, c, w) m)"
    "hm_get (tm_map (wake (k, c, w) m)) k' = (if k' = k \<and> (\<exists>x. hm_get (tm_map m) k = Some (c, x)) then None else hm_get (tm_map m) k')"
    "tm_cancelled (wake (k, c, w) m) = insert c (tm_cancelled m)"
    "tm_sleeping (wake (k, c, w) m) = tm_sleeping m" "tm_shutdown (wake (k, c, w) m) = tm_shutdown m"
proof -
  have sd: "\<not> tm_shutdown m" and live: "\<And>k g x. hm_get (tm_map m) k = Some (g, x) \<Longrightarrow> g \<notin> tm_cancelled m"
    and inj: "\<And>k k' g x y. hm_get (tm_map m) k = Some (g, x) \<Longrightarrow> hm_get (tm_map m) k' = Some (g, y) \<Longrightarrow> k' = k"
    and L: "\<And>k' c' w'. (k', c', w') \<in> set ((k, c, w) # L) \<Longrightarrow> c' \<in> tm_cancelled m \<or> (\<exists>x. hm_get (tm_map m) k' = Some (c', x))"
    using assms unfolding wakeable_def by blast+
  show m: "hm_get (tm_map (wake (k, c, w) m)) k' = (if k' = k \<and> (\<exists>x. hm_get (tm_map m) k = Some (c, x)) then None else hm_get (tm_map m) k')" for k'
    using L [of k c w] live [of k c] sd by (auto simp: is_cancelled_def Let_def)
  show c: "tm_cancelled (wake (k, c, w) m) = insert c (tm_cancelled m)"
    using L [of k c w] sd by (auto simp: is_cancelled_def Let_def split: option.splits)
  show "tm_sleeping (wake (k, c, w) m) = tm_sleeping m" and s: "tm_shutdown (wake (k, c, w) m) = tm_shutdown m"
    by (simp_all add: Let_def)
  show "wakeable L (wake (k, c, w) m)" unfolding wakeable_def m c s
  proof (intro conjI allI impI ballI, goal_cases)
    case (2 k1 g x)
    then show ?case using live [of k1 g x] inj [of k1 g x k] L [of k c w] by (auto split: if_splits)
  next
    case (3 k1 k2 g x y)
    then show ?case using inj [of k1 g x k2 y] by (auto split: if_splits)
  next
    case (4 e)
    obtain k1 c1 w1 where e: "e = (k1, c1, w1)" by (cases e) auto
    then show ?case using L [of k1 c1 w1] 4 by auto
  qed (use sd in simp)
qed

lemma fold_wake:
  assumes "wakeable L m"
  shows "hm_get (tm_map (fold wake L m)) k =
      (case hm_get (tm_map m) k of
         Some (g, x) \<Rightarrow> if \<exists>w. (k, g, w) \<in> set L then None else Some (g, x)
       | None \<Rightarrow> None) \<and>
    tm_cancelled (fold wake L m) = tm_cancelled m \<union> (fst \<circ> snd) ` set L \<and>
    tm_sleeping (fold wake L m) = tm_sleeping m \<and> tm_shutdown (fold wake L m) = tm_shutdown m"
  using assms
proof (induction L arbitrary: m)
  case Nil
  then show ?case by (auto split: option.splits)
next
  case (Cons e L)
  obtain k1 c1 w1 where e: "e = (k1, c1, w1)" by (cases e) auto
  note w = wake_one [OF Cons.prems [unfolded e]]
  note ih = Cons.IH [OF w(1)]
  show ?case
  proof (intro conjI)
    show "hm_get (tm_map (fold wake (e # L) m)) k =
      (case hm_get (tm_map m) k of
         Some (g, x) \<Rightarrow> if \<exists>w. (k, g, w) \<in> set (e # L) then None else Some (g, x)
       | None \<Rightarrow> None)"
      using conjunct1 [OF ih] unfolding w(2) e by (auto split: option.splits if_splits)
  qed (use ih w e in auto)
qed

lemma due_wakeable:
  assumes "tasks_ok used m"
  shows "wakeable (filter p (tm_sleeping m)) (m\<lparr>tm_sleeping := L\<rparr>)"
proof -
  note d = tasks_ok_dest [OF assms]
  have inj: "k' = k" if k: "hm_get (tm_map m) k = Some (g, x)" and k': "hm_get (tm_map m) k' = Some (g, y)" for k k' g x y
  proof -
    from d(5) [OF k] obtain w where "(k, g, w) \<in> set (tm_sleeping m)" by blast
    moreover from d(5) [OF k'] obtain w' where "(k', g, w') \<in> set (tm_sleeping m)" by blast
    ultimately show ?thesis using token_unique [OF d(7)] by blast
  qed
  have "\<forall>(k, c, w) \<in> set (filter p (tm_sleeping m)). c \<in> tm_cancelled m \<or> (\<exists>x. hm_get (tm_map m) k = Some (c, x))"
    using d(6) by auto
  with d(1,4) inj show ?thesis unfolding wakeable_def by simp
qed

lemma pass_time_get:
  assumes "tasks_ok used m"
  shows "hm_get (tm_map (pass_time now m)) k =
      (case hm_get (tm_map m) k of
         Some (g, x) \<Rightarrow> if \<exists>w \<le> now. (k, g, w) \<in> set (tm_sleeping m) then None else Some (g, x)
       | None \<Rightarrow> None)"
    "tm_sleeping (pass_time now m) = filter (\<lambda>(_, _, w). \<not> w \<le> now) (tm_sleeping m)"
    "tm_cancelled (pass_time now m) = tm_cancelled m \<union> (fst \<circ> snd) ` set (filter (\<lambda>(_, _, w). w \<le> now) (tm_sleeping m))"
    "tm_shutdown (pass_time now m) = tm_shutdown m"
proof -
  have due: "(\<exists>w. (k, g, w) \<in> set (filter (\<lambda>(_, _, w). w \<le> now) S)) \<longleftrightarrow> (\<exists>w \<le> now. (k, g, w) \<in> set S)" for g S
    by auto
  note f = fold_wake [OF due_wakeable [OF assms, of "\<lambda>(_, _, w). w \<le> now" "filter (\<lambda>(_, _, w). \<not> w \<le> now) (tm_sleeping m)"], of k]
  show "hm_get (tm_map (pass_time now m)) k =
      (case hm_get (tm_map m) k of
         Some (g, x) \<Rightarrow> if \<exists>w \<le> now. (k, g, w) \<in> set (tm_sleeping m) then None else Some (g, x)
       | None \<Rightarrow> None)"
    using conjunct1 [OF f] unfolding due pass_time_def by simp
  show "tm_cancelled (pass_time now m) = tm_cancelled m \<union> (fst \<circ> snd) ` set (filter (\<lambda>(_, _, w). w \<le> now) (tm_sleeping m))"
    unfolding pass_time_def by (rule trans [OF f [THEN conjunct2, THEN conjunct1]]) simp
  show "tm_sleeping (pass_time now m) = filter (\<lambda>(_, _, w). \<not> w \<le> now) (tm_sleeping m)"
    unfolding pass_time_def by (rule trans [OF f [THEN conjunct2, THEN conjunct2, THEN conjunct1]]) simp
  show "tm_shutdown (pass_time now m) = tm_shutdown m"
    unfolding pass_time_def by (rule trans [OF f [THEN conjunct2, THEN conjunct2, THEN conjunct2]]) simp
qed

lemma pass_time_ok:
  assumes "tasks_ok used m"
  shows "tasks_ok used (pass_time now m)"
proof -
  note d = tasks_ok_dest [OF assms] and p = pass_time_get [OF assms]
  show ?thesis unfolding tasks_ok_def p(2-4)
  proof (intro conjI allI impI ballI, goal_cases)
    case (4 k g x)
    then have g: "hm_get (tm_map m) k = Some (g, x)" "\<not> (\<exists>w \<le> now. (k, g, w) \<in> set (tm_sleeping m))"
      unfolding p(1) by (auto split: option.splits if_splits)
    obtain w where w: "(k, g, w) \<in> set (tm_sleeping m)" using d(5) [OF g(1)] by blast
    have "g \<notin> (fst \<circ> snd) ` set (filter (\<lambda>(_, _, w). w \<le> now) (tm_sleeping m))"
      using token_unique [OF d(7) w] g(2) by fastforce
    then show ?case using d(4) [OF g(1)] by simp
  next
    case (5 k g x)
    then have g: "hm_get (tm_map m) k = Some (g, x)" "\<not> (\<exists>w \<le> now. (k, g, w) \<in> set (tm_sleeping m))"
      unfolding p(1) by (auto split: option.splits if_splits)
    then show ?case using d(5) [OF g(1)] by auto
  next
    case (6 k c w)
    then have w: "(k, c, w) \<in> set (tm_sleeping m)" "\<not> w \<le> now" by auto
    then have "\<not> (\<exists>w \<le> now. (k, c, w) \<in> set (tm_sleeping m))" using token_unique [OF d(7) w(1)] by blast
    then show ?case using d(6) [OF w(1)] unfolding p(1) by (cases "c \<in> tm_cancelled m") auto
  qed (use d in \<open>auto simp: distinct_map_filter\<close>)
qed

lemma expiration_const [simp]: "tm_expiration (task_step op m) = tm_expiration m"
proof -
  have "tm_expiration (wake e m) = tm_expiration m" for e and m :: "'a TaskMap"
    by (cases e) (simp add: Let_def)
  then have "tm_expiration (fold wake L m) = tm_expiration m" for L and m :: "'a TaskMap"
    by (induction L arbitrary: m) simp_all
  then show ?thesis by (cases op) (simp_all add: dispatch_def take_task_def pass_time_def Let_def)
qed

lemma task_run_ok:
  assumes "tasks_ok used m" "distinct (tokens ops)" "set (tokens ops) \<inter> used = {}"
  shows "tasks_ok (set (tokens ops) \<union> used) (fold task_step ops m) \<and> tm_expiration (fold task_step ops m) = tm_expiration m"
  using assms
proof (induction ops arbitrary: used m)
  case (Cons op ops)
  let ?u = "set (token_of op) \<union> used"
  have "tasks_ok ?u (task_step op m)"
    using Cons.prems dispatch_ok [OF Cons.prems(1)] map_remove_ok [OF Cons.prems(1)] pass_time_ok [OF Cons.prems(1)]
    by (cases op) (simp_all add: take_task_def)
  moreover have "distinct (tokens ops)" "set (tokens ops) \<inter> ?u = {}" "set (tokens ops) \<union> ?u = set (tokens (op # ops)) \<union> used"
    using Cons.prems(2,3) by auto
  ultimately show ?case using Cons.IH [of ?u "task_step op m"] by simp
qed simp

text \<open>The fate of one task over operations that do not reuse its key.\<close>

definition waiting :: "string \<Rightarrow> nat \<Rightarrow> 'a \<Rightarrow> nat \<Rightarrow> 'a TaskMap \<Rightarrow> bool" where
  "waiting k c x w m \<longleftrightarrow> hm_get (tm_map m) k = Some (c, x) \<and> (k, c, w) \<in> set (tm_sleeping m)"

definition ends :: "string \<Rightarrow> nat \<Rightarrow> 'a task_op \<Rightarrow> bool" where
  "ends k w op \<longleftrightarrow> op = Take k \<or> (\<exists>n. op = Pass n \<and> w \<le> n)"

lemma task_step_fate:
  assumes ok: "tasks_ok used m" and "\<And>c t y. op \<noteq> Dispatch k c t y"
  shows "hm_get (tm_map m) k = None \<Longrightarrow> hm_get (tm_map (task_step op m)) k = None"
    "waiting k c x w m \<Longrightarrow> \<not> ends k w op \<Longrightarrow> waiting k c x w (task_step op m)"
    "waiting k c x w m \<Longrightarrow> ends k w op \<Longrightarrow> hm_get (tm_map (task_step op m)) k = None"
proof -
  note p = pass_time_get [OF ok]
  have u: "w' = w" if "waiting k c x w m" "(k, c, w') \<in> set (tm_sleeping m)" for w'
    using token_unique [OF tasks_ok_dest(7) [OF ok]] that unfolding waiting_def by blast
  show "hm_get (tm_map m) k = None \<Longrightarrow> hm_get (tm_map (task_step op m)) k = None"
    using assms(2) by (cases op) (auto simp: dispatch_def take_task_def Let_def p(1))
  show "waiting k c x w m \<Longrightarrow> \<not> ends k w op \<Longrightarrow> waiting k c x w (task_step op m)"
  proof (cases op)
    case (Pass n)
    assume w: "waiting k c x w m" and "\<not> ends k w op"
    then have "\<not> w \<le> n" "\<not> (\<exists>w \<le> n. (k, c, w) \<in> set (tm_sleeping m))" using Pass u [OF w] by (auto simp: ends_def)
    then show ?thesis using w Pass unfolding waiting_def by (simp add: p)
  qed (use assms(2) in \<open>auto simp: waiting_def ends_def dispatch_def take_task_def Let_def\<close>)
  show "waiting k c x w m \<Longrightarrow> ends k w op \<Longrightarrow> hm_get (tm_map (task_step op m)) k = None"
    by (cases op) (auto simp: waiting_def ends_def take_task_def p(1))
qed

lemma task_run_fate:
  assumes "tasks_ok used m" "distinct (tokens ops)" "set (tokens ops) \<inter> used = {}"
    and "\<forall>op \<in> set ops. \<forall>c t y. op \<noteq> Dispatch k c t y"
  shows "hm_get (tm_map m) k = None \<Longrightarrow> hm_get (tm_map (fold task_step ops m)) k = None"
    "waiting k c x w m \<Longrightarrow> hm_get (tm_map (fold task_step ops m)) k = (if \<exists>op \<in> set ops. ends k w op then None else Some (c, x))"
proof -
  have "(hm_get (tm_map m) k = None \<longrightarrow> hm_get (tm_map (fold task_step ops m)) k = None) \<and>
    (waiting k c x w m \<longrightarrow>
       hm_get (tm_map (fold task_step ops m)) k = (if \<exists>op \<in> set ops. ends k w op then None else Some (c, x)))"
    using assms
  proof (induction ops arbitrary: used m)
    case (Cons op ops)
    have op: "\<And>c t y. op \<noteq> Dispatch k c t y" using Cons.prems(4) by simp
    have "distinct (tokens [op])" "set (tokens [op]) \<inter> used = {}" using Cons.prems(2,3) by auto
    from task_run_ok [OF Cons.prems(1) this] have ok: "tasks_ok (set (token_of op) \<union> used) (task_step op m)" by simp
    have "distinct (tokens ops)" "set (tokens ops) \<inter> (set (token_of op) \<union> used) = {}"
      using Cons.prems(2,3) by auto
    note ih = Cons.IH [OF ok this] and fate = task_step_fate [OF Cons.prems(1) op]
    show ?case using ih Cons.prems(4) fate by (cases "ends k w op") auto
  qed (simp add: waiting_def)
  then show "hm_get (tm_map m) k = None \<Longrightarrow> hm_get (tm_map (fold task_step ops m)) k = None"
    "waiting k c x w m \<Longrightarrow> hm_get (tm_map (fold task_step ops m)) k = (if \<exists>op \<in> set ops. ends k w op then None else Some (c, x))"
    by blast+
qed

lemma tokens_append: "tokens (xs @ ys) = tokens xs @ tokens ys"
  by (simp add: tokens_def)

text \<open>
  C40. A task can be picked up exactly once, and until it expires: whatever other tasks come and go, the
  key of a task gives the task as long as nobody has taken it and no time past its expiration was
  reached, and nothing afterwards.
\<close>

theorem task_picked_up_once:
  assumes "distinct (tokens (before @ Dispatch k cancel now task # ops))"
    and "\<forall>op \<in> set ops. \<forall>c t y. op \<noteq> Dispatch k c t y"
  shows "fst (take_task k (fold task_step (before @ Dispatch k cancel now task # ops) (task_map_new expiration))) =
    (if Take k \<in> set ops \<or> (\<exists>n. Pass n \<in> set ops \<and> now + expiration \<le> n) then None else Some task)"
proof -
  define m where "m = fold task_step before (task_map_new expiration)"
  have d: "distinct (tokens before)" "cancel \<notin> set (tokens before)" "distinct (tokens ops)"
    "set (tokens ops) \<inter> insert cancel (set (tokens before)) = {}"
    using assms(1) by (auto simp: tokens_append)
  have m: "tasks_ok (set (tokens before)) m" "tm_expiration m = expiration"
    using task_run_ok [OF tasks_ok_new d(1)] unfolding m_def by (simp_all add: task_map_new_def)
  have w: "waiting k cancel task (now + expiration) (dispatch k cancel now task m)"
    using m(2) by (simp add: waiting_def dispatch_def Let_def)
  note fate = task_run_fate(2) [OF dispatch_ok [OF m(1) d(2)] d(3,4) assms(2) w]
  have "(\<exists>op \<in> set ops. ends k (now + expiration) op) \<longleftrightarrow>
      Take k \<in> set ops \<or> (\<exists>n. Pass n \<in> set ops \<and> now + expiration \<le> n)" by (auto simp: ends_def)
  then show ?thesis using fate by (simp add: take_task_def map_remove_def m_def split: option.splits)
qed

theorem task_picked_up_once_witness:
  "fst (take_task ''k'' (fold task_step ([] @ Dispatch ''k'' 0 5 True # [Pass 19]) (task_map_new 15))) = Some True \<and>
   fst (take_task ''k'' (fold task_step ([] @ Dispatch ''k'' 0 5 True # [Pass 20]) (task_map_new 15))) = None"
  using task_picked_up_once [of "[]" "''k''" 0 5 True "[Pass 19]" 15] task_picked_up_once [of "[]" "''k''" 0 5 True "[Pass 20]" 15]
  by simp

section \<open>Sessions\<close>

text \<open>The requests of one browser, with the answers of the outside world they meet.\<close>

datatype 'p who_request =
    AskHello bool bool NewTask
  | AskPrompt PromptRequest NewTask
  | AskUserInfo string
  | AskStart "BeginError + string"
  | AskComplete "'p \<Rightarrow> string option option" "'p OAuthCallbackParams" NewTask
  | AskDisconnect
  | TimePasses nat

fun respond :: "WhoEnv \<Rightarrow> string list \<Rightarrow> 'p who_request \<Rightarrow> (string \<Rightarrow> string option) \<Rightarrow> HandleTask TaskMap \<Rightarrow>
    WhoResponse option \<times> HandleTask TaskMap" where
  "respond env hosts (AskHello reload failed t) get m = apfst Some (who_hello env get reload failed t m)"
| "respond env hosts (AskPrompt req t) get m = apfst Some (prompt env hosts get req t m)"
| "respond env hosts (AskUserInfo key) get m = apfst Some (user_info key m)"
| "respond env hosts (AskStart begun) get m = (Some (start_oauth begun), m)"
| "respond env hosts (AskComplete callback params t) get m = apfst Some (complete_oauth env callback params t m)"
| "respond env hosts AskDisconnect get m = (Some disconnect, m)"
| "respond env hosts (TimePasses now) get m = (None, pass_time now m)"

fun apply_cookie :: "CookieOp \<Rightarrow> (string \<Rightarrow> string option) \<Rightarrow> string \<Rightarrow> string option" where
  "apply_cookie (AddCookie name v) cookies = cookies(name := Some v)"
| "apply_cookie (RemoveCookie name) cookies = cookies(name := None)"

text \<open>Cookies are signed: a browser has those the service gave it and no others.\<close>

definition session_step :: "WhoEnv \<Rightarrow> string list \<Rightarrow> 'p who_request \<Rightarrow> (string \<Rightarrow> string option) \<times> HandleTask TaskMap \<Rightarrow>
    (string \<Rightarrow> string option) \<times> HandleTask TaskMap" where
  "session_step env hosts req s =
     (case respond env hosts req (fst s) (snd s) of
        (None, m) \<Rightarrow> (fst s, m)
      | (Some resp, m) \<Rightarrow> (fold apply_cookie (wr_cookies resp) (fst s), m))"

text \<open>Who is logged in: who last completed OAuth, until a login is started or the session ended.\<close>

fun login_step :: "WhoEnv \<Rightarrow> 'p who_request \<Rightarrow> string option \<Rightarrow> string option" where
  "login_step env (AskComplete callback params t) who =
     (case oauth_complete callback params of
        Inl _ \<Rightarrow> who
      | Inr did \<Rightarrow> if mint env (nt_now t) did = None then who else Some did)"
| "login_step env (AskStart (Inr _)) who = None"
| "login_step env AskDisconnect who = None"
| "login_step env _ who = who"

text \<open>DIDs need no trimming, and those of OAuth sessions are DIDs.\<close>

definition did_values_ok :: "WhoEnv \<Rightarrow> bool" where
  "did_values_ok env \<longleftrightarrow> (\<forall>d. we_did_new env d \<longrightarrow> we_value_trimmed env d = d)"

fun oauth_ok :: "WhoEnv \<Rightarrow> 'p who_request \<Rightarrow> bool" where
  "oauth_ok env (AskComplete callback params t) \<longleftrightarrow> (\<forall>p did. callback p = Some (Some did) \<longrightarrow> we_did_new env did)"
| "oauth_ok env _ \<longleftrightarrow> True"

definition cookies_ok :: "WhoEnv \<Rightarrow> (string \<Rightarrow> string option) \<Rightarrow> string option \<Rightarrow> bool" where
  "cookies_ok env cookies who \<longleftrightarrow> cookies DID_COOKIE_KEY = who \<and> (\<forall>d. who = Some d \<longrightarrow> we_did_new env d)"

lemma cookie_keys [simp]: "HELLO_COOKIE_KEY \<noteq> DID_COOKIE_KEY" "DID_COOKIE_KEY \<noteq> HELLO_COOKIE_KEY"
  by (simp_all add: HELLO_COOKIE_KEY_def DID_COOKIE_KEY_def)

lemma hello_cookies:
  "who_hello env get reload failed t m = (resp, m') \<Longrightarrow>
     wr_cookies resp = AddCookie HELLO_COOKIE_KEY ''hiiii'' #
       (case get DID_COOKIE_KEY of
          None \<Rightarrow> []
        | Some c \<Rightarrow> [if we_did_new env (we_value_trimmed env c) then AddCookie DID_COOKIE_KEY (we_value_trimmed env c)
                     else RemoveCookie DID_COOKIE_KEY])"
  by (auto simp: who_hello_def Let_def split: option.splits if_splits)

lemma prompt_cookies:
  "prompt env hosts get req t m = (resp, m') \<Longrightarrow>
     wr_cookies resp = [] \<or> (\<exists>c. get DID_COOKIE_KEY = Some c \<and> wr_cookies resp = [AddCookie DID_COOKIE_KEY (we_value_trimmed env c)])"
  by (auto simp: prompt_def prompt_parent_def prompt_error_def plain_def Let_def split: sum.splits option.splits if_splits)

lemma complete_cookies:
  "complete_oauth env callback params t m = (resp, m') \<Longrightarrow>
     wr_cookies resp = (case oauth_complete callback params of
        Inl _ \<Rightarrow> [] | Inr did \<Rightarrow> if mint env (nt_now t) did = None then [] else [AddCookie DID_COOKIE_KEY did])"
  by (auto simp: complete_oauth_def auth_fail_def plain_def split: sum.splits option.splits OAuthCompleteError.splits)

lemma session_step_ok:
  assumes env: "did_values_ok env" and "oauth_ok env req" and ok: "cookies_ok env (fst s) who"
  shows "cookies_ok env (fst (session_step env hosts req s)) (login_step env req who)"
proof -
  have trim: "we_value_trimmed env d = d" "we_did_new env d" if "fst s DID_COOKIE_KEY = Some d" for d
    using env ok that by (auto simp: did_values_ok_def cookies_ok_def)
  show ?thesis
  proof (cases req)
    case (AskHello reload failed t)
    obtain resp m where r: "who_hello env (fst s) reload failed t (snd s) = (resp, m)" by (metis prod.exhaust)
    show ?thesis using ok trim AskHello r hello_cookies [OF r]
      by (auto simp: session_step_def cookies_ok_def split: option.splits)
  next
    case (AskPrompt pr t)
    obtain resp m where r: "prompt env hosts (fst s) pr t (snd s) = (resp, m)" by (metis prod.exhaust)
    from prompt_cookies [OF r] show ?thesis using ok trim AskPrompt r
      by (auto simp: session_step_def cookies_ok_def)
  next
    case (AskUserInfo key)
    obtain resp m where r: "user_info key (snd s) = (resp, m)" by (metis prod.exhaust)
    have "wr_cookies resp = []" using r
      by (auto simp: user_info_def plain_def Let_def split: prod.splits option.splits sum.splits ResolveHandleError.splits ResolveError.splits)
    then show ?thesis using ok AskUserInfo r by (simp add: session_step_def)
  next
    case (AskStart begun)
    then show ?thesis using ok
      by (cases begun) (auto simp: session_step_def start_oauth_def auth_fail_def plain_def cookies_ok_def split: BeginError.splits)
  next
    case (AskComplete callback params t)
    obtain resp m where r: "complete_oauth env callback params t (snd s) = (resp, m)" by (metis prod.exhaust)
    have "we_did_new env did" if "oauth_complete callback params = Inr did" for did
      using that assms(2) AskComplete by (auto simp: oauth_complete_def split: OAuthCallbackParams.splits option.splits if_splits)
    then show ?thesis using ok AskComplete r complete_cookies [OF r]
      by (auto simp: session_step_def cookies_ok_def split: sum.splits)
  next
    case AskDisconnect
    then show ?thesis using ok by (simp add: session_step_def disconnect_def cookies_ok_def)
  next
    case (TimePasses now)
    then show ?thesis using ok by (simp add: session_step_def)
  qed
qed

lemma session_run_ok:
  assumes "did_values_ok env" "list_all (oauth_ok env) reqs" "cookies_ok env (fst s) who"
  shows "cookies_ok env (fst (fold (session_step env hosts) reqs s)) (fold (login_step env) reqs who)"
  using assms(2,3)
  by (induction reqs arbitrary: s who) (simp_all add: session_step_ok [OF assms(1)])

lemma prompt_token:
  assumes "prompt env hosts get req t m = (resp, m')" "wr_body resp = Page page info" "(''token'', IText token) \<in> set info"
  shows "\<exists>c. get DID_COOKIE_KEY = Some c \<and> mint env (nt_now t) (we_value_trimmed env c) = Some token \<and>
    (\<exists>host origin. prompt_parent env hosts req = Inr (host, origin))"
  using assms
  by (auto simp: prompt_def prompt_parent_def prompt_error_def plain_def Let_def split: sum.splits option.splits if_splits)

lemma prompt_parent_allowed:
  "prompt_parent env hosts req = Inr (host, origin) \<Longrightarrow> host \<in> set hosts \<and> (\<forall>app. pr_app req = Some app \<longrightarrow> app \<in> set hosts)"
  by (auto simp: prompt_parent_def split: option.splits if_splits)

text \<open>
  C13. Tokens are authentic.  Whatever requests a browser makes, a prompt gives it a token only when
  the page around the prompt, and the app that asks, are on allowed hosts, and only for the account that
  last completed a login in this browser and has neither disconnected nor begun another login since.
\<close>

theorem token_authentic:
  assumes "did_values_ok env" and "list_all (oauth_ok env) reqs"
    and "fold (session_step env hosts) reqs (\<lambda>_. None, task_map_new expiration) = (cookies, m)"
    and "prompt env hosts cookies req t m = (resp, m')"
    and "wr_body resp = Page page info" and "(''token'', IText token) \<in> set info"
  shows "\<exists>did host origin. fold (login_step env) reqs None = Some did \<and> mint env (nt_now t) did = Some token \<and>
    prompt_parent env hosts req = Inr (host, origin) \<and> host \<in> set hosts \<and> (\<forall>app. pr_app req = Some app \<longrightarrow> app \<in> set hosts)"
proof -
  have "cookies_ok env cookies (fold (login_step env) reqs None)"
    using session_run_ok [OF assms(1,2), of "(\<lambda>_. None, task_map_new expiration)" None hosts] assms(3)
    by (simp add: cookies_ok_def)
  moreover from prompt_token [OF assms(4-6)] obtain c host origin where
    c: "cookies DID_COOKIE_KEY = Some c" "mint env (nt_now t) (we_value_trimmed env c) = Some token"
    "prompt_parent env hosts req = Inr (host, origin)" by blast
  ultimately have "fold (login_step env) reqs None = Some c" "we_value_trimmed env c = c"
    using assms(1) by (auto simp: cookies_ok_def did_values_ok_def)
  then show ?thesis using c prompt_parent_allowed [OF c(3)] by auto
qed

definition ex_who :: WhoEnv where
  "ex_who = \<lparr>we_did_new = \<lambda>s. starts_with s ''did:'', we_value_trimmed = \<lambda>s. s, we_to_str = Some,
     we_url = \<lambda>s. map_option (\<lambda>h. \<lparr>pu_host = Some h, pu_origin = s\<rparr>) (strip_prefix ''https://'' s),
     we_encode = \<lambda>kid claims. Some (kid @ clm_sub claims)\<rparr>"

abbreviation ex_task :: NewTask where
  "ex_task \<equiv> \<lparr>nt_key = ''k'', nt_cancel = 0, nt_now = 0, nt_task = None\<rparr>"

abbreviation ex_login :: "unit who_request" where
  "ex_login \<equiv> AskComplete (\<lambda>_. Some (Some ''did:a'')) (Granted ()) ex_task"

abbreviation ex_prompt :: PromptRequest where
  "ex_prompt \<equiv> \<lparr>pr_app = Some ''h'', pr_origin = Some ''https://h'', pr_referer = None\<rparr>"

lemma ex_session:
  "\<exists>m. fold (session_step ex_who [''h'']) [ex_login] (\<lambda>_. None, task_map_new 15) = ((\<lambda>_. None)(''did'' := Some ''did:a''), m)"
  by (simp add: session_step_def complete_oauth_def oauth_complete_def mint_def ex_who_def DID_COOKIE_KEY_def)

lemma ex_prompted:
  "\<exists>resp m' info. prompt ex_who [''h''] ((\<lambda>_. None)(''did'' := Some ''did:a'')) ex_prompt ex_task m = (resp, m') \<and>
     wr_body resp = Page ''prompt'' info \<and> (''token'', IText ''who-am-i-00did:a'') \<in> set info"
  by (simp add: prompt_def prompt_parent_def mint_def ex_who_def DID_COOKIE_KEY_def strip_prefix_def starts_with_def Let_def)

theorem token_authentic_witness:
  "\<exists>did. fold (login_step ex_who) [ex_login] None = Some did \<and> mint ex_who 0 did = Some ''who-am-i-00did:a''"
proof -
  obtain m where m: "fold (session_step ex_who [''h'']) [ex_login] (\<lambda>_. None, task_map_new 15) = ((\<lambda>_. None)(''did'' := Some ''did:a''), m)"
    using ex_session by blast
  obtain resp m' info where p: "prompt ex_who [''h''] ((\<lambda>_. None)(''did'' := Some ''did:a'')) ex_prompt ex_task m = (resp, m')"
    "wr_body resp = Page ''prompt'' info" "(''token'', IText ''who-am-i-00did:a'') \<in> set info"
    using ex_prompted by blast
  have "did_values_ok ex_who" "list_all (oauth_ok ex_who) [ex_login]"
    by (simp_all add: did_values_ok_def ex_who_def starts_with_def)
  from token_authentic [OF this m p] show ?thesis by auto
qed

text \<open>
  A login that fails to begin leaves the session as it was: the cookie is removed from a jar that the
  error pages do not carry, although the handler sets out to clear any existing session first.
\<close>

theorem failed_login_keeps_session:
  "session_step env hosts (AskStart (Inl e)) s = s"
  by (cases e; cases s) (simp_all add: session_step_def start_oauth_def auth_fail_def plain_def)

text \<open>The handle shown for an account is the first alias of its document, whether or not it resolves back.\<close>

theorem shown_handle_unverified:
  assumes "resolve did = Inr doc" "dd_also_known_as doc = Some ((''at://'' @ h) # rest)" "h \<noteq> []"
  shows "oauth_resolve_handle resolve did = Inr h"
  using assms by (simp add: oauth_resolve_handle_def strip_prefix_def starts_with_def)

end
