(* ===== verification/Service_Mains.thy ===== *)
theory Service_Mains
  imports Slingshot
begin

text \<open>
  The binaries of \<open>spacedust\<close>, \<open>slingshot\<close>, \<open>ufos\<close> and \<open>who-am-i\<close> (each \<open>src/main.rs\<close>), and
  \<open>slingshot/src/healthcheck.rs\<close>: what is started with which arguments, what happens when a task ends,
  and how the process ends.

  The operations that can fail at start-up, the ends of tasks, interrupts and the end of the grace
  period are inputs.
\<close>

section \<open>spacedust and slingshot: a set of tasks\<close>

datatype Phase = Serving | Stopping | Ended

record Supervisor =
  su_phase :: Phase
  su_cancelled :: bool
  su_tasks :: "string list"
  su_aborted :: "string list"

datatype SupEvent = Interrupted | TaskExited string | GraceOver

definition supervisor_new :: "string list \<Rightarrow> Supervisor" where
  "supervisor_new tasks = \<lparr>su_phase = Serving, su_cancelled = False, su_tasks = tasks, su_aborted = []\<rparr>"

text \<open>
  The first \<open>select!\<close> waits for the token or for the first task to end; then \<open>closing\<close> are the tasks
  spawned for the end (\<open>slingshot\<close> closes its cache).  The second one waits for all tasks, or for the
  grace period, and aborts those left.  Both branches of the first lead to a cancelled token.
\<close>

definition settle :: "Supervisor \<Rightarrow> Supervisor" where
  "settle s = (if su_phase s = Stopping \<and> su_tasks s = [] then s\<lparr>su_phase := Ended\<rparr> else s)"

fun supervisor_step :: "string list \<Rightarrow> SupEvent \<Rightarrow> Supervisor \<Rightarrow> Supervisor" where
  "supervisor_step closing Interrupted s =
     (let s' = s\<lparr>su_cancelled := True\<rparr>
      in if su_phase s = Serving then settle (s'\<lparr>su_phase := Stopping, su_tasks := su_tasks s @ closing\<rparr>) else s')"
| "supervisor_step closing (TaskExited t) s =
     (if t \<notin> set (su_tasks s) then s
      else let s' = s\<lparr>su_tasks := remove1 t (su_tasks s)\<rparr>
           in case su_phase s of
                Serving \<Rightarrow> settle (s'\<lparr>su_phase := Stopping, su_cancelled := True, su_tasks := su_tasks s' @ closing\<rparr>)
              | _ \<Rightarrow> settle s')"
| "supervisor_step closing GraceOver s =
     (if su_phase s = Stopping then s\<lparr>su_phase := Ended, su_aborted := su_tasks s, su_tasks := []\<rparr> else s)"

definition spacedust_main :: "SupEvent list \<Rightarrow> Supervisor" where
  "spacedust_main evs = fold (supervisor_step []) evs (supervisor_new [''server'', ''consumer'', ''delay''])"

text \<open>What can fail while \<open>slingshot\<close> starts: each is the error, if there is one.\<close>

record SlingshotStart =
  ss_create_dir :: "string option"
  ss_canonicalize :: "string option"
  ss_firehose_cache :: "string option"
  ss_identity :: "string option"

definition slingshot_tasks :: "string option \<Rightarrow> string list" where
  "slingshot_tasks healthcheck =
     [''refresher'', ''server'', ''consumer''] @ (case healthcheck of Some _ \<Rightarrow> [''healthcheck''] | None \<Rightarrow> [])"

definition slingshot_main :: "SlingshotStart \<Rightarrow> string option \<Rightarrow> SupEvent list \<Rightarrow> string + Supervisor" where
  "slingshot_main st healthcheck evs =
     (case ss_create_dir st of
        Some e \<Rightarrow> Inl (''failed to ensure cache parent dir: '' @ e)
      | None \<Rightarrow>
     (case ss_canonicalize st of
        Some e \<Rightarrow> Inl (''failed to canonicalize cache_dir: '' @ e)
      | None \<Rightarrow>
     (case ss_firehose_cache st of
        Some e \<Rightarrow> Inl e
      | None \<Rightarrow>
     (case ss_identity st of
        Some e \<Rightarrow> Inl (''identity setup failed: '' @ e)
      | None \<Rightarrow> Inr (fold (supervisor_step [''cache'']) evs (supervisor_new (slingshot_tasks healthcheck)))))))"

text \<open>A turn of the health check: a request that worked or not, or the token; what it logs, and whether it ended.\<close>

datatype HealthTurn = Sent bool | SawShutdown

fun healthcheck :: "HealthTurn list \<Rightarrow> nat \<times> bool" where
  "healthcheck [] = (0, False)"
| "healthcheck (SawShutdown # turns) = (0, True)"
| "healthcheck (Sent ok # turns) = (case healthcheck turns of (n, e) \<Rightarrow> ((if ok then n else n + 1), e))"

section \<open>ufos\<close>

record UfosArgs =
  ua_jetstream :: string
  ua_jetstream_force :: bool
  ua_jetstream_no_zstd :: bool
  ua_data :: string
  ua_pause_writer :: bool
  ua_backfill :: bool
  ua_pause_rw :: bool
  ua_reroll :: bool
  ua_jetstream_fixture :: bool

text \<open>What \<open>go\<close> calls for its batches: the fixture reader or the consumer, with its flag \<open>no_compress\<close>.\<close>

datatype UfosSource = FromFixture string "Cursor option" | FromJetstream string "Cursor option" bool

definition ufos_source :: "UfosArgs \<Rightarrow> Cursor option \<Rightarrow> UfosSource" where
  "ufos_source args cursor =
     (if ua_jetstream_fixture args then FromFixture (ua_jetstream args) cursor
      else FromJetstream (ua_jetstream args) cursor False)"

definition ufos_config :: "string \<Rightarrow> bool \<Rightarrow> JetstreamConfig" where
  "ufos_config jetstream_endpoint no_compress =
     jetstream_config_default\<lparr>jc_endpoint := endpoint_or_shortcut jetstream_endpoint,
       jc_compression := (if no_compress then NoCompression else Zstd),
       jc_replay_on_reconnect := True, jc_channel_size := 1024\<rparr>"

text \<open>The tasks of \<open>go\<close>: those that are killed at the end, and the consumer; a task ends with an error or without.\<close>

record GoRun =
  go_whatever :: "string list"
  go_errors :: "string list"
  go_consumer_up :: bool
  go_result :: "(string + unit) option"

text \<open>
  The batches, the background task and the metrics can fail to start, in this order: \<open>go\<close> returns the
  first error, and with its sets of tasks the tasks are gone.
\<close>

definition first_error :: "string option list \<Rightarrow> string option" where
  "first_error setup = (case flatten_opts setup of [] \<Rightarrow> None | e # _ \<Rightarrow> Some e)"

definition go_start :: "string option list \<Rightarrow> UfosArgs \<Rightarrow> GoRun" where
  "go_start setup args =
     (if ua_pause_writer args
      then \<lparr>go_whatever = [''server''], go_errors = [], go_consumer_up = False, go_result = None\<rparr>
      else case first_error setup of
             Some e \<Rightarrow> \<lparr>go_whatever = [], go_errors = [], go_consumer_up = False, go_result = Some (Inl e)\<rparr>
           | None \<Rightarrow> \<lparr>go_whatever = [''server'', ''rollup'', ''status''], go_errors = [], go_consumer_up = True, go_result = None\<rparr>)"

datatype GoEvent = WhateverDone string "string option" | ConsumerTaskDone "string option"

fun go_step :: "UfosArgs \<Rightarrow> GoEvent \<Rightarrow> GoRun \<Rightarrow> GoRun" where
  "go_step args (WhateverDone t r) g =
     (if go_result g \<noteq> None \<or> t \<notin> set (go_whatever g) then g
      else let ts = remove1 t (go_whatever g); es = go_errors g @ (case r of Some e \<Rightarrow> [e] | None \<Rightarrow> [])
           in g\<lparr>go_whatever := ts, go_errors := es,
                go_result := (if ua_pause_writer args \<and> ts = []
                              then Some (case es of [] \<Rightarrow> Inr () | e # _ \<Rightarrow> Inl e) else None)\<rparr>)"
| "go_step args (ConsumerTaskDone r) g =
     (if go_result g \<noteq> None \<or> \<not> go_consumer_up g then g
      else g\<lparr>go_consumer_up := False, go_whatever := [], go_result := Some (Inr ())\<rparr>)"

definition go :: "string option list \<Rightarrow> UfosArgs \<Rightarrow> GoEvent list \<Rightarrow> GoRun" where
  "go setup args evs = fold (go_step args) evs (go_start setup args)"

section \<open>who-am-i\<close>

record WhoArgs =
  wa_app_secret :: string
  wa_oauth_private_key :: "string option"
  wa_jwt_private_key :: string
  wa_base_url :: "string option"
  wa_bind :: string
  wa_dev :: bool
  wa_allowed_hosts :: "string list"

text \<open>The base address and the hosts \<open>serve\<close> is called with; \<open>tokens_ok\<close>: \<open>Tokens::from_files\<close> reads the key.\<close>

definition whoami_main :: "(string \<Rightarrow> bool) \<Rightarrow> WhoArgs \<Rightarrow> panic + string \<times> string list" where
  "whoami_main tokens_ok args =
     and_then
       (case wa_base_url args of
          Some base \<Rightarrow> Inr base
        | None \<Rightarrow> if wa_dev args then Inr (''http://'' @ wa_bind args)
                  else Inl (Panic ''not in --dev mode so --base-url is required''))
       (\<lambda>base.
          if \<not> wa_dev args \<and> wa_oauth_private_key args = None then Inl (Panic ''--at-oauth-key is required except in --dev'')
          else if wa_allowed_hosts args = [] then Inl (Panic ''at least one --allowed-host host must be set'')
          else if \<not> tokens_ok (wa_jwt_private_key args) then Inl (Panic ''called `Result::unwrap()` on an `Err` value'')
          else Inr (base, wa_allowed_hosts args))"

section \<open>What holds of them\<close>

definition supervisor_inv :: "string list \<Rightarrow> string list \<Rightarrow> Supervisor \<Rightarrow> bool" where
  "supervisor_inv tasks closing s \<longleftrightarrow>
     (su_phase s = Serving \<longleftrightarrow> \<not> su_cancelled s) \<and>
     (su_phase s = Serving \<longrightarrow> su_tasks s = tasks) \<and>
     (su_phase s = Stopping \<longrightarrow> su_tasks s \<noteq> []) \<and>
     (su_phase s = Ended \<longrightarrow> su_tasks s = []) \<and>
     (su_phase s \<noteq> Ended \<longrightarrow> su_aborted s = []) \<and>
     set (su_tasks s) \<union> set (su_aborted s) \<subseteq> set (tasks @ closing)"

lemma supervisor_new_inv: "tasks \<noteq> [] \<Longrightarrow> supervisor_inv tasks closing (supervisor_new tasks)"
  by (simp add: supervisor_inv_def supervisor_new_def)

lemma supervisor_step_inv: "supervisor_inv tasks closing s \<Longrightarrow> supervisor_inv tasks closing (supervisor_step closing ev s)"
  by (cases ev; cases "su_phase s")
    (auto simp: supervisor_inv_def settle_def Let_def remove1_append dest: in_set_remove1 [THEN iffD1, rotated] notin_set_remove1 set_remove1_subset [THEN subsetD])

lemma supervisor_run_inv: "supervisor_inv tasks closing s \<Longrightarrow> supervisor_inv tasks closing (fold (supervisor_step closing) evs s)"
  by (induction evs arbitrary: s) (simp_all add: supervisor_step_inv)

text \<open>
  The process serves until the first interrupt or the first task that ends, and then every task is told
  to stop; it ends when the last of them has ended, or with the grace period, whichever is first, and
  nothing runs then.
\<close>

lemma supervisor_serves_until:
  assumes "su_phase s = Serving"
  shows "su_phase (supervisor_step closing ev s) = Serving \<longleftrightarrow>
    (case ev of Interrupted \<Rightarrow> False | TaskExited t \<Rightarrow> t \<notin> set (su_tasks s) | GraceOver \<Rightarrow> True)"
  using assms by (cases ev) (auto simp: settle_def Let_def)

lemma supervisor_ended_stays: "su_phase s = Ended \<Longrightarrow> su_phase (supervisor_step closing ev s) = Ended"
  by (cases ev) (auto simp: settle_def Let_def)

lemma supervisor_cancelled_stays: "su_cancelled s \<Longrightarrow> su_cancelled (supervisor_step closing ev s)"
  by (cases ev) (auto simp: settle_def Let_def split: Phase.split)

lemma supervisor_ends:
  assumes "su_phase s \<noteq> Serving"
  shows "su_phase (fold (supervisor_step closing) (map TaskExited ts @ [GraceOver]) s) = Ended"
proof -
  have "su_phase (fold (supervisor_step closing) (map TaskExited ts) s) \<noteq> Serving"
    using assms by (induction ts arbitrary: s) (auto simp: settle_def Let_def split: Phase.split)
  then show ?thesis by (cases "su_phase (fold (supervisor_step closing) (map TaskExited ts) s)") auto
qed

text \<open>Tasks that all end in time are not aborted.\<close>

lemma all_exit_in_time:
  assumes "su_phase s = Stopping" "su_tasks s = ts" "ts \<noteq> []" "su_aborted s = []"
  shows "su_phase (fold (supervisor_step closing) (map TaskExited ts) s) = Ended \<and>
    su_aborted (fold (supervisor_step closing) (map TaskExited ts) s) = []"
  using assms
proof (induction ts arbitrary: s)
  case (Cons t ts)
  show ?case
  proof (cases "ts = []")
    case True
    with Cons.prems show ?thesis by (simp add: settle_def)
  next
    case False
    with Cons.prems have "supervisor_step closing (TaskExited t) s = s\<lparr>su_tasks := ts\<rparr>" by (simp add: settle_def)
    with False Cons.IH [of "s\<lparr>su_tasks := ts\<rparr>"] Cons.prems show ?thesis by simp
  qed
qed simp

text \<open>
  \<open>spacedust\<close> as a whole: while nothing has ended it serves with all its tasks; after that everything is
  told to stop, and the process ends in time, whatever its tasks do.
\<close>

theorem spacedust_stops:
  assumes "ev = Interrupted \<or> ev = TaskExited ''server'' \<or> ev = TaskExited ''consumer'' \<or> ev = TaskExited ''delay''"
    and "s = spacedust_main (evs @ [ev])"
  shows "su_cancelled s \<and> set (su_tasks s) \<subseteq> {''server'', ''consumer'', ''delay''} \<and>
    su_phase (fold (supervisor_step []) (map TaskExited ts @ [GraceOver]) s) = Ended"
proof -
  let ?tasks = "[''server'', ''consumer'', ''delay'']"
  have inv: "supervisor_inv ?tasks [] (spacedust_main evs)"
    unfolding spacedust_main_def by (intro supervisor_run_inv supervisor_new_inv) simp
  have s: "s = supervisor_step [] ev (spacedust_main evs)" by (simp add: assms(2) spacedust_main_def)
  have serving: "su_phase s \<noteq> Serving"
  proof (cases "su_phase (spacedust_main evs) = Serving")
    case True
    with inv have "su_tasks (spacedust_main evs) = ?tasks" by (simp add: supervisor_inv_def)
    with supervisor_serves_until [OF True, of "[]" ev] assms(1) show ?thesis by (auto simp: s)
  next
    case False
    with inv have "su_cancelled (spacedust_main evs)" by (simp add: supervisor_inv_def)
    with supervisor_cancelled_stays supervisor_step_inv [OF inv, of ev] show ?thesis by (simp add: s supervisor_inv_def)
  qed
  from supervisor_step_inv [OF inv, of ev] have "supervisor_inv ?tasks [] s" by (simp add: s)
  with serving supervisor_ends [OF serving] show ?thesis by (auto simp: supervisor_inv_def)
qed

text \<open>A request that fails does not end the health check; only the token does.\<close>

lemma healthcheck_ends: "snd (healthcheck turns) \<longleftrightarrow> SawShutdown \<in> set turns"
  by (induction turns rule: healthcheck.induct) (auto split: prod.split)

text \<open>
  The flag \<open>--jetstream-no-zstd\<close> of \<open>ufos\<close> is not passed on: compressed events are requested with it too.
\<close>

theorem ufos_no_zstd_ignored:
  assumes "ufos_source args cursor = FromJetstream endpoint c no_compress"
  shows "jc_compression (ufos_config endpoint no_compress) = Zstd"
  using assms by (auto simp: ufos_source_def ufos_config_def split: if_splits)

text \<open>
  While it writes, \<open>ufos\<close> runs for as long as its consumer does, whatever becomes of the server, the
  rollups and the status task; and when the consumer ends, with an error or without, \<open>go\<close> returns \<open>Ok\<close>.
\<close>

lemma go_running:
  assumes "\<not> ua_pause_writer args" "go_result g = None" "go_consumer_up g"
    and "list_all (\<lambda>ev. case ev of WhateverDone _ _ \<Rightarrow> True | ConsumerTaskDone _ \<Rightarrow> False) evs"
  shows "go_result (fold (go_step args) evs g) = None \<and> go_consumer_up (fold (go_step args) evs g)"
  using assms(2-4)
proof (induction evs arbitrary: g)
  case (Cons ev evs)
  then show ?case using assms(1) by (cases ev) (simp_all add: Let_def)
qed simp

theorem go_ends_with_consumer:
  assumes "\<not> ua_pause_writer args" "first_error setup = None"
    and "list_all (\<lambda>ev. case ev of WhateverDone _ _ \<Rightarrow> True | ConsumerTaskDone _ \<Rightarrow> False) evs"
  shows "go_result (go setup args evs) = None \<and> go_result (go setup args (evs @ [ConsumerTaskDone r])) = Some (Inr ())"
  using go_running [OF assms(1) _ _ assms(3), of "go_start setup args"] assms(1,2) by (simp add: go_def go_start_def)

text \<open>Without the writer, \<open>go\<close> returns with the server, and with its error.\<close>

lemma go_paused_returns_server:
  assumes "ua_pause_writer args"
  shows "go_result (go setup args [WhateverDone ''server'' r]) = Some (case r of Some e \<Rightarrow> Inl e | None \<Rightarrow> Inr ())"
  using assms by (simp add: go_def go_start_def split: option.split)

text \<open>When \<open>who-am-i\<close> starts, and under which address.\<close>

theorem whoami_main_starts:
  "whoami_main tokens_ok args = Inr (base, hosts) \<longleftrightarrow>
     tokens_ok (wa_jwt_private_key args) \<and> hosts = wa_allowed_hosts args \<and> hosts \<noteq> [] \<and>
     (wa_dev args \<or> wa_oauth_private_key args \<noteq> None) \<and>
     (wa_base_url args = Some base \<or> wa_base_url args = None \<and> wa_dev args \<and> base = ''http://'' @ wa_bind args)"
  by (auto simp: whoami_main_def split: option.splits if_splits)

end
