(* ===== verification/Links_Tests.thy ===== *)
theory Links_Tests
  imports Constellation_Types "HOL-Library.List_Lexorder" "HOL-Library.Char_ord"
begin

text \<open>
  The tests of the parsers (\<open>links/src/did.rs\<close>, \<open>at_uri.rs\<close>, \<open>lib.rs\<close>, \<open>record.rs\<close>) and of the event decoder
  (\<open>constellation/src/consumer/mod.rs\<close>), run on the definitions.  The package that resolves paths is
  replaced by the removal of dot segments, the one that normalises URLs by the test for the scheme
  \<open>https\<close>; the tests that are about that package alone are left out.
\<close>

section \<open>The harness\<close>

text \<open>A path resolved against the root, as the tests need it.\<close>

definition drop_dots :: "string list \<Rightarrow> string list" where
  "drop_dots segs = fold (\<lambda>seg acc. if seg = ''..'' then butlast acc else if seg = ''.'' then acc else acc @ [seg]) segs []"

definition resolve_dots :: "string \<Rightarrow> string option" where
  "resolve_dots p =
     (case drop_dots (split_on CHR ''/'' p) of
        [] \<Rightarrow> Some ''/''
      | segs \<Rightarrow> Some (concat (map (Cons CHR ''/'') segs)))"

definition https_only :: "string \<Rightarrow> string option" where
  "https_only s = (if starts_with s ''https://'' then Some s else None)"

definition test_parse :: "string \<Rightarrow> Link option" where
  "test_parse = parse_any_link resolve_dots https_only"

definition table_passes :: "(string \<Rightarrow> string option) \<Rightarrow> (string \<times> string option) list \<Rightarrow> bool" where
  "table_passes f cases \<longleftrightarrow> list_all (\<lambda>(x, expected). f x = expected) cases"

definition record_passes :: "JsonValue \<Rightarrow> (string \<times> Link) list \<Rightarrow> bool" where
  "record_passes rec expected \<longleftrightarrow>
     sort_key cl_path (collect_links test_parse rec) = map (\<lambda>(p, t). \<lparr>cl_path = p, cl_target = t\<rparr>) expected"

section \<open>The cases\<close>

definition did_parse_cases :: "(string \<times> string option) list" where
  "did_parse_cases =
     [('''', None),
      ('' '', None),
      (''z'', None),
      (''did:plc'', None),
      (''did:plc:'', None),
      (''did:web:bad-example.com'', Some ''did:web:bad-example.com''),
      (''did:plc:hdhoaan3xa3jiuq4fg4mefid'', Some ''did:plc:hdhoaan3xa3jiuq4fg4mefid''),
      (''DID:plc:hdhoaan3xa3jiuq4fg4mefid'', None),
      (''did:ok:z'', Some ''did:ok:z''),
      (''did:BAD:z'', None),
      (''did:bad:z$z'', None),
      (''did:ok:z:z'', Some ''did:ok:z:z''),
      (''did:bad:z:'', None),
      (''did:bad:z?q=y'', None),
      (''did:bad:z#a'', None)]"

definition did_atproto_examples :: "string list" where
  "did_atproto_examples =
     [''did:plc:z72i7hdynmk6r22z27h6tvur'',
      ''did:web:blueskyweb.xyz'']"

definition did_lexicon_examples :: "string list" where
  "did_lexicon_examples =
     [''did:method:val:two'',
      ''did:m:v'',
      ''did:method::::val'',
      ''did:method:-:_:.'',
      ''did:key:zQ3shZc2QzApp2oymGvQbzP8eKheVshBHbU4ZYjeXqwSKEn6N'']"

definition did_invalid_examples :: "string list" where
  "did_invalid_examples =
     [''did:METHOD:val'',
      ''did:m123:val'',
      ''DID:method:val'',
      ''did:method:'',
      ''did:method:val/two'',
      ''did:method:val?two'',
      ''did:method:val#two'']"

definition at_uri_parse_cases :: "(string \<times> string option) list" where
  "at_uri_parse_cases =
     [('''', None),
      ('' '', None),
      (''https://bad-example.com'', None),
      ((''at://'' @ [CHR 0xC2] @ [CHR 0xB5] @ ''cosm.bad-example.com''), None),
      (''at://bad-example.com'', Some ''at://bad-example.com''),
      (''at://did:plc:hdhoaan3xa3jiuq4fg4mefid'', Some ''at://did:plc:hdhoaan3xa3jiuq4fg4mefid''),
      (''at://bad-example.com/app.bsky.feed.post/3jwdwj2ctlk26'', Some ''at://bad-example.com/app.bsky.feed.post/3jwdwj2ctlk26''),
      (''at://did:plc:hdhoaan3xa3jiuq4fg4mefid/app.bsky.feed.post/3ldqksainxc27'', Some ''at://did:plc:hdhoaan3xa3jiuq4fg4mefid/app.bsky.feed.post/3ldqksainxc27''),
      (''AT://bad-example.com'', Some ''at://bad-example.com''),
      (''at://bad-example.com'', Some ''at://bad-example.com''),
      (''at://bad-example.com?q=z'', Some ''at://bad-example.com?q=z''),
      (''at://bad-example.com#a'', Some ''at://bad-example.com#a''),
      (''at://bad-example.com/%'', None),
      (''at://bad-example.com/%2'', None),
      (''at://bad-example.com/%ZZ'', None),
      (''at://bad-example.com/%3A'', Some ''at://bad-example.com/%3A''),
      (''at://bad-example.com/%3a'', Some ''at://bad-example.com/%3A''),
      (''at://bad-example.com/%61/%62'', Some ''at://bad-example.com/a/b''),
      (''at://bad-example.com/a/../b'', Some ''at://bad-example.com/b''),
      (''at://bad-example.com/../'', Some ''at://bad-example.com'')]"

definition at_uri_collection_cases :: "(string \<times> string option) list" where
  "at_uri_collection_cases =
     [('''', None),
      (''at://did:plc:vc7f4oafdgxsihk4cry2xpze'', None),
      (''at://did:plc:vc7f4oafdgxsihk4cry2xpze/collec.tion'', Some ''collec.tion''),
      (''at://did:plc:vc7f4oafdgxsihk4cry2xpze/collec.tion/path'', Some ''collec.tion''),
      (''at://did:plc:vc7f4oafdgxsihk4cry2xpze/collec.tion?query'', Some ''collec.tion''),
      (''at://did:plc:vc7f4oafdgxsihk4cry2xpze/collec.tion#hash'', Some ''collec.tion''),
      (''at://did:plc:vc7f4oafdgxsihk4cry2xpze/collec.tion/path?query#hash'', Some ''collec.tion''),
      (''at://did:web:example.com/collec.tion/path'', Some ''collec.tion''),
      (''at://did:web:example.com/col.lec.tio.ns.so.long.going.on.and.on'', Some ''col.lec.tio.ns.so.long.going.on.and.on'')]"

definition collect_links_record :: JsonValue where
  "collect_links_record =
     JObject [(''a'', JString ''https://example.com''),
        (''b'', JString ''not a link'')]"

definition feed_post_reply :: JsonValue where
  "feed_post_reply =
     JObject [(''$type'', JString ''app.bsky.feed.post''),
        (''createdAt'', JString ''2025-01-08T20:52:43.041Z''),
        (''langs'', JArray [JString ''en'']),
        (''reply'', JObject [(''parent'', JObject [(''cid'', JString ''bafyreifk3bwnmulk37ezrarg4ouheqnhgucypynftqafl4limssogvzk6i''),
        (''uri'', JString ''at://did:plc:b3rzzkblqsxhr3dgcueymkqe/app.bsky.feed.post/3lf6yc4drhk2f'')]),
        (''root'', JObject [(''cid'', JString ''bafyreifk3bwnmulk37ezrarg4ouheqnhgucypynftqafl4limssogvzk6i''),
        (''uri'', JString ''at://did:plc:b3rzzkblqsxhr3dgcueymkqe/app.bsky.feed.post/3lf6yc4drhk2f'')])]),
        (''text'', JString ''Yup!'')]"

definition feed_post_embed :: JsonValue where
  "feed_post_embed =
     JObject [(''$type'', JString ''app.bsky.feed.post''),
        (''createdAt'', JString ''2025-01-08T20:52:39.539Z''),
        (''embed'', JObject [(''$type'', JString ''app.bsky.embed.external''),
        (''external'', JObject [(''description'', JString ''YouTube video by More Perfect Union''),
        (''thumb'', JObject [(''$type'', JString ''blob''),
        (''ref'', JObject [(''$link'', JString ''bafkreifxuvkbqksq5usi4cryex37o4absjexuouvgenlb62ojsx443b2tm'')]),
        (''mimeType'', JString ''image/jpeg''),
        (''size'', JNumber 477460)]),
        (''title'', JString ''Corporations & Wealthy Elites Are Coopting Our Government. Who Can Stop Them?''),
        (''uri'', JString ''https://youtu.be/oKXm4szEP1Q?si=_0n_uPu4qNKokMnq'')])]),
        (''facets'', JArray [JObject [(''features'', JArray [JObject [(''$type'', JString ''app.bsky.richtext.facet#link''),
        (''uri'', JString ''https://youtu.be/oKXm4szEP1Q?si=_0n_uPu4qNKokMnq'')]]),
        (''index'', JObject [(''byteEnd'', JNumber 24),
        (''byteStart'', JNumber 0)])]]),
        (''langs'', JArray [JString ''en'']),
        (''text'', JString ''youtu.be/oKXm4szEP1Q?...'')]"

definition create_like :: JsonValue where
  "create_like =
     JObject [(''did'', JString ''did:plc:icprmty6ticzracr5urz4uum''),
        (''time_us'', JNumber 1736448492661668),
        (''kind'', JString ''commit''),
        (''commit'', JObject [(''rev'', JString ''3lfddpt5qa62c''),
        (''operation'', JString ''create''),
        (''collection'', JString ''app.bsky.feed.like''),
        (''rkey'', JString ''3lfddpt5djw2c''),
        (''record'', JObject [(''$type'', JString ''app.bsky.feed.like''),
        (''createdAt'', JString ''2025-01-09T18:48:10.412Z''),
        (''subject'', JObject [(''cid'', JString ''bafyreihazf62qvmusup55ojhkzwbmzee6rxtsug3e6eg33mnjrgthxvozu''),
        (''uri'', JString ''at://did:plc:lphckw3dz4mnh3ogmfpdgt6z/app.bsky.feed.post/3lfdau5f7wk23'')])]),
        (''cid'', JString ''bafyreidgcs2id7nsbp6co42ind2wcig3riwcvypwan6xdywyfqklovhdjq'')])]"

definition update_profile :: JsonValue where
  "update_profile =
     JObject [(''did'', JString ''did:plc:tcmiubbjtkwhmnwmrvr2eqnx''),
        (''time_us'', JNumber 1736453696817289),
        (''kind'', JString ''commit''),
        (''commit'', JObject [(''rev'', JString ''3lfdikw7q772c''),
        (''operation'', JString ''update''),
        (''collection'', JString ''app.bsky.actor.profile''),
        (''rkey'', JString ''self''),
        (''record'', JObject [(''$type'', JString ''app.bsky.actor.profile''),
        (''avatar'', JObject [(''$type'', JString ''blob''),
        (''ref'', JObject [(''$link'', JString ''bafkreidcg5jzz3hpdtlc7um7w5masiugdqicc5fltuajqped7fx66hje54'')]),
        (''mimeType'', JString ''image/jpeg''),
        (''size'', JNumber 295764)]),
        (''banner'', JObject [(''$type'', JString ''blob''),
        (''ref'', JObject [(''$link'', JString ''bafkreiahaswf2yex2zfn3ynpekhw6mfj7254ra7ly27zjk73czghnz2wni'')]),
        (''mimeType'', JString ''image/jpeg''),
        (''size'', JNumber 856461)]),
        (''createdAt'', JString ''2024-08-30T21:33:06.945Z''),
        (''description'', JString (''Professor, QUB | Belfast via Derry '' @ [CHR 0x5C] @ ''n'' @ [CHR 0x5C] @ ''nViews personal | Reposts are not an endorsement'' @ [CHR 0x5C] @ ''n'' @ [CHR 0x5C] @ ''nhttps://go.qub.ac.uk/charvey'')),
        (''displayName'', JString ''Colin Harvey''),
        (''pinnedPost'', JObject [(''cid'', JString ''bafyreifyrepqer22xsqqnqulpcxzpu7wcgeuzk6p5c23zxzctaiwmlro7y''),
        (''uri'', JString ''at://did:plc:tcmiubbjtkwhmnwmrvr2eqnx/app.bsky.feed.post/3lf66ri63u22t'')])]),
        (''cid'', JString ''bafyreiem4j5p7duz67negvqarq3s5h7o45fvytevhrzkkn2p6eqdkcf74m'')])]"

definition delete_like :: JsonValue where
  "delete_like =
     JObject [(''did'', JString ''did:plc:3pa2ss4l2sqzhy6wud4btqsj''),
        (''time_us'', JNumber 1736448492690783),
        (''kind'', JString ''commit''),
        (''commit'', JObject [(''rev'', JString ''3lfddpt7vnx24''),
        (''operation'', JString ''delete''),
        (''collection'', JString ''app.bsky.feed.like''),
        (''rkey'', JString ''3lbiu72lczk2w'')])]"

definition delete_account_event :: JsonValue where
  "delete_account_event =
     JObject [(''did'', JString ''did:plc:zsgqovouzm2gyksjkqrdodsw''),
        (''time_us'', JNumber 1736451739215876),
        (''kind'', JString ''account''),
        (''account'', JObject [(''active'', JBoolean False),
        (''did'', JString ''did:plc:zsgqovouzm2gyksjkqrdodsw''),
        (''seq'', JNumber 3040934738),
        (''status'', JString ''deleted''),
        (''time'', JString ''2025-01-09T19:42:18.972Z'')])]"

definition deactivate_account_event :: JsonValue where
  "deactivate_account_event =
     JObject [(''did'', JString ''did:plc:l4jb3hkq7lrblferbywxkiol''),
        (''time_us'', JNumber 1736451745611273),
        (''kind'', JString ''account''),
        (''account'', JObject [(''active'', JBoolean False),
        (''did'', JString ''did:plc:l4jb3hkq7lrblferbywxkiol''),
        (''seq'', JNumber 3040939563),
        (''status'', JString ''deactivated''),
        (''time'', JString ''2025-01-09T19:42:22.035Z'')])]"

definition activate_account_event :: JsonValue where
  "activate_account_event =
     JObject [(''did'', JString ''did:plc:nct6zfb2j4emoj4yjomxwml2''),
        (''time_us'', JNumber 1736451747292706),
        (''kind'', JString ''account''),
        (''account'', JObject [(''active'', JBoolean True),
        (''did'', JString ''did:plc:nct6zfb2j4emoj4yjomxwml2''),
        (''seq'', JNumber 3040940775),
        (''time'', JString ''2025-01-09T19:42:26.924Z'')])]"

section \<open>They pass\<close>

theorem did_tests_pass:
  "table_passes parse_did did_parse_cases \<and>
   list_all (\<lambda>s. parse_did s \<noteq> None) did_atproto_examples \<and>
   list_all (\<lambda>s. parse_did s \<noteq> None) did_lexicon_examples \<and>
   list_all (\<lambda>s. parse_did s = None) did_invalid_examples"
  by code_simp

theorem at_uri_tests_pass:
  "table_passes (parse_at_uri resolve_dots) at_uri_parse_cases \<and> table_passes at_uri_collection at_uri_collection_cases"
  by code_simp

theorem any_link_tests_pass:
  "test_parse ''https://example.com'' = Some (Uri ''https://example.com'') \<and>
   test_parse ''at://did:plc:44ybard66vv44zksje25o7dz/app.bsky.feed.post/3jwdwj2ctlk26'' =
     Some (AtUri ''at://did:plc:44ybard66vv44zksje25o7dz/app.bsky.feed.post/3jwdwj2ctlk26'') \<and>
   test_parse ''did:plc:44ybard66vv44zksje25o7dz'' = Some (LDid ''did:plc:44ybard66vv44zksje25o7dz'') \<and>
   map_option link_at_uri_collection (test_parse ''https://example.com'') = Some None \<and>
   map_option link_at_uri_collection (test_parse ''did:web:bad-example.com'') = Some None \<and>
   map_option link_at_uri_collection (test_parse ''at://did:web:bad-example.com/my.collection/3jwdwj2ctlk26'') =
     Some (Some ''my.collection'')"
  by code_simp

theorem record_tests_pass:
  "record_passes collect_links_record [(''.a'', Uri ''https://example.com'')] \<and>
   record_passes feed_post_reply
     [(''.reply.parent.uri'', AtUri ''at://did:plc:b3rzzkblqsxhr3dgcueymkqe/app.bsky.feed.post/3lf6yc4drhk2f''),
      (''.reply.root.uri'', AtUri ''at://did:plc:b3rzzkblqsxhr3dgcueymkqe/app.bsky.feed.post/3lf6yc4drhk2f'')] \<and>
   record_passes feed_post_embed
     [(''.embed.external.uri'', Uri ''https://youtu.be/oKXm4szEP1Q?si=_0n_uPu4qNKokMnq''),
      (''.facets[].features[app.bsky.richtext.facet#link].uri'', Uri ''https://youtu.be/oKXm4szEP1Q?si=_0n_uPu4qNKokMnq'')]"
  by code_simp

theorem actionable_tests_pass:
  "get_actionable test_parse create_like =
     Some (CreateLinks (commit_record_id ''did:plc:icprmty6ticzracr5urz4uum'' ''app.bsky.feed.like'' ''3lfddpt5djw2c'')
       [\<lparr>cl_path = ''.subject.uri'', cl_target = AtUri ''at://did:plc:lphckw3dz4mnh3ogmfpdgt6z/app.bsky.feed.post/3lfdau5f7wk23''\<rparr>],
       1736448492661668) \<and>
   get_actionable test_parse update_profile =
     Some (UpdateLinks (commit_record_id ''did:plc:tcmiubbjtkwhmnwmrvr2eqnx'' ''app.bsky.actor.profile'' ''self'')
       [\<lparr>cl_path = ''.pinnedPost.uri'', cl_target = AtUri ''at://did:plc:tcmiubbjtkwhmnwmrvr2eqnx/app.bsky.feed.post/3lf66ri63u22t''\<rparr>],
       1736453696817289) \<and>
   get_actionable test_parse delete_like =
     Some (DeleteRecord (commit_record_id ''did:plc:3pa2ss4l2sqzhy6wud4btqsj'' ''app.bsky.feed.like'' ''3lbiu72lczk2w''), 1736448492690783) \<and>
   get_actionable test_parse delete_account_event = Some (DeleteAccount (Did ''did:plc:zsgqovouzm2gyksjkqrdodsw''), 1736451739215876) \<and>
   get_actionable test_parse deactivate_account_event = Some (DeactivateAccount (Did ''did:plc:l4jb3hkq7lrblferbywxkiol''), 1736451745611273) \<and>
   get_actionable test_parse activate_account_event = Some (ActivateAccount (Did ''did:plc:nct6zfb2j4emoj4yjomxwml2''), 1736451747292706)"
  by code_simp

end
