(* ===== verification/Constellation_Tests.thy ===== *)
theory Constellation_Tests
  imports Constellation_Serve Links_Tests
begin

text \<open>
  The test-suite of the storages (\<open>constellation/src/storage/mod.rs\<close>), run on the definitions: the macro
  \<open>test_each_storage!\<close> runs one test on a new \<open>MemStorage\<close> and on a new \<open>RocksStorage\<close>, and so does the
  definition of that name here.  A test is the list of its steps; a loop over numbered accounts is a
  list comprehension, and the cursor one page returns and the next is asked with is the one that was
  asserted of it.
\<close>

section \<open>The harness\<close>

datatype TestStep =
    Push ActionableEvent u64
  | AssertCount string string string u64
  | AssertDistinctDidCount string string string u64
  | AssertLinks string string string u64 "u64 option" "RecordId PagedAppendingCollection"
  | AssertDistinctDids string string string u64 "u64 option" "Did PagedAppendingCollection"
  | AssertAllRecordCounts string "(string, (string, u64) hashmap) hashmap"
  | AssertAllCounts string "(string, (string, CountsByCount) hashmap) hashmap"
  | AssertStats "u64 \<times> u64" "u64 \<times> u64" "u64 \<times> u64"

definition test_record :: "string \<Rightarrow> string \<Rightarrow> string \<Rightarrow> RecordId" where
  "test_record did collection rkey = \<lparr>rid_did = Did did, rid_collection = collection, rid_rkey = rkey\<rparr>"

definition test_link :: "string \<Rightarrow> string \<Rightarrow> CollectedLink" where
  "test_link target path = \<lparr>cl_path = path, cl_target = Uri target\<rparr>"

definition test_page :: "u64 \<Rightarrow> u64 \<Rightarrow> 'a list \<Rightarrow> u64 option \<Rightarrow> u64 \<Rightarrow> 'a PagedAppendingCollection" where
  "test_page len deleted items next_at all_items =
     \<lparr>pac_version = (len, deleted), pac_items = items, pac_next = next_at, pac_total = all_items\<rparr>"

text \<open>Equality of hash maps, whatever the order of their entries.\<close>

definition hm_same :: "('v \<Rightarrow> 'v \<Rightarrow> bool) \<Rightarrow> ('k, 'v) hashmap \<Rightarrow> ('k, 'v) hashmap \<Rightarrow> bool" where
  "hm_same same m m' \<longleftrightarrow> length m = length m' \<and>
     list_all (\<lambda>(k, v). case hm_get m' k of Some v' \<Rightarrow> same v v' | None \<Rightarrow> False) m"

fun returns :: "('a \<Rightarrow> bool) \<Rightarrow> 'a StoreResult \<Rightarrow> bool" where
  "returns P (Returns x) = P x"
| "returns P Errs = False"
| "returns P Panics = False"

definition assert_stats :: "u64 \<times> u64 \<Rightarrow> u64 \<times> u64 \<Rightarrow> u64 \<times> u64 \<Rightarrow> StorageStats \<Rightarrow> bool" where
  "assert_stats dids targetables linking_records stats =
     (let check = (\<lambda>stat (lo, hi). lo \<le> stat \<and> stat \<le> hi)
      in check (stat_dids stats) dids \<and> check (stat_targetables stats) targetables \<and>
         check (stat_linking_records stats) linking_records)"

fun check_step :: "TestStep \<Rightarrow> LinkReader \<Rightarrow> bool" where
  "check_step (Push _ _) r = True"
| "check_step (AssertCount t c p n) r = returns (\<lambda>x. x = n) (lr_get_count r t c p)"
| "check_step (AssertDistinctDidCount t c p n) r = returns (\<lambda>x. x = n) (lr_get_distinct_did_count r t c p)"
| "check_step (AssertLinks t c p limit until page) r = returns (\<lambda>x. x = page) (lr_get_links r t c p limit until)"
| "check_step (AssertDistinctDids t c p limit until page) r = returns (\<lambda>x. x = page) (lr_get_distinct_dids r t c p limit until)"
| "check_step (AssertAllRecordCounts t m) r = returns (hm_same (hm_same (=)) m) (lr_get_all_record_counts r t)"
| "check_step (AssertAllCounts t m) r = returns (hm_same (hm_same (=)) m) (lr_get_all_counts r t)"
| "check_step (AssertStats dids targetables linking_records) r =
     returns (assert_stats dids targetables linking_records) (lr_get_stats r)"

fun pushed :: "TestStep \<Rightarrow> (ActionableEvent \<Rightarrow> u64 \<Rightarrow> 's \<Rightarrow> panic + 's) \<Rightarrow> 's \<Rightarrow> panic + 's" where
  "pushed (Push ev cursor) push s = push ev cursor s"
| "pushed _ push s = Inr s"

text \<open>A test passes when every push succeeds and every assertion holds.\<close>

fun run_test :: "(ActionableEvent \<Rightarrow> u64 \<Rightarrow> 's \<Rightarrow> panic + 's) \<Rightarrow> ('s \<Rightarrow> LinkReader) \<Rightarrow> TestStep list \<Rightarrow> 's \<Rightarrow> bool" where
  "run_test push reader [] s = True"
| "run_test push reader (st # steps) s =
     (case pushed st push s of
        Inl _ \<Rightarrow> False
      | Inr s' \<Rightarrow> check_step st (reader s') \<and> run_test push reader steps s')"

definition live_keys :: "RocksDB \<Rightarrow> u64 option" where
  "live_keys db = Some (of_nat (length (db_link_targets db)))"

definition test_each_storage :: "TestStep list \<Rightarrow> bool" where
  "test_each_storage test \<longleftrightarrow>
     run_test mem_push mem_reader test mem_new \<and>
     run_test (rocks_push (\<lambda>_. [])) (rocks_reader (\<lambda>_. []) live_keys) test (rocks_open empty_db)"

section \<open>The tests\<close>

definition test_empty :: "TestStep list" where
  "test_empty =
     [AssertCount '''' '''' '''' 0,
      AssertCount ''a'' ''b'' ''c'' 0,
      AssertCount ''at://did:plc:b3rzzkblqsxhr3dgcueymkqe/app.bsky.feed.post/3lf6yc4drhk2f'' ''app.t.c'' ''.reply.parent.uri'' 0,
      AssertDistinctDidCount '''' '''' '''' 0,
      AssertLinks ''a.com'' ''app.t.c'' ''.abc.uri'' 100 None (test_page 0 0 [] None 0),
      AssertDistinctDids ''a.com'' ''app.t.c'' ''.abc.uri'' 100 None (test_page 0 0 [] None 0),
      AssertAllCounts ''bad-example.com'' [],
      AssertAllRecordCounts ''bad-example.com'' [],
      AssertStats (0, 0) (0, 0) (0, 0)]"

definition test_add_link :: "TestStep list" where
  "test_add_link =
     [Push (CreateLinks (test_record ''did:plc:asdf'' ''app.t.c'' ''fdsa'') [test_link ''e.com'' ''.abc.uri'']) 0,
      AssertCount ''e.com'' ''app.t.c'' ''.abc.uri'' 1,
      AssertDistinctDidCount ''e.com'' ''app.t.c'' ''.abc.uri'' 1,
      AssertCount ''bad.com'' ''app.t.c'' ''.abc.uri'' 0,
      AssertCount ''e.com'' ''app.t.c'' ''.bad.uri'' 0,
      AssertDistinctDidCount ''e.com'' ''app.t.c'' ''.bad.uri'' 0,
      AssertStats (1, 1) (1, 1) (1, 1)]"

definition test_links :: "TestStep list" where
  "test_links =
     [Push (CreateLinks (test_record ''did:plc:asdf'' ''app.t.c'' ''fdsa'') [test_link ''e.com'' ''.abc.uri'']) 0,
      Push (DeleteRecord (test_record ''did:plc:asdf'' ''app.test.wrongcollection'' ''fdsa'')) 0,
      AssertCount ''e.com'' ''app.t.c'' ''.abc.uri'' 1,
      Push (DeleteRecord (test_record ''did:plc:asdf'' ''app.t.c'' ''wrongkey'')) 0,
      AssertCount ''e.com'' ''app.t.c'' ''.abc.uri'' 1,
      Push (DeleteRecord (test_record ''did:plc:asdf'' ''app.t.c'' ''fdsa'')) 0,
      AssertCount ''e.com'' ''app.t.c'' ''.abc.uri'' 0,
      Push (CreateLinks (test_record ''did:plc:asdf'' ''app.t.c'' ''fdsa'') [test_link ''e.com'' ''.abc.uri'']) 0,
      AssertCount ''e.com'' ''app.t.c'' ''.abc.uri'' 1,
      AssertDistinctDidCount ''e.com'' ''app.t.c'' ''.abc.uri'' 1,
      Push (CreateLinks (test_record ''did:plc:asdf'' ''app.t.c'' ''fdsa2'') [test_link ''e.com'' ''.abc.uri'']) 0,
      AssertCount ''e.com'' ''app.t.c'' ''.abc.uri'' 2,
      AssertDistinctDidCount ''e.com'' ''app.t.c'' ''.abc.uri'' 1,
      Push (CreateLinks (test_record ''did:plc:asdfasdf'' ''app.t.c'' ''fdsa'') [test_link ''e.com'' ''.abc.uri'']) 0,
      AssertCount ''e.com'' ''app.t.c'' ''.abc.uri'' 3,
      AssertDistinctDidCount ''e.com'' ''app.t.c'' ''.abc.uri'' 2,
      Push (DeleteRecord (test_record ''did:plc:asdf'' ''app.t.c'' ''fdsa'')) 0,
      AssertCount ''e.com'' ''app.t.c'' ''.abc.uri'' 2,
      AssertDistinctDidCount ''e.com'' ''app.t.c'' ''.abc.uri'' 2,
      AssertStats (2, 2) (1, 1) (2, 2)]"

definition test_two_user_links_delete_one :: "TestStep list" where
  "test_two_user_links_delete_one =
     [Push (CreateLinks (test_record ''did:plc:asdf'' ''app.t.c'' ''A'') [test_link ''e.com'' ''.abc.uri'']) 0,
      AssertCount ''e.com'' ''app.t.c'' ''.abc.uri'' 1,
      AssertDistinctDidCount ''e.com'' ''app.t.c'' ''.abc.uri'' 1,
      Push (CreateLinks (test_record ''did:plc:asdf'' ''app.t.c'' ''B'') [test_link ''e.com'' ''.abc.uri'']) 0,
      AssertCount ''e.com'' ''app.t.c'' ''.abc.uri'' 2,
      AssertDistinctDidCount ''e.com'' ''app.t.c'' ''.abc.uri'' 1,
      Push (DeleteRecord (test_record ''did:plc:asdf'' ''app.t.c'' ''A'')) 0,
      AssertCount ''e.com'' ''app.t.c'' ''.abc.uri'' 1,
      AssertDistinctDidCount ''e.com'' ''app.t.c'' ''.abc.uri'' 1,
      AssertStats (1, 1) (1, 1) (1, 1)]"

definition test_accounts :: "TestStep list" where
  "test_accounts =
     [Push (CreateLinks (test_record ''did:plc:asdf'' ''app.t.c'' ''A'') [test_link ''a.com'' ''.abc.uri'']) 0,
      Push (CreateLinks (test_record ''did:plc:asdf'' ''app.t.c'' ''B'') [test_link ''b.com'' ''.abc.uri'']) 0,
      AssertCount ''a.com'' ''app.t.c'' ''.abc.uri'' 1,
      AssertCount ''b.com'' ''app.t.c'' ''.abc.uri'' 1,
      Push (CreateLinks (test_record ''did:plc:fdsa'' ''app.t.c'' ''A'') [test_link ''a.com'' ''.abc.uri'']) 0,
      AssertCount ''a.com'' ''app.t.c'' ''.abc.uri'' 2,
      Push (DeleteAccount (Did ''did:plc:asdf'')) 0,
      AssertCount ''a.com'' ''app.t.c'' ''.abc.uri'' 1,
      AssertCount ''b.com'' ''app.t.c'' ''.abc.uri'' 0,
      AssertStats (1, 2) (2, 2) (1, 1)]"

definition test_multi_link :: "TestStep list" where
  "test_multi_link =
     [Push (CreateLinks (test_record ''did:plc:asdf'' ''app.t.c'' ''fdsa'') [test_link ''e.com'' ''.abc.uri'', test_link ''f.com'' ''.xyz[].uri'', test_link ''g.com'' ''.xyz[].uri'']) 0,
      AssertCount ''e.com'' ''app.t.c'' ''.abc.uri'' 1,
      AssertDistinctDidCount ''e.com'' ''app.t.c'' ''.abc.uri'' 1,
      AssertCount ''f.com'' ''app.t.c'' ''.xyz[].uri'' 1,
      AssertDistinctDidCount ''f.com'' ''app.t.c'' ''.xyz[].uri'' 1,
      AssertCount ''g.com'' ''app.t.c'' ''.xyz[].uri'' 1,
      AssertDistinctDidCount ''g.com'' ''app.t.c'' ''.xyz[].uri'' 1,
      Push (DeleteRecord (test_record ''did:plc:asdf'' ''app.t.c'' ''fdsa'')) 0,
      AssertCount ''e.com'' ''app.t.c'' ''.abc.uri'' 0,
      AssertDistinctDidCount ''e.com'' ''app.t.c'' ''.abc.uri'' 0,
      AssertCount ''f.com'' ''app.t.c'' ''.xyz[].uri'' 0,
      AssertCount ''g.com'' ''app.t.c'' ''.xyz[].uri'' 0,
      AssertStats (1, 1) (3, 3) (0, 0)]"

definition test_update_link :: "TestStep list" where
  "test_update_link =
     [Push (CreateLinks (test_record ''did:plc:asdf'' ''app.t.c'' ''fdsa'') [test_link ''e.com'' ''.abc.uri'', test_link ''f.com'' ''.xyz[].uri'', test_link ''g.com'' ''.xyz[].uri'']) 0,
      AssertCount ''e.com'' ''app.t.c'' ''.abc.uri'' 1,
      AssertCount ''f.com'' ''app.t.c'' ''.xyz[].uri'' 1,
      AssertCount ''g.com'' ''app.t.c'' ''.xyz[].uri'' 1,
      Push (UpdateLinks (test_record ''did:plc:asdf'' ''app.t.c'' ''fdsa'') [test_link ''h.com'' ''.abc.uri'', test_link ''f.com'' ''.xyz[].uri'', test_link ''i.com'' ''.xyz[].uri'']) 0,
      AssertCount ''e.com'' ''app.t.c'' ''.abc.uri'' 0,
      AssertCount ''h.com'' ''app.t.c'' ''.abc.uri'' 1,
      AssertCount ''f.com'' ''app.t.c'' ''.xyz[].uri'' 1,
      AssertCount ''g.com'' ''app.t.c'' ''.xyz[].uri'' 0,
      AssertCount ''i.com'' ''app.t.c'' ''.xyz[].uri'' 1,
      AssertStats (1, 1) (5, 5) (1, 1)]"

definition test_update_no_links_to_links :: "TestStep list" where
  "test_update_no_links_to_links =
     [Push (UpdateLinks (test_record ''did:plc:asdf'' ''app.t.c'' ''asdf'') [test_link ''a.com'' ''.abc.uri'']) 0,
      AssertCount ''a.com'' ''app.t.c'' ''.abc.uri'' 1,
      AssertStats (1, 1) (1, 1) (1, 1)]"

definition test_delete_multi_link_same_target :: "TestStep list" where
  "test_delete_multi_link_same_target =
     [Push (CreateLinks (test_record ''did:plc:asdf'' ''app.t.c'' ''asdf'') [test_link ''a.com'' ''.abc.uri'', test_link ''a.com'' ''.def.uri'']) 0,
      AssertCount ''a.com'' ''app.t.c'' ''.abc.uri'' 1,
      AssertCount ''a.com'' ''app.t.c'' ''.def.uri'' 1,
      Push (DeleteRecord (test_record ''did:plc:asdf'' ''app.t.c'' ''asdf'')) 0,
      AssertCount ''a.com'' ''app.t.c'' ''.abc.uri'' 0,
      AssertCount ''a.com'' ''app.t.c'' ''.def.uri'' 0,
      AssertStats (1, 1) (2, 2) (0, 0)]"

definition test_get_links_basic :: "TestStep list" where
  "test_get_links_basic =
     [Push (CreateLinks (test_record ''did:plc:asdf'' ''app.t.c'' ''asdf'') [test_link ''a.com'' ''.abc.uri'']) 0,
      AssertLinks ''a.com'' ''app.t.c'' ''.abc.uri'' 100 None (test_page 1 0 [test_record ''did:plc:asdf'' ''app.t.c'' ''asdf''] None 1),
      AssertDistinctDids ''a.com'' ''app.t.c'' ''.abc.uri'' 100 None (test_page 1 0 [Did ''did:plc:asdf''] None 1),
      AssertStats (1, 1) (1, 1) (1, 1)]"

definition test_get_links_paged :: "TestStep list" where
  "test_get_links_paged =
     map (\<lambda>i. Push (CreateLinks (test_record (''did:plc:asdf-'' @ decimal i) ''app.t.c'' ''asdf'') [test_link ''a.com'' ''.abc.uri'']) 0) [1..<6] @
     [AssertLinks ''a.com'' ''app.t.c'' ''.abc.uri'' 2 None (test_page 5 0 [test_record ''did:plc:asdf-5'' ''app.t.c'' ''asdf'', test_record ''did:plc:asdf-4'' ''app.t.c'' ''asdf''] (Some 3) 5),
      AssertDistinctDids ''a.com'' ''app.t.c'' ''.abc.uri'' 2 None (test_page 5 0 [Did ''did:plc:asdf-5'', Did ''did:plc:asdf-4''] (Some 3) 5),
      AssertLinks ''a.com'' ''app.t.c'' ''.abc.uri'' 2 (Some 3) (test_page 5 0 [test_record ''did:plc:asdf-3'' ''app.t.c'' ''asdf'', test_record ''did:plc:asdf-2'' ''app.t.c'' ''asdf''] (Some 1) 5),
      AssertDistinctDids ''a.com'' ''app.t.c'' ''.abc.uri'' 2 (Some 3) (test_page 5 0 [Did ''did:plc:asdf-3'', Did ''did:plc:asdf-2''] (Some 1) 5),
      AssertLinks ''a.com'' ''app.t.c'' ''.abc.uri'' 2 (Some 1) (test_page 5 0 [test_record ''did:plc:asdf-1'' ''app.t.c'' ''asdf''] None 5),
      AssertDistinctDids ''a.com'' ''app.t.c'' ''.abc.uri'' 2 (Some 1) (test_page 5 0 [Did ''did:plc:asdf-1''] None 5),
      AssertStats (5, 5) (1, 1) (5, 5)]"

definition test_get_links_exact_multiple :: "TestStep list" where
  "test_get_links_exact_multiple =
     map (\<lambda>i. Push (CreateLinks (test_record (''did:plc:asdf-'' @ decimal i) ''app.t.c'' ''asdf'') [test_link ''a.com'' ''.abc.uri'']) 0) [1..<5] @
     [AssertLinks ''a.com'' ''app.t.c'' ''.abc.uri'' 2 None (test_page 4 0 [test_record ''did:plc:asdf-4'' ''app.t.c'' ''asdf'', test_record ''did:plc:asdf-3'' ''app.t.c'' ''asdf''] (Some 2) 4),
      AssertLinks ''a.com'' ''app.t.c'' ''.abc.uri'' 2 (Some 2) (test_page 4 0 [test_record ''did:plc:asdf-2'' ''app.t.c'' ''asdf'', test_record ''did:plc:asdf-1'' ''app.t.c'' ''asdf''] None 4),
      AssertStats (4, 4) (1, 1) (4, 4)]"

definition test_page_links_while_new_links_arrive :: "TestStep list" where
  "test_page_links_while_new_links_arrive =
     map (\<lambda>i. Push (CreateLinks (test_record (''did:plc:asdf-'' @ decimal i) ''app.t.c'' ''asdf'') [test_link ''a.com'' ''.abc.uri'']) 0) [1..<5] @
     [AssertLinks ''a.com'' ''app.t.c'' ''.abc.uri'' 2 None (test_page 4 0 [test_record ''did:plc:asdf-4'' ''app.t.c'' ''asdf'', test_record ''did:plc:asdf-3'' ''app.t.c'' ''asdf''] (Some 2) 4),
      Push (CreateLinks (test_record ''did:plc:asdf-5'' ''app.t.c'' ''asdf'') [test_link ''a.com'' ''.abc.uri'']) 0,
      AssertLinks ''a.com'' ''app.t.c'' ''.abc.uri'' 2 (Some 2) (test_page 5 0 [test_record ''did:plc:asdf-2'' ''app.t.c'' ''asdf'', test_record ''did:plc:asdf-1'' ''app.t.c'' ''asdf''] None 5),
      AssertStats (5, 5) (1, 1) (5, 5)]"

definition test_page_links_while_some_are_deleted :: "TestStep list" where
  "test_page_links_while_some_are_deleted =
     map (\<lambda>i. Push (CreateLinks (test_record (''did:plc:asdf-'' @ decimal i) ''app.t.c'' ''asdf'') [test_link ''a.com'' ''.abc.uri'']) 0) [1..<5] @
     [AssertLinks ''a.com'' ''app.t.c'' ''.abc.uri'' 2 None (test_page 4 0 [test_record ''did:plc:asdf-4'' ''app.t.c'' ''asdf'', test_record ''did:plc:asdf-3'' ''app.t.c'' ''asdf''] (Some 2) 4),
      Push (DeleteRecord (test_record ''did:plc:asdf-2'' ''app.t.c'' ''asdf'')) 0,
      AssertLinks ''a.com'' ''app.t.c'' ''.abc.uri'' 2 (Some 2) (test_page 4 1 [test_record ''did:plc:asdf-1'' ''app.t.c'' ''asdf''] None 3),
      AssertStats (4, 4) (1, 1) (3, 3)]"

definition test_page_links_accounts_inactive :: "TestStep list" where
  "test_page_links_accounts_inactive =
     map (\<lambda>i. Push (CreateLinks (test_record (''did:plc:asdf-'' @ decimal i) ''app.t.c'' ''asdf'') [test_link ''a.com'' ''.abc.uri'']) 0) [1..<5] @
     [AssertLinks ''a.com'' ''app.t.c'' ''.abc.uri'' 2 None (test_page 4 0 [test_record ''did:plc:asdf-4'' ''app.t.c'' ''asdf'', test_record ''did:plc:asdf-3'' ''app.t.c'' ''asdf''] (Some 2) 4),
      Push (DeactivateAccount (Did ''did:plc:asdf-1'')) 0,
      AssertLinks ''a.com'' ''app.t.c'' ''.abc.uri'' 2 (Some 2) (test_page 4 0 [test_record ''did:plc:asdf-2'' ''app.t.c'' ''asdf''] None 4),
      AssertStats (4, 4) (1, 1) (4, 4)]"

definition test_get_all_counts :: "TestStep list" where
  "test_get_all_counts =
     [Push (CreateLinks (test_record ''did:plc:asdf'' ''app.t.c'' ''asdf'') [test_link ''a.com'' ''.abc.uri'', test_link ''a.com'' ''.def.uri'']) 0,
      AssertAllRecordCounts ''a.com'' [(''app.t.c'', [(''.abc.uri'', 1), (''.def.uri'', 1)])],
      AssertAllCounts ''a.com'' [(''app.t.c'', [(''.abc.uri'', \<lparr>cbc_records = 1, cbc_distinct_dids = 1\<rparr>), (''.def.uri'', \<lparr>cbc_records = 1, cbc_distinct_dids = 1\<rparr>)])],
      AssertStats (1, 1) (2, 2) (1, 1)]"

definition storage_tests :: "TestStep list list" where
  "storage_tests =
     [test_empty,
      test_add_link,
      test_links,
      test_two_user_links_delete_one,
      test_accounts,
      test_multi_link,
      test_update_link,
      test_update_no_links_to_links,
      test_delete_multi_link_same_target,
      test_get_links_basic,
      test_get_links_paged,
      test_get_links_exact_multiple,
      test_page_links_while_new_links_arrive,
      test_page_links_while_some_are_deleted,
      test_page_links_accounts_inactive,
      test_get_all_counts]"

text \<open>
  The test of the disk store alone (\<open>rocks_store.rs\<close>): deleting the first account must not run into the
  entries of the second.  And the test of the binary: an event, as it comes, counted.
\<close>

definition rocks_delete_iterator_regression :: bool where
  "rocks_delete_iterator_regression =
     run_test (rocks_push (\<lambda>_. [])) (rocks_reader (\<lambda>_. []) live_keys)
       [Push (CreateLinks (test_record ''did:plc:will-shortly-delete'' ''a.b.c'' ''asdf'') [test_link ''example.com'' ''.uri'']) 0,
        Push (CreateLinks (test_record ''did:plc:someone-else'' ''a.b.c'' ''asdf'') [test_link ''another.example.com'' ''.uri'']) 0,
        Push (DeleteAccount (Did ''did:plc:will-shortly-delete'')) 0]
       (rocks_open empty_db)"

definition test_create_like_integrated :: bool where
  "test_create_like_integrated =
     (case get_actionable test_parse create_like of
        None \<Rightarrow> False
      | Some (action, ts) \<Rightarrow>
          (case mem_push action ts mem_new of
             Inl _ \<Rightarrow> False
           | Inr s \<Rightarrow>
               returns (\<lambda>n. n = 1) (lr_get_count (mem_reader s)
                 ''at://did:plc:lphckw3dz4mnh3ogmfpdgt6z/app.bsky.feed.post/3lfdau5f7wk23'' ''app.bsky.feed.like'' ''.subject.uri'')))"

section \<open>They pass\<close>

lemma test_empty_passes: "test_each_storage test_empty"
  by code_simp

lemma test_add_link_passes: "test_each_storage test_add_link"
  by code_simp

lemma test_links_passes: "test_each_storage test_links"
  by code_simp

lemma test_two_user_links_delete_one_passes: "test_each_storage test_two_user_links_delete_one"
  by code_simp

lemma test_accounts_passes: "test_each_storage test_accounts"
  by code_simp

lemma test_multi_link_passes: "test_each_storage test_multi_link"
  by code_simp

lemma test_update_link_passes: "test_each_storage test_update_link"
  by code_simp

lemma test_update_no_links_to_links_passes: "test_each_storage test_update_no_links_to_links"
  by code_simp

lemma test_delete_multi_link_same_target_passes: "test_each_storage test_delete_multi_link_same_target"
  by code_simp

lemma test_get_links_basic_passes: "test_each_storage test_get_links_basic"
  by code_simp

lemma test_get_links_paged_passes: "test_each_storage test_get_links_paged"
  by code_simp

lemma test_get_links_exact_multiple_passes: "test_each_storage test_get_links_exact_multiple"
  by code_simp

lemma test_page_links_while_new_links_arrive_passes: "test_each_storage test_page_links_while_new_links_arrive"
  by code_simp

lemma test_page_links_while_some_are_deleted_passes: "test_each_storage test_page_links_while_some_are_deleted"
  by code_simp

lemma test_page_links_accounts_inactive_passes: "test_each_storage test_page_links_accounts_inactive"
  by code_simp

lemma test_get_all_counts_passes: "test_each_storage test_get_all_counts"
  by code_simp

theorem storage_tests_pass: "list_all test_each_storage storage_tests"
  by (simp add: storage_tests_def test_empty_passes
    test_add_link_passes
    test_links_passes
    test_two_user_links_delete_one_passes
    test_accounts_passes
    test_multi_link_passes
    test_update_link_passes
    test_update_no_links_to_links_passes
    test_delete_multi_link_same_target_passes
    test_get_links_basic_passes
    test_get_links_paged_passes
    test_get_links_exact_multiple_passes
    test_page_links_while_new_links_arrive_passes
    test_page_links_while_some_are_deleted_passes
    test_page_links_accounts_inactive_passes
    test_get_all_counts_passes)

theorem single_tests_pass: "rocks_delete_iterator_regression \<and> test_create_like_integrated"
  by code_simp

end
