(* ===== verification/Store_Tests.thy ===== *)
theory Store_Tests
  imports Ufos_Batch_Props Store_Types
begin

text \<open>
  The tests of the encodings (\<open>ufos/src/db_types.rs\<close>), of cursors and buckets (\<open>store_types.rs\<close>) and of the
  batches (\<open>lib.rs\<close>), run on the definitions.  A test is a truth value that holds when it passes; a
  table of cases is a list.  The test of encoded sketches is about third-party code and is left out.
\<close>

section \<open>db_types.rs\<close>

text \<open>What \<open>to_db_bytes\<close> writes, \<open>from_db_bytes\<close> restores, and it consumes all of it.\<close>

definition restores :: "'a encoder \<Rightarrow> 'a decoder \<Rightarrow> 'a \<Rightarrow> bool" where
  "restores enc dec original =
     (case enc original of
        Inl _ \<Rightarrow> False
      | Inr serialized \<Rightarrow>
          (case dec serialized of
             Inl _ \<Rightarrow> False
           | Inr (restored, bytes_consumed) \<Rightarrow> restored = original \<and> bytes_consumed = length serialized))"

definition serializes :: "(bytes \<Rightarrow> bool) \<Rightarrow> 'a encoder \<Rightarrow> 'a \<Rightarrow> bool" where
  "serializes P enc original = (case enc original of Inl _ \<Rightarrow> False | Inr serialized \<Rightarrow> P serialized)"

definition db_test_db_empty :: bool where
  "db_test_db_empty \<longleftrightarrow>
     serializes (\<lambda>b. length b = 0) empty_to_db_bytes () \<and> restores empty_to_db_bytes empty_from_db_bytes ()"

definition db_test_string_roundtrip :: bool where
  "db_test_string_roundtrip \<longleftrightarrow>
     list_all (restores string_to_db_bytes string_from_db_bytes)
       ['''', ''a'', ''asdf asdf asdf even '' @ [CHR 0xC2, CHR 0xB5] @ ''nicode'']"

definition db_test_string_serialized_lexicographic_sort :: bool where
  "db_test_string_serialized_lexicographic_sort \<longleftrightarrow>
     serializes (\<lambda>aa. serializes (\<lambda>b. b > aa) string_to_db_bytes ''b'') string_to_db_bytes ''aa''"

definition can_prefix :: "string encoder \<Rightarrow> string \<times> string \<times> bool \<Rightarrow> bool" where
  "can_prefix enc =
     (\<lambda>(s, pre, is_pre). serializes (\<lambda>serialized. serializes (\<lambda>prefixed. starts_with serialized prefixed = is_pre) string_sub_prefix pre) enc s)"

definition db_test_nullstring_can_prefix :: bool where
  "db_test_nullstring_can_prefix \<longleftrightarrow>
     list_all (can_prefix string_to_db_bytes)
       [('''', '''', True),
        ('''', ''a'', False),
        (''a'', '''', True),
        (''a'', ''a'', True),
        (''a'', ''b'', False),
        (''ab'', ''a'', True),
        (''ab'', ''b'', False)]"

definition db_test_nsid_can_prefix :: bool where
  "db_test_nsid_can_prefix \<longleftrightarrow>
     list_all (can_prefix nsid_to_db_bytes)
       [(''ab.cd.ef'', '''', True),
        (''ab.cd.ef'', ''a'', True),
        (''ab.cd.ef'', ''abc'', False),
        (''ab.cd.ef'', ''ab'', True),
        (''ab.cd.ef'', ''ab.cd'', True),
        (''ab.cd.ef'', ''ab.cd.ef'', True),
        (''ab.cd.ef'', ''ab.cd.ef.g'', False)]"

definition db_test_string_cursor_prefix_roundtrip :: bool where
  "db_test_string_cursor_prefix_roundtrip \<longleftrightarrow>
     list_all
       (restores (concat_to_db_bytes string_to_db_bytes cursor_to_db_bytes)
          (concat_from_db_bytes string_from_db_bytes cursor_from_db_bytes))
       [('''', 0), (''aaa'', 0), ('''', 1234), (''aaaaa'', 789)]"

definition db_test_cursor_string_prefix_roundtrip :: bool where
  "db_test_cursor_string_prefix_roundtrip \<longleftrightarrow>
     list_all
       (restores (concat_to_db_bytes cursor_to_db_bytes string_to_db_bytes)
          (concat_from_db_bytes cursor_from_db_bytes string_from_db_bytes))
       [(0, ''''), (0, ''aaa''), (1234, ''''), (789, ''aaaaa'')]"

definition db_test_static_str :: bool where
  "db_test_static_str \<longleftrightarrow>
     restores (static_to_db_bytes ''a static str'') (static_from_db_bytes ''a static str'') () \<and>
     serializes (\<lambda>b. starts_with b ''a static str'') (static_to_db_bytes ''a static str'') ()"

definition db_test_static_str_empty :: bool where
  "db_test_static_str_empty \<longleftrightarrow>
     restores (static_to_db_bytes '''') (static_from_db_bytes '''') () \<and>
     serializes (\<lambda>b. b = [NUL]) (static_to_db_bytes '''') ()"

definition db_test_static_prefix :: bool where
  "db_test_static_prefix =
     (let enc = concat_to_db_bytes (static_to_db_bytes ''a static prefix'') cursor_to_db_bytes;
          dec = concat_from_db_bytes (static_from_db_bytes ''a static prefix'') cursor_from_db_bytes;
          original = ((), 123)
      in restores enc dec original \<and>
         serializes (\<lambda>b. (case dec b of Inr ((_, suffix), _) \<Rightarrow> suffix = 123 | Inl _ \<Rightarrow> False)) enc original \<and>
         serializes (\<lambda>b. starts_with b ''a static prefix'') enc original)"

theorem db_tests_pass:
  "db_test_db_empty \<and> db_test_string_roundtrip \<and> db_test_string_serialized_lexicographic_sort \<and>
   db_test_nullstring_can_prefix \<and> db_test_nsid_can_prefix \<and> db_test_string_cursor_prefix_roundtrip \<and>
   db_test_cursor_string_prefix_roundtrip \<and> db_test_static_str \<and> db_test_static_str_empty \<and> db_test_static_prefix"
  by code_simp

section \<open>store_types.rs\<close>

definition store_test_by_hourly_rollup_key :: bool where
  "store_test_by_hourly_rollup_key =
     (let original = rollup_new (truncate_u64 HOUR_IN_MICROS 4567890) ''ab.cd.efg''
      in restores (rollup_enc ''hourly_counts'') (rollup_dec (\<lambda>_. True) ''hourly_counts'' HOUR_IN_MICROS) original \<and>
         serializes (\<lambda>b. starts_with b ''hourly_counts'' \<and> starts_with b b) (rollup_prefix_enc ''hourly_counts'') (fst original))"

definition store_test_hour_truncated_cursor :: bool where
  "store_test_hour_truncated_cursor =
     (let us = 1743778483483895; back = truncate_u64 HOUR_IN_MICROS us
      in back < us \<and> us - back < HOUR_IN_MICROS)"

definition store_test_hour_truncated_cursor_already_truncated :: bool where
  "store_test_hour_truncated_cursor_already_truncated =
     (let us = 1743775200000000; back = truncate_u64 HOUR_IN_MICROS us
      in back = us \<and> us - back = 0)"

definition store_test_spanning_nothing :: bool where
  "store_test_spanning_nothing =
     (let since = truncate_u64 HOUR_IN_MICROS 1743775200000000
      in buckets_spanning since (truncate_u64 HOUR_IN_MICROS 1743775200000000) = Some (Inr []) \<and>
         buckets_spanning since (truncate_u64 HOUR_IN_MICROS 0) = Some (Inr []))"

definition store_test_spanning_low_hours :: bool where
  "store_test_spanning_low_hours =
     (let since = truncate_u64 HOUR_IN_MICROS cursor_from_start;
          until = trunc_next HOUR_IN_MICROS since;
          until2 = trunc_next HOUR_IN_MICROS until;
          until3 = trunc_next HOUR_IN_MICROS until2
      in buckets_spanning since until = Some (Inr [Hour since]) \<and>
         buckets_spanning since until3 = Some (Inr [Hour since, Hour until, Hour until2]))"

text \<open>\<open>try_as().unwrap()\<close> of a cursor.\<close>

definition week_bucket :: "u64 \<Rightarrow> CursorBucket option" where
  "week_bucket c = (case try_from_raw_u64 WEEK_IN_MICROS c of Inr w \<Rightarrow> Some (Week w) | Inl _ \<Rightarrow> None)"

definition store_test_spanning_week_aligned :: bool where
  "store_test_spanning_week_aligned =
     (let since = truncate_u64 HOUR_IN_MICROS cursor_from_start;
          until = truncate_u64 HOUR_IN_MICROS WEEK_IN_MICROS;
          next_hour = trunc_next HOUR_IN_MICROS until
      in case week_bucket since of
           None \<Rightarrow> False
         | Some week \<Rightarrow>
             buckets_spanning since until = Some (Inr [week]) \<and>
             buckets_spanning since next_hour = Some (Inr [week, Hour until]))"

definition store_test_spanning_week_unaligned :: bool where
  "store_test_spanning_week_unaligned =
     (let since = truncate_u64 HOUR_IN_MICROS (WEEK_IN_MICROS - HOUR_IN_MICROS);
          until = truncate_u64 HOUR_IN_MICROS (since + WEEK_IN_MICROS);
          until2 = trunc_next HOUR_IN_MICROS until
      in (case buckets_spanning since until of
            Some (Inr span) \<Rightarrow> length span = 168 \<and> list_all (\<lambda>b. case b of Hour _ \<Rightarrow> True | _ \<Rightarrow> False) span
          | _ \<Rightarrow> False) \<and>
         (case week_bucket (trunc_next HOUR_IN_MICROS since) of
            None \<Rightarrow> False
          | Some week \<Rightarrow> buckets_spanning since until2 = Some (Inr [Hour since, week])))"

declare bucket_loop.simps [code]

theorem store_tests_pass:
  "store_test_by_hourly_rollup_key \<and> store_test_hour_truncated_cursor \<and> store_test_hour_truncated_cursor_already_truncated \<and>
   store_test_spanning_nothing \<and> store_test_spanning_low_hours \<and> store_test_spanning_week_aligned \<and>
   store_test_spanning_week_unaligned"
  by code_simp

section \<open>lib.rs\<close>

text \<open>A commit of the tests, and inserts into a new \<open>CollectionCommits<2>\<close> that all succeed.\<close>

definition whatever_commit :: "Cursor \<Rightarrow> string \<Rightarrow> string \<Rightarrow> CommitAction \<Rightarrow> UFOsCommit" where
  "whatever_commit cursor rkey r action =
     \<lparr>uc_cursor = cursor, uc_did = ''did:plc:whatever'', uc_rkey = rkey, uc_rev = r, uc_action = action\<rparr>"

primrec insert_all :: "UFOsCommit list \<Rightarrow> string list CollectionCommits \<Rightarrow> string list CollectionCommits option" where
  "insert_all [] cc = Some cc"
| "insert_all (c # cs) cc =
     (case truncating_insert ex_sketch 2 c cc of Some (None, cc') \<Rightarrow> insert_all cs cc' | _ \<Rightarrow> None)"

definition found_rev :: "string \<Rightarrow> string list CollectionCommits \<Rightarrow> bool" where
  "found_rev r cc = list_ex (\<lambda>c. uc_rev c = r) (cc_commits cc)"

definition dids_counted :: "string list CollectionCommits \<Rightarrow> nat" where
  "dids_counted cc = sk_estimate ex_sketch (cc_dids_estimate cc)"

definition batch_test_truncates :: bool where
  "batch_test_truncates =
     (case insert_all
        [whatever_commit 100 ''rkey-asdf-a'' ''rev-asdf'' (Put ''{}'' False),
         whatever_commit 101 ''rkey-asdf-b'' ''rev-asdg'' (Put ''{}'' False),
         whatever_commit 102 ''rkey-asdf-c'' ''rev-asdh'' (Put ''{}'' False)] (cc_default ex_sketch) of
        None \<Rightarrow> False
      | Some commits \<Rightarrow>
          cc_creates commits = 3 \<and> dids_counted commits = 1 \<and> length (cc_commits commits) = 2 \<and>
          \<not> found_rev ''rev-asdf'' commits \<and> found_rev ''rev-asdh'' commits)"

definition batch_test_counts_updates :: bool where
  "batch_test_counts_updates =
     (case insert_all [whatever_commit 100 ''rkey-asdf-a'' ''rev-asdf'' (Put ''{}'' True)] (cc_default ex_sketch) of
        None \<Rightarrow> False
      | Some commits \<Rightarrow>
          cc_creates commits = 0 \<and> cc_updates commits = 1 \<and> cc_deletes commits = 0 \<and> dids_counted commits = 1 \<and>
          length (cc_commits commits) = 1)"

definition batch_test_does_not_truncate_deletes :: bool where
  "batch_test_does_not_truncate_deletes =
     (case insert_all
        [whatever_commit 100 ''rkey-asdf-a'' ''rev-asdf'' Cut,
         whatever_commit 101 ''rkey-asdf-b'' ''rev-asdg'' (Put ''{}'' False),
         whatever_commit 102 ''rkey-asdf-c'' ''rev-asdh'' (Put ''{}'' False)] (cc_default ex_sketch) of
        None \<Rightarrow> False
      | Some commits \<Rightarrow>
          cc_creates commits = 2 \<and> cc_deletes commits = 1 \<and> dids_counted commits = 1 \<and> length (cc_commits commits) = 2 \<and>
          \<not> found_rev ''rev-asdg'' commits \<and> found_rev ''rev-asdh'' commits \<and>
          list_ex (\<lambda>c. uc_action c = Cut) (cc_commits commits))"

definition batch_test_maxes_out_deletes :: bool where
  "batch_test_maxes_out_deletes =
     (case insert_all
        [whatever_commit 100 ''rkey-asdf-a'' ''rev-asdf'' Cut,
         whatever_commit 80 ''rkey-asdf-zzz'' ''rev-asdzzz'' (Put ''{}'' False),
         whatever_commit 101 ''rkey-asdf-b'' ''rev-asdg'' Cut] (cc_default ex_sketch) of
        None \<Rightarrow> False
      | Some commits \<Rightarrow>
          (case truncating_insert ex_sketch 2 (whatever_commit 102 ''rkey-asdf-c'' ''rev-asdh'' Cut) commits of
             Some (Some (BatchFull overflowed), _) \<Rightarrow> uc_rev overflowed = ''rev-asdh''
           | _ \<Rightarrow> False))"

declare displace.simps [code]

theorem batch_tests_pass:
  "batch_test_truncates \<and> batch_test_counts_updates \<and> batch_test_does_not_truncate_deletes \<and> batch_test_maxes_out_deletes"
  by code_simp

end
