(* ===== verification/Ufos_Tests.thy ===== *)
theory Ufos_Tests
  imports Ufos_Api
begin

text \<open>
  The test-suite of the fjall storage (\<open>ufos/src/storage_fjall.rs\<close>), run on the definitions.  A test is
  the list of its steps on a database that was just initialised: batches written through \<open>TestBatch\<close>,
  turns of the background task, and what the reader is asserted to return.

  The clock of a test stands two weeks after the unix epoch, the cursors of its events in the first
  hour; dids are counted by a list of them.
\<close>

section \<open>The harness\<close>

abbreviation TEST_BATCH_LIMIT :: nat where "TEST_BATCH_LIMIT \<equiv> 16"

definition test_now :: Cursor where "test_now = 2 * WEEK_IN_MICROS"

definition beginning :: u64 where "beginning = hour_trunc cursor_from_start"

type_synonym test_db = "string list FjallDb"

definition fjall_db :: "StorageError + test_db" where
  "fjall_db =
     (case fjall_init ''offline test (no real jetstream endpoint)'' False 0 (Some ''secret'') db_empty of
        (Inr _, db) \<Rightarrow> Inr db
      | (Inl e, _) \<Rightarrow> Inl e)"

definition test_commit :: "CommitOp \<Rightarrow> string \<Rightarrow> string \<Rightarrow> string \<Rightarrow> string option \<Rightarrow> string \<Rightarrow> Cursor \<Rightarrow>
    string list EventBatch \<Rightarrow> string list EventBatch option" where
  "test_commit op did collection rkey record r cursor batch =
     (let event = \<lparr>ce_collection = collection, ce_rkey = rkey, ce_rev = r, ce_operation = op, ce_record = record,
            ce_cid = (case record of None \<Rightarrow> None | Some _ \<Rightarrow> Some ''bafyreidofvwoqvd2cnzbun6dkzgfucxh57tirf3ohhde7lsvh4fu3jehgy'')\<rparr>
      in case from_commit_info event did cursor of
           Inl _ \<Rightarrow> None
         | Inr (commit, nsid) \<Rightarrow>
             (let cc = (case hm_get (eb_commits_by_nsid batch) nsid of Some cc \<Rightarrow> cc | None \<Rightarrow> cc_default ex_sketch)
              in case truncating_insert ex_sketch TEST_BATCH_LIMIT commit cc of
                   Some (None, cc') \<Rightarrow> Some (batch\<lparr>eb_commits_by_nsid := hm_insert nsid cc' (eb_commits_by_nsid batch)\<rparr>)
                 | _ \<Rightarrow> None))"

datatype BatchStep =
    TbCreate string string string string string Cursor
  | TbUpdate string string string string string Cursor
  | TbDelete string string string string Cursor
  | TbDeleteAccount string Cursor

fun tb_step :: "BatchStep \<Rightarrow> string list EventBatch \<Rightarrow> string list EventBatch option" where
  "tb_step (TbCreate did collection rkey record r cursor) b = test_commit Create did collection rkey (Some record) r cursor b"
| "tb_step (TbUpdate did collection rkey record r cursor) b = test_commit Update did collection rkey (Some record) r cursor b"
| "tb_step (TbDelete did collection rkey r cursor) b = test_commit Delete did collection rkey None r cursor b"
| "tb_step (TbDeleteAccount did cursor) b =
     Some (b\<lparr>eb_account_removes := eb_account_removes b @ [\<lparr>da_did = did, da_cursor = cursor\<rparr>]\<rparr>)"

primrec test_batch :: "BatchStep list \<Rightarrow> string list EventBatch \<Rightarrow> string list EventBatch option" where
  "test_batch [] b = Some b"
| "test_batch (st # steps) b = (case tb_step st b of None \<Rightarrow> None | Some b' \<Rightarrow> test_batch steps b')"

text \<open>What is asserted of one record that is returned: its text, and its collection and kind where the test looks at them.\<close>

record RecordCheck =
  rc_record :: string
  rc_collection :: "string option"
  rc_is_update :: "bool option"

definition check_record :: "RecordCheck \<Rightarrow> UFOsRecord \<Rightarrow> bool" where
  "check_record c r \<longleftrightarrow> ur_record r = rc_record c \<and>
     (case rc_collection c of None \<Rightarrow> True | Some n \<Rightarrow> ur_collection r = n) \<and>
     (case rc_is_update c of None \<Rightarrow> True | Some b \<Rightarrow> ur_is_update r = b)"

datatype UfosStep =
    InsertBatch "BatchStep list"
  | StepRollup "nat option"
  | TrimCollection string nat bool
  | DeleteAccountNow string nat
  | ExpectCounts string u64 u64
  | ExpectRecords "string list" nat bool nat "(nat \<times> RecordCheck) list"
  | ExpectPrefix string nat u64 u64 "PrefixChild list" "bytes option"

fun ufos_step :: "UfosStep \<Rightarrow> test_db \<Rightarrow> test_db option" where
  "ufos_step (InsertBatch steps) db =
     (case test_batch steps eb_default of
        None \<Rightarrow> None
      | Some b \<Rightarrow> (case insert_batch b db of Inl _ \<Rightarrow> None | Inr db' \<Rightarrow> Some db'))"
| "ufos_step (StepRollup expected) db =
     (case step_rollup ex_sketch db of
        Inl _ \<Rightarrow> None
      | Inr (n, _, db') \<Rightarrow> if expected = None \<or> expected = Some n then Some db' else None)"
| "ufos_step (TrimCollection nsid limit full_scan) db = Some (snd (trim_collection nsid limit full_scan db))"
| "ufos_step (DeleteAccountNow did expected) db =
     (case delete_account did db of (n, db') \<Rightarrow> if n = expected then Some db' else None)"
| "ufos_step (ExpectCounts nsid creates dids) db =
     (case get_collection_counts ex_sketch test_now nsid beginning None db of
        Some (Inr jc) \<Rightarrow> if jc_creates jc = creates \<and> jc_dids_estimate jc = dids then Some db else None
      | _ \<Rightarrow> None)"
| "ufos_step (ExpectRecords nsids limit expand len checks) db =
     (case get_records_by_collections nsids limit expand db of
        Inl _ \<Rightarrow> None
      | Inr rs \<Rightarrow> if length rs = len \<and> list_all (\<lambda>(i, c). check_record c (rs ! i)) checks then Some db else None)"
| "ufos_step (ExpectPrefix prefix limit creates dids children cursor) db =
     (case get_prefix ex_sketch before_last_dot test_now prefix limit (Lexi None) None None db of
        Some (Inr (jc, items, nxt)) \<Rightarrow>
          if jc_creates jc = creates \<and> jc_dids_estimate jc = dids \<and> items = children \<and> nxt = cursor then Some db else None
      | _ \<Rightarrow> None)"

primrec ufos_steps :: "UfosStep list \<Rightarrow> test_db \<Rightarrow> bool" where
  "ufos_steps [] db \<longleftrightarrow> True"
| "ufos_steps (st # steps) db \<longleftrightarrow> (case ufos_step st db of None \<Rightarrow> False | Some db' \<Rightarrow> ufos_steps steps db')"

definition ufos_test :: "UfosStep list \<Rightarrow> bool" where
  "ufos_test steps \<longleftrightarrow> (case fjall_db of Inl _ \<Rightarrow> False | Inr db \<Rightarrow> ufos_steps steps db)"

section \<open>The tests\<close>

definition ufos_test_hello :: "UfosStep list" where
  "ufos_test_hello =
     [InsertBatch [],
      ExpectCounts ''a.b.c'' 0 0]"

definition ufos_test_insert_one :: "UfosStep list" where
  "ufos_test_insert_one =
     [InsertBatch [TbCreate ''did:plc:inze6wrmsm7pjl7yta3oig77'' ''a.b.c'' ''asdf'' ''{}'' ''rev-z'' 100],
      StepRollup None,
      ExpectCounts ''a.b.c'' 1 1,
      ExpectCounts ''d.e.f'' 0 0,
      ExpectRecords [''a.b.c''] 2 False 1 [(0, \<lparr>rc_record = ''{}'', rc_collection = None, rc_is_update = Some False\<rparr>)],
      ExpectRecords [''d.e.f''] 2 False 0 []]"

definition ufos_test_get_multi_collection :: "UfosStep list" where
  "ufos_test_get_multi_collection =
     [InsertBatch [TbCreate ''did:plc:inze6wrmsm7pjl7yta3oig77'' ''a.a.a'' ''aaa'' ''\"earliest\"'' ''rev-a'' 100,
         TbCreate ''did:plc:inze6wrmsm7pjl7yta3oig77'' ''a.a.b'' ''aab'' ''\"in between\"'' ''rev-ab'' 101,
         TbCreate ''did:plc:inze6wrmsm7pjl7yta3oig77'' ''a.a.a'' ''aaa-2'' ''\"last\"'' ''rev-a-2'' 102],
      ExpectRecords [''a.a.a'', ''a.a.b'', ''a.a.c''] 100 False 3 [(0, \<lparr>rc_record = ''\"last\"'', rc_collection = Some ''a.a.a'', rc_is_update = None\<rparr>),
         (1, \<lparr>rc_record = ''\"in between\"'', rc_collection = Some ''a.a.b'', rc_is_update = None\<rparr>),
         (2, \<lparr>rc_record = ''\"earliest\"'', rc_collection = Some ''a.a.a'', rc_is_update = None\<rparr>)]]"

definition ufos_test_get_multi_collection_expanded :: "UfosStep list" where
  "ufos_test_get_multi_collection_expanded =
     [InsertBatch (map (\<lambda>i. TbCreate ''did:plc:inze6wrmsm7pjl7yta3oig77'' ''a.a.b'' (''aab-'' @ decimal i) (''\"b '' @ decimal i @ ''\"'') (''rev-b-'' @ decimal i) (100 + of_nat i)) [1..<4] @ map (\<lambda>i. TbCreate ''did:plc:inze6wrmsm7pjl7yta3oig77'' ''a.a.a'' (''aaa-'' @ decimal i) (''\"a '' @ decimal i @ ''\"'') (''rev-a-'' @ decimal i) (200 + of_nat i)) [1..<4]),
      ExpectRecords [''a.a.a'', ''a.a.b'', ''a.a.c''] 2 True 4 [(0, \<lparr>rc_record = ''\"a 3\"'', rc_collection = Some ''a.a.a'', rc_is_update = None\<rparr>),
         (3, \<lparr>rc_record = ''\"b 2\"'', rc_collection = Some ''a.a.b'', rc_is_update = None\<rparr>)]]"

definition ufos_test_update_one :: "UfosStep list" where
  "ufos_test_update_one =
     [InsertBatch [TbCreate ''did:plc:inze6wrmsm7pjl7yta3oig77'' ''a.b.c'' ''rkey-asdf'' ''{}'' ''rev-a'' 100],
      InsertBatch [TbUpdate ''did:plc:inze6wrmsm7pjl7yta3oig77'' ''a.b.c'' ''rkey-asdf'' ''{\"ch\":  \"ch-ch-ch-changes\"}'' ''rev-z'' 101],
      StepRollup None,
      ExpectCounts ''a.b.c'' 1 1,
      ExpectRecords [''a.b.c''] 2 False 1 [(0, \<lparr>rc_record = ''{\"ch\":  \"ch-ch-ch-changes\"}'', rc_collection = None, rc_is_update = Some True\<rparr>)]]"

definition ufos_test_delete_one :: "UfosStep list" where
  "ufos_test_delete_one =
     [InsertBatch [TbCreate ''did:plc:inze6wrmsm7pjl7yta3oig77'' ''a.b.c'' ''rkey-asdf'' ''{}'' ''rev-a'' 100],
      InsertBatch [TbDelete ''did:plc:inze6wrmsm7pjl7yta3oig77'' ''a.b.c'' ''rkey-asdf'' ''rev-z'' 101],
      StepRollup None,
      ExpectCounts ''a.b.c'' 1 1,
      ExpectRecords [''a.b.c''] 2 False 0 []]"

definition ufos_test_collection_trim :: "UfosStep list" where
  "ufos_test_collection_trim =
     [InsertBatch ([TbCreate ''did:plc:inze6wrmsm7pjl7yta3oig77'' ''a.a.a'' ''rkey-aaa'' ''{}'' ''rev-aaa'' 10000] @ map (\<lambda>i. TbCreate (''did:plc:inze6wrmsm7pjl7yta3oig7'' @ decimal (i mod 3)) ''a.a.b'' (''rkey-bbb-'' @ decimal i) (''{\"n\": '' @ decimal i @ ''}'') (''rev-bbb-'' @ decimal i) (11000 + of_nat i)) [1..<11] @ [TbCreate ''did:plc:inze6wrmsm7pjl7yta3oig77'' ''a.a.c'' ''rkey-ccc'' ''{}'' ''rev-ccc'' 12000]),
      ExpectRecords [''a.a.a''] 100 False 1 [],
      ExpectRecords [''a.a.b''] 100 False 10 [],
      ExpectRecords [''a.a.c''] 100 False 1 [],
      ExpectRecords [''a.a.d''] 100 False 0 [],
      TrimCollection ''a.a.a'' 6 False,
      TrimCollection ''a.a.b'' 6 False,
      TrimCollection ''a.a.c'' 6 False,
      TrimCollection ''a.a.d'' 6 False,
      ExpectRecords [''a.a.a''] 100 False 1 [],
      ExpectRecords [''a.a.b''] 100 False 6 [],
      ExpectRecords [''a.a.c''] 100 False 1 [],
      ExpectRecords [''a.a.d''] 100 False 0 []]"

definition ufos_test_delete_account :: "UfosStep list" where
  "ufos_test_delete_account =
     [InsertBatch ([TbCreate ''did:plc:person-a'' ''a.a.a'' ''rkey-aaa'' ''{}'' ''rev-aaa'' 10000] @ map (\<lambda>i. TbCreate ''did:plc:person-b'' ''a.a.a'' (''rkey-bbb-'' @ decimal i) (''{\"n\": '' @ decimal i @ ''}'') (''rev-bbb-'' @ decimal i) (11000 + of_nat i)) [1..<3]),
      ExpectRecords [''a.a.a''] 100 False 3 [],
      DeleteAccountNow ''did:plc:person-b'' 2,
      ExpectRecords [''a.a.a''] 100 False 1 []]"

definition ufos_rollup_delete_account_removes_record :: "UfosStep list" where
  "ufos_rollup_delete_account_removes_record =
     [InsertBatch [TbCreate ''did:plc:person-a'' ''a.a.a'' ''rkey-aaa'' ''{}'' ''rev-aaa'' 10000],
      InsertBatch [TbDeleteAccount ''did:plc:person-a'' 9999],
      StepRollup None,
      ExpectRecords [''a.a.a''] 1 False 0 []]"

definition ufos_rollup_delete_live_count_step :: "UfosStep list" where
  "ufos_rollup_delete_live_count_step =
     [InsertBatch [TbCreate ''did:plc:person-a'' ''a.a.a'' ''rkey-aaa'' ''{}'' ''rev-aaa'' 10000],
      StepRollup (Some 1),
      InsertBatch [TbDeleteAccount ''did:plc:person-a'' 10001],
      ExpectRecords [''a.a.a''] 1 False 1 [],
      StepRollup (Some 1),
      ExpectRecords [''a.a.a''] 1 False 0 [],
      InsertBatch [TbDeleteAccount ''did:plc:person-a'' 9999],
      StepRollup (Some 0)]"

definition ufos_rollup_multiple_count_batches :: "UfosStep list" where
  "ufos_rollup_multiple_count_batches =
     [InsertBatch [TbCreate ''did:plc:person-a'' ''a.a.a'' ''rkey-aaa'' ''{}'' ''rev-aaa'' 10000],
      InsertBatch [TbCreate ''did:plc:person-a'' ''a.a.a'' ''rkey-aab'' ''{}'' ''rev-aab'' 10001],
      StepRollup (Some 2),
      StepRollup (Some 0)]"

definition ufos_counts_before_and_after_rollup :: "UfosStep list" where
  "ufos_counts_before_and_after_rollup =
     [InsertBatch [TbCreate ''did:plc:person-a'' ''a.a.a'' ''rkey-aaa'' ''{}'' ''rev-aaa'' 10000,
         TbCreate ''did:plc:person-b'' ''a.a.a'' ''rkey-bbb'' ''{}'' ''rev-bbb'' 10001],
      InsertBatch [TbDeleteAccount ''did:plc:person-a'' 11000],
      InsertBatch [TbCreate ''did:plc:person-a'' ''a.a.a'' ''rkey-aac'' ''{}'' ''rev-aac'' 12000],
      ExpectCounts ''a.a.a'' 0 0,
      StepRollup (Some 1),
      ExpectCounts ''a.a.a'' 2 2,
      StepRollup (Some 1),
      ExpectCounts ''a.a.a'' 2 2,
      StepRollup (Some 1),
      ExpectCounts ''a.a.a'' 3 2,
      StepRollup (Some 0)]"

definition ufos_get_prefix_children_lexi_empty :: "UfosStep list" where
  "ufos_get_prefix_children_lexi_empty =
     [ExpectPrefix ''aaa.aaa'' 10 0 0 [] None]"

definition ufos_get_prefix_excludes_exact_collection :: "UfosStep list" where
  "ufos_get_prefix_excludes_exact_collection =
     [InsertBatch [TbCreate ''did:plc:person-a'' ''a.a.a'' ''rkey-aaa'' ''{}'' ''rev-aaa'' 10000],
      StepRollup None,
      ExpectPrefix ''a.a.a'' 10 0 0 [] None]"

definition ufos_get_prefix_excludes_neighbour_collection :: "UfosStep list" where
  "ufos_get_prefix_excludes_neighbour_collection =
     [InsertBatch [TbCreate ''did:plc:person-a'' ''a.a.aa'' ''rkey-aaa'' ''{}'' ''rev-aaa'' 10000],
      StepRollup None,
      ExpectPrefix ''a.a.a'' 10 0 0 [] None]"

definition ufos_get_prefix_includes_child_collection :: "UfosStep list" where
  "ufos_get_prefix_includes_child_collection =
     [InsertBatch [TbCreate ''did:plc:person-a'' ''a.a.a'' ''rkey-aaa'' ''{}'' ''rev-aaa'' 10000],
      StepRollup None,
      ExpectPrefix ''a.a'' 10 1 1 [Collection \<lparr>nc_nsid = ''a.a.a'', nc_creates = 1, nc_updates = 0, nc_deletes = 0, nc_dids_estimate = 1\<rparr>] None]"

definition ufos_get_prefix_includes_child_prefix :: "UfosStep list" where
  "ufos_get_prefix_includes_child_prefix =
     [InsertBatch [TbCreate ''did:plc:person-a'' ''a.a.a.a'' ''rkey-aaaa'' ''{}'' ''rev-aaaa'' 10000],
      StepRollup None,
      ExpectPrefix ''a.a'' 10 1 1 [PrefixItem \<lparr>pc_prefix = ''a.a.a'', pc_creates = 1, pc_updates = 0, pc_deletes = 0, pc_dids_estimate = 1\<rparr>] None]"

definition ufos_get_prefix_merges_child_prefixes :: "UfosStep list" where
  "ufos_get_prefix_merges_child_prefixes =
     [InsertBatch [TbCreate ''did:plc:person-a'' ''a.a.a.a'' ''rkey-aaaa'' ''{}'' ''rev-aaaa'' 10000,
         TbCreate ''did:plc:person-a'' ''a.a.a.b'' ''rkey-aaab'' ''{}'' ''rev-aaab'' 10001],
      StepRollup None,
      ExpectPrefix ''a.a'' 10 2 1 [PrefixItem \<lparr>pc_prefix = ''a.a.a'', pc_creates = 2, pc_updates = 0, pc_deletes = 0, pc_dids_estimate = 1\<rparr>] None]"

definition ufos_get_prefix_exact_and_child_and_prefix :: "UfosStep list" where
  "ufos_get_prefix_exact_and_child_and_prefix =
     [InsertBatch [TbCreate ''did:plc:person-a'' ''a.a.a'' ''rkey-aaa'' ''{}'' ''rev-aaa'' 10000,
         TbCreate ''did:plc:person-a'' ''a.a.a.a'' ''rkey-aaaa'' ''{}'' ''rev-aaaa'' 10001,
         TbCreate ''did:plc:person-a'' ''a.a.a.a.a'' ''rkey-aaaaa'' ''{}'' ''rev-aaaaa'' 10002],
      StepRollup None,
      ExpectPrefix ''a.a.a'' 10 2 1 [Collection \<lparr>nc_nsid = ''a.a.a.a'', nc_creates = 1, nc_updates = 0, nc_deletes = 0, nc_dids_estimate = 1\<rparr>, PrefixItem \<lparr>pc_prefix = ''a.a.a.a'', pc_creates = 1, pc_updates = 0, pc_deletes = 0, pc_dids_estimate = 1\<rparr>] None]"

definition ufos_tests :: "UfosStep list list" where
  "ufos_tests =
     [ufos_test_hello,
      ufos_test_insert_one,
      ufos_test_get_multi_collection,
      ufos_test_get_multi_collection_expanded,
      ufos_test_update_one,
      ufos_test_delete_one,
      ufos_test_collection_trim,
      ufos_test_delete_account,
      ufos_rollup_delete_account_removes_record,
      ufos_rollup_delete_live_count_step,
      ufos_rollup_multiple_count_batches,
      ufos_counts_before_and_after_rollup,
      ufos_get_prefix_children_lexi_empty,
      ufos_get_prefix_excludes_exact_collection,
      ufos_get_prefix_excludes_neighbour_collection,
      ufos_get_prefix_includes_child_collection,
      ufos_get_prefix_includes_child_prefix,
      ufos_get_prefix_merges_child_prefixes,
      ufos_get_prefix_exact_and_child_and_prefix]"

section \<open>They pass\<close>

declare bucket_loop.simps [code]

text \<open>Equal characters are skipped before any are compared.\<close>

lemma less_list_skip [code]:
  fixes x y :: "'a::{equal, order}"
  shows "xs < ([] :: 'a list) \<longleftrightarrow> False" "[] < y # ys \<longleftrightarrow> True"
    "x # xs < y # ys \<longleftrightarrow> (if x = y then xs < ys else x < y)"
  by auto

lemma less_eq_list_skip [code]:
  fixes x y :: "'a::{equal, order}"
  shows "x # xs \<le> [] \<longleftrightarrow> False" "[] \<le> (ys :: 'a list) \<longleftrightarrow> True"
    "x # xs \<le> y # ys \<longleftrightarrow> (if x = y then xs \<le> ys else x < y)"
  by auto

lemma trim_one_code [code]:
  "trim_one limit ((collection, cursor), (did, rkey, r))
     \<lparr>tr_db = db, tr_dangling = a, tr_deleted = b, tr_live_found = l, tr_candidate = c\<rparr> =
   (case RBT.lookup (db_records db) (did, collection, rkey) of
      None \<Rightarrow> \<lparr>tr_db = db\<lparr>db_feeds := RBT.delete (collection, cursor) (db_feeds db)\<rparr>, tr_dangling = a + 1,
               tr_deleted = b, tr_live_found = l, tr_candidate = c\<rparr>
    | Some meta \<Rightarrow>
        if rl_cursor meta \<noteq> cursor then
          \<lparr>tr_db = db\<lparr>db_feeds := RBT.delete (collection, cursor) (db_feeds db)\<rparr>, tr_dangling = a + 1,
           tr_deleted = b, tr_live_found = l, tr_candidate = c\<rparr>
        else if rl_rev meta \<noteq> r then
          \<lparr>tr_db = db\<lparr>db_feeds := RBT.delete (collection, cursor) (db_feeds db), db_records := RBT.delete (did, collection, rkey) (db_records db)\<rparr>,
           tr_dangling = a + 1, tr_deleted = b, tr_live_found = l, tr_candidate = c\<rparr>
        else if l + 1 \<le> limit then
          \<lparr>tr_db = db, tr_dangling = a, tr_deleted = b, tr_live_found = l + 1, tr_candidate = c\<rparr>
        else
          \<lparr>tr_db = db\<lparr>db_feeds := RBT.delete (collection, cursor) (db_feeds db), db_records := RBT.delete (did, collection, rkey) (db_records db)\<rparr>,
           tr_dangling = a, tr_deleted = b + 1, tr_live_found = l + 1,
           tr_candidate = (case c of None \<Rightarrow> Some cursor | Some c \<Rightarrow> Some c)\<rparr>)"
  by (simp add: trim_one_def Let_def split: option.split)

lemma ufos_test_hello_passes: "ufos_test ufos_test_hello"
  by code_simp

lemma ufos_test_insert_one_passes: "ufos_test ufos_test_insert_one"
  by code_simp

lemma ufos_test_get_multi_collection_passes: "ufos_test ufos_test_get_multi_collection"
  by code_simp

lemma ufos_test_get_multi_collection_expanded_passes: "ufos_test ufos_test_get_multi_collection_expanded"
  by code_simp

lemma ufos_test_update_one_passes: "ufos_test ufos_test_update_one"
  by code_simp

lemma ufos_test_delete_one_passes: "ufos_test ufos_test_delete_one"
  by code_simp

lemma ufos_test_collection_trim_passes: "ufos_test ufos_test_collection_trim"
  by code_simp

lemma ufos_test_delete_account_passes: "ufos_test ufos_test_delete_account"
  by code_simp

lemma ufos_rollup_delete_account_removes_record_passes: "ufos_test ufos_rollup_delete_account_removes_record"
  by code_simp

lemma ufos_rollup_delete_live_count_step_passes: "ufos_test ufos_rollup_delete_live_count_step"
  by code_simp

lemma ufos_rollup_multiple_count_batches_passes: "ufos_test ufos_rollup_multiple_count_batches"
  by code_simp

lemma ufos_counts_before_and_after_rollup_passes: "ufos_test ufos_counts_before_and_after_rollup"
  by code_simp

lemma ufos_get_prefix_children_lexi_empty_passes: "ufos_test ufos_get_prefix_children_lexi_empty"
  by code_simp

lemma ufos_get_prefix_excludes_exact_collection_passes: "ufos_test ufos_get_prefix_excludes_exact_collection"
  by code_simp

lemma ufos_get_prefix_excludes_neighbour_collection_passes: "ufos_test ufos_get_prefix_excludes_neighbour_collection"
  by code_simp

lemma ufos_get_prefix_includes_child_collection_passes: "ufos_test ufos_get_prefix_includes_child_collection"
  by code_simp

lemma ufos_get_prefix_includes_child_prefix_passes: "ufos_test ufos_get_prefix_includes_child_prefix"
  by code_simp

lemma ufos_get_prefix_merges_child_prefixes_passes: "ufos_test ufos_get_prefix_merges_child_prefixes"
  by code_simp

lemma ufos_get_prefix_exact_and_child_and_prefix_passes: "ufos_test ufos_get_prefix_exact_and_child_and_prefix"
  by code_simp

theorem ufos_tests_pass: "list_all ufos_test ufos_tests"
  by (simp add: ufos_tests_def ufos_test_hello_passes
    ufos_test_insert_one_passes
    ufos_test_get_multi_collection_passes
    ufos_test_get_multi_collection_expanded_passes
    ufos_test_update_one_passes
    ufos_test_delete_one_passes
    ufos_test_collection_trim_passes
    ufos_test_delete_account_passes
    ufos_rollup_delete_account_removes_record_passes
    ufos_rollup_delete_live_count_step_passes
    ufos_rollup_multiple_count_batches_passes
    ufos_counts_before_and_after_rollup_passes
    ufos_get_prefix_children_lexi_empty_passes
    ufos_get_prefix_excludes_exact_collection_passes
    ufos_get_prefix_excludes_neighbour_collection_passes
    ufos_get_prefix_includes_child_collection_passes
    ufos_get_prefix_includes_child_prefix_passes
    ufos_get_prefix_merges_child_prefixes_passes
    ufos_get_prefix_exact_and_child_and_prefix_passes)

end
