(* ===== verification/Spec2Isabelle.thy ===== *)
theory Spec2Isabelle
  imports Constellation_Reader Constellation_Api Constellation_Main Link_Stats_Props Ufos_Queries Ufos_File Store_Props
    Spacedust_Serve Jetstream_Props Jetstream_Time Slingshot_Props Whoami_Props Service_Mains
    Links_Tests Constellation_Tests Store_Tests Ufos_Tests
begin

text \<open>
  Verification of the \<open>links\<close> repository, the services microcosm runs on the atproto firehose.

  \<^bold>\<open>The program.\<close>  A jetstream server sends one JSON event per commit, account or identity
  change.  Each service reads that stream and keeps something of it:

  \<^item> \<open>links\<close> is the library that recognises DIDs, at-uris and URLs and walks a record for them;
  \<^item> \<open>constellation\<close> keeps a backlink index, in memory or in RocksDB, and answers how often and by
    whom a target is linked;
  \<^item> \<open>ufos\<close> counts commits per collection and keeps samples of records in a fjall database whose
    live counts a background task rolls up into hours, weeks and all time;
  \<^item> \<open>spacedust\<close> sends every link of every commit to websocket subscribers, at once and a second
    time after a delay in which a deletion can still take it back;
  \<^item> \<open>jetstream\<close> is the websocket client \<open>ufos\<close>, \<open>spacedust\<close> and \<open>slingshot\<close> read the firehose
    with; \<open>constellation\<close> has a reader of its own;
  \<^item> \<open>slingshot\<close> caches the records of the firehose and of the PDSs it asks, and the identities of
    accounts, confirmed in both directions;
  \<^item> \<open>who-am-i\<close> lets allowed pages ask a browser for a login and hands them a signed token.

  \<^bold>\<open>Theories and sources.\<close>  Every operation is one definition with the name of the Rust function
  where Isabelle allows it, prefixed by its type where two types share a name.

  \<^item> \<open>Prelude\<close>: machine integers, and what the sources use of \<open>str\<close>, \<open>Vec\<close>, \<open>Option\<close>, \<open>HashMap\<close>
    (locale \<open>key_map\<close>).
  \<^item> \<open>Links\<close>: \<open>links/src/did.rs\<close>, \<open>at_uri.rs\<close>, \<open>lib.rs\<close>, \<open>record.rs\<close>, and what the parsers accept
    and return.
  \<^item> \<open>Constellation_Types\<close>: \<open>constellation/src/lib.rs\<close>, the types of \<open>storage/mod.rs\<close>, and
    \<open>get_actionable\<close> of \<open>consumer/mod.rs\<close>.
  \<^item> \<open>Mem_Store\<close>: \<open>storage/mem_store.rs\<close>, the abstract index \<open>link_spec\<close> with \<open>spec_push\<close>, and the
    invariant that relates the two (locale \<open>slot_clear\<close> for the two ways a linker is cleared).
    \<open>Mem_Props\<close>: refinement, counts, pages, stable cursors.
  \<^item> \<open>Rocks_Store\<close>: \<open>storage/rocks_store.rs\<close>, column family by column family, with write batches.
    \<open>Rocks_Sim\<close> and \<open>Rocks_Delete\<close>: the simulation by the memory store.  \<open>Rocks_Props\<close>: the
    contract \<open>link_storage\<close>, interpreted on both stores, equal pages, reopening, and where the
    stores part.
  \<^item> \<open>Constellation_Serve\<close>: \<open>server/mod.rs\<close>, \<open>acceptable.rs\<close>, \<open>filters.rs\<close>.
    \<open>Constellation_Consumer\<close>: \<open>consumer/jetstream.rs\<close>, \<open>jsonl_file.rs\<close>, \<open>consume\<close>.
    \<open>Constellation_Reader\<close>: how the reader resumes and gives up.  \<open>Constellation_Api\<close>: the paging
    contract \<open>paged_store\<close>, interpreted on both item queries of both stores, and the service from
    the events to the answers.
  \<^item> \<open>Link_Stats\<close>: \<open>bin/rocks-link-stats.rs\<close>.  \<open>Link_Stats_Props\<close>: its statistics are those of the
    abstract index.  \<open>Constellation_Main\<close>: \<open>bin/main.rs\<close> with its threads, and the backup task of
    \<open>storage/rocks_store.rs\<close>.
  \<^item> \<open>Db_Types\<close>: \<open>ufos/src/db_types.rs\<close> with the codec contracts \<open>db_codec\<close> and \<open>db_tail_codec\<close>.
    \<open>Store_Types\<close>: \<open>store_types.rs\<close>, keys, ranges, truncated cursors, buckets.  \<open>Store_Props\<close>:
    round trips, the order of keys, exact ranges, buckets that tile a span.
  \<^item> \<open>Ufos_Batch\<close>: the batches of \<open>ufos/src/lib.rs\<close> and the batcher of \<open>consumer.rs\<close>.
    \<open>Ufos_Batch_Props\<close>: what is counted and what is displaced.
  \<^item> \<open>Fjall_Store\<close>: the writers of \<open>storage_fjall.rs\<close> (batches, rollup, trimming, deletion).
    \<open>Fjall_Rollup\<close>, \<open>Fjall_Run\<close>: the invariant of the database and its sums over any run.
    \<open>Fjall_Read\<close>: the readers.  \<open>Fjall_Props\<close>, \<open>Fjall_Feeds\<close>, \<open>Fjall_Lexi\<close>, \<open>Fjall_Prefix\<close>:
    counts, ranks, feeds, listings.
  \<^item> \<open>Ufos_Serve\<close>: \<open>ufos/src/server/mod.rs\<close>, \<open>collections_query.rs\<close>.  \<open>Ufos_Api\<close> and
    \<open>Ufos_Queries\<close>: the service from the events to the answers, and the request checks.
  \<^item> \<open>Spacedust\<close>: \<open>removable_delay_queue.rs\<close>, \<open>consumer.rs\<close>, \<open>delay.rs\<close>, \<open>lib.rs\<close>,
    \<open>subscriber.rs\<close>.  \<open>Spacedust_Props\<close>: the contract \<open>removable_queue\<close> and what the delay queue releases.
    \<open>Spacedust_Serve\<close>: \<open>server.rs\<close>, and what a client is sent, from the firehose on.
  \<^item> \<open>Jetstream\<close>: \<open>jetstream/src/lib.rs\<close>, \<open>error.rs\<close>.  \<open>Jetstream_Props\<close>: replay and retries.
    \<open>Jetstream_Time\<close>: cursors as times, of \<open>events.rs\<close>, whose types are in \<open>Ufos_Batch\<close>.
  \<^item> \<open>Ufos_File\<close>: \<open>ufos/src/file_consumer.rs\<close> and \<open>receive_batches\<close> of \<open>storage.rs\<close>, with restarts.
  \<^item> \<open>Slingshot_Identity\<close>: \<open>slingshot/src/identity.rs\<close>.  \<open>Slingshot_Identity_Props\<close>: the types in the
    cache, the refresh queue, handles confirmed in both directions.  \<open>Slingshot\<close>: \<open>record.rs\<close>,
    \<open>consumer.rs\<close>, \<open>server.rs\<close>.  \<open>Slingshot_Props\<close>: which records and handles are served.
  \<^item> \<open>Whoami\<close>: \<open>who-am-i/src/expiring_task_map.rs\<close>, \<open>jwt.rs\<close>, \<open>oauth.rs\<close>, \<open>server.rs\<close>.
    \<open>Whoami_Props\<close>: tasks picked up once, and to whom tokens are given.
  \<^item> \<open>Service_Mains\<close>: \<open>main.rs\<close> of \<open>spacedust\<close>, \<open>slingshot\<close>, \<open>ufos\<close> and \<open>who-am-i\<close>, and
    \<open>slingshot/src/healthcheck.rs\<close>: what is started, and how it stops.
  \<^item> \<open>Links_Tests\<close>, \<open>Constellation_Tests\<close>, \<open>Store_Tests\<close>, \<open>Ufos_Tests\<close>: the unit tests of the parsers, of
    the event decoder, of both storages, of the encodings and batches and of the fjall storage, translated
    and evaluated on the definitions: what the authors assert of the code holds of the model.

  \<^bold>\<open>State and interaction.\<close>  A mutable object is a record, an operation a function that returns
  the record updated; a failing operation returns a sum, a panic is the value \<open>Panic\<close>.  A lock is
  held for the whole of the operations modelled, so they do not interleave; what does interleave
  (inserts and background work of \<open>ufos\<close>, events and turns of the delay task of \<open>spacedust\<close>) is a
  list of steps in any order.  Channels are the lists of what was sent on them.  What the network
  does is a list of inputs: an attempt to connect, a message, a timeout.

  \<^bold>\<open>Widths and loops.\<close>  Machine integers are words, so sums wrap; theorems that speak of numbers
  have the size of the input as a hypothesis or are stated modulo the width.  Loops are recursive
  functions that terminate; the two that need not, \<open>buckets_spanning\<close> and the clients that follow
  cursors, return \<open>None\<close> when they do not end or run out of fuel, and the theorems say that they
  do end.  The fuel of a client is the number of requests it may make, and one more than the items
  it can be given is enough.

  \<^bold>\<open>Parameters.\<close>  What third-party packages do is an argument of the definitions that call them:
  URI resolution (\<open>fluent_uri\<close>), JSON, zstd, bincode, base64, the strings of atrium (\<open>Nsid\<close>, \<open>Did\<close>,
  \<open>Handle\<close>), the HyperLogLog sketch (\<open>SketchOps\<close>), axum's extractors and templates, foyer's cache
  (\<open>HybridCache\<close>, with \<open>cache_laws\<close>), resolvers of handles and DIDs (\<open>World\<close>), HTTP, OAuth, the
  encoding of tokens, the clock, the iteration order of a \<open>HashSet\<close>.  Where a theorem relies on one,
  the hypothesis is what its documentation says (encoding then decoding gives the value back; what a
  cache holds was inserted and not replaced) or the range of a value; its witness gives an instance.

  \<^bold>\<open>What is shown.\<close>  Of \<open>constellation\<close>: both stores implement one abstract index, and the
  service answers it, from the events to the pages a client reads.  Of \<open>ufos\<close>: every commit is
  counted once, through batches, rollups and queries.  Of \<open>spacedust\<close>: the delay queue delivers
  what was not taken back, and a deletion takes back, up to what a client is sent.  Of the two readers of the firehose: they
  resume where they stopped, and they give up.  Of \<open>slingshot\<close> and \<open>who-am-i\<close>: what is served was
  given, and by whom it should be.  The theorems without a number are the parts these rest on, and
  the boundaries the proofs found: where the code does not do what its comments say, a theorem states
  what it does.

  \<^bold>\<open>Not modelled.\<close>  Metrics, logging, progress reports and the options of the databases; errors of the
  disk, but for those the statistics count; parsing of the command line; restoring a backup, which is
  one call of RocksDB's backup engine; HTML pages, OpenAPI documents and TLS; the set-up of keys, caches
  and OAuth clients, which is third-party code with constants.  Of the tests, those of third-party
  code alone (normalisation of URLs, encoded sketches).
\<close>

end
